(* ===== verification/Prelude.thy ===== *)
theory Prelude
  imports Main "HOL-Library.Word" "HOL-Library.AList" "HOL-Library.Multiset"
begin

text \<open>
  What every theory of the development shares: the names of the machine integers, the outcome
  of fallible code, the reader combinators of the decoders, and the generic lemmas on lists and
  words.

  Integers are kept at the width of the source. Arithmetic on them wraps, which is what the
  binaries do: the workspace builds with the default release profile, which has no overflow
  checks. A signed Rust integer is the word with the same bits, read with \<open>sint\<close> where its
  value matters. Lengths of in-memory collections (\<open>usize\<close>) are \<open>nat\<close>, except where the
  source subtracts from them.
\<close>

section \<open>Machine integers\<close>

type_synonym u8 = "8 word"
type_synonym u16 = "16 word"
type_synonym u32 = "32 word"
type_synonym u64 = "64 word"
type_synonym i16 = "16 word"
type_synonym i32 = "32 word"
type_synonym i64 = "64 word"

named_theorems size_simps \<open>lengths of encodings\<close>
named_theorems codec_simps \<open>reading back what was written\<close>

lemma word_less_Suc_max:
  fixes x :: "'a::len word"
  assumes "x \<noteq> - 1"
  shows "x < x + 1"
proof -
  have "1 + x \<noteq> 0"
    using assms by (simp add: eq_neg_iff_add_eq_0 add.commute)
  then have "unat (1 + x) = Suc (unat x)"
    by (rule unatSuc)
  then show ?thesis
    by (simp add: word_less_nat_alt add.commute)
qed

lemma unat_of_nat_id [simp]:
  "n < 2 ^ LENGTH('a::len) \<Longrightarrow> unat (of_nat n :: 'a word) = n"
  by (simp add: unat_of_nat take_bit_nat_eq_self)

lemma unat_bound: "unat (x :: 'a::len word) < 2 ^ LENGTH('a)"
  by (rule unsigned_less)

lemma unat_ucast_up:
  fixes x :: "'a::len word"
  assumes "LENGTH('a) \<le> LENGTH('b::len)"
  shows "unat (ucast x :: 'b word) = unat x"
proof -
  have "unat x < 2 ^ LENGTH('a)"
    by (rule unsigned_less)
  also have "(2 :: nat) ^ LENGTH('a) \<le> 2 ^ LENGTH('b)"
    using assms by simp
  finally show ?thesis
    by (simp add: unsigned_ucast_eq take_bit_nat_eq_self_iff)
qed

section \<open>Outcomes of fallible code\<close>

text \<open>
  A Rust function that returns \<open>Result\<close> and whose body may panic has three ways to end.
\<close>

datatype ('e, 'a) outcome = Ok 'a | Err 'e | Panic

fun obind :: "('e, 'a) outcome \<Rightarrow> ('a \<Rightarrow> ('e, 'b) outcome) \<Rightarrow> ('e, 'b) outcome" where
  "obind (Ok a) f = f a"
| "obind (Err e) f = Err e"
| "obind Panic f = Panic"

fun omap :: "('a \<Rightarrow> 'b) \<Rightarrow> ('e, 'a) outcome \<Rightarrow> ('e, 'b) outcome" where
  "omap f (Ok a) = Ok (f a)"
| "omap f (Err e) = Err e"
| "omap f Panic = Panic"

text \<open>The method \<open>unwrap\<close>.\<close>

fun unwrap :: "('e, 'a) outcome \<Rightarrow> ('f, 'a) outcome" where
  "unwrap (Ok a) = Ok a"
| "unwrap (Err e) = Panic"
| "unwrap Panic = Panic"

lemma unwrap_eq_Ok [simp]: "unwrap m = Ok a \<longleftrightarrow> m = Ok a"
  by (cases m) auto

lemma obind_eq_Ok: "obind m f = Ok b \<longleftrightarrow> (\<exists>a. m = Ok a \<and> f a = Ok b)"
  by (cases m) auto

lemma obind_eq_Err: "obind m f = Err e \<longleftrightarrow> m = Err e \<or> (\<exists>a. m = Ok a \<and> f a = Err e)"
  by (cases m) auto

lemma obind_eq_Panic: "obind m f = Panic \<longleftrightarrow> m = Panic \<or> (\<exists>a. m = Ok a \<and> f a = Panic)"
  by (cases m) auto

lemma omap_eq_Ok: "omap f m = Ok b \<longleftrightarrow> (\<exists>a. m = Ok a \<and> b = f a)"
  by (cases m) auto

section \<open>Generic lemmas on lists\<close>

lemma mset_concat_map_perm:
  "mset xs = mset ys \<Longrightarrow> mset (concat (map f xs)) = mset (concat (map f ys))"
  by (simp add: mset_concat flip: sum_mset_sum_list)

lemma distinct_perm: "mset xs = mset ys \<Longrightarrow> distinct (map f xs) = distinct (map f ys)"
  by (metis mset_map mset_eq_imp_distinct_iff)

lemma find_SomeD: "find P xs = Some x \<Longrightarrow> x \<in> set xs \<and> P x"
  by (induction xs) (auto split: if_splits)

lemma sum_list_word_of_nat:
  "sum_list (map (\<lambda>x. of_nat (f x) :: 'a::len word) xs) = of_nat (sum_list (map f xs))"
  by (induction xs) auto

text \<open>Updating an association list: its keys stay distinct and only the written key is new.\<close>

declare distinct_update [simp]

lemma alist_update_keys [simp]: "fst ` set (AList.update k v m) = insert k (fst ` set m)"
  by (simp add: dom_update)

lemma alist_update_keyD: "(a, b) \<in> set (AList.update k v m) \<Longrightarrow> a = k \<or> a \<in> fst ` set m"
  using alist_update_keys [of k v m] by (metis fst_conv image_eqI insertE)

lemma alist_update_valueD:
  "(a, b) \<in> set (AList.update k v m) \<Longrightarrow> (a, b) = (k, v) \<or> (a, b) \<in> set m"
  by (induction m) (auto split: if_splits)

text \<open>The number of elements of a prefix-closed slice of a list sorted in descending order.\<close>

lemma sorted_desc_nth_count:
  fixes xs :: "'a::linorder list"
  assumes "sorted_wrt (\<ge>) xs" and "k < length xs"
  shows "k < length (filter (\<lambda>x. xs ! k \<le> x) xs)"
proof -
  have "\<forall>x \<in> set (take (Suc k) xs). xs ! k \<le> x"
    using assms by (auto simp: in_set_conv_nth less_Suc_eq sorted_wrt_iff_nth_less)
  then have "filter (\<lambda>x. xs ! k \<le> x) (take (Suc k) xs) = take (Suc k) xs"
    by simp
  moreover have "length (filter (\<lambda>x. xs ! k \<le> x) (take (Suc k) xs)) \<le> length (filter (\<lambda>x. xs ! k \<le> x) xs)"
    by (metis append_take_drop_id filter_append length_append le_add1)
  ultimately show ?thesis
    using assms(2) by simp
qed

lemma list_all2_right: "list_all2 P xs ys \<Longrightarrow> y \<in> set ys \<Longrightarrow> \<exists>x \<in> set xs. P x y"
  by (induction rule: list_all2_induct) auto

lemma sum_list_perm:
  fixes f :: "'a \<Rightarrow> nat"
  assumes "mset xs = mset ys"
  shows "(\<Sum>x\<leftarrow>xs. f x) = (\<Sum>x\<leftarrow>ys. f x)"
  by (simp only: sum_mset_sum_list [symmetric] mset_map assms)

end
