(* ===== verification/Raft_Types.thy ===== *)
theory Raft_Types
  imports Prelude
begin

text \<open>
  The data of the crate \<open>musil-raft\<close>: log entries, the RPC messages (\<open>rpc.rs\<close>), the
  events a node consumes (\<open>event.rs\<close>), the actions it emits (\<open>action.rs\<close>), the
  persistent quorum state and the roles (\<open>state.rs\<close>), and the node itself (\<open>node.rs\<close>).
  A node is generic in its log: the operations of the trait \<open>RaftLog\<close> are the record
  \<open>log_ops\<close>, passed to every handler that uses them, and the log is a value of type \<open>'l\<close>.
\<close>

section \<open>Log entries and the log trait\<close>

record log_entry =
  le_epoch :: u32
  le_offset :: u64
  le_data :: "u8 list"

record 'l log_ops =
  lo_log_end_offset :: "'l \<Rightarrow> u64"
  lo_epoch_at :: "'l \<Rightarrow> u64 \<Rightarrow> u32 option"
  lo_last_epoch :: "'l \<Rightarrow> u32"
  lo_entries :: "'l \<Rightarrow> u64 \<Rightarrow> u64 \<Rightarrow> log_entry list"
  lo_find_epoch_start :: "'l \<Rightarrow> u32 \<Rightarrow> u64"
  lo_append :: "'l \<Rightarrow> log_entry \<Rightarrow> 'l"
  lo_truncate :: "'l \<Rightarrow> u64 \<Rightarrow> 'l"

section \<open>RPC messages\<close>

record vote_request =
  vq_epoch :: u32
  vq_candidate_id :: u16
  vq_last_log_epoch :: u32
  vq_last_log_offset :: u64

record vote_response =
  vr_epoch :: u32
  vr_granted :: bool

record fetch_request =
  fq_epoch :: u32
  fq_fetch_offset :: u64
  fq_last_fetched_epoch :: u32

record diverging =
  dv_epoch :: u32
  dv_end_offset :: u64

record fetch_response =
  fr_epoch :: u32
  fr_high_watermark :: u64
  fr_entries :: "log_entry list"
  fr_diverging :: "diverging option"

record begin_quorum_epoch_request =
  bq_epoch :: u32
  bq_leader_id :: u16

record replica_state =
  rs_id :: u16
  rs_log_end_offset :: u64

record end_quorum_epoch_request =
  eq_epoch :: u32
  eq_leader_id :: u16
  eq_voters :: "replica_state list"

section \<open>Events and actions\<close>

datatype event =
    ElectionTimeout
  | HeartbeatTimeout
  | EvVoteRequest u16 vote_request
  | EvVoteResponse u16 vote_response
  | EvBeginQuorumEpoch u16 begin_quorum_epoch_request
  | EvEndQuorumEpoch u16 end_quorum_epoch_request
  | EvFetchRequest u16 fetch_request
  | EvFetchResponse u16 fetch_response
  | Propose "u8 list" u64

datatype action =
    PersistQuorumState
  | AppendToLog log_entry
  | TruncateLog u64
  | SendVote u16 vote_request
  | SendVoteResponse u16 vote_response
  | SendBeginQuorumEpoch "u16 list" begin_quorum_epoch_request
  | SendEndQuorumEpoch "u16 list" end_quorum_epoch_request
  | SendFetchResponse u16 fetch_response
  | SendFetchRequest u16 fetch_request
  | ResetElectionTimer
  | ResetHeartbeatTimer
  | AdvanceHighWatermark u64
  | CommitPropose u64
  | RejectPropose u64

section \<open>Quorum state, roles and the node\<close>

record quorum_state =
  qs_current_epoch :: u32
  qs_voted_for :: "u16 option"

definition quorum_state_new :: "u32 \<Rightarrow> u16 option \<Rightarrow> quorum_state" where
  "quorum_state_new epoch vote = \<lparr>qs_current_epoch = epoch, qs_voted_for = vote\<rparr>"

definition quorum_state_empty :: quorum_state where
  "quorum_state_empty = \<lparr>qs_current_epoch = 0, qs_voted_for = None\<rparr>"

datatype role = Follower | Candidate | Leader

text \<open>
  \<open>votes_received\<close> is a \<open>HashSet\<close>. \<open>voter_fetch_offsets\<close> is a \<open>HashMap\<close>: an association
  list with distinct keys, updated with \<open>AList.update\<close>; the only place where the code
  iterates over it sorts the values, so the order in the list does not matter.
\<close>

record 'l node =
  nd_id :: u16
  voters :: "u16 list"
  nd_log :: 'l
  current_epoch :: u32
  voted_for :: "u16 option"
  role :: role
  leader_id :: "u16 option"
  votes_received :: "u16 set"
  voter_fetch_offsets :: "(u16 \<times> u64) list"
  high_watermark :: u64
  pending_proposes :: "(u64 \<times> u64) list"

definition node_new :: "u16 \<Rightarrow> u16 list \<Rightarrow> quorum_state \<Rightarrow> 'l \<Rightarrow> 'l node" where
  "node_new i vs q l =
     \<lparr>nd_id = i, voters = vs, nd_log = l,
      current_epoch = qs_current_epoch q, voted_for = qs_voted_for q,
      role = Follower, leader_id = None, votes_received = {},
      voter_fetch_offsets = [], high_watermark = 0, pending_proposes = []\<rparr>"

definition node_quorum_state :: "'l node \<Rightarrow> quorum_state" where
  "node_quorum_state n =
     \<lparr>qs_current_epoch = current_epoch n, qs_voted_for = voted_for n\<rparr>"

definition majority :: "'l node \<Rightarrow> nat" where
  "majority n = length (voters n) div 2 + 1"

definition become_follower :: "u32 \<Rightarrow> u16 option \<Rightarrow> 'l node \<Rightarrow> 'l node" where
  "become_follower epoch ldr n =
     n\<lparr>current_epoch := epoch, role := Follower, leader_id := ldr,
       voted_for := None, votes_received := {}\<rparr>"

definition reject_pending_proposes :: "'l node \<Rightarrow> 'l node \<times> action list" where
  "reject_pending_proposes n =
     (n\<lparr>pending_proposes := []\<rparr>, map (\<lambda>(_, pid). RejectPropose pid) (pending_proposes n))"

text \<open>The fields of a node whose log is not looked at: what a leader or follower is.\<close>

lemma majority_update [simp]:
  "majority (n\<lparr>current_epoch := a\<rparr>) = majority n"
  "majority (n\<lparr>voted_for := b\<rparr>) = majority n"
  "majority (n\<lparr>role := c\<rparr>) = majority n"
  "majority (n\<lparr>leader_id := d\<rparr>) = majority n"
  "majority (n\<lparr>votes_received := e\<rparr>) = majority n"
  "majority (n\<lparr>voter_fetch_offsets := f\<rparr>) = majority n"
  "majority (n\<lparr>high_watermark := g\<rparr>) = majority n"
  "majority (n\<lparr>pending_proposes := h\<rparr>) = majority n"
  "majority (n\<lparr>nd_log := l\<rparr>) = majority n"
  by (simp_all add: majority_def)

lemma majority_pos: "0 < majority n"
  by (simp add: majority_def)

end
