(* ===== verification/Raft_Log.thy ===== *)
theory Raft_Log
  imports Raft_Types
begin

text \<open>
  The interface \<open>RaftLog\<close> (\<open>crates/raft/src/log.rs\<close>) as laws, and the in-memory log
  \<open>VecLog\<close> of the same file, which satisfies them. A log satisfies the laws while its
  entries are numbered from zero without gaps, as long as every entry is appended at the end
  offset; \<open>abs\<close> is the list of its entries.
\<close>

section \<open>The reference log\<close>

type_synonym vec_log = "log_entry list"

definition vec_log_end_offset :: "vec_log \<Rightarrow> u64" where
  "vec_log_end_offset es = (if es = [] then 0 else le_offset (last es) + 1)"

definition vec_epoch_at :: "vec_log \<Rightarrow> u64 \<Rightarrow> u32 option" where
  "vec_epoch_at es offset = map_option le_epoch (find (\<lambda>e. le_offset e = offset) es)"

definition vec_last_epoch :: "vec_log \<Rightarrow> u32" where
  "vec_last_epoch es = (if es = [] then 0 else le_epoch (last es))"

definition vec_entries :: "vec_log \<Rightarrow> u64 \<Rightarrow> u64 \<Rightarrow> log_entry list" where
  "vec_entries es start end = filter (\<lambda>e. start \<le> le_offset e \<and> le_offset e < end) es"

definition vec_find_epoch_start :: "vec_log \<Rightarrow> u32 \<Rightarrow> u64" where
  "vec_find_epoch_start es epoch =
     (case find (\<lambda>e. le_epoch e = epoch) es of None \<Rightarrow> 0 | Some e \<Rightarrow> le_offset e)"

definition vec_append :: "vec_log \<Rightarrow> log_entry \<Rightarrow> vec_log" where
  "vec_append es entry = es @ [entry]"

definition vec_truncate :: "vec_log \<Rightarrow> u64 \<Rightarrow> vec_log" where
  "vec_truncate es offset = filter (\<lambda>e. le_offset e < offset) es"

definition vec_log_ops :: "vec_log log_ops" where
  "vec_log_ops =
     \<lparr>lo_log_end_offset = vec_log_end_offset, lo_epoch_at = vec_epoch_at,
      lo_last_epoch = vec_last_epoch, lo_entries = vec_entries,
      lo_find_epoch_start = vec_find_epoch_start,
      lo_append = vec_append, lo_truncate = vec_truncate\<rparr>"

lemma vec_log_ops_sel [simp]:
  "lo_log_end_offset vec_log_ops = vec_log_end_offset"
  "lo_epoch_at vec_log_ops = vec_epoch_at"
  "lo_last_epoch vec_log_ops = vec_last_epoch"
  "lo_entries vec_log_ops = vec_entries"
  "lo_find_epoch_start vec_log_ops = vec_find_epoch_start"
  "lo_append vec_log_ops = vec_append"
  "lo_truncate vec_log_ops = vec_truncate"
  by (simp_all add: vec_log_ops_def)

lemmas vec_log_defs =
  vec_log_end_offset_def vec_epoch_at_def vec_last_epoch_def vec_entries_def
  vec_find_epoch_start_def vec_append_def vec_truncate_def

section \<open>The laws of the interface\<close>

text \<open>
  What the node relies on when it queries a log: the entries are numbered from zero, the end
  offset is their number, \<open>epoch_at\<close> is defined below the end offset only, and \<open>entries\<close>
  is the slice between two offsets.
\<close>

locale raft_log_view =
  fixes L :: "'l log_ops"
    and inv :: "'l \<Rightarrow> bool"
    and abs :: "'l \<Rightarrow> log_entry list"
  assumes bounded: "inv l \<Longrightarrow> length (abs l) < 2 ^ 64"
    and numbered: "inv l \<Longrightarrow> i < length (abs l) \<Longrightarrow> le_offset (abs l ! i) = of_nat i"
    and end_offset: "inv l \<Longrightarrow> lo_log_end_offset L l = of_nat (length (abs l))"
    and epoch_at: "inv l \<Longrightarrow> lo_epoch_at L l off =
      (if unat off < length (abs l) then Some (le_epoch (abs l ! unat off)) else None)"
    and entries: "inv l \<Longrightarrow> lo_entries L l s e = drop (unat s) (take (unat e) (abs l))"
begin

lemma unat_end_offset: "inv l \<Longrightarrow> unat (lo_log_end_offset L l) = length (abs l)"
  using bounded [of l] by (simp add: end_offset)

lemma epoch_at_below_end:
  "inv l \<Longrightarrow> lo_epoch_at L l off \<noteq> None \<longleftrightarrow> off < lo_log_end_offset L l"
  by (simp add: epoch_at unat_end_offset word_less_nat_alt)

lemma epoch_at_Some:
  "inv l \<Longrightarrow> off < lo_log_end_offset L l \<Longrightarrow>
     lo_epoch_at L l off = Some (le_epoch (abs l ! unat off))"
  by (simp add: epoch_at unat_end_offset word_less_nat_alt)

lemma entries_to_end:
  "inv l \<Longrightarrow> lo_entries L l s (lo_log_end_offset L l) = drop (unat s) (abs l)"
  by (simp add: entries unat_end_offset)

end

text \<open>A log that can also be appended to at its end and cut back.\<close>

locale raft_log_store = raft_log_view +
  assumes append_ok: "inv l \<Longrightarrow> le_offset x = lo_log_end_offset L l \<Longrightarrow>
      Suc (length (abs l)) < 2 ^ 64 \<Longrightarrow> inv (lo_append L l x) \<and> abs (lo_append L l x) = abs l @ [x]"
    and truncate_ok: "inv l \<Longrightarrow>
      inv (lo_truncate L l off) \<and> abs (lo_truncate L l off) = take (unat off) (abs l)"
begin

lemma end_offset_append:
  assumes "inv l" and "le_offset x = lo_log_end_offset L l" and "Suc (length (abs l)) < 2 ^ 64"
  shows "lo_log_end_offset L (lo_append L l x) = lo_log_end_offset L l + 1"
  using append_ok [OF assms] assms(1) by (simp add: end_offset)

lemma end_offset_truncate:
  assumes "inv l"
  shows "lo_log_end_offset L (lo_truncate L l off) = min off (lo_log_end_offset L l)"
proof -
  have "unat (lo_log_end_offset L (lo_truncate L l off)) = min (unat off) (length (abs l))"
    using truncate_ok [OF assms] by (simp add: unat_end_offset min.commute)
  also have "\<dots> = unat (min off (lo_log_end_offset L l))"
    using unat_end_offset [OF assms] by (simp add: min_def word_le_nat_alt)
  finally show ?thesis
    by (simp add: word_unat_eq_iff)
qed

end

text \<open>A log that reports the epoch of its last entry and where an epoch starts.\<close>

locale raft_log_epochs = raft_log_view +
  assumes last_epoch: "inv l \<Longrightarrow>
      lo_last_epoch L l = (if abs l = [] then 0 else le_epoch (last (abs l)))"
begin

lemma last_epoch_at_end:
  assumes "inv l" and "lo_log_end_offset L l \<noteq> 0"
  shows "lo_epoch_at L l (lo_log_end_offset L l - 1) = Some (lo_last_epoch L l)"
proof -
  have ne: "abs l \<noteq> []"
    using assms by (auto simp: end_offset)
  moreover have "unat (lo_log_end_offset L l - 1) = length (abs l) - 1"
    using assms unat_end_offset [OF assms(1)] by (simp add: unat_minus_one)
  ultimately show ?thesis
    using assms(1) by (simp add: epoch_at last_epoch last_conv_nth)
qed

end

section \<open>The reference log satisfies the laws\<close>

definition vec_log_inv :: "vec_log \<Rightarrow> bool" where
  "vec_log_inv es \<longleftrightarrow>
     (\<forall>i < length es. le_offset (es ! i) = of_nat i) \<and> length es < 2 ^ 64"

lemma vec_log_inv_snoc:
  "vec_log_inv (es @ [x]) \<longleftrightarrow>
     vec_log_inv es \<and> le_offset x = of_nat (length es) \<and> Suc (length es) < 2 ^ 64"
  by (auto simp: vec_log_inv_def nth_append less_Suc_eq)

lemma vec_end_offset: "vec_log_inv es \<Longrightarrow> vec_log_end_offset es = of_nat (length es)"
  by (cases es rule: rev_cases) (simp_all add: vec_log_end_offset_def vec_log_inv_snoc)

lemma vec_entries_slice:
  "vec_log_inv es \<Longrightarrow> vec_entries es s e = drop (unat s) (take (unat e) es)"
proof (induction es rule: rev_induct)
  case Nil
  then show ?case by (simp add: vec_entries_def)
next
  case (snoc x es)
  then have x: "unat (le_offset x) = length es" and inv: "vec_log_inv es"
    by (simp_all add: vec_log_inv_snoc)
  have "vec_entries (es @ [x]) s e =
      vec_entries es s e @ (if unat s \<le> length es \<and> length es < unat e then [x] else [])"
    using x by (simp add: vec_entries_def word_le_nat_alt word_less_nat_alt)
  with snoc.IH [OF inv] show ?case
    by (auto simp: not_less Suc_diff_le)
qed

lemma vec_truncate_take: "vec_log_inv es \<Longrightarrow> vec_truncate es off = take (unat off) es"
  using vec_entries_slice [of es 0 off]
  by (simp add: vec_truncate_def vec_entries_def)

lemma vec_epoch_at_nth:
  assumes "vec_log_inv es"
  shows "vec_epoch_at es off =
    (if unat off < length es then Some (le_epoch (es ! unat off)) else None)"
  using assms
proof (induction es rule: rev_induct)
  case Nil
  then show ?case by (simp add: vec_epoch_at_def)
next
  case (snoc x es)
  then have x: "unat (le_offset x) = length es" and inv: "vec_log_inv es"
    by (simp_all add: vec_log_inv_snoc)
  have "vec_epoch_at (es @ [x]) off =
      (case vec_epoch_at es off of Some ep \<Rightarrow> Some ep
       | None \<Rightarrow> if le_offset x = off then Some (le_epoch x) else None)"
    unfolding vec_epoch_at_def by (induction es) auto
  moreover have "le_offset x = off \<longleftrightarrow> unat off = length es"
    using x by (metis word_unat_eq_iff)
  ultimately show ?case
    using snoc.IH [OF inv] by (auto simp: nth_append less_Suc_eq)
qed

interpretation vec_log: raft_log_store vec_log_ops vec_log_inv "\<lambda>es. es"
proof
  fix l :: vec_log and x :: log_entry and off :: u64 and i :: nat and s e :: u64
  assume inv: "vec_log_inv l"
  show "length l < 2 ^ 64"
    using inv by (simp add: vec_log_inv_def)
  show "le_offset (l ! i) = of_nat i" if "i < length l"
    using inv that by (simp add: vec_log_inv_def)
  show "lo_log_end_offset vec_log_ops l = of_nat (length l)"
    using inv by (simp add: vec_end_offset)
  show "lo_epoch_at vec_log_ops l off =
      (if unat off < length l then Some (le_epoch (l ! unat off)) else None)"
    using inv by (simp add: vec_epoch_at_nth)
  show "lo_entries vec_log_ops l s e = drop (unat s) (take (unat e) l)"
    using inv by (simp add: vec_entries_slice)
  show "vec_log_inv (lo_append vec_log_ops l x) \<and> lo_append vec_log_ops l x = l @ [x]"
    if "le_offset x = lo_log_end_offset vec_log_ops l" and "Suc (length l) < 2 ^ 64"
    using inv that by (simp add: vec_append_def vec_end_offset vec_log_inv_snoc)
  show "vec_log_inv (lo_truncate vec_log_ops l off) \<and>
      lo_truncate vec_log_ops l off = take (unat off) l"
    using inv by (simp add: vec_truncate_take) (auto simp: vec_log_inv_def)
qed

interpretation vec_log_ep: raft_log_epochs vec_log_ops vec_log_inv "\<lambda>es. es"
  by unfold_locales (simp add: vec_last_epoch_def)

end
