(* ===== verification/Raft_Election.thy ===== *)
theory Raft_Election
  imports Raft_Log
begin

text \<open>
  The election handlers of a node (\<open>crates/raft/src/election.rs\<close>). Each handler is a
  function from a node to the changed node and the actions the runner has to carry out, in the
  order the code emits them.
\<close>

section \<open>Handlers\<close>

definition become_leader :: "'l node \<Rightarrow> 'l node \<times> action list" where
  "become_leader n =
     (let others = filter (\<lambda>v. v \<noteq> nd_id n) (voters n);
          n1 = n\<lparr>role := Leader, leader_id := Some (nd_id n), voter_fetch_offsets := []\<rparr>;
          n2 = n1\<lparr>voter_fetch_offsets := fold (\<lambda>v m. AList.update v 0 m) others []\<rparr>
      in (n2, [ResetHeartbeatTimer,
               SendBeginQuorumEpoch others
                 \<lparr>bq_epoch = current_epoch n, bq_leader_id = nd_id n\<rparr>]))"

definition is_log_up_to_date :: "'l log_ops \<Rightarrow> 'l node \<Rightarrow> u32 \<Rightarrow> u64 \<Rightarrow> bool" where
  "is_log_up_to_date L n candidate_epoch candidate_offset =
     (let my_epoch = lo_last_epoch L (nd_log n);
          my_offset = lo_log_end_offset L (nd_log n)
      in if candidate_epoch = my_epoch then my_offset \<le> candidate_offset
         else my_epoch < candidate_epoch)"

definition handle_election_timeout :: "'l log_ops \<Rightarrow> 'l node \<Rightarrow> 'l node \<times> action list" where
  "handle_election_timeout L n =
     (if role n = Leader then (n, [])
      else
        let n1 = n\<lparr>current_epoch := current_epoch n + 1, role := Candidate,
                   voted_for := Some (nd_id n), votes_received := {nd_id n}\<rparr>;
            actions = [PersistQuorumState, ResetElectionTimer]
        in if majority n1 \<le> card (votes_received n1)
           then (let (n2, more) = become_leader n1 in (n2, actions @ more))
           else
             let req = \<lparr>vq_epoch = current_epoch n1, vq_candidate_id = nd_id n1,
                        vq_last_log_epoch = lo_last_epoch L (nd_log n1),
                        vq_last_log_offset = lo_log_end_offset L (nd_log n1)\<rparr>
             in (n1, actions @ map (\<lambda>v. SendVote v req) (filter (\<lambda>v. v \<noteq> nd_id n1) (voters n1))))"

definition handle_vote_request ::
    "'l log_ops \<Rightarrow> 'l node \<Rightarrow> u16 \<Rightarrow> vote_request \<Rightarrow> 'l node \<times> action list" where
  "handle_vote_request L n src req =
     (let (n1, actions) =
            (if current_epoch n < vq_epoch req
             then (become_follower (vq_epoch req) None n, [PersistQuorumState])
             else (n, []))
      in if vq_epoch req < current_epoch n1
         then (n1, actions @ [SendVoteResponse src \<lparr>vr_epoch = current_epoch n1, vr_granted = False\<rparr>])
         else
           let can_vote = (voted_for n1 = None \<or> voted_for n1 = Some src);
               log_ok = is_log_up_to_date L n1 (vq_last_log_epoch req) (vq_last_log_offset req)
           in if can_vote \<and> log_ok
              then (n1\<lparr>voted_for := Some src\<rparr>,
                    actions @ [PersistQuorumState, ResetElectionTimer,
                      SendVoteResponse src \<lparr>vr_epoch = current_epoch n1, vr_granted = True\<rparr>])
              else (n1, actions @
                     [SendVoteResponse src \<lparr>vr_epoch = current_epoch n1, vr_granted = False\<rparr>]))"

definition handle_vote_response ::
    "'l node \<Rightarrow> u16 \<Rightarrow> vote_response \<Rightarrow> 'l node \<times> action list" where
  "handle_vote_response n src resp =
     (if current_epoch n < vr_epoch resp
      then (become_follower (vr_epoch resp) None n, [PersistQuorumState])
      else if role n \<noteq> Candidate \<or> vr_epoch resp \<noteq> current_epoch n then (n, [])
      else if vr_granted resp
      then (let n1 = n\<lparr>votes_received := insert src (votes_received n)\<rparr>
            in if majority n1 \<le> card (votes_received n1) then become_leader n1 else (n1, []))
      else (n, []))"

definition handle_begin_quorum_epoch ::
    "'l node \<Rightarrow> u16 \<Rightarrow> begin_quorum_epoch_request \<Rightarrow> 'l node \<times> action list" where
  "handle_begin_quorum_epoch n src req =
     (if current_epoch n \<le> bq_epoch req
      then (let n1 = become_follower (bq_epoch req) (Some (bq_leader_id req)) n;
                (n2, rejects) = reject_pending_proposes n1
            in (n2, [PersistQuorumState, ResetElectionTimer] @ rejects))
      else (n, []))"

definition handle_end_quorum_epoch ::
    "'l node \<Rightarrow> u16 \<Rightarrow> end_quorum_epoch_request \<Rightarrow> 'l node \<times> action list" where
  "handle_end_quorum_epoch n src req =
     (if current_epoch n \<le> eq_epoch req
      then (let n1 = become_follower (eq_epoch req) None n;
                (n2, rejects) = reject_pending_proposes n1
            in (n2, [PersistQuorumState, ResetElectionTimer] @ rejects))
      else (n, []))"

lemmas election_defs =
  handle_election_timeout_def handle_vote_request_def handle_vote_response_def
  handle_begin_quorum_epoch_def handle_end_quorum_epoch_def become_leader_def
  become_follower_def reject_pending_proposes_def

end
