(* ===== verification/Raft_Replication.thy ===== *)
theory Raft_Replication
  imports Raft_Election
begin

text \<open>
  The replication handlers of a node (\<open>crates/raft/src/replication.rs\<close>): serving and
  consuming fetches, heartbeats, proposals, the high watermark and the acknowledgement of
  committed proposals; and the dispatch \<open>Node::handle\<close> (\<open>node.rs\<close>).
\<close>

section \<open>Handlers\<close>

definition check_divergence :: "'l log_ops \<Rightarrow> 'l node \<Rightarrow> u64 \<Rightarrow> u32 \<Rightarrow> diverging option" where
  "check_divergence L n fetch_offset last_fetched_epoch =
     (if fetch_offset = 0 then None
      else
        let prev_offset = fetch_offset - 1;
            here = Some \<lparr>dv_epoch = last_fetched_epoch,
                         dv_end_offset = lo_find_epoch_start L (nd_log n) last_fetched_epoch\<rparr>
        in case lo_epoch_at L (nd_log n) prev_offset of
             Some epoch \<Rightarrow> (if epoch = last_fetched_epoch then None else here)
           | None \<Rightarrow> here)"

text \<open>
  The loop of \<open>check_committed_proposes\<close> walks the pending list with an index, removing at
  the index when the proposal is committed and stepping over it otherwise.
\<close>

function check_committed_loop ::
    "u64 \<Rightarrow> nat \<Rightarrow> (u64 \<times> u64) list \<Rightarrow> action list \<Rightarrow> (u64 \<times> u64) list \<times> action list" where
  "check_committed_loop hwm i pending actions =
     (if i < length pending
      then if fst (pending ! i) < hwm
           then check_committed_loop hwm i (take i pending @ drop (Suc i) pending)
                  (actions @ [CommitPropose (snd (pending ! i))])
           else check_committed_loop hwm (Suc i) pending actions
      else (pending, actions))"
  by pat_completeness auto
termination
  by (relation "measures [\<lambda>(hwm, i, pending, actions). length pending - i]") auto

declare check_committed_loop.simps [simp del]

definition check_committed_proposes :: "'l node \<Rightarrow> 'l node \<times> action list" where
  "check_committed_proposes n =
     (let (pending, actions) = check_committed_loop (high_watermark n) 0 (pending_proposes n) []
      in (n\<lparr>pending_proposes := pending\<rparr>, actions))"

definition try_advance_high_watermark :: "'l log_ops \<Rightarrow> 'l node \<Rightarrow> 'l node \<times> action list" where
  "try_advance_high_watermark L n =
     (let my_offset = lo_log_end_offset L (nd_log n);
          offsets = rev (sort (map snd (voter_fetch_offsets n) @ [my_offset]))
      in if length offsets < majority n then (n, [])
         else
           let new_hwm = offsets ! (majority n - 1)
           in if new_hwm \<le> high_watermark n then (n, [])
              else if (case lo_epoch_at L (nd_log n) (new_hwm - 1) of
                         Some epoch \<Rightarrow> epoch \<noteq> current_epoch n | None \<Rightarrow> False)
              then (n, [])
              else
                let (n2, commits) = check_committed_proposes (n\<lparr>high_watermark := new_hwm\<rparr>)
                in (n2, AdvanceHighWatermark new_hwm # commits))"

definition empty_fetch_response :: "'l node \<Rightarrow> diverging option \<Rightarrow> fetch_response" where
  "empty_fetch_response n d =
     \<lparr>fr_epoch = current_epoch n, fr_high_watermark = high_watermark n,
      fr_entries = [], fr_diverging = d\<rparr>"

definition handle_fetch_request ::
    "'l log_ops \<Rightarrow> 'l node \<Rightarrow> u16 \<Rightarrow> fetch_request \<Rightarrow> 'l node \<times> action list" where
  "handle_fetch_request L n src req =
     (if current_epoch n < fq_epoch req
      then (let n1 = become_follower (fq_epoch req) None n
            in (n1, [PersistQuorumState, SendFetchResponse src (empty_fetch_response n1 None)]))
      else if fq_epoch req < current_epoch n
      then (n, [SendFetchResponse src (empty_fetch_response n None)])
      else if role n \<noteq> Leader
      then (n, [SendFetchResponse src (empty_fetch_response n None)])
      else
        case check_divergence L n (fq_fetch_offset req) (fq_last_fetched_epoch req) of
          Some d \<Rightarrow> (n, [SendFetchResponse src (empty_fetch_response n (Some d))])
        | None \<Rightarrow>
            (let entries = lo_entries L (nd_log n) (fq_fetch_offset req)
                             (lo_log_end_offset L (nd_log n));
                 n1 = (if src \<in> set (voters n)
                       then n\<lparr>voter_fetch_offsets :=
                                AList.update src (fq_fetch_offset req) (voter_fetch_offsets n)\<rparr>
                       else n);
                 resp = \<lparr>fr_epoch = current_epoch n1, fr_high_watermark = high_watermark n1,
                         fr_entries = entries, fr_diverging = None\<rparr>;
                 (n2, more) = try_advance_high_watermark L n1
             in (n2, SendFetchResponse src resp # more)))"

definition handle_fetch_response ::
    "'l log_ops \<Rightarrow> 'l node \<Rightarrow> u16 \<Rightarrow> fetch_response \<Rightarrow> 'l node \<times> action list" where
  "handle_fetch_response L n src resp =
     (if current_epoch n < fr_epoch resp
      then (let (n1, rejects) = reject_pending_proposes (become_follower (fr_epoch resp) None n)
            in (n1, PersistQuorumState # rejects))
      else if role n \<noteq> Follower then (n, [])
      else
        case fr_diverging resp of
          Some d \<Rightarrow> (n, [TruncateLog (dv_end_offset d)])
        | None \<Rightarrow>
            (let appends = map AppendToLog (fr_entries resp);
                 (n1, advanced) =
                   (if high_watermark n < fr_high_watermark resp
                    then
                      let new_hwm = min (fr_high_watermark resp) (lo_log_end_offset L (nd_log n));
                          (n2, commits) = check_committed_proposes (n\<lparr>high_watermark := new_hwm\<rparr>)
                      in (n2, AdvanceHighWatermark new_hwm # commits)
                    else (n, []))
             in (n1, appends @ advanced @ [ResetElectionTimer])))"

definition handle_heartbeat_timeout :: "'l log_ops \<Rightarrow> 'l node \<Rightarrow> 'l node \<times> action list" where
  "handle_heartbeat_timeout L n =
     (if role n \<noteq> Leader then (n, [])
      else (n, ResetHeartbeatTimer #
              map (\<lambda>v. let fetch_offset = (case map_of (voter_fetch_offsets n) v of
                                             None \<Rightarrow> 0 | Some fo \<Rightarrow> fo);
                           entries = lo_entries L (nd_log n) fetch_offset
                                       (lo_log_end_offset L (nd_log n))
                       in SendFetchResponse v
                            \<lparr>fr_epoch = current_epoch n, fr_high_watermark = high_watermark n,
                             fr_entries = entries, fr_diverging = None\<rparr>)
                (filter (\<lambda>v. v \<noteq> nd_id n) (voters n))))"

definition handle_propose ::
    "'l log_ops \<Rightarrow> 'l node \<Rightarrow> u8 list \<Rightarrow> u64 \<Rightarrow> 'l node \<times> action list" where
  "handle_propose L n data propose_id =
     (if role n \<noteq> Leader then (n, [RejectPropose propose_id])
      else
        let offset = lo_log_end_offset L (nd_log n)
        in (n\<lparr>pending_proposes := pending_proposes n @ [(offset, propose_id)]\<rparr>,
            [AppendToLog \<lparr>le_epoch = current_epoch n, le_offset = offset, le_data = data\<rparr>]))"

section \<open>Dispatch\<close>

fun node_handle :: "'l log_ops \<Rightarrow> 'l node \<Rightarrow> event \<Rightarrow> 'l node \<times> action list" where
  "node_handle L n ElectionTimeout = handle_election_timeout L n"
| "node_handle L n HeartbeatTimeout = handle_heartbeat_timeout L n"
| "node_handle L n (EvVoteRequest src req) = handle_vote_request L n src req"
| "node_handle L n (EvVoteResponse src resp) = handle_vote_response n src resp"
| "node_handle L n (EvBeginQuorumEpoch src req) = handle_begin_quorum_epoch n src req"
| "node_handle L n (EvEndQuorumEpoch src req) = handle_end_quorum_epoch n src req"
| "node_handle L n (EvFetchRequest src req) = handle_fetch_request L n src req"
| "node_handle L n (EvFetchResponse src resp) = handle_fetch_response L n src resp"
| "node_handle L n (Propose data propose_id) = handle_propose L n data propose_id"

lemmas replication_defs =
  handle_fetch_request_def handle_fetch_response_def handle_heartbeat_timeout_def
  handle_propose_def try_advance_high_watermark_def check_committed_proposes_def

end
