(* ===== verification/Raft_Node.thy ===== *)
theory Raft_Node
  imports Raft_Replication
begin

text \<open>
  What every handler of a node keeps: the fields it never touches, the invariant that ties the
  role of a node to its vote and its fetch offsets, the epoch, and the accounting of proposals.
\<close>

section \<open>Fields the helpers leave alone\<close>

lemma check_committed_proposes_frame [simp]:
  "nd_id (fst (check_committed_proposes n)) = nd_id n"
  "voters (fst (check_committed_proposes n)) = voters n"
  "nd_log (fst (check_committed_proposes n)) = nd_log n"
  "current_epoch (fst (check_committed_proposes n)) = current_epoch n"
  "voted_for (fst (check_committed_proposes n)) = voted_for n"
  "role (fst (check_committed_proposes n)) = role n"
  "leader_id (fst (check_committed_proposes n)) = leader_id n"
  "votes_received (fst (check_committed_proposes n)) = votes_received n"
  "voter_fetch_offsets (fst (check_committed_proposes n)) = voter_fetch_offsets n"
  "high_watermark (fst (check_committed_proposes n)) = high_watermark n"
  by (simp_all add: check_committed_proposes_def split: prod.splits)

lemma try_advance_frame [simp]:
  "nd_id (fst (try_advance_high_watermark L n)) = nd_id n"
  "voters (fst (try_advance_high_watermark L n)) = voters n"
  "nd_log (fst (try_advance_high_watermark L n)) = nd_log n"
  "current_epoch (fst (try_advance_high_watermark L n)) = current_epoch n"
  "voted_for (fst (try_advance_high_watermark L n)) = voted_for n"
  "role (fst (try_advance_high_watermark L n)) = role n"
  "leader_id (fst (try_advance_high_watermark L n)) = leader_id n"
  "votes_received (fst (try_advance_high_watermark L n)) = votes_received n"
  "voter_fetch_offsets (fst (try_advance_high_watermark L n)) = voter_fetch_offsets n"
  by (simp_all add: try_advance_high_watermark_def Let_def case_prod_unfold split: option.splits)

lemma become_leader_sel [simp]:
  "nd_id (fst (become_leader n)) = nd_id n"
  "voters (fst (become_leader n)) = voters n"
  "nd_log (fst (become_leader n)) = nd_log n"
  "current_epoch (fst (become_leader n)) = current_epoch n"
  "voted_for (fst (become_leader n)) = voted_for n"
  "role (fst (become_leader n)) = Leader"
  "leader_id (fst (become_leader n)) = Some (nd_id n)"
  "votes_received (fst (become_leader n)) = votes_received n"
  "high_watermark (fst (become_leader n)) = high_watermark n"
  "pending_proposes (fst (become_leader n)) = pending_proposes n"
  by (simp_all add: become_leader_def Let_def)

lemma become_leader_offsets:
  "distinct (map fst (voter_fetch_offsets (fst (become_leader n))))"
  "fst ` set (voter_fetch_offsets (fst (become_leader n))) = set (voters n) - {nd_id n}"
  "p \<in> set (voter_fetch_offsets (fst (become_leader n))) \<Longrightarrow> snd p = 0"
proof -
  have d: "distinct (map fst (fold (\<lambda>v m. AList.update v (0::u64) m) vs m))
     \<and> fst ` set (fold (\<lambda>v m. AList.update v (0::u64) m) vs m) = fst ` set m \<union> set vs
     \<and> (\<forall>p \<in> set (fold (\<lambda>v m. AList.update v (0::u64) m) vs m). snd p = 0)"
    if "distinct (map fst m)" and "\<forall>p \<in> set m. snd p = 0" for vs and m :: "(u16 \<times> u64) list"
    using that
  proof (induction vs arbitrary: m)
    case Nil
    then show ?case by simp
  next
    case (Cons v vs)
    have z: "\<forall>p \<in> set (AList.update v 0 m). snd p = 0"
      using Cons.prems(2) by (induction m) auto
    show ?case
      using Cons.IH [OF distinct_update [OF Cons.prems(1)] z] by (simp add: dom_update)
  qed
  show "distinct (map fst (voter_fetch_offsets (fst (become_leader n))))"
    "fst ` set (voter_fetch_offsets (fst (become_leader n))) = set (voters n) - {nd_id n}"
    "p \<in> set (voter_fetch_offsets (fst (become_leader n))) \<Longrightarrow> snd p = 0"
    using d [of "[]" "filter (\<lambda>v. v \<noteq> nd_id n) (voters n)"]
    by (auto simp: become_leader_def Let_def)
qed

section \<open>The invariant of a node\<close>

definition node_inv :: "'l node \<Rightarrow> bool" where
  "node_inv n \<longleftrightarrow>
     finite (votes_received n)
     \<and> (role n = Follower \<longrightarrow> votes_received n = {})
     \<and> (role n \<noteq> Follower \<longrightarrow> voted_for n = Some (nd_id n) \<and> nd_id n \<in> votes_received n)
     \<and> (role n = Candidate \<longrightarrow> card (votes_received n) < majority n)
     \<and> (role n = Leader \<longrightarrow> leader_id n = Some (nd_id n) \<and> majority n \<le> card (votes_received n))
     \<and> distinct (map fst (voter_fetch_offsets n))
     \<and> fst ` set (voter_fetch_offsets n) \<subseteq> set (voters n)"

lemma majority_cong: "voters m = voters n \<Longrightarrow> majority m = majority n"
  by (simp add: majority_def)

lemmas handler_simps =
  handle_election_timeout_def handle_vote_request_def handle_vote_response_def
  handle_begin_quorum_epoch_def handle_end_quorum_epoch_def become_follower_def
  reject_pending_proposes_def handle_fetch_request_def handle_fetch_response_def
  handle_heartbeat_timeout_def handle_propose_def Let_def case_prod_unfold

lemma node_handle_frame [simp]:
  "nd_id (fst (node_handle L n ev)) = nd_id n"
  "voters (fst (node_handle L n ev)) = voters n"
  "nd_log (fst (node_handle L n ev)) = nd_log n"
  by (cases ev; simp add: handler_simps split: option.splits)+

lemma node_new_inv: "node_inv (node_new i vs q l)"
  by (simp add: node_inv_def node_new_def)

lemma node_handle_inv: "node_inv n \<Longrightarrow> node_inv (fst (node_handle L n ev))"
  by (cases ev)
    (auto simp: node_inv_def handler_simps become_leader_offsets majority_def
          dest: alist_update_keyD split: option.splits if_splits)

section \<open>The loop over the pending proposals\<close>

text \<open>
  The index loop is a filter: it commits the proposals below the high watermark, in their
  order, and keeps the others in theirs.
\<close>

lemma check_committed_loop_filter:
  "check_committed_loop hwm i pending actions =
     (take i pending @ filter (\<lambda>p. \<not> fst p < hwm) (drop i pending),
      actions @ map (\<lambda>p. CommitPropose (snd p)) (filter (\<lambda>p. fst p < hwm) (drop i pending)))"
proof (induction hwm i pending actions rule: check_committed_loop.induct)
  case (1 hwm i pending actions)
  show ?case
  proof (cases "i < length pending")
    case False
    then show ?thesis by (simp add: check_committed_loop.simps)
  next
    case True
    then have d: "drop i pending = pending ! i # drop (Suc i) pending"
      by (rule Cons_nth_drop_Suc [symmetric])
    show ?thesis
    proof (cases "fst (pending ! i) < hwm")
      case True
      with "1.IH"(1) \<open>i < length pending\<close> d show ?thesis
        by (simp add: check_committed_loop.simps [of hwm i pending])
    next
      case False
      with "1.IH"(2) \<open>i < length pending\<close> d show ?thesis
        by (simp add: check_committed_loop.simps [of hwm i pending] take_Suc_conv_app_nth)
    qed
  qed
qed

lemma check_committed_proposes_filter:
  "check_committed_proposes n =
     (n\<lparr>pending_proposes := filter (\<lambda>p. \<not> fst p < high_watermark n) (pending_proposes n)\<rparr>,
      map (\<lambda>p. CommitPropose (snd p)) (filter (\<lambda>p. fst p < high_watermark n) (pending_proposes n)))"
  by (simp add: check_committed_proposes_def check_committed_loop_filter)

section \<open>Every proposal is answered once\<close>

fun reply_id :: "action \<Rightarrow> u64 option" where
  "reply_id (CommitPropose i) = Some i"
| "reply_id (RejectPropose i) = Some i"
| "reply_id _ = None"

definition reply_ids :: "action list \<Rightarrow> u64 list" where
  "reply_ids as = List.map_filter reply_id as"

fun proposed_id :: "event \<Rightarrow> u64 multiset" where
  "proposed_id (Propose data i) = {#i#}"
| "proposed_id _ = {#}"

lemma reply_ids_simps [simp]:
  "reply_ids [] = []"
  "reply_ids (a # as) = (case reply_id a of None \<Rightarrow> reply_ids as | Some i \<Rightarrow> i # reply_ids as)"
  "reply_ids (as @ bs) = reply_ids as @ reply_ids bs"
  by (simp_all add: reply_ids_def map_filter_def split: option.splits)

lemma reply_ids_none:
  "\<forall>a \<in> set as. reply_id a = None \<Longrightarrow> reply_ids as = []"
  by (induction as) auto

lemma reply_ids_map [simp]:
  "reply_ids (map (\<lambda>p. CommitPropose (snd p)) ps) = map snd ps"
  "reply_ids (map (\<lambda>p. RejectPropose (snd p)) ps) = map snd ps"
  by (induction ps; simp)+

lemma reply_ids_map_none [simp]:
  "reply_ids (map AppendToLog es) = []"
  "reply_ids (map (\<lambda>v. SendVote v req) vs) = []"
  "reply_ids (map (\<lambda>v. SendFetchResponse v (f v)) vs) = []"
  by (rule reply_ids_none; simp)+

lemma image_mset_filter_split:
  "image_mset f M = image_mset f (filter_mset (\<lambda>x. \<not> P x) M) + image_mset f (filter_mset P M)"
  by (metis add.commute image_mset_union multiset_partition)

lemma check_committed_proposes_replies:
  "image_mset snd (mset (pending_proposes n)) =
     image_mset snd (mset (pending_proposes (fst (check_committed_proposes n))))
     + mset (reply_ids (snd (check_committed_proposes n)))"
  by (simp add: check_committed_proposes_filter image_mset_filter_split [symmetric])

lemma try_advance_high_watermark_replies:
  "image_mset snd (mset (pending_proposes n)) =
     image_mset snd (mset (pending_proposes (fst (try_advance_high_watermark L n))))
     + mset (reply_ids (snd (try_advance_high_watermark L n)))"
  using check_committed_proposes_replies [of "n\<lparr>high_watermark := h\<rparr>" for h]
  by (simp add: try_advance_high_watermark_def Let_def case_prod_unfold split: option.splits)

lemma node_handle_replies:
  "mset (map snd (pending_proposes n)) + proposed_id ev =
     mset (map snd (pending_proposes (fst (node_handle L n ev))))
     + mset (reply_ids (snd (node_handle L n ev)))"
  using try_advance_high_watermark_replies [of n L]
    try_advance_high_watermark_replies [of "n\<lparr>voter_fetch_offsets := fo\<rparr>" L for fo]
    check_committed_proposes_replies [of "n\<lparr>high_watermark := h\<rparr>" for h]
  by (cases ev)
    (auto simp: handler_simps become_leader_def split: option.splits if_splits)

section \<open>Properties\<close>

text \<open>C17: whatever event a node handles, a leader or candidate has its own vote, a leader has a
  majority of votes and a candidate has not, a follower counts no votes, and the fetch offsets
  of a leader are those of distinct voters.\<close>

theorem roles_backed_by_votes:
  assumes "node_inv n" and "node_handle L n ev = (n', actions)"
  shows "(role n' = Leader \<longrightarrow> voted_for n' = Some (nd_id n') \<and> leader_id n' = Some (nd_id n')
            \<and> length (voters n') div 2 + 1 \<le> card (votes_received n'))
    \<and> (role n' = Candidate \<longrightarrow> voted_for n' = Some (nd_id n')
            \<and> card (votes_received n') \<le> length (voters n') div 2)
    \<and> (role n' = Follower \<longrightarrow> votes_received n' = {})
    \<and> distinct (map fst (voter_fetch_offsets n'))
    \<and> fst ` set (voter_fetch_offsets n') \<subseteq> set (voters n')"
  using node_handle_inv [OF assms(1), of L ev] assms(2)
  by (simp add: node_inv_def majority_def less_Suc_eq_le)

definition fresh_voter :: "vec_log node" where
  "fresh_voter = node_new 1 [1, 2, 3] quorum_state_empty []"

lemma roles_backed_by_votes_witness:
  "role (fst (node_handle vec_log_ops fresh_voter ElectionTimeout)) = Candidate
   \<and> card (votes_received (fst (node_handle vec_log_ops fresh_voter ElectionTimeout))) \<le> 1"
  using roles_backed_by_votes
    [of fresh_voter vec_log_ops ElectionTimeout
        "fst (node_handle vec_log_ops fresh_voter ElectionTimeout)"
        "snd (node_handle vec_log_ops fresh_voter ElectionTimeout)"]
  by (simp add: fresh_voter_def node_new_inv)
    (simp add: node_new_def handle_election_timeout_def majority_def Let_def)

text \<open>C16: no reply to a proposal is lost or sent twice: the ids pending before an event, with the
  id the event proposes, are the ids pending after it and the ids its actions commit or reject.\<close>

theorem proposals_conserved:
  "mset (map snd (pending_proposes n)) + proposed_id ev =
     mset (map snd (pending_proposes (fst (node_handle L n ev))))
     + mset (reply_ids (snd (node_handle L n ev)))"
  by (rule node_handle_replies)

text \<open>The index loop that answers committed proposals commits exactly the pending proposals
  whose offset is below the high watermark, oldest first, and keeps the others in order.\<close>

theorem committed_loop_is_filter:
  "check_committed_loop hwm 0 pending [] =
     (filter (\<lambda>p. hwm \<le> fst p) pending,
      map (CommitPropose \<circ> snd) (filter (\<lambda>p. fst p < hwm) pending))"
  by (simp add: check_committed_loop_filter not_less comp_def)

end
