(* ===== verification/Raft_Runtime.thy ===== *)
theory Raft_Runtime
  imports Raft_Node
begin

text \<open>
  The crate \<open>musil-raft-runtime\<close> and the persistence of the quorum state
  (\<open>crates/raft/src/state.rs\<close>): the runner that feeds a node its events and carries out the
  actions it returns (\<open>runner.rs\<close>), the messages it sends (\<open>transport.rs\<close>) and the observer
  that follows the log (\<open>observer.rs\<close>).

  The runner and its node hold two clones of one log. The log the brokers use,
  \<open>RaftPartition\<close>, clones a handle to one partition, so what the runner appends the node
  sees; here the log is the node's field \<open>nd_log\<close>. The JSON codec of \<open>serde_json\<close> is a
  parameter with the law that it reads back what it wrote.
\<close>

section \<open>The quorum state on disk\<close>

record serde_ops =
  sd_to_vec :: "quorum_state \<Rightarrow> u8 list"
  sd_from_str :: "u8 list \<Rightarrow> quorum_state option"

text \<open>
  The disk below the quorum state. A file is the bytes that a reader sees and whether they were
  synced; the directory names the file at the path and the temporary file beside it. \<open>qf_past\<close>
  are the directories that changes have replaced since the directory was last synced: any of
  them may be the one that a crash leaves.
\<close>

record disk_file =
  df_data :: "u8 list"
  df_synced :: bool

record disk_dir =
  dd_path :: "nat option"
  dd_tmp :: "nat option"

record quorum_files =
  qf_inode :: "nat \<Rightarrow> disk_file"
  qf_next :: nat
  qf_dir :: disk_dir
  qf_past :: "disk_dir list"

definition quorum_files_empty :: quorum_files where
  "quorum_files_empty =
     \<lparr>qf_inode = (\<lambda>i. \<lparr>df_data = [], df_synced = True\<rparr>), qf_next = 0,
      qf_dir = \<lparr>dd_path = None, dd_tmp = None\<rparr>, qf_past = []\<rparr>"

definition quorum_state_load :: "serde_ops \<Rightarrow> quorum_files \<Rightarrow> quorum_state" where
  "quorum_state_load S fs =
     (case dd_path (qf_dir fs) of
        Some i \<Rightarrow> (case sd_from_str S (df_data (qf_inode fs i)) of Some q \<Rightarrow> q | None \<Rightarrow> quorum_state_empty)
      | None \<Rightarrow> quorum_state_empty)"

text \<open>
  What \<open>persist\<close> asks of the disk, call by call: \<open>fs::write\<close> creates or empties the temporary file
  and writes it, byte after byte, as any split into several writes does; then the file is synced,
  renamed over the path, and the directory synced.
\<close>

datatype disk_op = CreateTmp | WriteByte u8 | SyncTmp | RenameTmp | SyncDir

definition set_dir :: "disk_dir \<Rightarrow> quorum_files \<Rightarrow> quorum_files" where
  "set_dir d fs = fs\<lparr>qf_dir := d, qf_past := qf_past fs @ [qf_dir fs]\<rparr>"

definition set_file :: "nat \<Rightarrow> u8 list \<Rightarrow> bool \<Rightarrow> quorum_files \<Rightarrow> quorum_files" where
  "set_file i bs synced fs = fs\<lparr>qf_inode := (qf_inode fs)(i := \<lparr>df_data = bs, df_synced = synced\<rparr>)\<rparr>"

fun disk_step :: "disk_op \<Rightarrow> quorum_files \<Rightarrow> quorum_files" where
  "disk_step CreateTmp fs =
     (case dd_tmp (qf_dir fs) of
        Some i \<Rightarrow> set_file i [] False fs
      | None \<Rightarrow> set_dir ((qf_dir fs)\<lparr>dd_tmp := Some (qf_next fs)\<rparr>)
          (set_file (qf_next fs) [] False (fs\<lparr>qf_next := qf_next fs + 1\<rparr>)))"
| "disk_step (WriteByte b) fs =
     (case dd_tmp (qf_dir fs) of
        Some i \<Rightarrow> set_file i (df_data (qf_inode fs i) @ [b]) False fs
      | None \<Rightarrow> fs)"
| "disk_step SyncTmp fs =
     (case dd_tmp (qf_dir fs) of
        Some i \<Rightarrow> set_file i (df_data (qf_inode fs i)) True fs
      | None \<Rightarrow> fs)"
| "disk_step RenameTmp fs =
     (case dd_tmp (qf_dir fs) of
        Some i \<Rightarrow> set_dir \<lparr>dd_path = Some i, dd_tmp = None\<rparr> fs
      | None \<Rightarrow> fs)"
| "disk_step SyncDir fs = fs\<lparr>qf_past := []\<rparr>"

definition persist_steps :: "serde_ops \<Rightarrow> quorum_state \<Rightarrow> disk_op list" where
  "persist_steps S q = CreateTmp # map WriteByte (sd_to_vec S q) @ [SyncTmp, RenameTmp, SyncDir]"

definition quorum_state_persist :: "serde_ops \<Rightarrow> quorum_state \<Rightarrow> quorum_files \<Rightarrow> quorum_files" where
  "quorum_state_persist S q fs = fold disk_step (persist_steps S q) fs"

text \<open>
  A crash leaves one of the directories since the last sync, the files that were synced as they
  were, and of the others whatever bytes.
\<close>

inductive disk_crash :: "quorum_files \<Rightarrow> quorum_files \<Rightarrow> bool" for fs where
  "\<lbrakk>d = qf_dir fs \<or> d \<in> set (qf_past fs); \<And>i. df_synced (qf_inode fs i) \<Longrightarrow> contents i = df_data (qf_inode fs i)\<rbrakk>
   \<Longrightarrow> disk_crash fs \<lparr>qf_inode = (\<lambda>i. \<lparr>df_data = contents i, df_synced = True\<rparr>), qf_next = qf_next fs,
         qf_dir = d, qf_past = []\<rparr>"

inductive_cases disk_crashE: "disk_crash fs fs'"

text \<open>Nothing is in the air: what a crash leaves is what there is.\<close>

definition disk_settled :: "quorum_files \<Rightarrow> bool" where
  "disk_settled fs \<longleftrightarrow>
     qf_past fs = []
     \<and> (\<forall>i. dd_path (qf_dir fs) = Some i \<longrightarrow> i < qf_next fs \<and> df_synced (qf_inode fs i) \<and> dd_tmp (qf_dir fs) \<noteq> Some i)
     \<and> (\<forall>i. dd_tmp (qf_dir fs) = Some i \<longrightarrow> i < qf_next fs)"

lemma disk_settled_empty [simp]: "disk_settled quorum_files_empty"
  by (simp add: disk_settled_def quorum_files_empty_def)

lemma settled_crash:
  assumes "disk_settled fs" and "disk_crash fs fs'"
  shows "disk_settled fs' \<and> quorum_state_load S fs' = quorum_state_load S fs"
  using assms(2)
proof (cases rule: disk_crash.cases)
  case (1 d contents)
  then show ?thesis
    using assms(1) by (auto simp: disk_settled_def quorum_state_load_def split: option.split)
qed

text \<open>
  The phases of \<open>persist\<close>: the temporary file \<open>i\<close> holds \<open>bs\<close> while the directory on disk is still
  the one from before, or that with the temporary file.
\<close>

definition preparing :: "quorum_files \<Rightarrow> nat \<Rightarrow> u8 list \<Rightarrow> bool \<Rightarrow> quorum_files \<Rightarrow> bool" where
  "preparing fs i bs synced fs1 \<longleftrightarrow>
     dd_path (qf_dir fs) \<noteq> Some i \<and> i < qf_next fs1 \<and> qf_next fs \<le> qf_next fs1
     \<and> qf_dir fs1 = (qf_dir fs)\<lparr>dd_tmp := Some i\<rparr> \<and> set (qf_past fs1) \<subseteq> {qf_dir fs}
     \<and> (\<forall>j. j \<noteq> i \<longrightarrow> qf_inode fs1 j = qf_inode fs j) \<and> qf_inode fs1 i = \<lparr>df_data = bs, df_synced = synced\<rparr>"

lemma preparing_create:
  assumes "disk_settled fs"
  shows "\<exists>i. preparing fs i [] False (disk_step CreateTmp fs)"
proof (cases "dd_tmp (qf_dir fs)")
  case None
  then have "preparing fs (qf_next fs) [] False (disk_step CreateTmp fs)"
    using assms by (auto simp: preparing_def disk_settled_def set_dir_def set_file_def)
  then show ?thesis
    by blast
next
  case (Some i)
  then have "preparing fs i [] False (disk_step CreateTmp fs)"
    using assms by (auto simp: preparing_def disk_settled_def set_file_def)
  then show ?thesis
    by blast
qed

lemma preparing_writes:
  "preparing fs i bs False fs1 \<Longrightarrow> preparing fs i (bs @ cs) False (fold disk_step (map WriteByte cs) fs1)"
proof (induction cs arbitrary: bs fs1)
  case (Cons c cs)
  have "preparing fs i (bs @ [c]) False (disk_step (WriteByte c) fs1)"
    using Cons.prems by (auto simp: preparing_def set_file_def)
  from Cons.IH [OF this] show ?case
    by simp
qed simp

lemma preparing_sync: "preparing fs i bs False fs1 \<Longrightarrow> preparing fs i bs True (disk_step SyncTmp fs1)"
  by (auto simp: preparing_def set_file_def)

text \<open>Until the rename a crash leaves the old state.\<close>

lemma preparing_crash:
  assumes "disk_settled fs" and "preparing fs i bs synced fs1" and "disk_crash fs1 fs'"
  shows "disk_settled fs' \<and> quorum_state_load S fs' = quorum_state_load S fs"
  using assms(3)
proof (cases rule: disk_crash.cases)
  case (1 d contents)
  have d: "d = qf_dir fs \<or> d = (qf_dir fs)\<lparr>dd_tmp := Some i\<rparr>"
    using 1(2) assms(2) by (auto simp: preparing_def)
  have "contents j = df_data (qf_inode fs j)" if "dd_path (qf_dir fs) = Some j" for j
    using 1(3) [of j] assms(1,2) that by (auto simp: disk_settled_def preparing_def)
  then show ?thesis
    using 1(1) d assms(1,2)
    by (auto simp: disk_settled_def preparing_def quorum_state_load_def split: option.split)
qed

text \<open>From the rename on it leaves the old one or the new one, and once the directory is synced the new one.\<close>

lemma renamed_crash:
  assumes "disk_settled fs" and "preparing fs i bs True fs1" and "disk_crash (disk_step RenameTmp fs1) fs'"
  shows "disk_settled fs' \<and> (quorum_state_load S fs' = quorum_state_load S fs
    \<or> quorum_state_load S fs' = (case sd_from_str S bs of Some q \<Rightarrow> q | None \<Rightarrow> quorum_state_empty))"
  using assms(3)
proof (cases rule: disk_crash.cases)
  case (1 d contents)
  have dirs: "qf_dir fs1 = (qf_dir fs)\<lparr>dd_tmp := Some i\<rparr>"
    using assms(2) by (simp add: preparing_def)
  have same: "qf_inode (disk_step RenameTmp fs1) = qf_inode fs1" "qf_next (disk_step RenameTmp fs1) = qf_next fs1"
    by (simp_all add: dirs set_dir_def)
  have old: "contents j = df_data (qf_inode fs j)" if "dd_path (qf_dir fs) = Some j" for j
  proof -
    have "j \<noteq> i" and "df_synced (qf_inode fs j)"
      using assms(1,2) that by (auto simp: disk_settled_def preparing_def)
    then have "qf_inode fs1 j = qf_inode fs j" and "df_synced (qf_inode fs1 j)"
      using assms(2) by (simp_all add: preparing_def)
    then show ?thesis
      using 1(3) [of j, unfolded same] by simp
  qed
  have new: "contents i = bs"
    using 1(3) [of i, unfolded same] assms(2) by (auto simp: preparing_def)
  consider "d = \<lparr>dd_path = Some i, dd_tmp = None\<rparr>" | "d = qf_dir fs" | "d = (qf_dir fs)\<lparr>dd_tmp := Some i\<rparr>"
    using 1(2) assms(2) by (auto simp: preparing_def set_dir_def)
  then show ?thesis
  proof cases
    case a: 1
    then show ?thesis
      using 1(1) [unfolded same] new assms(2) by (simp add: disk_settled_def preparing_def quorum_state_load_def)
  next
    case 2
    then show ?thesis
      using 1(1) [unfolded same] old assms(1,2)
      by (auto simp: disk_settled_def preparing_def quorum_state_load_def split: option.split)
  next
    case 3
    then show ?thesis
      using 1(1) [unfolded same] old assms(1,2)
      by (auto simp: disk_settled_def preparing_def quorum_state_load_def split: option.split)
  qed
qed

lemma persist_settles:
  assumes "disk_settled fs" and "preparing fs i bs True fs1"
  shows "disk_settled (disk_step SyncDir (disk_step RenameTmp fs1))
    \<and> quorum_state_load S (disk_step SyncDir (disk_step RenameTmp fs1)) =
        (case sd_from_str S bs of Some q \<Rightarrow> q | None \<Rightarrow> quorum_state_empty)"
  using assms by (auto simp: preparing_def disk_settled_def quorum_state_load_def set_dir_def)

lemma persist_steps_prefix:
  "take k (persist_steps S q) =
     (if k = 0 then []
      else if k \<le> length (sd_to_vec S q) + 1 then CreateTmp # map WriteByte (take (k - 1) (sd_to_vec S q))
      else CreateTmp # map WriteByte (sd_to_vec S q) @ take (k - length (sd_to_vec S q) - 1) [SyncTmp, RenameTmp, SyncDir])"
  by (cases k) (auto simp: persist_steps_def take_map)

locale quorum_serde =
  fixes S :: serde_ops
  assumes from_to: "sd_from_str S (sd_to_vec S q) = Some q"
begin

lemma persist_phases:
  assumes "disk_settled fs"
  obtains i where "\<And>k. preparing fs i (take k (sd_to_vec S q)) False
      (fold disk_step (CreateTmp # map WriteByte (take k (sd_to_vec S q))) fs)"
proof -
  obtain i where "preparing fs i [] False (disk_step CreateTmp fs)"
    using preparing_create [OF assms] by blast
  from that [of i] preparing_writes [OF this] show thesis
    by simp
qed

lemma persisted:
  assumes "disk_settled fs"
  shows "disk_settled (quorum_state_persist S q fs)" and "quorum_state_load S (quorum_state_persist S q fs) = q"
proof -
  obtain i where i: "\<And>k. preparing fs i (take k (sd_to_vec S q)) False
      (fold disk_step (CreateTmp # map WriteByte (take k (sd_to_vec S q))) fs)"
    by (rule persist_phases [OF assms]) blast
  note settles = persist_settles [OF assms preparing_sync [OF i [of "length (sd_to_vec S q)"]], of S]
  have "quorum_state_persist S q fs = disk_step SyncDir (disk_step RenameTmp (disk_step SyncTmp
      (fold disk_step (CreateTmp # map WriteByte (take (length (sd_to_vec S q)) (sd_to_vec S q))) fs)))"
    by (simp add: quorum_state_persist_def persist_steps_def)
  with settles show "disk_settled (quorum_state_persist S q fs)" "quorum_state_load S (quorum_state_persist S q fs) = q"
    by (simp_all only: take_all from_to order.refl option.case)
qed

lemma load_crash:
  assumes fs: "disk_settled fs" and crash: "disk_crash (fold disk_step (take k (persist_steps S q)) fs) fs'"
  shows "disk_settled fs' \<and> (quorum_state_load S fs' = quorum_state_load S fs \<or> quorum_state_load S fs' = q)
    \<and> (k < length (sd_to_vec S q) + 3 \<longrightarrow> quorum_state_load S fs' = quorum_state_load S fs)
    \<and> (length (persist_steps S q) \<le> k \<longrightarrow> quorum_state_load S fs' = q)"
proof -
  let ?n = "length (sd_to_vec S q)"
  obtain i where i: "\<And>k. preparing fs i (take k (sd_to_vec S q)) False
      (fold disk_step (CreateTmp # map WriteByte (take k (sd_to_vec S q))) fs)"
    by (rule persist_phases [OF fs]) blast
  let ?w = "fold disk_step (CreateTmp # map WriteByte (sd_to_vec S q)) fs"
  have w: "preparing fs i (sd_to_vec S q) True (disk_step SyncTmp ?w)"
    using preparing_sync [OF i [of ?n]] by simp
  consider "k = 0" | "0 < k" "k \<le> ?n + 1" | "k = ?n + 2" | "k = ?n + 3" | "?n + 4 \<le> k"
    by linarith
  then show ?thesis
  proof cases
    case 1
    then show ?thesis
      using settled_crash [OF fs] crash by (auto simp: persist_steps_def)
  next
    case 2
    then have "disk_crash (fold disk_step (CreateTmp # map WriteByte (take (k - 1) (sd_to_vec S q))) fs) fs'"
      using crash by (simp add: persist_steps_prefix)
    from preparing_crash [OF fs i this] 2 show ?thesis
      by (auto simp: persist_steps_def)
  next
    case 3
    then have "disk_crash (disk_step SyncTmp ?w) fs'"
      using crash by (simp add: persist_steps_prefix)
    from preparing_crash [OF fs w this] 3 show ?thesis
      by (auto simp: persist_steps_def)
  next
    case 4
    then have "disk_crash (disk_step RenameTmp (disk_step SyncTmp ?w)) fs'"
      using crash by (simp add: persist_steps_prefix numeral_2_eq_2)
    from renamed_crash [OF fs w this, of S] 4 show ?thesis
      by (auto simp: persist_steps_def from_to)
  next
    case 5
    then have "take k (persist_steps S q) = persist_steps S q"
      by (simp add: persist_steps_def)
    then have "disk_crash (quorum_state_persist S q fs) fs'"
      using crash by (simp add: quorum_state_persist_def)
    with settled_crash [OF persisted(1) [OF fs]] persisted(2) [OF fs] 5 show ?thesis
      by auto
  qed
qed

end

section \<open>The runner\<close>

datatype raft_message =
    MsgVote vote_request
  | MsgVoteResponse vote_response
  | MsgBeginQuorumEpoch begin_quorum_epoch_request
  | MsgEndQuorumEpoch end_quorum_epoch_request
  | MsgFetchRequest fetch_request
  | MsgFetchResponse fetch_response

datatype propose_error = NotLeader | ChannelClosed

text \<open>A reply channel is a number; what is sent into it is an effect.\<close>

type_synonym reply = nat

datatype runner_input = NetworkEvent event | InPropose "u8 list" reply

datatype effect =
    Persisted quorum_state
  | LogAppended log_entry
  | LogTruncated u64
  | Transmit u16 raft_message
  | ElectionTimer u64
  | HeartbeatReset
  | Answer reply "(propose_error, unit) outcome"

record 'l runner =
  rn_node :: "'l node"
  rn_pending_proposes :: "u64 \<rightharpoonup> reply"
  rn_next_propose_id :: u64
  rn_files :: quorum_files
  rn_last_applied_hwm :: u64
  rn_election_timeout_range :: "u64 \<times> u64"

definition runner_spawn ::
    "serde_ops \<Rightarrow> u16 \<Rightarrow> u16 list \<Rightarrow> 'l \<Rightarrow> quorum_files \<Rightarrow> u64 \<times> u64 \<Rightarrow> 'l runner" where
  "runner_spawn S i vs l fs rng =
     \<lparr>rn_node = node_new i vs (quorum_state_load S fs) l,
      rn_pending_proposes = Map.empty, rn_next_propose_id = 0, rn_files = fs,
      rn_last_applied_hwm = 0, rn_election_timeout_range = rng\<rparr>"

text \<open>\<open>None\<close> is the panic of the remainder by zero.\<close>

definition random_election_duration :: "'l runner \<Rightarrow> u64 option" where
  "random_election_duration r =
     (let (lo, hi) = rn_election_timeout_range r
      in if hi - lo + 1 = 0 then None
         else Some (lo + rn_next_propose_id r mod (hi - lo + 1)))"

definition input_to_event :: "'l runner \<Rightarrow> runner_input \<Rightarrow> 'l runner \<times> event" where
  "input_to_event r input =
     (case input of
        NetworkEvent ev \<Rightarrow> (r, ev)
      | InPropose data reply \<Rightarrow>
          (let propose_id = rn_next_propose_id r
           in (r\<lparr>rn_next_propose_id := propose_id + 1,
                 rn_pending_proposes := (rn_pending_proposes r)(propose_id \<mapsto> reply)\<rparr>,
               Propose data propose_id)))"

text \<open>The first pass over the actions. What it does to the disk and the log is an effect as well, so that
  the order of the effects is that in which they happen.\<close>

definition persist_action :: "serde_ops \<Rightarrow> 'l log_ops \<Rightarrow> action \<Rightarrow> 'l runner \<Rightarrow> 'l runner \<times> effect list" where
  "persist_action S L a r =
     (case a of
        PersistQuorumState \<Rightarrow>
          (let q = node_quorum_state (rn_node r)
           in (r\<lparr>rn_files := quorum_state_persist S q (rn_files r)\<rparr>, [Persisted q]))
      | AppendToLog entry \<Rightarrow>
          (r\<lparr>rn_node := (rn_node r)\<lparr>nd_log := lo_append L (nd_log (rn_node r)) entry\<rparr>\<rparr>, [LogAppended entry])
      | TruncateLog offset \<Rightarrow>
          (r\<lparr>rn_node := (rn_node r)\<lparr>nd_log := lo_truncate L (nd_log (rn_node r)) offset\<rparr>\<rparr>, [LogTruncated offset])
      | _ \<Rightarrow> (r, []))"

fun persist_actions :: "serde_ops \<Rightarrow> 'l log_ops \<Rightarrow> action list \<Rightarrow> 'l runner \<Rightarrow> 'l runner \<times> effect list" where
  "persist_actions S L [] r = (r, [])"
| "persist_actions S L (a # as) r =
     (let (r1, fx) = persist_action S L a r; (r2, fy) = persist_actions S L as r1
      in (r2, fx @ fy))"

text \<open>The files after the effects of a turn, or of the first part of one.\<close>

fun files_after :: "serde_ops \<Rightarrow> effect list \<Rightarrow> quorum_files \<Rightarrow> quorum_files" where
  "files_after S [] fs = fs"
| "files_after S (Persisted q # fx) fs = files_after S fx (quorum_state_persist S q fs)"
| "files_after S (f # fx) fs = files_after S fx fs"

definition answer_propose ::
    "'l runner \<Rightarrow> u64 \<Rightarrow> (propose_error, unit) outcome \<Rightarrow> 'l runner \<times> effect list" where
  "answer_propose r propose_id result =
     (case rn_pending_proposes r propose_id of
        Some reply \<Rightarrow>
          (r\<lparr>rn_pending_proposes := (rn_pending_proposes r)(propose_id := None)\<rparr>,
           [Answer reply result])
      | None \<Rightarrow> (r, []))"

text \<open>\<open>None\<close> when the task panics.\<close>

definition notify_action :: "action \<Rightarrow> 'l runner \<Rightarrow> ('l runner \<times> effect list) option" where
  "notify_action a r =
     (case a of
        PersistQuorumState \<Rightarrow> Some (r, [])
      | AppendToLog entry \<Rightarrow> Some (r, [])
      | TruncateLog offset \<Rightarrow> Some (r, [])
      | SendVote dst req \<Rightarrow> Some (r, [Transmit dst (MsgVote req)])
      | SendVoteResponse dst resp \<Rightarrow> Some (r, [Transmit dst (MsgVoteResponse resp)])
      | SendBeginQuorumEpoch targets req \<Rightarrow>
          Some (r, map (\<lambda>dst. Transmit dst (MsgBeginQuorumEpoch req)) targets)
      | SendEndQuorumEpoch targets req \<Rightarrow>
          Some (r, map (\<lambda>dst. Transmit dst (MsgEndQuorumEpoch req)) targets)
      | SendFetchResponse dst resp \<Rightarrow> Some (r, [Transmit dst (MsgFetchResponse resp)])
      | SendFetchRequest dst req \<Rightarrow> Some (r, [Transmit dst (MsgFetchRequest req)])
      | ResetElectionTimer \<Rightarrow>
          map_option (\<lambda>ms. (r, [ElectionTimer ms])) (random_election_duration r)
      | ResetHeartbeatTimer \<Rightarrow> Some (r, [HeartbeatReset])
      | AdvanceHighWatermark new_hwm \<Rightarrow> Some (r\<lparr>rn_last_applied_hwm := new_hwm\<rparr>, [])
      | CommitPropose propose_id \<Rightarrow> Some (answer_propose r propose_id (Ok ()))
      | RejectPropose propose_id \<Rightarrow> Some (answer_propose r propose_id (Err NotLeader)))"

fun notify_actions :: "action list \<Rightarrow> 'l runner \<Rightarrow> ('l runner \<times> effect list) option" where
  "notify_actions [] r = Some (r, [])"
| "notify_actions (a # as) r =
     (case notify_action a r of
        None \<Rightarrow> None
      | Some (r1, fx) \<Rightarrow> map_option (\<lambda>(r2, fy). (r2, fx @ fy)) (notify_actions as r1))"

definition execute_actions ::
    "serde_ops \<Rightarrow> 'l log_ops \<Rightarrow> action list \<Rightarrow> 'l runner \<Rightarrow> ('l runner \<times> effect list) option" where
  "execute_actions S L actions r =
     (let (r1, fx) = persist_actions S L actions r
      in map_option (\<lambda>(r2, fy). (r2, fx @ fy)) (notify_actions actions r1))"

text \<open>One turn of the loop of \<open>Runner::run\<close>: an input, the election timer, or the heartbeat.\<close>

datatype wakeup = Input runner_input | ElectionFires | HeartbeatFires

definition runner_turn ::
    "serde_ops \<Rightarrow> 'l log_ops \<Rightarrow> 'l runner \<Rightarrow> wakeup \<Rightarrow> ('l runner \<times> effect list) option" where
  "runner_turn S L r w =
     (let (r1, ev) = (case w of
                        Input input \<Rightarrow> input_to_event r input
                      | ElectionFires \<Rightarrow> (r, ElectionTimeout)
                      | HeartbeatFires \<Rightarrow> (r, HeartbeatTimeout));
          (n, actions) = node_handle L (rn_node r1) ev
      in execute_actions S L actions (r1\<lparr>rn_node := n\<rparr>))"

section \<open>The observer\<close>

record 'l observer =
  ob_log :: 'l
  ob_controller_ids :: "u16 list"
  ob_current_leader :: "u16 option"
  ob_fetch_offset :: u64
  ob_last_fetched_epoch :: u32
  ob_high_watermark :: u64
  ob_applied :: "log_entry list list"

definition observer_new :: "'l log_ops \<Rightarrow> 'l \<Rightarrow> u16 list \<Rightarrow> 'l observer" where
  "observer_new L l ids =
     \<lparr>ob_log = l, ob_controller_ids = ids, ob_current_leader = None,
      ob_fetch_offset = lo_log_end_offset L l, ob_last_fetched_epoch = lo_last_epoch L l,
      ob_high_watermark = 0, ob_applied = []\<rparr>"

text \<open>What the observer sends on a tick: nothing while it knows no controller.\<close>

definition observer_request :: "'l observer \<Rightarrow> (u16 \<times> fetch_request) option" where
  "observer_request ob =
     (let req = \<lparr>fq_epoch = 0, fq_fetch_offset = ob_fetch_offset ob,
                 fq_last_fetched_epoch = ob_last_fetched_epoch ob\<rparr>
      in case ob_current_leader ob of
           Some ldr \<Rightarrow> Some (ldr, req)
         | None \<Rightarrow> (case ob_controller_ids ob of [] \<Rightarrow> None | c # _ \<Rightarrow> Some (c, req)))"

definition observer_append :: "'l log_ops \<Rightarrow> log_entry \<Rightarrow> 'l observer \<Rightarrow> 'l observer" where
  "observer_append L entry ob =
     ob\<lparr>ob_log := lo_append L (ob_log ob) entry,
        ob_last_fetched_epoch := le_epoch entry,
        ob_fetch_offset := le_offset entry + 1\<rparr>"

definition observer_handle_fetch_response ::
    "'l log_ops \<Rightarrow> 'l observer \<Rightarrow> fetch_response \<Rightarrow> 'l observer" where
  "observer_handle_fetch_response L ob resp =
     (let ob1 = (if 0 < fr_epoch resp
                 then ob\<lparr>ob_current_leader := Some (ucast (fr_epoch resp))\<rparr> else ob)
      in case fr_diverging resp of
           Some d \<Rightarrow>
             (let ob2 = ob1\<lparr>ob_log := lo_truncate L (ob_log ob1) (dv_end_offset d),
                            ob_fetch_offset := dv_end_offset d\<rparr>
              in if dv_end_offset d = 0 then ob2\<lparr>ob_last_fetched_epoch := 0\<rparr> else ob2)
         | None \<Rightarrow>
             (let ob2 = fold (observer_append L) (fr_entries resp) ob1
              in if ob_high_watermark ob2 < fr_high_watermark resp
                 then let old_hwm = ob_high_watermark ob2;
                          ob3 = ob2\<lparr>ob_high_watermark := fr_high_watermark resp\<rparr>;
                          committed = lo_entries L (ob_log ob3) old_hwm (fr_high_watermark resp)
                      in if committed \<noteq> [] then ob3\<lparr>ob_applied := ob_applied ob3 @ [committed]\<rparr>
                         else ob3
                 else ob2))"

section \<open>Properties\<close>

text \<open>C18: a crash at any point of \<open>persist\<close>, in the middle of the write too, where files that were
  not synced may hold anything and directory changes that were not synced may be undone, leaves
  a disk from which \<open>load\<close> returns the old quorum state or the new one: the old one until the
  rename, the new one once \<open>persist\<close> has returned. The disk it leaves is again one of which
  nothing is in the air, so that the same holds of the next \<open>persist\<close>.\<close>

theorem persist_is_atomic:
  assumes "quorum_serde S" and "disk_settled fs"
    and "disk_crash (fold disk_step (take k (persist_steps S q)) fs) fs'"
  shows "disk_settled fs' \<and> (quorum_state_load S fs' = quorum_state_load S fs \<or> quorum_state_load S fs' = q)
    \<and> (k < length (sd_to_vec S q) + 3 \<longrightarrow> quorum_state_load S fs' = quorum_state_load S fs)
    \<and> (length (persist_steps S q) \<le> k \<longrightarrow> quorum_state_load S fs' = q)"
  by (rule quorum_serde.load_crash [OF assms])

text \<open>An election timeout lies in the configured range, bounds included, unless the range is
  empty or all of \<open>u64\<close>; it depends on the number of proposals alone.\<close>

theorem election_duration_in_range:
  assumes "rn_election_timeout_range r = (lo, hi)" and "lo \<le> hi" and "hi - lo \<noteq> - 1"
  shows "\<exists>ms. random_election_duration r = Some ms \<and> lo \<le> ms \<and> ms \<le> hi
    \<and> ms = lo + rn_next_propose_id r mod (hi - lo + 1)"
proof -
  let ?w = "hi - lo + 1" and ?m = "rn_next_propose_id r mod (hi - lo + 1)"
  have w: "?w \<noteq> 0"
    using assms(3) by (metis add.commute eq_neg_iff_add_eq_0)
  then have "?m < ?w"
    by (simp add: word_mod_less_divisor word_gt_0)
  moreover have "unat ?w = Suc (unat (hi - lo))"
    using w unatSuc [of "hi - lo"] by (simp add: add.commute)
  ultimately have m: "?m \<le> hi - lo"
    by (simp add: word_less_nat_alt word_le_nat_alt)
  have "?m \<le> lo + ?m"
    using plus_minus_no_overflow_ab [OF m assms(2)] by (simp only: add.commute)
  then have "lo \<le> lo + ?m"
    by (rule olen_add_eqv [THEN iffD2])
  moreover have "lo + ?m \<le> hi"
    by (rule le_plus' [OF assms(2) m])
  ultimately show ?thesis
    using w assms(1) by (simp add: random_election_duration_def)
qed

end
