(* ===== verification/Raft_Json.thy ===== *)
theory Raft_Json
  imports Raft_Runtime
begin

text \<open>
  A reference codec for the quorum state: the compact JSON object \<open>serde_json\<close> writes for the
  struct \<open>QuorumState\<close>, such as \<open>{"current_epoch":7,"voted_for":2}\<close>. It shows that the law
  asked of the parameter can be met, and it is the codec of the concrete runs.
\<close>

section \<open>Decimal numbers\<close>

fun json_digits :: "nat \<Rightarrow> u8 list" where
  "json_digits n =
     (if n < 10 then [48 + of_nat n] else json_digits (n div 10) @ [48 + of_nat (n mod 10)])"

declare json_digits.simps [simp del]

definition json_digit :: "u8 \<Rightarrow> bool" where
  "json_digit b \<longleftrightarrow> 48 \<le> b \<and> b \<le> 57"

definition json_value :: "u8 list \<Rightarrow> nat" where
  "json_value bs = foldl (\<lambda>a b. a * 10 + unat (b - 48)) 0 bs"

lemma json_digit_small:
  assumes "n < 10"
  shows "json_digit (48 + of_nat n)" and "unat ((48 + of_nat n :: u8) - 48) = n"
proof -
  have "n \<in> {0, 1, 2, 3, 4, 5, 6, 7, 8, 9}"
    using assms by auto
  then show "json_digit (48 + of_nat n)" and "unat ((48 + of_nat n :: u8) - 48) = n"
    by (auto simp: json_digit_def)
qed

lemma json_digits_all: "b \<in> set (json_digits n) \<Longrightarrow> json_digit b"
proof (induction n rule: json_digits.induct)
  case (1 n)
  then show ?case
    by (simp add: json_digits.simps [of n] json_digit_small split: if_splits)
      (use json_digit_small(1) [of "n mod 10"] in auto)
qed

lemma json_value_digits: "json_value (json_digits n) = n"
proof (induction n rule: json_digits.induct)
  case (1 n)
  have "n mod 10 < 10"
    by simp
  with 1 show ?case
    by (simp add: json_digits.simps [of n] json_value_def json_digit_small)
qed

lemma json_take_digits:
  "\<not> json_digit b \<Longrightarrow> takeWhile json_digit (json_digits n @ b # bs) = json_digits n"
  by (simp add: json_digits_all takeWhile_tail takeWhile_append2)

section \<open>The codec\<close>

definition json_epoch_key :: "u8 list" where
  "json_epoch_key = map of_char ''{\"current_epoch\":''"

definition json_vote_key :: "u8 list" where
  "json_vote_key = map of_char '',\"voted_for\":''"

definition json_null :: "u8 list" where
  "json_null = map of_char ''null''"

definition json_to_vec :: "quorum_state \<Rightarrow> u8 list" where
  "json_to_vec q =
     json_epoch_key @ json_digits (unat (qs_current_epoch q)) @ json_vote_key
     @ (case qs_voted_for q of None \<Rightarrow> json_null | Some v \<Rightarrow> json_digits (unat v)) @ [125]"

definition json_from_str :: "u8 list \<Rightarrow> quorum_state option" where
  "json_from_str bs =
     (let r = drop (length json_epoch_key) bs;
          e = takeWhile json_digit r;
          v = takeWhile json_digit (drop (length e + length json_vote_key) r);
          q = \<lparr>qs_current_epoch = of_nat (json_value e),
               qs_voted_for = (if v = [] then None else Some (of_nat (json_value v)))\<rparr>
      in if json_to_vec q = bs then Some q else None)"

definition json_serde :: serde_ops where
  "json_serde = \<lparr>sd_to_vec = json_to_vec, sd_from_str = json_from_str\<rparr>"

lemma json_digits_ne [simp]: "json_digits n \<noteq> []"
  by (subst json_digits.simps) simp

lemma json_from_to: "json_from_str (json_to_vec q) = Some q"
proof -
  have comma: "\<not> json_digit (44 :: u8)" and brace: "\<not> json_digit (125 :: u8)"
    and n: "\<not> json_digit (110 :: u8)"
    by (simp_all add: json_digit_def)
  obtain k where k: "json_vote_key = 44 # k"
    by (simp add: json_vote_key_def)
  obtain u where u: "json_null = 110 # u"
    by (simp add: json_null_def)
  define t where "t = (case qs_voted_for q of None \<Rightarrow> json_null | Some v \<Rightarrow> json_digits (unat v)) @ [125]"
  have e: "takeWhile json_digit (drop (length json_epoch_key) (json_to_vec q))
      = json_digits (unat (qs_current_epoch q))"
    using json_take_digits [OF comma] by (simp add: json_to_vec_def k)
  have r: "drop (length (json_digits (unat (qs_current_epoch q))) + length json_vote_key)
      (drop (length json_epoch_key) (json_to_vec q)) = t"
    by (simp add: json_to_vec_def t_def)
  have v: "takeWhile json_digit t
      = (case qs_voted_for q of None \<Rightarrow> [] | Some v \<Rightarrow> json_digits (unat v))"
    using json_take_digits [OF brace, of _ "[]"] n by (simp add: t_def u split: option.splits)
  show ?thesis
    unfolding json_from_str_def Let_def e r v
    by (cases q) (simp add: json_value_digits split: option.splits)
qed

interpretation json: quorum_serde json_serde
  by unfold_locales (simp add: json_serde_def json_from_to)

section \<open>Witnesses\<close>

text \<open>A crash after the first byte of the second quorum state.\<close>

lemma persist_is_atomic_witness:
  "\<exists>fs fs'. disk_crash (fold disk_step (take 2 (persist_steps json_serde (quorum_state_new 4 (Some 1)))) fs) fs'
     \<and> fs = quorum_state_persist json_serde (quorum_state_new 3 None) quorum_files_empty
     \<and> quorum_state_load json_serde fs' = quorum_state_new 3 None"
proof -
  let ?fs = "quorum_state_persist json_serde (quorum_state_new 3 None) quorum_files_empty"
  let ?now = "fold disk_step (take 2 (persist_steps json_serde (quorum_state_new 4 (Some 1)))) ?fs"
  obtain fs' where crash: "disk_crash ?now fs'"
    using disk_crash.intros [of "qf_dir ?now" ?now "\<lambda>i. df_data (qf_inode ?now i)"] by blast
  have "quorum_state_load json_serde fs' = quorum_state_load json_serde ?fs"
    using persist_is_atomic [OF json.quorum_serde_axioms json.persisted(1) [OF disk_settled_empty] crash] by simp
  with crash json.persisted(2) [OF disk_settled_empty] show ?thesis
    by auto
qed

lemma election_duration_in_range_witness:
  "\<exists>ms. random_election_duration
      (runner_spawn json_serde 1 [1, 2, 3] () quorum_files_empty (150, 300)) = Some ms
    \<and> 150 \<le> ms \<and> ms \<le> 300"
  using election_duration_in_range
    [of "runner_spawn json_serde 1 [1, 2, 3] () quorum_files_empty (150, 300)" 150 300]
  by (auto simp: runner_spawn_def)

end
