(* ===== verification/Raft_Cluster.thy ===== *)
theory Raft_Cluster
  imports Raft_Json
begin

text \<open>
  A cluster of runners and a network that may delay, reorder, duplicate and lose messages.
  The crates do not contain a transport; the only thing assumed of it is that the \<open>from\<close> of an
  event is the server that sent the message. The ledger \<open>cast\<close> records every vote a server
  has ever held and \<open>elected\<close> every leader there has been; no server reads them.
\<close>

section \<open>The cluster\<close>

record 'l cluster =
  srv :: "u16 \<Rightarrow> 'l runner"
  net :: "(u16 \<times> u16 \<times> raft_message) set"
  cast :: "(u16 \<times> u32 \<times> u16) set"
  elected :: "(u32 \<times> u16) set"

fun deliver_event :: "u16 \<Rightarrow> raft_message \<Rightarrow> event" where
  "deliver_event src (MsgVote req) = EvVoteRequest src req"
| "deliver_event src (MsgVoteResponse resp) = EvVoteResponse src resp"
| "deliver_event src (MsgBeginQuorumEpoch req) = EvBeginQuorumEpoch src req"
| "deliver_event src (MsgEndQuorumEpoch req) = EvEndQuorumEpoch src req"
| "deliver_event src (MsgFetchRequest req) = EvFetchRequest src req"
| "deliver_event src (MsgFetchResponse resp) = EvFetchResponse src resp"

definition transmissions :: "u16 \<Rightarrow> effect list \<Rightarrow> (u16 \<times> u16 \<times> raft_message) set" where
  "transmissions d fx =
     set (List.map_filter (\<lambda>f. case f of Transmit dst m \<Rightarrow> Some (d, dst, m) | _ \<Rightarrow> None) fx)"

lemma in_transmissions [simp]:
  "(v, x, m) \<in> transmissions d fx \<longleftrightarrow> v = d \<and> Transmit x m \<in> set fx"
proof (induction fx)
  case (Cons f fx)
  then show ?case
    by (cases f) (auto simp: transmissions_def map_filter_simps)
qed (simp add: transmissions_def map_filter_simps)

definition vote_held :: "u16 \<Rightarrow> 'l node \<Rightarrow> (u16 \<times> u32 \<times> u16) set" where
  "vote_held d n = (case voted_for n of None \<Rightarrow> {} | Some c \<Rightarrow> {(d, current_epoch n, c)})"

definition office_held :: "u16 \<Rightarrow> 'l node \<Rightarrow> (u32 \<times> u16) set" where
  "office_held d n = (if role n = Leader then {(current_epoch n, d)} else {})"

definition cluster_update ::
    "u16 \<Rightarrow> 'l runner \<Rightarrow> effect list \<Rightarrow> 'l cluster \<Rightarrow> 'l cluster" where
  "cluster_update d r fx c =
     \<lparr>srv = (srv c)(d := r), net = net c \<union> transmissions d fx,
      cast = cast c \<union> vote_held d (rn_node r),
      elected = elected c \<union> office_held d (rn_node r)\<rparr>"

text \<open>
  \<open>G\<close> says which messages may be delivered to a node in its current state; a cluster without
  restriction has a \<open>G\<close> that is always true. A server that reached the last epoch does not
  start another election: the epoch counter would wrap to zero.
\<close>

inductive cluster_step ::
    "serde_ops \<Rightarrow> 'l log_ops \<Rightarrow> u16 list \<Rightarrow> ('l node \<Rightarrow> event \<Rightarrow> bool) \<Rightarrow>
      'l cluster \<Rightarrow> 'l cluster \<Rightarrow> bool"
  for S L V G where
  step_deliver:
    "\<lbrakk>d \<in> set V; (src, d, m) \<in> net c; G (rn_node (srv c d)) (deliver_event src m);
      runner_turn S L (srv c d) (Input (NetworkEvent (deliver_event src m))) = Some (r, fx)\<rbrakk>
     \<Longrightarrow> cluster_step S L V G c (cluster_update d r fx c)"
| step_propose:
    "\<lbrakk>d \<in> set V; runner_turn S L (srv c d) (Input (InPropose data reply)) = Some (r, fx)\<rbrakk>
     \<Longrightarrow> cluster_step S L V G c (cluster_update d r fx c)"
| step_election:
    "\<lbrakk>d \<in> set V; current_epoch (rn_node (srv c d)) \<noteq> - 1;
      runner_turn S L (srv c d) ElectionFires = Some (r, fx)\<rbrakk>
     \<Longrightarrow> cluster_step S L V G c (cluster_update d r fx c)"
| step_heartbeat:
    "\<lbrakk>d \<in> set V; runner_turn S L (srv c d) HeartbeatFires = Some (r, fx)\<rbrakk>
     \<Longrightarrow> cluster_step S L V G c (cluster_update d r fx c)"
| step_restart:
    "\<lbrakk>d \<in> set V; fs = rn_files (srv c d) \<or> disk_crash (rn_files (srv c d)) fs\<rbrakk>
     \<Longrightarrow> cluster_step S L V G c
          (cluster_update d (runner_spawn S d V (nd_log (rn_node (srv c d))) fs rng) [] c)"

definition cluster_init :: "serde_ops \<Rightarrow> u16 list \<Rightarrow> 'l \<Rightarrow> u64 \<times> u64 \<Rightarrow> 'l cluster" where
  "cluster_init S V l rng =
     \<lparr>srv = (\<lambda>d. runner_spawn S d V l quorum_files_empty rng),
      net = {}, cast = {}, elected = {}\<rparr>"

inductive cluster_reachable ::
    "serde_ops \<Rightarrow> 'l log_ops \<Rightarrow> u16 list \<Rightarrow> ('l node \<Rightarrow> event \<Rightarrow> bool) \<Rightarrow> 'l cluster \<Rightarrow> bool"
  for S L V G where
  reach_init: "cluster_reachable S L V G (cluster_init S V l rng)"
| reach_step: "cluster_reachable S L V G c \<Longrightarrow> cluster_step S L V G c c' \<Longrightarrow>
     cluster_reachable S L V G c'"

text \<open>The same steps as a function, to run a cluster.\<close>

datatype move =
    Deliver u16 u16 raft_message
  | ClientPropose u16 "u8 list" reply
  | Election u16
  | Heartbeat u16
  | Restart u16

definition turn_of :: "u16 \<Rightarrow> 'l cluster \<Rightarrow> ('l runner \<times> effect list) option \<Rightarrow> 'l cluster option" where
  "turn_of d c t = map_option (\<lambda>(r, fx). cluster_update d r fx c) t"

fun cluster_move ::
    "serde_ops \<Rightarrow> 'l log_ops \<Rightarrow> u16 list \<Rightarrow> ('l node \<Rightarrow> event \<Rightarrow> bool) \<Rightarrow>
      move \<Rightarrow> 'l cluster \<Rightarrow> 'l cluster option" where
  "cluster_move S L V G (Deliver src d m) c =
     (if d \<in> set V \<and> (src, d, m) \<in> net c \<and> G (rn_node (srv c d)) (deliver_event src m)
      then turn_of d c (runner_turn S L (srv c d) (Input (NetworkEvent (deliver_event src m))))
      else None)"
| "cluster_move S L V G (ClientPropose d data rep) c =
     (if d \<in> set V then turn_of d c (runner_turn S L (srv c d) (Input (InPropose data rep)))
      else None)"
| "cluster_move S L V G (Election d) c =
     (if d \<in> set V \<and> current_epoch (rn_node (srv c d)) \<noteq> - 1
      then turn_of d c (runner_turn S L (srv c d) ElectionFires) else None)"
| "cluster_move S L V G (Heartbeat d) c =
     (if d \<in> set V then turn_of d c (runner_turn S L (srv c d) HeartbeatFires) else None)"
| "cluster_move S L V G (Restart d) c =
     (if d \<in> set V
      then Some (cluster_update d (runner_spawn S d V (nd_log (rn_node (srv c d)))
             (rn_files (srv c d)) (rn_election_timeout_range (srv c d))) [] c)
      else None)"

fun cluster_moves ::
    "serde_ops \<Rightarrow> 'l log_ops \<Rightarrow> u16 list \<Rightarrow> ('l node \<Rightarrow> event \<Rightarrow> bool) \<Rightarrow>
      move list \<Rightarrow> 'l cluster \<Rightarrow> 'l cluster option" where
  "cluster_moves S L V G [] c = Some c"
| "cluster_moves S L V G (mv # mvs) c =
     Option.bind (cluster_move S L V G mv c) (cluster_moves S L V G mvs)"

lemma cluster_move_step: "cluster_move S L V G mv c = Some c' \<Longrightarrow> cluster_step S L V G c c'"
  by (cases mv) (auto simp: turn_of_def intro: cluster_step.intros split: if_splits)

lemma cluster_moves_reachable:
  "cluster_moves S L V G mvs c = Some c' \<Longrightarrow> cluster_reachable S L V G c \<Longrightarrow>
     cluster_reachable S L V G c'"
proof (induction mvs arbitrary: c)
  case (Cons mv mvs)
  then obtain c1 where "cluster_move S L V G mv c = Some c1"
    and "cluster_moves S L V G mvs c1 = Some c'"
    by (auto simp: bind_eq_Some_conv)
  with Cons show ?case
    by (blast intro: reach_step cluster_move_step)
qed simp

inductive_cases cluster_stepE: "cluster_step S L V G c c'"

text \<open>
  The restriction under which elections are safe: a node that has voted in its epoch gets no
  \<open>BeginQuorumEpoch\<close> or \<open>EndQuorumEpoch\<close> of that same epoch, whose handlers clear the vote.
\<close>

fun keeps_vote :: "'l node \<Rightarrow> event \<Rightarrow> bool" where
  "keeps_vote n (EvBeginQuorumEpoch src req) \<longleftrightarrow>
     bq_epoch req \<noteq> current_epoch n \<or> voted_for n = None"
| "keeps_vote n (EvEndQuorumEpoch src req) \<longleftrightarrow>
     eq_epoch req \<noteq> current_epoch n \<or> voted_for n = None"
| "keeps_vote n ev \<longleftrightarrow> True"

section \<open>What one event does to votes\<close>

definition epoch_can_rise :: "'l node \<Rightarrow> event \<Rightarrow> bool" where
  "epoch_can_rise n ev \<longleftrightarrow> (ev = ElectionTimeout \<longrightarrow> current_epoch n \<noteq> - 1)"

lemma node_handle_epoch:
  assumes "epoch_can_rise n ev"
  shows "current_epoch n \<le> current_epoch (fst (node_handle L n ev))"
  using assms word_less_Suc_max [of "current_epoch n"]
  by (cases ev) (auto simp: epoch_can_rise_def handler_simps split: option.splits)

lemma node_handle_vote:
  assumes "epoch_can_rise n ev" and "keeps_vote n ev"
  shows "current_epoch n < current_epoch (fst (node_handle L n ev))
    \<or> (current_epoch (fst (node_handle L n ev)) = current_epoch n
       \<and> (voted_for n = None \<or> voted_for (fst (node_handle L n ev)) = voted_for n))"
  using assms word_less_Suc_max [of "current_epoch n"]
  by (cases ev) (auto simp: epoch_can_rise_def handler_simps split: option.splits)

lemma node_handle_grant:
  assumes "SendVoteResponse dst resp \<in> set (snd (node_handle L n ev))" and "vr_granted resp"
  shows "vr_epoch resp = current_epoch (fst (node_handle L n ev))
    \<and> voted_for (fst (node_handle L n ev)) = Some dst"
  using assms
  by (cases ev)
    (auto simp: handler_simps become_leader_def try_advance_high_watermark_def
       check_committed_proposes_filter split: option.splits if_splits)

lemma node_handle_votes_received:
  assumes "v \<in> votes_received (fst (node_handle L n ev))"
  shows "(v = nd_id n \<and> voted_for (fst (node_handle L n ev)) = Some (nd_id n))
    \<or> (current_epoch (fst (node_handle L n ev)) = current_epoch n
       \<and> (v \<in> votes_received n
          \<or> (\<exists>resp. ev = EvVoteResponse v resp \<and> vr_epoch resp = current_epoch n \<and> vr_granted resp)))"
  using assms
  by (cases ev) (auto simp: handler_simps split: option.splits if_splits)

lemma node_handle_persists:
  "PersistQuorumState \<in> set (snd (node_handle L n ev))
    \<or> node_quorum_state (fst (node_handle L n ev)) = node_quorum_state n"
  by (cases ev) (auto simp: handler_simps node_quorum_state_def split: option.splits)

end
