(* ===== verification/Raft_Safety.thy ===== *)
theory Raft_Safety
  imports Raft_Cluster
begin

text \<open>
  Election safety of the cluster, as an invariant over the ledger of votes: a vote once cast
  binds the server for its epoch, across restarts too, because it is on disk before the
  response leaves; two majorities meet in a server; so an epoch has one leader.
\<close>

section \<open>Majorities\<close>

locale quorum_system =
  fixes quorum :: "'a set \<Rightarrow> bool"
  assumes quorums_meet: "quorum A \<Longrightarrow> quorum B \<Longrightarrow> A \<inter> B \<noteq> {}"
begin

lemma one_winner:
  assumes "quorum A" and "quorum B"
    and "\<forall>v \<in> A. ballot v a" and "\<forall>v \<in> B. ballot v b"
    and "\<And>v x y. ballot v x \<Longrightarrow> ballot v y \<Longrightarrow> x = y"
  shows "a = b"
  using quorums_meet [OF assms(1,2)] assms(3-5) by blast

end

definition voter_majority :: "u16 list \<Rightarrow> u16 set \<Rightarrow> bool" where
  "voter_majority V A \<longleftrightarrow> A \<subseteq> set V \<and> length V div 2 + 1 \<le> card A"

lemma majorities_meet:
  assumes "voter_majority V A" and "voter_majority V B"
  shows "A \<inter> B \<noteq> {}"
proof
  assume "A \<inter> B = {}"
  moreover have "finite A" and "finite B"
    using assms finite_subset by (auto simp: voter_majority_def)
  ultimately have "card (A \<union> B) = card A + card B"
    by (simp add: card_Un_disjoint)
  moreover have "card (A \<union> B) \<le> length V"
    using assms by (auto simp: voter_majority_def intro: le_trans [OF card_mono card_length])
  moreover have "length V div 2 + 1 \<le> card A" and "length V div 2 + 1 \<le> card B"
    using assms by (simp_all add: voter_majority_def)
  ultimately show False
    by linarith
qed

interpretation majority_of: quorum_system "voter_majority V" for V
  by unfold_locales (rule majorities_meet)

section \<open>What one turn of the runner does\<close>

lemma persist_action_node:
  "\<exists>l. rn_node (fst (persist_action S L a r)) = (rn_node r)\<lparr>nd_log := l\<rparr>"
proof -
  have "\<exists>l. rn_node r = (rn_node r)\<lparr>nd_log := l\<rparr>"
    by (rule exI [of _ "nd_log (rn_node r)"]) simp
  then show ?thesis
    by (cases a) (auto simp: persist_action_def Let_def)
qed

lemma persist_actions_node:
  "\<exists>l. rn_node (fst (persist_actions S L as r)) = (rn_node r)\<lparr>nd_log := l\<rparr>"
proof (induction as arbitrary: r)
  case Nil
  show ?case
    by (rule exI [of _ "nd_log (rn_node r)"]) simp
next
  case (Cons a as)
  obtain l where "rn_node (fst (persist_action S L a r)) = (rn_node r)\<lparr>nd_log := l\<rparr>"
    by (rule exE [OF persist_action_node])
  with Cons [of "fst (persist_action S L a r)"] show ?case
    by (auto simp: case_prod_unfold Let_def)
qed

lemma node_log_sel:
  "m = n\<lparr>nd_log := l\<rparr> \<Longrightarrow> nd_id m = nd_id n \<and> voters m = voters n \<and> role m = role n
     \<and> current_epoch m = current_epoch n \<and> voted_for m = voted_for n
     \<and> votes_received m = votes_received n \<and> node_quorum_state m = node_quorum_state n
     \<and> node_inv m = node_inv n"
  by (simp add: node_quorum_state_def node_inv_def)

lemma notify_action_frame:
  "notify_action a r = Some (r', fx) \<Longrightarrow> rn_node r' = rn_node r \<and> rn_files r' = rn_files r"
  by (cases a) (auto simp: notify_action_def answer_propose_def split: option.splits)

lemma notify_actions_frame:
  "notify_actions as r = Some (r', fx) \<Longrightarrow> rn_node r' = rn_node r \<and> rn_files r' = rn_files r"
  by (induction as arbitrary: r fx) (fastforce dest: notify_action_frame split: option.splits)+

lemma notify_action_vote:
  "notify_action a r = Some (r', fx) \<Longrightarrow> Transmit dst (MsgVoteResponse resp) \<in> set fx \<Longrightarrow>
     a = SendVoteResponse dst resp"
  by (cases a) (auto simp: notify_action_def answer_propose_def split: option.splits)

lemma notify_actions_vote:
  "notify_actions as r = Some (r', fx) \<Longrightarrow> Transmit dst (MsgVoteResponse resp) \<in> set fx \<Longrightarrow>
     SendVoteResponse dst resp \<in> set as"
  by (induction as arbitrary: r fx) (fastforce dest: notify_action_vote split: option.splits)+

text \<open>The first pass sends nothing, the second one leaves the disk alone.\<close>

fun on_disk :: "effect \<Rightarrow> bool" where
  "on_disk (Persisted q) = True"
| "on_disk (LogAppended entry) = True"
| "on_disk (LogTruncated offset) = True"
| "on_disk f = False"

lemma persist_actions_on_disk: "f \<in> set (snd (persist_actions S L as r)) \<Longrightarrow> on_disk f"
proof (induction as arbitrary: r)
  case (Cons a as)
  then show ?case
    by (cases a) (auto simp: persist_action_def case_prod_unfold Let_def)
qed simp

lemma notify_action_off_disk: "notify_action a r = Some (r', fx) \<Longrightarrow> f \<in> set fx \<Longrightarrow> \<not> on_disk f"
  by (cases a) (auto simp: notify_action_def answer_propose_def split: option.splits)

lemma notify_actions_off_disk: "notify_actions as r = Some (r', fx) \<Longrightarrow> f \<in> set fx \<Longrightarrow> \<not> on_disk f"
  by (induction as arbitrary: r fx) (fastforce dest: notify_action_off_disk split: option.splits)+

lemma files_after_append: "files_after S (fx @ fy) fs = files_after S fy (files_after S fx fs)"
  by (induction S fx fs rule: files_after.induct) simp_all

lemma files_after_off_disk: "\<forall>f \<in> set fx. \<not> on_disk f \<Longrightarrow> files_after S fx fs = fs"
  by (induction S fx fs rule: files_after.induct) simp_all

lemma persist_actions_files: "rn_files (fst (persist_actions S L as r)) = files_after S (snd (persist_actions S L as r)) (rn_files r)"
proof (induction as arbitrary: r)
  case (Cons a as)
  have "rn_files (fst (persist_action S L a r)) = files_after S (snd (persist_action S L a r)) (rn_files r)"
    by (cases a) (simp_all add: persist_action_def Let_def)
  with Cons show ?case
    by (simp add: case_prod_unfold Let_def files_after_append)
qed simp

context quorum_serde
begin

lemma persist_action_files:
  assumes "disk_settled (rn_files r)"
  shows "disk_settled (rn_files (fst (persist_action S L a r)))"
    and "quorum_state_load S (rn_files (fst (persist_action S L a r))) =
      (if a = PersistQuorumState then node_quorum_state (rn_node r)
       else quorum_state_load S (rn_files r))"
    and "node_quorum_state (rn_node (fst (persist_action S L a r))) = node_quorum_state (rn_node r)"
  using assms by (cases a; simp add: persist_action_def Let_def persisted node_quorum_state_def)+

lemma persist_actions_load:
  assumes "disk_settled (rn_files r)"
  shows "disk_settled (rn_files (fst (persist_actions S L as r)))
    \<and> quorum_state_load S (rn_files (fst (persist_actions S L as r))) =
      (if PersistQuorumState \<in> set as then node_quorum_state (rn_node r)
       else quorum_state_load S (rn_files r))"
  using assms by (induction as arbitrary: r) (auto simp: persist_action_files case_prod_unfold Let_def)

text \<open>
  The turn as the proof of safety sees it: the event, the node after it, and what is on disk
  when the messages leave.
\<close>

lemma runner_turn_summary:
  assumes "runner_turn S L r w = Some (r', fx)"
    and "quorum_state_load S (rn_files r) = node_quorum_state (rn_node r)" and "disk_settled (rn_files r)"
  obtains ev l n xs ys where
    "n = fst (node_handle L (rn_node r) ev)"
    and "rn_node r' = n\<lparr>nd_log := l\<rparr>"
    and "quorum_state_load S (rn_files r') = node_quorum_state (rn_node r')" and "disk_settled (rn_files r')"
    and "\<And>dst resp. Transmit dst (MsgVoteResponse resp) \<in> set fx \<Longrightarrow>
           SendVoteResponse dst resp \<in> set (snd (node_handle L (rn_node r) ev))"
    and "case w of ElectionFires \<Rightarrow> ev = ElectionTimeout | HeartbeatFires \<Rightarrow> ev = HeartbeatTimeout
         | Input (NetworkEvent e) \<Rightarrow> ev = e | Input (InPropose data rep) \<Rightarrow> \<exists>i. ev = Propose data i"
    and "fx = xs @ ys" "\<forall>f \<in> set xs. on_disk f" "\<forall>f \<in> set ys. \<not> on_disk f" "rn_files r' = files_after S xs (rn_files r)"
proof -
  obtain r1 ev where ev: "(case w of Input input \<Rightarrow> input_to_event r input
      | ElectionFires \<Rightarrow> (r, ElectionTimeout) | HeartbeatFires \<Rightarrow> (r, HeartbeatTimeout)) = (r1, ev)"
    by fastforce
  then have r1: "rn_node r1 = rn_node r" "rn_files r1 = rn_files r"
    by (auto simp: input_to_event_def Let_def split: wakeup.splits runner_input.splits)
  have w: "case w of ElectionFires \<Rightarrow> ev = ElectionTimeout | HeartbeatFires \<Rightarrow> ev = HeartbeatTimeout
         | Input (NetworkEvent e) \<Rightarrow> ev = e | Input (InPropose data rep) \<Rightarrow> \<exists>i. ev = Propose data i"
    using ev by (auto simp: input_to_event_def Let_def split: wakeup.splits runner_input.splits)
  let ?n = "fst (node_handle L (rn_node r) ev)" and ?as = "snd (node_handle L (rn_node r) ev)"
  let ?m = "persist_actions S L ?as (r1\<lparr>rn_node := ?n\<rparr>)"
  obtain ys where run: "notify_actions ?as (fst ?m) = Some (r', ys)" and fx: "fx = snd ?m @ ys"
    using assms(1) ev r1 by (auto simp: runner_turn_def execute_actions_def Let_def case_prod_unfold)
  obtain l where node: "rn_node r' = ?n\<lparr>nd_log := l\<rparr>"
    using notify_actions_frame [OF run] persist_actions_node [of S L ?as "r1\<lparr>rn_node := ?n\<rparr>"] by auto
  have files: "rn_files r' = files_after S (snd ?m) (rn_files r)"
    using notify_actions_frame [OF run] r1 by (simp add: persist_actions_files)
  have load: "disk_settled (rn_files r')" "quorum_state_load S (rn_files r') = node_quorum_state ?n"
    using notify_actions_frame [OF run] node_handle_persists [of L "rn_node r" ev] assms(2,3) r1
      persist_actions_load [of "r1\<lparr>rn_node := ?n\<rparr>" L ?as] by auto
  then have "quorum_state_load S (rn_files r') = node_quorum_state (rn_node r')"
    using node_log_sel [OF node] by simp
  moreover have "SendVoteResponse dst resp \<in> set ?as" if "Transmit dst (MsgVoteResponse resp) \<in> set fx" for dst resp
    using that notify_actions_vote [OF run] persist_actions_on_disk [of "Transmit dst (MsgVoteResponse resp)" S L ?as "r1\<lparr>rn_node := ?n\<rparr>"]
    by (auto simp: fx)
  ultimately show thesis
    using that [OF refl node _ load(1) _ w fx _ _ files] persist_actions_on_disk notify_actions_off_disk [OF run] by blast
qed

end

section \<open>The invariant of the cluster\<close>

definition server_inv :: "serde_ops \<Rightarrow> u16 list \<Rightarrow> 'l cluster \<Rightarrow> u16 \<Rightarrow> bool" where
  "server_inv S V c d \<longleftrightarrow>
     (let n = rn_node (srv c d)
      in nd_id n = d \<and> voters n = V \<and> node_inv n
         \<and> disk_settled (rn_files (srv c d)) \<and> quorum_state_load S (rn_files (srv c d)) = node_quorum_state n
         \<and> (\<forall>v \<in> votes_received n. (v, current_epoch n, d) \<in> cast c))"

text \<open>No server holds two votes of one epoch, and none holds a vote of an epoch to come.\<close>

definition cast_inv :: "u16 list \<Rightarrow> 'l cluster \<Rightarrow> bool" where
  "cast_inv V c \<longleftrightarrow>
     (\<forall>v e x. (v, e, x) \<in> cast c \<longrightarrow>
        v \<in> set V \<and> (let n = rn_node (srv c v) in
          e < current_epoch n \<or> (e = current_epoch n \<and> voted_for n = Some x)))
     \<and> (\<forall>v e x y. (v, e, x) \<in> cast c \<longrightarrow> (v, e, y) \<in> cast c \<longrightarrow> x = y)"

definition grants_inv :: "'l cluster \<Rightarrow> bool" where
  "grants_inv c \<longleftrightarrow> (\<forall>v x resp. (v, x, MsgVoteResponse resp) \<in> net c \<longrightarrow> vr_granted resp \<longrightarrow>
     (v, vr_epoch resp, x) \<in> cast c)"

definition elected_inv :: "u16 list \<Rightarrow> 'l cluster \<Rightarrow> bool" where
  "elected_inv V c \<longleftrightarrow> (\<forall>e x. (e, x) \<in> elected c \<longrightarrow>
     (\<exists>Q. voter_majority V Q \<and> (\<forall>v \<in> Q. (v, e, x) \<in> cast c)))"

definition cluster_inv :: "serde_ops \<Rightarrow> u16 list \<Rightarrow> 'l cluster \<Rightarrow> bool" where
  "cluster_inv S V c \<longleftrightarrow>
     (\<forall>d \<in> set V. server_inv S V c d) \<and> cast_inv V c \<and> grants_inv c \<and> elected_inv V c"

lemma cluster_inv_update:
  assumes inv: "cluster_inv S V c" and d: "d \<in> set V"
    and n: "n = rn_node (srv c d)" and m: "m = rn_node r"
    and frame: "nd_id m = d" "voters m = V" "node_inv m" "disk_settled (rn_files r)"
      "quorum_state_load S (rn_files r) = node_quorum_state m"
    and vote: "current_epoch n < current_epoch m
      \<or> (current_epoch m = current_epoch n \<and> (voted_for n = None \<or> voted_for m = voted_for n))"
    and received: "\<forall>v \<in> votes_received m. (v, current_epoch m, d) \<in> cast c \<union> vote_held d m"
    and grants: "\<And>x resp. Transmit x (MsgVoteResponse resp) \<in> set fx \<Longrightarrow> vr_granted resp \<Longrightarrow>
      vr_epoch resp = current_epoch m \<and> voted_for m = Some x"
  shows "cluster_inv S V (cluster_update d r fx c)"
proof -
  let ?c = "cluster_update d r fx c"
  have "\<forall>x \<in> set V. server_inv S V ?c x"
    using inv frame received m
    by (auto simp: cluster_inv_def server_inv_def cluster_update_def Let_def)
  moreover have cast: "cast_inv V ?c"
    using inv vote d n m
    unfolding cluster_inv_def cast_inv_def cluster_update_def vote_held_def Let_def
    by (auto split: option.splits if_splits; fastforce)
  moreover have "grants_inv ?c"
    using inv grants m
    by (fastforce simp: cluster_inv_def grants_inv_def cluster_update_def vote_held_def)
  moreover have "elected_inv V ?c"
  proof -
    have "voter_majority V (votes_received m)" if "role m = Leader"
      using that frame cast received m
      by (auto simp: node_inv_def voter_majority_def majority_def cast_inv_def cluster_update_def)
    with inv received m show ?thesis
      unfolding cluster_inv_def elected_inv_def cluster_update_def office_held_def
      by (fastforce split: if_splits)
  qed
  ultimately show ?thesis
    by (simp add: cluster_inv_def)
qed

section \<open>Election safety\<close>

lemma deliver_event_simps:
  "deliver_event src m = EvVoteResponse v g \<longleftrightarrow> src = v \<and> m = MsgVoteResponse g"
  "EvVoteResponse v g = deliver_event src m \<longleftrightarrow> src = v \<and> m = MsgVoteResponse g"
  "deliver_event src m \<noteq> ElectionTimeout"
  by (cases m; auto)+

context quorum_serde
begin

lemma turn_cluster_inv:
  assumes inv: "cluster_inv S V c" and d: "d \<in> set V"
    and turn: "runner_turn S L (srv c d) w = Some (r, fx)"
    and fires: "w = ElectionFires \<Longrightarrow> current_epoch (rn_node (srv c d)) \<noteq> - 1"
    and gets: "\<And>ev. w = Input (NetworkEvent ev) \<Longrightarrow>
      \<exists>src msg. (src, d, msg) \<in> net c \<and> ev = deliver_event src msg
        \<and> keeps_vote (rn_node (srv c d)) ev"
  shows "cluster_inv S V (cluster_update d r fx c)"
proof -
  let ?n = "rn_node (srv c d)"
  have sinv: "server_inv S V c d"
    using inv d by (simp add: cluster_inv_def)
  then have disk: "quorum_state_load S (rn_files (srv c d)) = node_quorum_state ?n" "disk_settled (rn_files (srv c d))"
    by (simp_all add: server_inv_def Let_def)
  obtain ev l m where m: "m = fst (node_handle L ?n ev)"
    and r: "rn_node r = m\<lparr>nd_log := l\<rparr>"
    and load: "quorum_state_load S (rn_files r) = node_quorum_state (rn_node r)" and settled: "disk_settled (rn_files r)"
    and resp: "\<And>dst resp. Transmit dst (MsgVoteResponse resp) \<in> set fx \<Longrightarrow>
           SendVoteResponse dst resp \<in> set (snd (node_handle L ?n ev))"
    and ev: "case w of ElectionFires \<Rightarrow> ev = ElectionTimeout | HeartbeatFires \<Rightarrow> ev = HeartbeatTimeout
         | Input (NetworkEvent e) \<Rightarrow> ev = e | Input (InPropose data rep) \<Rightarrow> \<exists>i. ev = Propose data i"
    by (rule runner_turn_summary [OF turn disk]) (rule that; assumption)
  have keeps: "keeps_vote ?n ev" and rise: "epoch_can_rise ?n ev"
    using ev fires gets
    by (auto simp: epoch_can_rise_def deliver_event_simps split: wakeup.splits runner_input.splits)
  have got: "\<And>v g. ev = EvVoteResponse v g \<Longrightarrow> (v, d, MsgVoteResponse g) \<in> net c"
    using ev gets by (auto simp: deliver_event_simps split: wakeup.splits runner_input.splits)
  note sel = node_log_sel [OF r]
  have received: "\<forall>v \<in> votes_received m. (v, current_epoch m, d) \<in> cast c \<union> vote_held d m"
    using node_handle_votes_received [of _ L ?n ev] sinv inv got
    unfolding m [symmetric]
    by (fastforce simp: server_inv_def cluster_inv_def grants_inv_def vote_held_def Let_def)
  show ?thesis
  proof (rule cluster_inv_update [OF inv d refl refl])
    show "nd_id (rn_node r) = d" and "voters (rn_node r) = V" and "node_inv (rn_node r)"
      using sinv sel node_handle_inv [of ?n L ev] by (simp_all add: server_inv_def m Let_def)
    show "current_epoch ?n < current_epoch (rn_node r)
      \<or> (current_epoch (rn_node r) = current_epoch ?n
         \<and> (voted_for ?n = None \<or> voted_for (rn_node r) = voted_for ?n))"
      using node_handle_vote [OF rise keeps, of L] sel by (simp add: m)
    show "\<forall>v \<in> votes_received (rn_node r).
        (v, current_epoch (rn_node r), d) \<in> cast c \<union> vote_held d (rn_node r)"
      using received sel by (simp add: vote_held_def split: option.splits)
    show "vr_epoch resp = current_epoch (rn_node r) \<and> voted_for (rn_node r) = Some x"
      if "Transmit x (MsgVoteResponse resp) \<in> set fx" "vr_granted resp" for x resp
      using node_handle_grant [OF resp [OF that(1)] that(2)] sel
      by (simp add: m)
  qed (rule settled, rule load)
qed

lemma restart_cluster_inv:
  assumes "cluster_inv S V c" and "d \<in> set V"
    and fs: "fs = rn_files (srv c d) \<or> disk_crash (rn_files (srv c d)) fs"
  shows "cluster_inv S V (cluster_update d (runner_spawn S d V l fs rng) [] c)"
proof (rule cluster_inv_update [OF assms(1,2) refl refl])
  show "node_inv (rn_node (runner_spawn S d V l fs rng))"
    by (simp add: runner_spawn_def node_new_inv)
  have disk: "disk_settled (rn_files (srv c d))" "quorum_state_load S (rn_files (srv c d)) = node_quorum_state (rn_node (srv c d))"
    using assms(1,2) by (auto simp: cluster_inv_def server_inv_def Let_def)
  then have files: "disk_settled fs \<and> quorum_state_load S fs = node_quorum_state (rn_node (srv c d))"
    using fs settled_crash [OF disk(1), of fs S] by auto
  then show "disk_settled (rn_files (runner_spawn S d V l fs rng))"
    by (simp add: runner_spawn_def)
  show "current_epoch (rn_node (srv c d)) < current_epoch (rn_node (runner_spawn S d V l fs rng))
      \<or> (current_epoch (rn_node (runner_spawn S d V l fs rng)) = current_epoch (rn_node (srv c d))
         \<and> (voted_for (rn_node (srv c d)) = None
            \<or> voted_for (rn_node (runner_spawn S d V l fs rng)) = voted_for (rn_node (srv c d))))"
    using files by (simp add: runner_spawn_def node_new_def node_quorum_state_def)
qed (auto simp: runner_spawn_def node_new_def node_quorum_state_def)

lemma init_cluster_inv: "cluster_inv S V (cluster_init S V l rng)"
  by (simp add: cluster_inv_def server_inv_def cast_inv_def grants_inv_def elected_inv_def
      cluster_init_def runner_spawn_def node_new_inv Let_def)
    (simp add: node_new_def node_quorum_state_def)

lemma step_cluster_inv:
  assumes "cluster_step S L V keeps_vote c c'" and inv: "cluster_inv S V c"
  shows "cluster_inv S V c'"
  using assms(1)
proof (cases rule: cluster_step.cases)
  case (step_deliver d src m r fx)
  with turn_cluster_inv [OF inv] show ?thesis
    by blast
next
  case (step_propose d data reply r fx)
  with turn_cluster_inv [OF inv] show ?thesis
    by blast
next
  case (step_election d r fx)
  with turn_cluster_inv [OF inv] show ?thesis
    by blast
next
  case (step_heartbeat d r fx)
  with turn_cluster_inv [OF inv] show ?thesis
    by blast
next
  case (step_restart d rng)
  with restart_cluster_inv [OF inv] show ?thesis
    by simp
qed

lemma reachable_cluster_inv: "cluster_reachable S L V keeps_vote c \<Longrightarrow> cluster_inv S V c"
  by (induction rule: cluster_reachable.induct) (auto intro: init_cluster_inv step_cluster_inv)

lemma reachable_one_leader:
  assumes "cluster_reachable S L V keeps_vote c"
    and "(e, a) \<in> elected c" and "(e, b) \<in> elected c"
  shows "a = b"
proof -
  have inv: "cluster_inv S V c"
    by (rule reachable_cluster_inv [OF assms(1)])
  obtain A B where "voter_majority V A" "voter_majority V B"
    and "\<forall>v \<in> A. (v, e, a) \<in> cast c" "\<forall>v \<in> B. (v, e, b) \<in> cast c"
    using inv assms(2,3) unfolding cluster_inv_def elected_inv_def by blast
  then show ?thesis
    using inv majority_of.one_winner [of V A B "\<lambda>v x. (v, e, x) \<in> cast c" a b]
    unfolding cluster_inv_def cast_inv_def by blast
qed

end

section \<open>Properties\<close>

text \<open>C1: in a cluster whose servers restart, whose network loses, repeats and reorders messages,
  and in which no server that has voted is told of a leader of its own epoch, every epoch has
  at most one leader.\<close>

theorem election_safety:
  assumes "quorum_serde S" and "cluster_reachable S L V keeps_vote c"
    and "(e, a) \<in> elected c" and "(e, b) \<in> elected c"
  shows "a = b"
  by (rule quorum_serde.reachable_one_leader [OF assms])

definition three_voters :: "u16 list" where
  "three_voters = [1, 2, 3]"

definition first_vote :: "u16 \<Rightarrow> raft_message" where
  "first_vote d =
     MsgVote \<lparr>vq_epoch = 1, vq_candidate_id = d, vq_last_log_epoch = 0, vq_last_log_offset = 0\<rparr>"

definition first_grant :: raft_message where
  "first_grant = MsgVoteResponse \<lparr>vr_epoch = 1, vr_granted = True\<rparr>"

definition first_leader :: "move list" where
  "first_leader =
     [Election 1, Deliver 1 2 (first_vote 1), Deliver 2 1 first_grant]"

definition second_leader :: "move list" where
  "second_leader =
     [Deliver 1 2 (MsgBeginQuorumEpoch \<lparr>bq_epoch = 1, bq_leader_id = 1\<rparr>),
      Election 3, Deliver 3 2 (first_vote 3), Deliver 2 3 first_grant]"

definition cluster_of_three :: "vec_log cluster" where
  "cluster_of_three = cluster_init json_serde three_voters [] (150, 300)"

lemma first_leader_run:
  "map_option elected
     (cluster_moves json_serde vec_log_ops three_voters keeps_vote first_leader cluster_of_three)
   = Some {(1, 1)}"
  by code_simp

lemma election_safety_witness:
  "\<exists>c. cluster_reachable json_serde vec_log_ops three_voters keeps_vote c \<and> (1, 1) \<in> elected c
     \<and> (\<forall>b. (1, b) \<in> elected c \<longrightarrow> b = 1)"
proof -
  obtain c where c: "cluster_moves json_serde vec_log_ops three_voters keeps_vote first_leader
      cluster_of_three = Some c" and el: "(1, 1) \<in> elected c"
    using first_leader_run by auto
  then have r: "cluster_reachable json_serde vec_log_ops three_voters keeps_vote c"
    by (metis cluster_moves_reachable cluster_of_three_def reach_init)
  show ?thesis
    using r el election_safety [OF json.quorum_serde_axioms r _ el] by blast
qed

text \<open>C12: without that restriction the handlers of \<open>BeginQuorumEpoch\<close> and
  \<open>EndQuorumEpoch\<close> are not safe: they clear the vote of a server that already voted in the
  epoch of the message, and a run of four messages and two timeouts ends with two leaders of
  epoch 1 among three voters.\<close>

theorem cleared_vote_elects_two_leaders:
  "\<exists>c. cluster_reachable json_serde vec_log_ops three_voters (\<lambda>n ev. True) c
     \<and> (1, 1) \<in> elected c \<and> (1, 3) \<in> elected c
     \<and> role (rn_node (srv c 1)) = Leader \<and> role (rn_node (srv c 3)) = Leader
     \<and> current_epoch (rn_node (srv c 1)) = current_epoch (rn_node (srv c 3))"
proof -
  let ?run = "cluster_moves json_serde vec_log_ops three_voters (\<lambda>n ev. True)
      (first_leader @ second_leader) cluster_of_three"
  have "map_option (\<lambda>c. (elected c, role (rn_node (srv c 1)), role (rn_node (srv c 3)),
      current_epoch (rn_node (srv c 1)), current_epoch (rn_node (srv c 3)))) ?run
    = Some ({(1, 1), (1, 3)}, Leader, Leader, 1, 1)"
    by code_simp
  then obtain c where run: "?run = Some c"
    and "elected c = {(1, 1), (1, 3)}" "role (rn_node (srv c 1)) = Leader"
      "role (rn_node (srv c 3)) = Leader" "current_epoch (rn_node (srv c 1)) = 1"
      "current_epoch (rn_node (srv c 3)) = 1"
    by auto
  moreover have "cluster_reachable json_serde vec_log_ops three_voters (\<lambda>n ev. True) c"
    using run by (metis cluster_moves_reachable cluster_of_three_def reach_init)
  ultimately show ?thesis
    by auto
qed

text \<open>C13: after every turn of a runner whose quorum state was on disk, it is on disk again and nothing of
  it is in the air, so that a restart, after a crash too, resumes with the epoch and the vote of the
  node; and whatever a crash leaves after the effects that come before a response that grants a
  vote, in the order in which the turn has them, holds that vote: no grant leaves before its vote
  is on disk.\<close>

theorem disk_follows_node:
  assumes "quorum_serde S" and "runner_turn S L r w = Some (r', fx)"
    and "quorum_state_load S (rn_files r) = node_quorum_state (rn_node r)" and "disk_settled (rn_files r)"
  shows "quorum_state_load S (rn_files r') = node_quorum_state (rn_node r') \<and> disk_settled (rn_files r')
    \<and> rn_files r' = files_after S fx (rn_files r)
    \<and> (\<forall>fs i vs l rng. disk_crash (rn_files r') fs \<longrightarrow>
         node_quorum_state (rn_node (runner_spawn S i vs l fs rng)) = node_quorum_state (rn_node r'))
    \<and> (\<forall>before dst resp after fs. fx = before @ Transmit dst (MsgVoteResponse resp) # after \<longrightarrow> vr_granted resp \<longrightarrow>
         disk_crash (files_after S before (rn_files r)) fs \<longrightarrow>
         quorum_state_load S fs = \<lparr>qs_current_epoch = vr_epoch resp, qs_voted_for = Some dst\<rparr>)"
proof -
  obtain ev l n xs ys where n: "n = fst (node_handle L (rn_node r) ev)"
    and r': "rn_node r' = n\<lparr>nd_log := l\<rparr>"
    and load: "quorum_state_load S (rn_files r') = node_quorum_state (rn_node r')" and settled: "disk_settled (rn_files r')"
    and resp: "\<And>dst resp. Transmit dst (MsgVoteResponse resp) \<in> set fx \<Longrightarrow>
           SendVoteResponse dst resp \<in> set (snd (node_handle L (rn_node r) ev))"
    and fx: "fx = xs @ ys" "\<forall>f \<in> set xs. on_disk f" "\<forall>f \<in> set ys. \<not> on_disk f" and files: "rn_files r' = files_after S xs (rn_files r)"
    by (rule quorum_serde.runner_turn_summary [OF assms]) (rule that; assumption)
  note crashed = settled_crash [OF settled, of _ S]
  have "quorum_state_load S fs = \<lparr>qs_current_epoch = vr_epoch g, qs_voted_for = Some dst\<rparr>"
    if split: "fx = before @ Transmit dst (MsgVoteResponse g) # after" and "vr_granted g"
      and crash: "disk_crash (files_after S before (rn_files r)) fs" for before dst g after fs
  proof -
    have "node_quorum_state (rn_node r') = \<lparr>qs_current_epoch = vr_epoch g, qs_voted_for = Some dst\<rparr>"
      using node_handle_grant [OF resp \<open>vr_granted g\<close>, of dst] split r' n by (simp add: node_quorum_state_def)
    moreover obtain zs where zs: "before = xs @ zs" "\<forall>f \<in> set zs. \<not> on_disk f"
    proof -
      consider us where "xs = before @ us" "us @ ys = Transmit dst (MsgVoteResponse g) # after"
        | us where "before = xs @ us" "ys = us @ Transmit dst (MsgVoteResponse g) # after"
        using fx(1) split by (auto simp: append_eq_append_conv2)
      then show thesis
      proof cases
        case (1 us)
        then show thesis
          using fx(2) that [of "[]"] by (cases us) auto
      next
        case (2 us)
        then show thesis
          using fx(3) that [of us] by simp
      qed
    qed
    ultimately show ?thesis
      using crash crashed load files by (auto simp: files_after_append files_after_off_disk)
  qed
  moreover have "rn_files r' = files_after S fx (rn_files r)"
    using fx files by (simp add: files_after_append files_after_off_disk)
  ultimately show ?thesis
    using load settled crashed by (auto simp: runner_spawn_def node_new_def node_quorum_state_def)
qed

definition fresh_runner :: "vec_log runner" where
  "fresh_runner = runner_spawn json_serde 1 three_voters [] quorum_files_empty (150, 300)"

definition vote_for_two :: wakeup where
  "vote_for_two = Input (NetworkEvent (EvVoteRequest 2
     \<lparr>vq_epoch = 1, vq_candidate_id = 2, vq_last_log_epoch = 0, vq_last_log_offset = 0\<rparr>))"

lemma disk_follows_node_witness:
  "\<exists>r' before after. runner_turn json_serde vec_log_ops fresh_runner vote_for_two =
       Some (r', before @ Transmit 2 (MsgVoteResponse \<lparr>vr_epoch = 1, vr_granted = True\<rparr>) # after)
     \<and> (\<forall>fs. disk_crash (files_after json_serde before (rn_files fresh_runner)) fs \<longrightarrow>
          quorum_state_load json_serde fs = \<lparr>qs_current_epoch = 1, qs_voted_for = Some 2\<rparr>)"
proof -
  let ?g = "Transmit 2 (MsgVoteResponse \<lparr>vr_epoch = 1, vr_granted = True\<rparr>)"
  have "map_option (\<lambda>(r', fx). ?g \<in> set fx) (runner_turn json_serde vec_log_ops fresh_runner vote_for_two) = Some True"
    by code_simp
  then obtain r' fx where turn: "runner_turn json_serde vec_log_ops fresh_runner vote_for_two = Some (r', fx)"
    and "?g \<in> set fx"
    by auto
  then obtain before after where fx: "fx = before @ ?g # after"
    by (meson split_list)
  have "quorum_state_load json_serde (rn_files fresh_runner) = node_quorum_state (rn_node fresh_runner)"
    "disk_settled (rn_files fresh_runner)"
    by (simp_all add: fresh_runner_def runner_spawn_def node_new_def node_quorum_state_def)
  from disk_follows_node [OF json.quorum_serde_axioms turn this]
  have "\<forall>before dst resp after fs. fx = before @ Transmit dst (MsgVoteResponse resp) # after \<longrightarrow> vr_granted resp \<longrightarrow>
      disk_crash (files_after json_serde before (rn_files fresh_runner)) fs \<longrightarrow>
      quorum_state_load json_serde fs = \<lparr>qs_current_epoch = vr_epoch resp, qs_voted_for = Some dst\<rparr>"
    by blast
  from this [rule_format, OF fx] have "disk_crash (files_after json_serde before (rn_files fresh_runner)) fs \<longrightarrow>
      quorum_state_load json_serde fs = \<lparr>qs_current_epoch = 1, qs_voted_for = Some 2\<rparr>" for fs
    by simp
  with turn fx show ?thesis
    by blast
qed

end
