(* ===== verification/Raft_Watermark.thy ===== *)
theory Raft_Watermark
  imports Raft_Node
begin

text \<open>
  The high watermark of a node: it never passes the end of the log, it never moves back while
  an event is handled, and a leader moves it only to an offset that a majority of the voters
  has fetched and whose last entry is of the leader's own epoch.
\<close>

section \<open>The invariant\<close>

definition watermark_inv :: "'l log_ops \<Rightarrow> 'l node \<Rightarrow> bool" where
  "watermark_inv L n \<longleftrightarrow>
     high_watermark n \<le> lo_log_end_offset L (nd_log n)
     \<and> (role n = Leader \<longrightarrow>
          (\<forall>p \<in> set (voter_fetch_offsets n).
             fst p \<noteq> nd_id n \<and> snd p \<le> lo_log_end_offset L (nd_log n)))"

fun event_src :: "event \<Rightarrow> u16 option" where
  "event_src (EvVoteRequest src req) = Some src"
| "event_src (EvVoteResponse src resp) = Some src"
| "event_src (EvBeginQuorumEpoch src req) = Some src"
| "event_src (EvEndQuorumEpoch src req) = Some src"
| "event_src (EvFetchRequest src req) = Some src"
| "event_src (EvFetchResponse src resp) = Some src"
| "event_src ev = None"

text \<open>The voters known to hold every entry below \<open>h\<close>.\<close>

definition replicated :: "'l log_ops \<Rightarrow> 'l node \<Rightarrow> u64 \<Rightarrow> u16 set" where
  "replicated L n h =
     {v \<in> set (voters n).
        if v = nd_id n then h \<le> lo_log_end_offset L (nd_log n)
        else \<exists>fo. map_of (voter_fetch_offsets n) v = Some fo \<and> h \<le> fo}"

lemma watermark_inv_hwm: "watermark_inv L n \<Longrightarrow> high_watermark n \<le> lo_log_end_offset L (nd_log n)"
  by (simp add: watermark_inv_def)

lemma watermark_inv_not_leader:
  "role n \<noteq> Leader \<Longrightarrow> watermark_inv L n \<longleftrightarrow> high_watermark n \<le> lo_log_end_offset L (nd_log n)"
  by (simp add: watermark_inv_def)

lemma watermark_inv_update [simp]:
  "watermark_inv L (n\<lparr>voted_for := v\<rparr>) = watermark_inv L n"
  "watermark_inv L (n\<lparr>votes_received := vs\<rparr>) = watermark_inv L n"
  "watermark_inv L (n\<lparr>pending_proposes := ps\<rparr>) = watermark_inv L n"
  by (simp_all add: watermark_inv_def)

lemma become_leader_watermark [simp]:
  "watermark_inv L (fst (become_leader n)) \<longleftrightarrow> high_watermark n \<le> lo_log_end_offset L (nd_log n)"
proof -
  let ?X = "set (voter_fetch_offsets (fst (become_leader n)))"
  have "\<forall>p \<in> ?X. fst p \<noteq> nd_id n"
    using become_leader_offsets(2) [of n] by (metis Diff_iff image_eqI singletonI)
  moreover have "\<forall>p \<in> ?X. snd p = 0"
    using become_leader_offsets(3) [where n = n] by blast
  ultimately show ?thesis
    by (simp add: watermark_inv_def)
qed

lemma u64_pred_less:
  fixes a b :: u64
  assumes "a \<noteq> 0"
  shows "a - 1 < b \<longleftrightarrow> a \<le> b"
proof -
  have "unat (a - 1) = unat a - 1" and "0 < unat a"
    using assms by (simp_all add: unat_minus_one unat_gt_0)
  then show ?thesis
    unfolding word_less_nat_alt word_le_nat_alt by linarith
qed

section \<open>The candidate watermark\<close>

definition sorted_offsets :: "'l log_ops \<Rightarrow> 'l node \<Rightarrow> u64 list" where
  "sorted_offsets L n =
     rev (sort (map snd (voter_fetch_offsets n) @ [lo_log_end_offset L (nd_log n)]))"

lemma set_sorted_offsets:
  "set (sorted_offsets L n) = insert (lo_log_end_offset L (nd_log n)) (snd ` set (voter_fetch_offsets n))"
  by (simp add: sorted_offsets_def)

lemma length_sorted_offsets [simp]:
  "length (sorted_offsets L n) = Suc (length (voter_fetch_offsets n))"
  by (simp add: sorted_offsets_def)

lemma sorted_offsets_desc: "sorted_wrt (\<ge>) (sorted_offsets L n)"
  by (simp add: sorted_offsets_def sorted_wrt_rev del: sorted_sort) (rule sorted_sort)

lemma try_advance_high_watermark_alt:
  "try_advance_high_watermark L n =
     (let h = sorted_offsets L n ! (majority n - 1)
      in if length (sorted_offsets L n) < majority n \<or> h \<le> high_watermark n
            \<or> (\<exists>epoch. lo_epoch_at L (nd_log n) (h - 1) = Some epoch \<and> epoch \<noteq> current_epoch n)
         then (n, [])
         else (fst (check_committed_proposes (n\<lparr>high_watermark := h\<rparr>)),
               AdvanceHighWatermark h # snd (check_committed_proposes (n\<lparr>high_watermark := h\<rparr>))))"
  by (simp add: try_advance_high_watermark_def sorted_offsets_def Let_def case_prod_unfold
      split: option.splits)

lemma length_filter_sorted_offsets:
  "length (filter P (sorted_offsets L n)) =
     length (filter P (map snd (voter_fetch_offsets n)))
     + (if P (lo_log_end_offset L (nd_log n)) then 1 else 0)"
proof -
  have "mset (sorted_offsets L n) =
      mset (map snd (voter_fetch_offsets n) @ [lo_log_end_offset L (nd_log n)])"
    by (simp add: sorted_offsets_def)
  then have "length (filter P (sorted_offsets L n)) =
      length (filter P (map snd (voter_fetch_offsets n) @ [lo_log_end_offset L (nd_log n)]))"
    by (metis mset_filter size_mset)
  then show ?thesis
    by simp
qed

lemma length_filter_values:
  assumes "distinct (map fst m)"
  shows "length (filter P (map snd m)) = card {k. \<exists>v. map_of m k = Some v \<and> P v}"
proof -
  have "{k. \<exists>v. map_of m k = Some v \<and> P v} = set (map fst (filter (\<lambda>p. P (snd p)) m))"
    using assms by (force simp: image_iff map_of_eq_Some_iff)
  moreover have "distinct (map fst (filter (\<lambda>p. P (snd p)) m))"
    using assms by (simp add: distinct_map_filter)
  ultimately have "card {k. \<exists>v. map_of m k = Some v \<and> P v} = length (filter (\<lambda>p. P (snd p)) m)"
    by (metis distinct_card length_map)
  then show ?thesis
    by (simp add: filter_map comp_def)
qed

lemma replicated_card:
  assumes "nd_id n \<in> set (voters n)" and "nd_id n \<notin> fst ` set (voter_fetch_offsets n)"
    and "distinct (map fst (voter_fetch_offsets n))"
    and "fst ` set (voter_fetch_offsets n) \<subseteq> set (voters n)"
  shows "card (replicated L n h) = length (filter (\<lambda>x. h \<le> x) (sorted_offsets L n))"
proof -
  let ?K = "{k. \<exists>v. map_of (voter_fetch_offsets n) k = Some v \<and> h \<le> v}"
  have sub: "?K \<subseteq> fst ` set (voter_fetch_offsets n)"
    by (force dest: map_of_SomeD)
  then have sub': "?K \<subseteq> set (voters n)"
    using assms(4) by (rule order_trans)
  then have "finite ?K"
    by (rule finite_subset) simp
  moreover have "nd_id n \<notin> ?K"
    using sub assms(2) by blast
  moreover have "replicated L n h =
      (if h \<le> lo_log_end_offset L (nd_log n) then insert (nd_id n) ?K else ?K)"
    using assms(1) sub' \<open>nd_id n \<notin> ?K\<close> by (auto simp: replicated_def)
  ultimately show ?thesis
    using length_filter_values [OF assms(3), of "\<lambda>x. h \<le> x"]
    by (simp add: length_filter_sorted_offsets)
qed

lemma check_committed_no_advance:
  "AdvanceHighWatermark h \<notin> set (snd (check_committed_proposes n))"
  by (auto simp: check_committed_proposes_filter)

section \<open>What a log contributes\<close>

context raft_log_view
begin

lemma candidate_bound:
  assumes "inv (nd_log n)" and "watermark_inv L n" and "role n = Leader"
    and "k < length (sorted_offsets L n)"
  shows "sorted_offsets L n ! k \<le> lo_log_end_offset L (nd_log n)"
  using assms nth_mem [OF assms(4)] by (auto simp: watermark_inv_def set_sorted_offsets)

lemma try_advance_inv:
  assumes "inv (nd_log n)" and "watermark_inv L n" and "role n = Leader"
  shows "watermark_inv L (fst (try_advance_high_watermark L n))
    \<and> high_watermark n \<le> high_watermark (fst (try_advance_high_watermark L n))"
proof -
  have "sorted_offsets L n ! (majority n - 1) \<le> lo_log_end_offset L (nd_log n)"
    if "\<not> length (sorted_offsets L n) < majority n"
    using candidate_bound [OF assms, of "majority n - 1"] that majority_pos [of n] by linarith
  then show ?thesis
    using assms(2) by (auto simp: try_advance_high_watermark_alt watermark_inv_def Let_def)
qed

lemma try_advance_quorum:
  assumes "inv (nd_log n)" and "node_inv n" and "watermark_inv L n" and "role n = Leader"
    and "nd_id n \<in> set (voters n)"
    and "AdvanceHighWatermark h \<in> set (snd (try_advance_high_watermark L n))"
  shows "high_watermark n < h"
    and "high_watermark (fst (try_advance_high_watermark L n)) = h"
    and "majority n \<le> card (replicated L n h)"
    and "lo_epoch_at L (nd_log n) (h - 1) = Some (current_epoch n)"
proof -
  let ?k = "majority n - 1"
  from assms(6) have len: "\<not> length (sorted_offsets L n) < majority n"
    and h: "h = sorted_offsets L n ! ?k" and gt: "\<not> h \<le> high_watermark n"
    and ep: "\<And>e. lo_epoch_at L (nd_log n) (h - 1) = Some e \<Longrightarrow> e = current_epoch n"
    and new: "high_watermark (fst (try_advance_high_watermark L n)) = h"
    using check_committed_no_advance
    by (auto simp: try_advance_high_watermark_alt Let_def split: if_splits)
  show "high_watermark n < h"
    using gt by simp
  show "high_watermark (fst (try_advance_high_watermark L n)) = h"
    by (rule new)
  have k: "?k < length (sorted_offsets L n)"
    using len majority_pos [of n] by linarith
  have "card (replicated L n h) = length (filter (\<lambda>x. h \<le> x) (sorted_offsets L n))"
    using assms(2-5) by (intro replicated_card) (auto simp: node_inv_def watermark_inv_def)
  then show "majority n \<le> card (replicated L n h)"
    using sorted_desc_nth_count [OF sorted_offsets_desc k] h by simp
  have "h \<le> lo_log_end_offset L (nd_log n)"
    using candidate_bound [OF assms(1,3,4) k] h by simp
  moreover have "h \<noteq> 0"
    using gt by auto
  ultimately have "h - 1 < lo_log_end_offset L (nd_log n)"
    by (simp add: u64_pred_less)
  then have e: "lo_epoch_at L (nd_log n) (h - 1) = Some (le_epoch (abs (nd_log n) ! unat (h - 1)))"
    by (rule epoch_at_Some [OF assms(1)])
  with ep [OF e] show "lo_epoch_at L (nd_log n) (h - 1) = Some (current_epoch n)"
    by simp
qed

lemma fetched_within_log:
  assumes "inv (nd_log n)" and "check_divergence L n fo ep = None"
  shows "fo \<le> lo_log_end_offset L (nd_log n)"
proof (cases "fo = 0")
  case False
  with assms(2) have "lo_epoch_at L (nd_log n) (fo - 1) \<noteq> None"
    by (auto simp: check_divergence_def Let_def split: option.splits)
  then have "fo - 1 < lo_log_end_offset L (nd_log n)"
    using epoch_at_below_end [OF assms(1)] by simp
  with False show ?thesis
    by (simp add: u64_pred_less)
qed simp

lemma record_fetch_inv:
  assumes "inv (nd_log n)" and "watermark_inv L n" and "src \<noteq> nd_id n"
    and "check_divergence L n fo ep = None"
  shows "watermark_inv L (n\<lparr>voter_fetch_offsets := AList.update src fo (voter_fetch_offsets n)\<rparr>)"
  using assms(2,3) fetched_within_log [OF assms(1,4)]
  by (auto simp: watermark_inv_def dest!: alist_update_valueD)

lemma node_handle_watermark:
  assumes "inv (nd_log n)" and "watermark_inv L n" and "event_src ev \<noteq> Some (nd_id n)"
  shows "watermark_inv L (fst (node_handle L n ev))
    \<and> high_watermark n \<le> high_watermark (fst (node_handle L n ev))"
proof (cases "\<exists>src req. ev = EvFetchRequest src req")
  case True
  then obtain src req where ev: "ev = EvFetchRequest src req" by blast
  let ?n1 = "n\<lparr>voter_fetch_offsets :=
      AList.update src (fq_fetch_offset req) (voter_fetch_offsets n)\<rparr>"
  have "watermark_inv L ?n1"
    if "check_divergence L n (fq_fetch_offset req) (fq_last_fetched_epoch req) = None"
    using record_fetch_inv [OF assms(1,2) _ that] assms(3) ev by auto
  then show ?thesis
    using try_advance_inv [OF assms(1,2)] try_advance_inv [of ?n1] assms(1,2) ev
    by (auto simp: handler_simps watermark_inv_def split: option.splits)
next
  case False
  show ?thesis
    using assms(2) False watermark_inv_hwm [OF assms(2)]
    by (cases ev)
      (auto simp: handler_simps watermark_inv_not_leader min_def check_committed_proposes_filter
        split: option.splits)
qed

end

section \<open>Properties\<close>

text \<open>C15: for a node over the log of the crate whose high watermark is within its log, as are, on a
  leader, the offsets that the others have fetched from: handling an event that does not come from
  the node itself keeps all of this and never lowers the high watermark. This is of the handlers;
  when the runner then truncates the log, the watermark stays where it is and may be beyond the end.\<close>

theorem watermark_bounded_and_monotone:
  assumes "vec_log_inv (nd_log n)" and "watermark_inv vec_log_ops n"
    and "event_src ev \<noteq> Some (nd_id n)"
  shows "watermark_inv vec_log_ops (fst (node_handle vec_log_ops n ev))
    \<and> high_watermark n \<le> high_watermark (fst (node_handle vec_log_ops n ev))"
  by (rule vec_log.node_handle_watermark [OF assms])

definition leader_of_three :: "vec_log node" where
  "leader_of_three =
     (node_new 1 [1, 2, 3] \<lparr>qs_current_epoch = 1, qs_voted_for = Some 1\<rparr>
        [\<lparr>le_epoch = 1, le_offset = 0, le_data = [7]\<rparr>, \<lparr>le_epoch = 1, le_offset = 1, le_data = [8]\<rparr>])
     \<lparr>role := Leader, leader_id := Some 1, votes_received := {1, 2},
       voter_fetch_offsets := [(2, 0), (3, 0)]\<rparr>"

definition fetch_from_one :: event where
  "fetch_from_one = EvFetchRequest 2 \<lparr>fq_epoch = 1, fq_fetch_offset = 1, fq_last_fetched_epoch = 1\<rparr>"

lemma leader_of_three_inv:
  "vec_log_inv (nd_log leader_of_three)" "watermark_inv vec_log_ops leader_of_three"
  "node_inv leader_of_three"
  by (auto simp: vec_log_inv_def leader_of_three_def node_new_def less_Suc_eq watermark_inv_def
      vec_log_end_offset_def node_inv_def majority_def)

lemma watermark_bounded_and_monotone_witness:
  "watermark_inv vec_log_ops (fst (node_handle vec_log_ops leader_of_three fetch_from_one))
   \<and> high_watermark leader_of_three
       \<le> high_watermark (fst (node_handle vec_log_ops leader_of_three fetch_from_one))"
  by (rule watermark_bounded_and_monotone [OF leader_of_three_inv(1,2)])
    (simp add: fetch_from_one_def leader_of_three_def node_new_def)

text \<open>C14: a leader that advances its high watermark to \<open>h\<close> while serving a fetch has every entry
  below \<open>h\<close> on a majority of the voters, and the last of them is of its own epoch.\<close>

theorem commit_needs_quorum_and_own_epoch:
  assumes "vec_log_inv (nd_log n)" and "node_inv n" and "watermark_inv vec_log_ops n"
    and "role n = Leader" and "nd_id n \<in> set (voters n)"
    and "AdvanceHighWatermark h \<in> set (snd (try_advance_high_watermark vec_log_ops n))"
  shows "high_watermark n < h
    \<and> length (voters n) div 2 + 1 \<le> card (replicated vec_log_ops n h)
    \<and> vec_epoch_at (nd_log n) (h - 1) = Some (current_epoch n)"
  using vec_log.try_advance_quorum [OF assms] by (simp add: majority_def)

definition leader_with_fetch :: "vec_log node" where
  "leader_with_fetch = leader_of_three\<lparr>voter_fetch_offsets := [(2, 1), (3, 0)]\<rparr>"

lemma leader_with_fetch_inv:
  "vec_log_inv (nd_log leader_with_fetch)" "node_inv leader_with_fetch"
  "watermark_inv vec_log_ops leader_with_fetch"
  using leader_of_three_inv
  by (auto simp: leader_with_fetch_def leader_of_three_def node_new_def watermark_inv_def
      vec_log_end_offset_def node_inv_def majority_def)

lemma commit_needs_quorum_and_own_epoch_witness:
  "vec_epoch_at (nd_log leader_with_fetch) (1 - 1) = Some (current_epoch leader_with_fetch)"
proof -
  have "AdvanceHighWatermark 1 \<in> set (snd (try_advance_high_watermark vec_log_ops leader_with_fetch))"
    by (simp add: leader_with_fetch_def leader_of_three_def node_new_def majority_def
        try_advance_high_watermark_def check_committed_proposes_filter Let_def vec_log_defs)
  moreover have "role leader_with_fetch = Leader"
    and "nd_id leader_with_fetch \<in> set (voters leader_with_fetch)"
    by (simp_all add: leader_with_fetch_def leader_of_three_def node_new_def)
  ultimately show ?thesis
    using commit_needs_quorum_and_own_epoch [OF leader_with_fetch_inv] by blast
qed

end
