(* ===== verification/Raft_Commit.thy ===== *)
theory Raft_Commit
  imports Raft_Safety Raft_Watermark
begin

text \<open>
  What commits a proposal, seen from the cluster. A leader advances its high watermark only
  while it serves a \<open>FetchRequest\<close>, and no handler ever emits one: the followers are fed by
  the heartbeats, which carry entries and ask for no answer. Hence a cluster of voters alone
  commits nothing.
\<close>

section \<open>From actions to effects\<close>

fun action_effect :: "action \<Rightarrow> effect \<Rightarrow> bool" where
  "action_effect (SendFetchRequest dst req) f \<longleftrightarrow> f = Transmit dst (MsgFetchRequest req)"
| "action_effect (SendFetchResponse dst resp) f \<longleftrightarrow> f = Transmit dst (MsgFetchResponse resp)"
| "action_effect (CommitPropose i) f \<longleftrightarrow> (\<exists>rep. f = Answer rep (Ok ()))"
| "action_effect a f \<longleftrightarrow>
     (\<forall>dst req. f \<noteq> Transmit dst (MsgFetchRequest req))
     \<and> (\<forall>dst resp. f \<noteq> Transmit dst (MsgFetchResponse resp)) \<and> (\<forall>rep. f \<noteq> Answer rep (Ok ()))"

lemma notify_action_effect:
  "notify_action a r = Some (r', fx) \<Longrightarrow> f \<in> set fx \<Longrightarrow> action_effect a f"
  by (cases a) (auto simp: notify_action_def answer_propose_def split: option.splits)

lemma notify_actions_effect:
  "notify_actions as r = Some (r', fx) \<Longrightarrow> f \<in> set fx \<Longrightarrow> \<exists>a \<in> set as. action_effect a f"
proof (induction as arbitrary: r fx)
  case (Cons a as)
  then obtain r1 fx1 fx2 where "notify_action a r = Some (r1, fx1)"
    and "notify_actions as r1 = Some (r', fx2)" and "fx = fx1 @ fx2"
    by (auto split: option.splits)
  with Cons show ?case
    using notify_action_effect [of a r r1 fx1 f] by auto
qed simp

section \<open>A node that is never fetched from\<close>

fun unfetched_event :: "event \<Rightarrow> bool" where
  "unfetched_event (EvFetchRequest src req) = False"
| "unfetched_event (EvFetchResponse src resp) \<longleftrightarrow> fr_high_watermark resp = 0"
| "unfetched_event ev = True"

fun unfetched_message :: "raft_message \<Rightarrow> bool" where
  "unfetched_message (MsgFetchRequest req) = False"
| "unfetched_message (MsgFetchResponse resp) \<longleftrightarrow> fr_high_watermark resp = 0"
| "unfetched_message m = True"

fun unfetched_action :: "action \<Rightarrow> bool" where
  "unfetched_action (SendFetchRequest dst req) = False"
| "unfetched_action (SendFetchResponse dst resp) \<longleftrightarrow> fr_high_watermark resp = 0"
| "unfetched_action (CommitPropose i) = False"
| "unfetched_action a = True"

fun unfetched_effect :: "effect \<Rightarrow> bool" where
  "unfetched_effect (Transmit dst m) = unfetched_message m"
| "unfetched_effect (Answer rep res) \<longleftrightarrow> res \<noteq> Ok ()"
| "unfetched_effect f = True"

lemma unfetched_deliver: "unfetched_message m \<Longrightarrow> unfetched_event (deliver_event src m)"
  by (cases m) auto

lemma unfetched_action_effect: "action_effect a f \<Longrightarrow> unfetched_action a \<Longrightarrow> unfetched_effect f"
proof (cases f)
  case (Transmit dst m)
  assume "action_effect a f" "unfetched_action a"
  with Transmit show ?thesis
    by (cases m; cases a) auto
next
  case (Answer rep res)
  assume "action_effect a f" "unfetched_action a"
  with Answer show ?thesis
    by (cases a) auto
qed auto

lemma unfetched_node_handle:
  assumes "high_watermark n = 0" and "unfetched_event ev"
  shows "high_watermark (fst (node_handle L n ev)) = 0
    \<and> (\<forall>a \<in> set (snd (node_handle L n ev)). unfetched_action a)"
  using assms
  by (cases ev) (auto simp: handler_simps become_leader_def split: option.splits)

lemma runner_turn_effects:
  assumes "runner_turn S L r w = Some (r', fx)"
    and "high_watermark (rn_node r) = 0"
    and "\<And>ev. w = Input (NetworkEvent ev) \<Longrightarrow> unfetched_event ev"
  shows "high_watermark (rn_node r') = 0 \<and> (\<forall>f \<in> set fx. unfetched_effect f)"
proof -
  obtain r1 ev where ev: "(case w of Input input \<Rightarrow> input_to_event r input
      | ElectionFires \<Rightarrow> (r, ElectionTimeout) | HeartbeatFires \<Rightarrow> (r, HeartbeatTimeout)) = (r1, ev)"
    by fastforce
  then have r1: "rn_node r1 = rn_node r"
    by (auto simp: input_to_event_def Let_def split: wakeup.splits runner_input.splits)
  have un: "unfetched_event ev"
    using ev assms(3)
    by (auto simp: input_to_event_def Let_def split: wakeup.splits runner_input.splits)
  let ?n = "fst (node_handle L (rn_node r) ev)" and ?as = "snd (node_handle L (rn_node r) ev)"
  let ?m = "persist_actions S L ?as (r1\<lparr>rn_node := ?n\<rparr>)"
  obtain ys where run: "notify_actions ?as (fst ?m) = Some (r', ys)" and fx: "fx = snd ?m @ ys"
    using assms(1) ev r1 by (auto simp: runner_turn_def execute_actions_def Let_def case_prod_unfold)
  have "unfetched_effect f" if "f \<in> set (snd ?m)" for f
    using persist_actions_on_disk [OF that] by (cases f) simp_all
  moreover obtain l where "rn_node (fst ?m) = ?n\<lparr>nd_log := l\<rparr>"
    using persist_actions_node [of S L ?as "r1\<lparr>rn_node := ?n\<rparr>"] by auto
  ultimately show ?thesis
    using unfetched_node_handle [OF assms(2) un, of L] notify_actions_frame [OF run]
      notify_actions_effect [OF run] unfetched_action_effect
    unfolding fx by fastforce
qed

section \<open>A cluster of voters\<close>

definition unfetched :: "u16 list \<Rightarrow> 'l cluster \<Rightarrow> bool" where
  "unfetched V c \<longleftrightarrow>
     (\<forall>d \<in> set V. high_watermark (rn_node (srv c d)) = 0)
     \<and> (\<forall>src d m. (src, d, m) \<in> net c \<longrightarrow> unfetched_message m)"

text \<open>The inputs a server of the cluster can get.\<close>

definition possible_wakeup :: "'l cluster \<Rightarrow> u16 \<Rightarrow> wakeup \<Rightarrow> bool" where
  "possible_wakeup c d w \<longleftrightarrow>
     (\<forall>ev. w = Input (NetworkEvent ev) \<longrightarrow>
        (\<exists>src m. (src, d, m) \<in> net c \<and> ev = deliver_event src m))"

lemma other_wakeups:
  "possible_wakeup c d ElectionFires" "possible_wakeup c d HeartbeatFires"
  "possible_wakeup c d (Input (InPropose data rep))"
  by (simp_all add: possible_wakeup_def)

lemma unfetched_turn:
  assumes "unfetched V c" and "d \<in> set V" and "possible_wakeup c d w"
    and "runner_turn S L (srv c d) w = Some (r, fx)"
  shows "unfetched V (cluster_update d r fx c) \<and> (\<forall>f \<in> set fx. unfetched_effect f)"
proof -
  have "unfetched_event ev" if "w = Input (NetworkEvent ev)" for ev
    using assms(1,3) that unfetched_deliver unfolding unfetched_def possible_wakeup_def by blast
  moreover have "high_watermark (rn_node (srv c d)) = 0"
    using assms(1,2) by (simp add: unfetched_def)
  ultimately have "high_watermark (rn_node r) = 0 \<and> (\<forall>f \<in> set fx. unfetched_effect f)"
    by (rule runner_turn_effects [OF assms(4), rotated])
  with assms(1) show ?thesis
    by (auto simp: unfetched_def cluster_update_def)
qed

lemma unfetched_step:
  assumes "cluster_step S L V G c c'" and un: "unfetched V c"
  shows "unfetched V c'"
  using assms(1)
proof (cases rule: cluster_step.cases)
  case (step_deliver d src m r fx)
  then have "possible_wakeup c d (Input (NetworkEvent (deliver_event src m)))"
    by (auto simp: possible_wakeup_def)
  with step_deliver unfetched_turn [OF un] show ?thesis
    by blast
next
  case (step_restart d rng)
  with un show ?thesis
    by (auto simp: unfetched_def cluster_update_def runner_spawn_def node_new_def)
qed (use unfetched_turn [OF un] in \<open>blast intro: other_wakeups\<close>)+

lemma unfetched_reachable: "cluster_reachable S L V G c \<Longrightarrow> unfetched V c"
proof (induction rule: cluster_reachable.induct)
  case (reach_init l rng)
  show ?case
    by (simp add: unfetched_def cluster_init_def runner_spawn_def node_new_def)
qed (rule unfetched_step)

section \<open>Properties\<close>

text \<open>C31: in a cluster of voters without any further restriction, whatever the network does, no
  server ever has a high watermark above zero and no client is ever told that its proposal is
  committed.\<close>

theorem voters_alone_commit_nothing:
  assumes "cluster_reachable S L V G c" and "d \<in> set V" and "possible_wakeup c d w"
    and "runner_turn S L (srv c d) w = Some (r, fx)"
  shows "high_watermark (rn_node (srv c d)) = 0 \<and> Answer rep (Ok ()) \<notin> set fx"
  using unfetched_turn [OF unfetched_reachable [OF assms(1)] assms(2-4)]
    unfetched_reachable [OF assms(1)] assms(2)
  by (auto simp: unfetched_def)

lemma voters_alone_commit_nothing_witness:
  "\<exists>c r fx. cluster_reachable json_serde vec_log_ops three_voters (\<lambda>n ev. True) c
     \<and> role (rn_node (srv c 1)) = Leader
     \<and> runner_turn json_serde vec_log_ops (srv c 1) (Input (InPropose [7] 0)) = Some (r, fx)
     \<and> high_watermark (rn_node (srv c 1)) = 0 \<and> Answer 0 (Ok ()) \<notin> set fx"
proof -
  let ?run = "cluster_moves json_serde vec_log_ops three_voters (\<lambda>n ev. True)
      first_leader cluster_of_three"
  have "map_option (\<lambda>c. (role (rn_node (srv c 1)),
      runner_turn json_serde vec_log_ops (srv c 1) (Input (InPropose [7] 0)) = None)) ?run
    = Some (Leader, False)"
    by code_simp
  then obtain c r fx where run: "?run = Some c" and led: "role (rn_node (srv c 1)) = Leader"
    and turn: "runner_turn json_serde vec_log_ops (srv c 1) (Input (InPropose [7] 0)) = Some (r, fx)"
    by auto
  have reach: "cluster_reachable json_serde vec_log_ops three_voters (\<lambda>n ev. True) c"
    using run by (metis cluster_moves_reachable cluster_of_three_def reach_init)
  have "1 \<in> set three_voters" and "possible_wakeup c 1 (Input (InPropose [7] 0))"
    by (simp_all add: three_voters_def possible_wakeup_def)
  then show ?thesis
    using voters_alone_commit_nothing [OF reach _ _ turn, of 0] reach led turn by blast
qed

text \<open>C32: a leader deposed by a vote request of a later epoch keeps its pending proposals, and the
  next fetch response that moves its high watermark past their offsets commits them, whatever
  the entries the new leader has put there.\<close>

theorem deposed_leader_commits_lost_proposal:
  assumes "role n = Leader" and "(off, i) \<in> set (pending_proposes n)"
    and "current_epoch n < vq_epoch req"
    and "n' = fst (node_handle L n (EvVoteRequest src req))"
    and "fr_epoch resp \<le> current_epoch n'" and "fr_diverging resp = None"
    and "high_watermark n' < fr_high_watermark resp"
    and "off < fr_high_watermark resp" and "off < lo_log_end_offset L (nd_log n')"
  shows "role n' = Follower
    \<and> RejectPropose i \<notin> set (snd (node_handle L n (EvVoteRequest src req)))
    \<and> CommitPropose i \<in> set (snd (node_handle L n' (EvFetchResponse src' resp)))"
proof -
  have n': "role n' = Follower" "(off, i) \<in> set (pending_proposes n')"
    using assms(1-4) by (auto simp: handler_simps)
  moreover have "RejectPropose i \<notin> set (snd (node_handle L n (EvVoteRequest src req)))"
    by (auto simp: handler_simps)
  moreover have "CommitPropose i \<in> set (snd (node_handle L n' (EvFetchResponse src' resp)))"
    using n' assms(5-9)
    by (force simp: handler_simps check_committed_proposes_filter not_less [symmetric])
  ultimately show ?thesis
    by blast
qed

definition leader_with_pending :: "vec_log node" where
  "leader_with_pending = leader_of_three\<lparr>pending_proposes := [(1, 5)]\<rparr>"

lemma deposed_leader_commits_lost_proposal_witness:
  "CommitPropose 5 \<in> set (snd (node_handle vec_log_ops
     (fst (node_handle vec_log_ops leader_with_pending
        (EvVoteRequest 2 \<lparr>vq_epoch = 2, vq_candidate_id = 2, vq_last_log_epoch = 1, vq_last_log_offset = 2\<rparr>)))
     (EvFetchResponse 2 \<lparr>fr_epoch = 2, fr_high_watermark = 2, fr_entries = [], fr_diverging = None\<rparr>)))"
  using deposed_leader_commits_lost_proposal
    [of leader_with_pending 1 5
      "\<lparr>vq_epoch = 2, vq_candidate_id = 2, vq_last_log_epoch = 1, vq_last_log_offset = 2\<rparr>" _ vec_log_ops 2
      "\<lparr>fr_epoch = 2, fr_high_watermark = 2, fr_entries = [], fr_diverging = None\<rparr>" 2]
  by (simp add: leader_with_pending_def leader_of_three_def node_new_def handler_simps
      is_log_up_to_date_def vec_log_defs)

end
