(* ===== verification/Bytes.thy ===== *)
theory Bytes
  imports Prelude
begin

text \<open>
  Bytes on the wire and on disk. Integers are written in big-endian order, by
  \<open>to_be_bytes\<close> of the standard library and by the \<open>put\<close> methods of the crate
  \<open>bytes\<close>. That crate is not part of the sources: its operations are the record
  \<open>bytes_ops\<close>, an argument of the definitions that use them, with its documented behaviour as
  the locale \<open>bytes_crate\<close>. A buffer is the list of the bytes that remain in it.
\<close>

section \<open>Big-endian integers\<close>

definition be16 :: "u16 \<Rightarrow> u8 list" where
  "be16 w = [ucast (drop_bit 8 w), ucast w]"

definition be32 :: "u32 \<Rightarrow> u8 list" where
  "be32 w = be16 (ucast (drop_bit 16 w)) @ be16 (ucast w)"

definition be64 :: "u64 \<Rightarrow> u8 list" where
  "be64 w = be32 (ucast (drop_bit 32 w)) @ be32 (ucast w)"

definition from_be16 :: "u8 list \<Rightarrow> u16" where
  "from_be16 bs = or (push_bit 8 (ucast (bs ! 0))) (ucast (bs ! 1))"

definition from_be32 :: "u8 list \<Rightarrow> u32" where
  "from_be32 bs = or (push_bit 16 (ucast (from_be16 (take 2 bs)))) (ucast (from_be16 (drop 2 bs)))"

definition from_be64 :: "u8 list \<Rightarrow> u64" where
  "from_be64 bs = or (push_bit 32 (ucast (from_be32 (take 4 bs)))) (ucast (from_be32 (drop 4 bs)))"

lemma length_be16 [simp, size_simps]: "length (be16 w) = 2"
  by (simp add: be16_def)

lemma length_be32 [simp, size_simps]: "length (be32 w) = 4"
  by (simp add: be32_def)

lemma length_be64 [simp, size_simps]: "length (be64 w) = 8"
  by (simp add: be64_def)

lemma from_be16_be16 [simp]: "from_be16 (be16 w) = w"
  unfolding from_be16_def be16_def
  by (rule bit_word_eqI) (auto simp: bit_simps)

lemma from_be32_be32 [simp]: "from_be32 (be32 w) = w"
proof -
  have "or (push_bit 16 (ucast (ucast (drop_bit 16 w) :: u16))) (ucast (ucast w :: u16)) = w"
    by (rule bit_word_eqI) (auto simp: bit_simps)
  then show ?thesis
    by (simp add: from_be32_def be32_def)
qed

lemma from_be64_be64 [simp]: "from_be64 (be64 w) = w"
proof -
  have "or (push_bit 32 (ucast (ucast (drop_bit 32 w) :: u32))) (ucast (ucast w :: u32)) = w"
    by (rule bit_word_eqI) (auto simp: bit_simps)
  then show ?thesis
    by (simp add: from_be64_def be64_def)
qed

section \<open>Buffers: the crate \<open>bytes\<close>\<close>

text \<open>
  A getter returns \<open>None\<close> when it panics: there are not enough bytes left. The signed
  getters and setters are those of the word of the same width.
\<close>

record bytes_ops =
  bo_get_u8 :: "u8 list \<Rightarrow> (u8 \<times> u8 list) option"
  bo_get_u16 :: "u8 list \<Rightarrow> (u16 \<times> u8 list) option"
  bo_get_u32 :: "u8 list \<Rightarrow> (u32 \<times> u8 list) option"
  bo_get_u64 :: "u8 list \<Rightarrow> (u64 \<times> u8 list) option"
  bo_get_i16 :: "u8 list \<Rightarrow> (i16 \<times> u8 list) option"
  bo_get_i32 :: "u8 list \<Rightarrow> (i32 \<times> u8 list) option"
  bo_get_i64 :: "u8 list \<Rightarrow> (i64 \<times> u8 list) option"
  bo_copy_to_bytes :: "nat \<Rightarrow> u8 list \<Rightarrow> (u8 list \<times> u8 list) option"
  bo_split_to :: "nat \<Rightarrow> u8 list \<Rightarrow> (u8 list \<times> u8 list) option"
  bo_advance :: "nat \<Rightarrow> u8 list \<Rightarrow> (unit \<times> u8 list) option"
  bo_slice_from :: "nat \<Rightarrow> u8 list \<Rightarrow> u8 list option"
  bo_put_u8 :: "u8 \<Rightarrow> u8 list \<Rightarrow> u8 list"
  bo_put_u16 :: "u16 \<Rightarrow> u8 list \<Rightarrow> u8 list"
  bo_put_u32 :: "u32 \<Rightarrow> u8 list \<Rightarrow> u8 list"
  bo_put_u64 :: "u64 \<Rightarrow> u8 list \<Rightarrow> u8 list"
  bo_put_i16 :: "i16 \<Rightarrow> u8 list \<Rightarrow> u8 list"
  bo_put_i32 :: "i32 \<Rightarrow> u8 list \<Rightarrow> u8 list"
  bo_put_i64 :: "i64 \<Rightarrow> u8 list \<Rightarrow> u8 list"
  bo_put_slice :: "u8 list \<Rightarrow> u8 list \<Rightarrow> u8 list"

text \<open>A list as a buffer, the reference for the laws.\<close>

definition take_front :: "nat \<Rightarrow> u8 list \<Rightarrow> (u8 list \<times> u8 list) option" where
  "take_front n bs = (if n \<le> length bs then Some (take n bs, drop n bs) else None)"

definition get_front :: "nat \<Rightarrow> (u8 list \<Rightarrow> 'a) \<Rightarrow> u8 list \<Rightarrow> ('a \<times> u8 list) option" where
  "get_front n f bs = map_option (\<lambda>(a, r). (f a, r)) (take_front n bs)"

locale bytes_crate =
  fixes B :: bytes_ops
  assumes get_u8: "bo_get_u8 B bs = get_front 1 hd bs"
    and get_u16: "bo_get_u16 B bs = get_front 2 from_be16 bs"
    and get_u32: "bo_get_u32 B bs = get_front 4 from_be32 bs"
    and get_u64: "bo_get_u64 B bs = get_front 8 from_be64 bs"
    and get_i16: "bo_get_i16 B bs = get_front 2 from_be16 bs"
    and get_i32: "bo_get_i32 B bs = get_front 4 from_be32 bs"
    and get_i64: "bo_get_i64 B bs = get_front 8 from_be64 bs"
    and copy_to_bytes: "bo_copy_to_bytes B n bs = take_front n bs"
    and split_to: "bo_split_to B n bs = take_front n bs"
    and advance: "bo_advance B n bs = get_front n (\<lambda>_. ()) bs"
    and slice_from: "bo_slice_from B n bs = (if n \<le> length bs then Some (drop n bs) else None)"
    and put_u8: "bo_put_u8 B b buf = buf @ [b]"
    and put_u16: "bo_put_u16 B h buf = buf @ be16 h"
    and put_u32: "bo_put_u32 B w buf = buf @ be32 w"
    and put_u64: "bo_put_u64 B d buf = buf @ be64 d"
    and put_i16: "bo_put_i16 B h buf = buf @ be16 h"
    and put_i32: "bo_put_i32 B w buf = buf @ be32 w"
    and put_i64: "bo_put_i64 B d buf = buf @ be64 d"
    and put_slice: "bo_put_slice B s buf = buf @ s"

definition list_bytes :: bytes_ops where
  "list_bytes =
     \<lparr>bo_get_u8 = get_front 1 hd, bo_get_u16 = get_front 2 from_be16,
      bo_get_u32 = get_front 4 from_be32, bo_get_u64 = get_front 8 from_be64,
      bo_get_i16 = get_front 2 from_be16, bo_get_i32 = get_front 4 from_be32,
      bo_get_i64 = get_front 8 from_be64, bo_copy_to_bytes = take_front,
      bo_split_to = take_front, bo_advance = (\<lambda>n. get_front n (\<lambda>_. ())),
      bo_slice_from = (\<lambda>n bs. if n \<le> length bs then Some (drop n bs) else None),
      bo_put_u8 = (\<lambda>b buf. buf @ [b]), bo_put_u16 = (\<lambda>h buf. buf @ be16 h),
      bo_put_u32 = (\<lambda>w buf. buf @ be32 w), bo_put_u64 = (\<lambda>d buf. buf @ be64 d),
      bo_put_i16 = (\<lambda>h buf. buf @ be16 h), bo_put_i32 = (\<lambda>w buf. buf @ be32 w),
      bo_put_i64 = (\<lambda>d buf. buf @ be64 d), bo_put_slice = (\<lambda>s buf. buf @ s)\<rparr>"

interpretation list_bytes: bytes_crate list_bytes
  by unfold_locales (simp_all add: list_bytes_def)

section \<open>Readers\<close>

text \<open>
  A decoder takes the bytes that remain and returns a value with the bytes after it, an error,
  or a panic.
\<close>

type_synonym ('e, 'a) reader = "u8 list \<Rightarrow> ('e, 'a \<times> u8 list) outcome"

definition rret :: "'a \<Rightarrow> ('e, 'a) reader" where
  "rret a bs = Ok (a, bs)"

definition rfail :: "'e \<Rightarrow> ('e, 'a) reader" where
  "rfail e bs = Err e"

definition rbind :: "('e, 'a) reader \<Rightarrow> ('a \<Rightarrow> ('e, 'b) reader) \<Rightarrow> ('e, 'b) reader" where
  "rbind p f bs = obind (p bs) (\<lambda>(a, r). f a r)"

definition rget :: "(u8 list \<Rightarrow> ('a \<times> u8 list) option) \<Rightarrow> ('e, 'a) reader" where
  "rget g bs = (case g bs of Some p \<Rightarrow> Ok p | None \<Rightarrow> Panic)"

fun rrepeat :: "nat \<Rightarrow> ('e, 'a) reader \<Rightarrow> ('e, 'a list) reader" where
  "rrepeat 0 p = rret []"
| "rrepeat (Suc n) p = rbind p (\<lambda>x. rbind (rrepeat n p) (\<lambda>xs. rret (x # xs)))"

lemma rbind_Ok: "p bs = Ok (a, r) \<Longrightarrow> rbind p f bs = f a r"
  by (simp add: rbind_def)

lemma rret_apply [simp]: "rret a bs = Ok (a, bs)"
  by (simp add: rret_def)

lemma rrepeat_concat:
  assumes "\<And>x r. x \<in> set xs \<Longrightarrow> p (e x @ r) = Ok (x, r)"
  shows "rrepeat (length xs) p (concat (map e xs) @ r) = Ok (xs, r)"
  using assms by (induction xs) (simp_all add: rbind_def)

section \<open>Writers\<close>

text \<open>Writers append to a buffer; a sequence of writes is the list of its writers.\<close>

definition emit :: "(u8 list \<Rightarrow> u8 list) list \<Rightarrow> u8 list \<Rightarrow> u8 list" where
  "emit ws buf = fold (\<lambda>w b. w b) ws buf"

lemma emit_simps [simp]:
  "emit [] buf = buf"
  "emit (w # ws) buf = emit ws (w buf)"
  by (simp_all add: emit_def)

lemma emit_concat:
  assumes "\<And>x b. x \<in> set xs \<Longrightarrow> f x b = b @ e x"
  shows "emit (map f xs) buf = buf @ concat (map e xs)"
  using assms by (induction xs arbitrary: buf) simp_all

lemma length_concat_const:
  "(\<And>x. x \<in> set xs \<Longrightarrow> length (e x) = k) \<Longrightarrow> length (concat (map e xs)) = k * length xs"
  by (induction xs) simp_all

context bytes_crate
begin

lemma take_front_append [simp]: "take_front (length s) (s @ r) = Some (s, r)"
  by (simp add: take_front_def)

lemma take_front_append_n: "n = length s \<Longrightarrow> take_front n (s @ r) = Some (s, r)"
  by (simp add: take_front_def)

lemmas puts = put_u8 put_u16 put_u32 put_u64 put_i16 put_i32 put_i64 put_slice

lemma gets:
  "rget (bo_get_u8 B) (b # r) = Ok (b, r)"
  "rget (bo_get_u16 B) (be16 h @ r) = Ok (h, r)"
  "rget (bo_get_u32 B) (be32 w @ r) = Ok (w, r)"
  "rget (bo_get_u64 B) (be64 d @ r) = Ok (d, r)"
  "rget (bo_get_i16 B) (be16 h @ r) = Ok (h, r)"
  "rget (bo_get_i32 B) (be32 w @ r) = Ok (w, r)"
  "rget (bo_get_i64 B) (be64 d @ r) = Ok (d, r)"
  "n = length s \<Longrightarrow> rget (bo_copy_to_bytes B n) (s @ r) = Ok (s, r)"
  "n = length s \<Longrightarrow> rget (bo_split_to B n) (s @ r) = Ok (s, r)"
  "n = length s \<Longrightarrow> rget (bo_advance B n) (s @ r) = Ok ((), r)"
  by (simp_all add: rget_def get_u8 get_u16 get_u32 get_u64 get_i16 get_i32 get_i64
      copy_to_bytes split_to advance get_front_def take_front_def)

lemma get_short:
  "bs = [] \<Longrightarrow> rget (bo_get_u8 B) bs = Panic"
  "length bs < 2 \<Longrightarrow> rget (bo_get_u16 B) bs = Panic"
  "length bs < 4 \<Longrightarrow> rget (bo_get_u32 B) bs = Panic"
  "length bs < 8 \<Longrightarrow> rget (bo_get_u64 B) bs = Panic"
  by (simp_all add: rget_def get_u8 get_u16 get_u32 get_u64 get_front_def take_front_def)

lemmas reading = gets rbind_def rrepeat_concat

end

end
