(* ===== verification/Proto_Record.thy ===== *)
theory Proto_Record
  imports Bytes
begin

text \<open>
  Records of the crate \<open>musil-proto\<close>: headers (\<open>record_header.rs\<close>), records and their
  codec (\<open>record.rs\<close>), and the two iterators over the records of a batch, the one that decodes
  them (\<open>record_iter.rs\<close>) and the one that only finds their bounds (\<open>record_ref.rs\<close>).
\<close>

datatype io_error = UnexpectedEof string

datatype proto_error = CRC | InvalidOffset | Io io_error

section \<open>Headers\<close>

record record_header =
  rh_key :: "u8 list"
  rh_value :: "u8 list"

definition record_header_decode :: "bytes_ops \<Rightarrow> (io_error, record_header) reader" where
  "record_header_decode B =
     rbind (rget (bo_get_u32 B)) (\<lambda>key_len.
     rbind (rget (bo_copy_to_bytes B (unat key_len))) (\<lambda>key.
     rbind (rget (bo_get_u32 B)) (\<lambda>value_len.
     rbind (rget (bo_copy_to_bytes B (unat value_len))) (\<lambda>value.
     rret \<lparr>rh_key = key, rh_value = value\<rparr>))))"

definition record_header_encode :: "bytes_ops \<Rightarrow> record_header \<Rightarrow> u8 list \<Rightarrow> u8 list" where
  "record_header_encode B h =
     emit [bo_put_u32 B (of_nat (length (rh_key h))), bo_put_slice B (rh_key h),
           bo_put_u32 B (of_nat (length (rh_value h))), bo_put_slice B (rh_value h)]"

definition record_header_get_size :: "record_header \<Rightarrow> u32" where
  "record_header_get_size h = 4 + of_nat (length (rh_key h)) + 4 + of_nat (length (rh_value h))"

section \<open>Records\<close>

record msg_record =
  rc_length :: u32
  rc_attributes :: u8
  rc_timestamp_delta :: u64
  rc_offset_delta :: u64
  rc_key :: "u8 list"
  rc_value :: "u8 list"
  rc_headers :: "record_header list"

definition record_get_size :: "msg_record \<Rightarrow> u32" where
  "record_get_size r =
     4 + 1 + 8 + 8 + 4 + of_nat (length (rc_key r)) + 4 + of_nat (length (rc_value r)) + 4
     + sum_list (map record_header_get_size (rc_headers r))"

text \<open>\<open>now\<close> is the clock: the milliseconds since the epoch.\<close>

definition record_new :: "u64 \<Rightarrow> u64 \<Rightarrow> u8 list \<Rightarrow> u8 list \<Rightarrow> msg_record" where
  "record_new now offset_delta key value =
     (let r = \<lparr>rc_length = 0, rc_attributes = 0, rc_timestamp_delta = now,
               rc_offset_delta = offset_delta, rc_key = key, rc_value = value, rc_headers = []\<rparr>
      in r\<lparr>rc_length := record_get_size r\<rparr>)"

definition record_decode :: "bytes_ops \<Rightarrow> (io_error, msg_record) reader" where
  "record_decode B =
     rbind (rget (bo_get_u32 B)) (\<lambda>len.
     rbind (rget (bo_get_u8 B)) (\<lambda>attributes.
     rbind (rget (bo_get_u64 B)) (\<lambda>timestamp_delta.
     rbind (rget (bo_get_u64 B)) (\<lambda>offset_delta.
     rbind (rget (bo_get_u32 B)) (\<lambda>key_length.
     rbind (rget (bo_copy_to_bytes B (unat key_length))) (\<lambda>key.
     rbind (rget (bo_get_u32 B)) (\<lambda>value_length.
     rbind (rget (bo_copy_to_bytes B (unat value_length))) (\<lambda>value.
     rbind (rget (bo_get_u32 B)) (\<lambda>headers_size.
     rbind (rrepeat (unat headers_size) (record_header_decode B)) (\<lambda>headers.
     rret \<lparr>rc_length = len, rc_attributes = attributes, rc_timestamp_delta = timestamp_delta,
           rc_offset_delta = offset_delta, rc_key = key, rc_value = value,
           rc_headers = headers\<rparr>))))))))))"

definition record_decode_raw :: "bytes_ops \<Rightarrow> u8 list \<Rightarrow> (io_error, msg_record \<times> nat) outcome" where
  "record_decode_raw B buf =
     obind (record_decode B buf) (\<lambda>(r, cursor). Ok (r, length buf - length cursor))"

definition record_encode_to :: "bytes_ops \<Rightarrow> msg_record \<Rightarrow> u8 list \<Rightarrow> u8 list" where
  "record_encode_to B r =
     emit [bo_put_u32 B (rc_length r), bo_put_u8 B (rc_attributes r),
           bo_put_u64 B (rc_timestamp_delta r), bo_put_u64 B (rc_offset_delta r),
           bo_put_u32 B (of_nat (length (rc_key r))), bo_put_slice B (rc_key r),
           bo_put_u32 B (of_nat (length (rc_value r))), bo_put_slice B (rc_value r),
           bo_put_u32 B (of_nat (length (rc_headers r))),
           emit (map (record_header_encode B) (rc_headers r))]"

definition record_encode :: "bytes_ops \<Rightarrow> msg_record \<Rightarrow> u8 list" where
  "record_encode B r = record_encode_to B r []"

section \<open>The layout\<close>

text \<open>What the encoders are meant to write, and the records that a 32-bit length can describe.\<close>

definition header_layout :: "record_header \<Rightarrow> u8 list" where
  "header_layout h =
     be32 (of_nat (length (rh_key h))) @ rh_key h @ be32 (of_nat (length (rh_value h))) @ rh_value h"

definition record_layout :: "msg_record \<Rightarrow> u8 list" where
  "record_layout r =
     be32 (rc_length r) @ [rc_attributes r] @ be64 (rc_timestamp_delta r) @ be64 (rc_offset_delta r)
     @ be32 (of_nat (length (rc_key r))) @ rc_key r
     @ be32 (of_nat (length (rc_value r))) @ rc_value r
     @ be32 (of_nat (length (rc_headers r))) @ concat (map header_layout (rc_headers r))"

definition header_fits :: "record_header \<Rightarrow> bool" where
  "header_fits h \<longleftrightarrow> length (rh_key h) < 2 ^ 32 \<and> length (rh_value h) < 2 ^ 32"

definition record_fits :: "msg_record \<Rightarrow> bool" where
  "record_fits r \<longleftrightarrow>
     length (rc_key r) < 2 ^ 32 \<and> length (rc_value r) < 2 ^ 32 \<and> length (rc_headers r) < 2 ^ 32
     \<and> (\<forall>h \<in> set (rc_headers r). header_fits h)"

text \<open>A record whose length field is the number of bytes it takes, as \<open>Record::new\<close> sets it.\<close>

definition record_sized :: "msg_record \<Rightarrow> bool" where
  "record_sized r \<longleftrightarrow> record_fits r \<and> unat (rc_length r) = length (record_layout r)"

lemma length_header_layout [size_simps]:
  "length (header_layout h) = 8 + length (rh_key h) + length (rh_value h)"
  by (simp add: header_layout_def)

lemma length_record_layout [size_simps]:
  "length (record_layout r) =
     33 + length (rc_key r) + length (rc_value r)
     + sum_list (map (length \<circ> header_layout) (rc_headers r))"
  by (simp add: record_layout_def length_concat)

lemma record_layout_min: "33 \<le> length (record_layout r)"
  by (simp add: size_simps)

lemma record_layout_neq_Nil [simp]: "record_layout r \<noteq> []"
  using record_layout_min [of r] by auto

lemma record_get_size_layout: "record_get_size r = of_nat (length (record_layout r))"
proof -
  have "sum_list (map record_header_get_size hs) = of_nat (sum_list (map (length \<circ> header_layout) hs))"
    for hs
    by (induction hs) (simp_all add: record_header_get_size_def length_header_layout)
  then show ?thesis
    by (simp add: record_get_size_def length_record_layout)
qed

lemma record_new_sized:
  assumes "33 + length key + length value < 2 ^ 32"
  shows "record_sized (record_new now d key value)"
  using assms unat_of_nat_id [where 'a = 32, of "33 + length key + length value"]
  by (simp add: record_sized_def record_fits_def record_new_def Let_def record_get_size_layout
      length_record_layout)

text \<open>No record decoder ever returns an error.\<close>

definition never_errs :: "('e, 'a) reader \<Rightarrow> bool" where
  "never_errs p \<longleftrightarrow> (\<forall>bs e. p bs \<noteq> Err e)"

lemma never_errs_rules:
  "never_errs (rget g)" "never_errs (rret a)"
  "never_errs p \<Longrightarrow> (\<And>a. never_errs (f a)) \<Longrightarrow> never_errs (rbind p f)"
  by (auto simp: never_errs_def rget_def rbind_def obind_eq_Err split: option.splits)

lemma never_errs_repeat: "never_errs p \<Longrightarrow> never_errs (rrepeat n p)"
  by (induction n) (auto intro!: never_errs_rules)

lemma record_decode_never_errs: "never_errs (record_decode B)"
  unfolding record_decode_def record_header_decode_def
  by (intro never_errs_rules never_errs_repeat)

context bytes_crate
begin

lemma record_header_encode_layout: "record_header_encode B h buf = buf @ header_layout h"
  by (simp add: record_header_encode_def header_layout_def puts)

lemma record_encode_to_layout: "record_encode_to B r buf = buf @ record_layout r"
  by (simp add: record_encode_to_def record_layout_def puts emit_concat record_header_encode_layout)

lemma record_encode_layout: "record_encode B r = record_layout r"
  by (simp add: record_encode_def record_encode_to_layout)

lemma record_header_decode_layout:
  "header_fits h \<Longrightarrow> record_header_decode B (header_layout h @ r) = Ok (h, r)"
  by (simp add: record_header_decode_def header_layout_def reading header_fits_def)

lemma record_decode_layout:
  assumes "record_fits r"
  shows "record_decode B (record_layout r @ rest) = Ok (r, rest)"
proof -
  have "rrepeat (length (rc_headers r)) (record_header_decode B)
      (concat (map header_layout (rc_headers r)) @ rest) = Ok (rc_headers r, rest)"
    using assms by (intro rrepeat_concat) (simp add: record_fits_def record_header_decode_layout)
  with assms show ?thesis
    by (simp add: record_decode_def record_layout_def reading record_fits_def)
qed

lemma record_decode_raw_layout:
  "record_fits r \<Longrightarrow>
     record_decode_raw B (record_layout r @ rest) = Ok (r, length (record_layout r))"
  by (simp add: record_decode_raw_def record_decode_layout)

end

section \<open>The iterator that decodes\<close>

record record_iter =
  ri_buf :: "u8 list"
  ri_pos :: nat
  ri_total_len :: nat

definition record_iter_new :: "u8 list \<Rightarrow> record_iter" where
  "record_iter_new buf = \<lparr>ri_buf = buf, ri_pos = 0, ri_total_len = length buf\<rparr>"

definition record_iter_next ::
    "bytes_ops \<Rightarrow> record_iter \<Rightarrow>
      (unit, (proto_error, nat \<times> msg_record) outcome option \<times> record_iter) outcome" where
  "record_iter_next B it =
     (if ri_buf it = [] then Ok (None, it)
      else
        let start = ri_pos it
        in case record_decode B (ri_buf it) of
             Ok (r, rest) \<Rightarrow>
               Ok (Some (Ok (start, r)),
                   it\<lparr>ri_buf := rest, ri_pos := ri_total_len it - length rest\<rparr>)
           | Err e \<Rightarrow> Ok (Some (Err (Io e)), it)
           | Panic \<Rightarrow> Panic)"

section \<open>The iterator over bounds\<close>

record record_ref =
  rr_offset_delta :: u64
  rr_byte_offset :: nat
  rr_byte_len :: u64
  rr_index :: u32

record record_ref_iter =
  rf_buf :: "u8 list"
  rf_pos :: nat
  rf_total_len :: nat
  rf_index :: u32

definition record_ref_iter_new :: "u8 list \<Rightarrow> record_ref_iter" where
  "record_ref_iter_new buf =
     \<lparr>rf_buf = buf, rf_pos = 0, rf_total_len = length buf, rf_index = 0\<rparr>"

text \<open>The subtractions on lengths are those of \<open>usize\<close>: they wrap.\<close>

definition record_ref_next ::
    "bytes_ops \<Rightarrow> record_ref_iter \<Rightarrow>
      (unit, (proto_error, record_ref) outcome option \<times> record_ref_iter) outcome" where
  "record_ref_next B it =
     (if rf_buf it = [] then Ok (None, it)
      else
        let start = rf_pos it
        in if length (rf_buf it) < 4
           then Ok (Some (Err (Io (UnexpectedEof ''not enough bytes for record length''))), it)
           else
             obind (rget (bo_get_u32 B) (rf_buf it)) (\<lambda>(len, buf1).
             let data_len = (ucast len :: u64) - 4
             in if of_nat (length buf1) < data_len
                then Ok (Some (Err (Io (UnexpectedEof ''record truncated''))), it\<lparr>rf_buf := buf1\<rparr>)
                else
                  obind (rget (bo_get_u8 B) buf1) (\<lambda>(attributes, buf2).
                  obind (rget (bo_get_u64 B) buf2) (\<lambda>(timestamp_delta, buf3).
                  obind (rget (bo_get_u64 B) buf3) (\<lambda>(offset_delta, buf4).
                  obind (rget (bo_advance B (unat (data_len - 17))) buf4) (\<lambda>(_, buf5).
                  Ok (Some (Ok \<lparr>rr_offset_delta = offset_delta, rr_byte_offset = start,
                                rr_byte_len = 4 + ucast len, rr_index = rf_index it\<rparr>),
                      it\<lparr>rf_buf := buf5, rf_pos := rf_total_len it - length buf5,
                         rf_index := rf_index it + 1\<rparr>)))))))"

text \<open>
  \<open>find\<close> on the iterator, errors skipped. It need not return: an error that consumes nothing
  comes back for ever.
\<close>

partial_function (option) record_ref_find ::
    "bytes_ops \<Rightarrow> u64 \<Rightarrow> record_ref_iter \<Rightarrow> (unit, record_ref option) outcome option" where
  "record_ref_find B offset_delta it =
     (case record_ref_next B it of
        Ok (None, it') \<Rightarrow> Some (Ok None)
      | Ok (Some (Ok r), it') \<Rightarrow>
          (if rr_offset_delta r = offset_delta then Some (Ok (Some r))
           else record_ref_find B offset_delta it')
      | Ok (Some (Err e), it') \<Rightarrow> record_ref_find B offset_delta it'
      | Ok (Some Panic, it') \<Rightarrow> Some Panic
      | Err e \<Rightarrow> Some (Err e)
      | Panic \<Rightarrow> Some Panic)"

section \<open>What the iterators yield\<close>

text \<open>The first record with the offset delta, with its place, found by walking the list.\<close>

fun ref_search :: "u64 \<Rightarrow> nat \<Rightarrow> u32 \<Rightarrow> msg_record list \<Rightarrow> record_ref option" where
  "ref_search d pos i [] = None"
| "ref_search d pos i (r # rs) =
     (if rc_offset_delta r = d
      then Some \<lparr>rr_offset_delta = d, rr_byte_offset = pos,
                 rr_byte_len = 4 + ucast (rc_length r), rr_index = i\<rparr>
      else ref_search d (pos + length (record_layout r)) (i + 1) rs)"

definition records_layout :: "msg_record list \<Rightarrow> u8 list" where
  "records_layout rs = concat (map record_layout rs)"

lemma records_layout_simps [simp]:
  "records_layout [] = []"
  "records_layout (r # rs) = record_layout r @ records_layout rs"
  "records_layout (rs @ ss) = records_layout rs @ records_layout ss"
  by (simp_all add: records_layout_def)

context bytes_crate
begin

lemma record_iter_next_layout:
  assumes "record_fits r" and "ri_buf it = record_layout r @ rest"
  shows "record_iter_next B it =
    Ok (Some (Ok (ri_pos it, r)), it\<lparr>ri_buf := rest, ri_pos := ri_total_len it - length rest\<rparr>)"
  using assms by (simp add: record_iter_next_def record_decode_layout Let_def)

lemma record_ref_next_layout:
  assumes r: "record_sized r" and buf: "rf_buf it = record_layout r @ rest"
    and small: "length (rf_buf it) < 2 ^ 64"
  shows "record_ref_next B it =
    Ok (Some (Ok \<lparr>rr_offset_delta = rc_offset_delta r, rr_byte_offset = rf_pos it,
                  rr_byte_len = 4 + ucast (rc_length r), rr_index = rf_index it\<rparr>),
        it\<lparr>rf_buf := rest, rf_pos := rf_total_len it - length rest, rf_index := rf_index it + 1\<rparr>)"
proof -
  define tail where "tail =
    be32 (of_nat (length (rc_key r))) @ rc_key r
    @ be32 (of_nat (length (rc_value r))) @ rc_value r
    @ be32 (of_nat (length (rc_headers r))) @ concat (map header_layout (rc_headers r))"
  have lay: "record_layout r = be32 (rc_length r) @ rc_attributes r # be64 (rc_timestamp_delta r)
      @ be64 (rc_offset_delta r) @ tail"
    by (simp add: record_layout_def tail_def)
  have len: "unat (rc_length r) = 21 + length tail"
    using r lay by (simp add: record_sized_def)
  have "unat (ucast (rc_length r) :: u64) = unat (rc_length r)"
    by (rule unat_ucast_up) simp
  with len have x: "unat (ucast (rc_length r) :: u64) = 21 + length tail"
    by simp
  then have data: "unat ((ucast (rc_length r) :: u64) - 4) = 17 + length tail"
    by (simp add: unat_sub_if')
  have skip: "unat ((ucast (rc_length r) :: u64) - 21) = length tail"
    by (simp add: unat_sub_if' x)
  have "\<not> (of_nat (17 + length tail + length rest) :: u64) < (ucast (rc_length r) :: u64) - 4"
    using small buf lay unfolding word_less_nat_alt data by (subst unat_of_nat_id) simp_all
  then have enough: "\<not> (of_nat (length (rc_attributes r # be64 (rc_timestamp_delta r)
      @ be64 (rc_offset_delta r) @ tail @ rest)) :: u64) < (ucast (rc_length r) :: u64) - 4"
    by (simp add: algebra_simps)
  have four: "\<not> length (record_layout r @ rest) < 4"
    using record_layout_min [of r] by simp
  show ?thesis
    unfolding record_ref_next_def buf using four enough
    by (simp add: lay gets skip Let_def del: length_append length_Cons)
qed

lemma record_ref_find_layout:
  assumes "\<forall>r \<in> set rs. record_sized r" and "rf_buf it = records_layout rs"
    and "rf_pos it + length (records_layout rs) = rf_total_len it" and "rf_total_len it < 2 ^ 64"
  shows "record_ref_find B d it = Some (Ok (ref_search d (rf_pos it) (rf_index it) rs))"
  using assms
proof (induction rs arbitrary: it)
  case Nil
  then show ?case
    by (subst record_ref_find.simps) (simp add: record_ref_next_def)
next
  case (Cons r rs)
  let ?it = "it\<lparr>rf_buf := records_layout rs, rf_pos := rf_total_len it - length (records_layout rs),
      rf_index := rf_index it + 1\<rparr>"
  have "record_ref_next B it =
    Ok (Some (Ok \<lparr>rr_offset_delta = rc_offset_delta r, rr_byte_offset = rf_pos it,
                  rr_byte_len = 4 + ucast (rc_length r), rr_index = rf_index it\<rparr>), ?it)"
    using Cons.prems by (intro record_ref_next_layout) auto
  moreover have "record_ref_find B d ?it =
      Some (Ok (ref_search d (rf_pos ?it) (rf_index ?it) rs))"
    using Cons.prems by (intro Cons.IH) auto
  moreover have "rf_pos ?it = rf_pos it + length (record_layout r)"
    using Cons.prems by simp
  ultimately show ?case
    by (subst record_ref_find.simps) simp
qed

end

lemma record_ref_find_stuck:
  assumes "0 < length (rf_buf it)" and "length (rf_buf it) < 4"
  shows "record_ref_find B d it = None"
proof -
  have "\<not> (0 < length (rf_buf it) \<and> length (rf_buf it) < 4)" if "record_ref_find B d it = Some y" for y
  proof (rule record_ref_find.raw_induct [OF _ that])
    fix find :: "bytes_ops \<Rightarrow> u64 \<Rightarrow> record_ref_iter \<Rightarrow> (unit, record_ref option) outcome option"
      and B :: bytes_ops and d it y
    assume IH: "\<And>B d it y. find B d it = Some y \<Longrightarrow>
        \<not> (0 < length (rf_buf it) \<and> length (rf_buf it) < 4)"
      and body: "(case record_ref_next B it of
        Ok (None, it') \<Rightarrow> Some (Ok None)
      | Ok (Some (Ok r), it') \<Rightarrow>
          (if rr_offset_delta r = d then Some (Ok (Some r)) else find B d it')
      | Ok (Some (Err e), it') \<Rightarrow> find B d it'
      | Ok (Some Panic, it') \<Rightarrow> Some Panic
      | Err e \<Rightarrow> Some (Err e)
      | Panic \<Rightarrow> Some Panic) = Some y"
    show "\<not> (0 < length (rf_buf it) \<and> length (rf_buf it) < 4)"
    proof
      assume stuck: "0 < length (rf_buf it) \<and> length (rf_buf it) < 4"
      then have "record_ref_next B it =
          Ok (Some (Err (Io (UnexpectedEof ''not enough bytes for record length''))), it)"
        by (simp add: record_ref_next_def)
      with body have "find B d it = Some y"
        by simp
      with IH stuck show False
        by blast
    qed
  qed
  with assms show ?thesis
    by (metis not_None_eq)
qed

text \<open>The records before the stray bytes do not change that, unless one of them is the one sought.\<close>

lemma record_ref_find_stray:
  assumes "bytes_crate B" and "\<forall>r \<in> set rs. record_sized r \<and> rc_offset_delta r \<noteq> d"
    and "rf_buf it = records_layout rs @ stray" and "0 < length stray" "length stray < 4" and "length (rf_buf it) < 2 ^ 64"
  shows "record_ref_find B d it = None"
  using assms(2,3,6)
proof (induction rs arbitrary: it)
  case Nil
  then show ?case
    using record_ref_find_stuck [of it] assms(4,5) by simp
next
  case (Cons r rs)
  have r: "record_sized r" and buf: "rf_buf it = record_layout r @ records_layout rs @ stray"
    using Cons.prems(1,2) by simp_all
  have "record_ref_find B d (it\<lparr>rf_buf := records_layout rs @ stray,
      rf_pos := rf_total_len it - length (records_layout rs @ stray), rf_index := rf_index it + 1\<rparr>) = None"
    using Cons.prems by (intro Cons.IH) simp_all
  then show ?case
    using Cons.prems(1) bytes_crate.record_ref_next_layout [OF assms(1) r buf Cons.prems(3)]
    by (subst record_ref_find.simps) simp
qed

lemma ref_search_nth:
  assumes "\<forall>i < length rs. rc_offset_delta (rs ! i) = of_nat (j + i)"
    and "k < length rs" and "j + length rs < 2 ^ 64"
  shows "ref_search (of_nat (j + k)) pos i rs =
    Some \<lparr>rr_offset_delta = of_nat (j + k),
          rr_byte_offset = pos + length (records_layout (take k rs)),
          rr_byte_len = 4 + ucast (rc_length (rs ! k)), rr_index = i + of_nat k\<rparr>"
  using assms
proof (induction rs arbitrary: j k pos i)
  case (Cons r rs)
  show ?case
  proof (cases k)
    case 0
    with Cons.prems(1) show ?thesis
      by auto
  next
    case (Suc k')
    have "rc_offset_delta r = of_nat j"
      using Cons.prems(1) by auto
    moreover have "(of_nat j :: u64) \<noteq> of_nat (j + k)"
    proof
      assume "(of_nat j :: u64) = of_nat (j + k)"
      moreover have "unat (of_nat j :: u64) = j" and "unat (of_nat (j + k) :: u64) = j + k"
        using Cons.prems(2,3) by (auto intro: unat_of_nat_id simp del: of_nat_add)
      ultimately have "j = j + k"
        by metis
      with Suc show False
        by simp
    qed
    moreover have "ref_search (of_nat (Suc j + k')) (pos + length (record_layout r)) (i + 1) rs =
      Some \<lparr>rr_offset_delta = of_nat (Suc j + k'),
          rr_byte_offset = pos + length (record_layout r) + length (records_layout (take k' rs)),
          rr_byte_len = 4 + ucast (rc_length (rs ! k')), rr_index = i + 1 + of_nat k'\<rparr>"
      using Cons.prems Suc by (intro Cons.IH) force+
    ultimately show ?thesis
      using Suc by (simp del: of_nat_add of_nat_Suc) (simp add: algebra_simps)
  qed
qed simp

end
