(* ===== verification/Proto_Batch.thy ===== *)
theory Proto_Batch
  imports Proto_Record
begin

text \<open>
  Record batches of the crate \<open>musil-proto\<close>: their attributes (\<open>batch_attributes.rs\<close>),
  their header, codecs and slices (\<open>record_batch.rs\<close>), and the iterator over the batches of a
  log file (\<open>batch_iter.rs\<close>). The checksum \<open>crc32_iscsi\<close> of the crate \<open>crc_fast\<close> is an
  argument \<open>crc\<close>.

  A file is the list of its bytes. \<open>read_at\<close> fills the buffer with what the file has from the
  position on; the rest of the buffer keeps its zeros, because the code ignores the count that
  \<open>read_at\<close> returns. Errors of the disk are not modelled.
\<close>

section \<open>Attributes\<close>

type_synonym batch_attributes = u16

datatype compression = CompressionNone | Gzip | Snappy | Lz4 | Zstd

text \<open>\<open>None\<close> is the panic.\<close>

definition compression_from_bits :: "u16 \<Rightarrow> compression option" where
  "compression_from_bits c =
     (if c = 0 then Some CompressionNone else if c = 1 then Some Gzip
      else if c = 2 then Some Snappy else if c = 3 then Some Lz4
      else if c = 4 then Some Zstd else None)"

definition attributes_compression :: "batch_attributes \<Rightarrow> compression option" where
  "attributes_compression a = compression_from_bits (and a 7)"

definition attributes_is_transactional :: "batch_attributes \<Rightarrow> bool" where
  "attributes_is_transactional a \<longleftrightarrow> and a (push_bit 4 1) \<noteq> 0"

definition attributes_is_control :: "batch_attributes \<Rightarrow> bool" where
  "attributes_is_control a \<longleftrightarrow> and a (push_bit 5 1) \<noteq> 0"

section \<open>Batches\<close>

record record_batch =
  rb_base_offset :: u64
  rb_batch_length :: u32
  rb_partition_leader_epoch :: i32
  rb_magic :: u8
  rb_crc :: u32
  rb_attributes :: batch_attributes
  rb_last_offset_delta :: i32
  rb_base_timestamp :: u64
  rb_max_timestamp :: u64
  rb_producer_id :: i64
  rb_producer_epoch :: i16
  rb_base_sequence :: i32
  rb_records_count :: u32
  rb_records :: "u8 list"

definition batch_into_records :: "bytes_ops \<Rightarrow> record_batch \<Rightarrow> (unit, msg_record list) outcome" where
  "batch_into_records B b =
     (case rrepeat (unat (rb_records_count b)) (record_decode B) (rb_records b) of
        Ok (rs, rest) \<Rightarrow> Ok rs | Err e \<Rightarrow> Panic | Panic \<Rightarrow> Panic)"

definition batch_min_timestamp :: "msg_record list \<Rightarrow> u64" where
  "batch_min_timestamp rs =
     fold (\<lambda>r t. if rc_timestamp_delta r < t then rc_timestamp_delta r else t) rs (- 1)"

definition batch_max_timestamp :: "msg_record list \<Rightarrow> u64" where
  "batch_max_timestamp rs =
     fold (\<lambda>r t. if t < rc_timestamp_delta r then rc_timestamp_delta r else t) rs 0"

definition rebase_record :: "u64 \<Rightarrow> nat \<times> msg_record \<Rightarrow> msg_record" where
  "rebase_record base_timestamp = (\<lambda>(i, r).
     r\<lparr>rc_offset_delta := of_nat i, rc_timestamp_delta := rc_timestamp_delta r - base_timestamp\<rparr>)"

definition batch_from_records :: "bytes_ops \<Rightarrow> (u8 list \<Rightarrow> u32) \<Rightarrow> msg_record list \<Rightarrow> record_batch" where
  "batch_from_records B crc rs =
     (let base_timestamp = batch_min_timestamp rs;
          buf = emit (map (\<lambda>p. record_encode_to B (rebase_record base_timestamp p)) (enumerate 0 rs)) []
      in \<lparr>rb_base_offset = 0, rb_batch_length = 49 + of_nat (length buf),
          rb_partition_leader_epoch = 0, rb_magic = 2, rb_crc = crc buf, rb_attributes = 0,
          rb_last_offset_delta = of_nat (length rs) - 1, rb_base_timestamp = base_timestamp,
          rb_max_timestamp = batch_max_timestamp rs, rb_producer_id = 0, rb_producer_epoch = 0,
          rb_base_sequence = 0, rb_records_count = of_nat (length rs), rb_records = buf\<rparr>)"

definition batch_from_compact ::
    "(u8 list \<Rightarrow> u32) \<Rightarrow> u64 \<Rightarrow> u32 \<Rightarrow> u32 \<Rightarrow> u8 list \<Rightarrow> record_batch" where
  "batch_from_compact crc base_offset batch_length records_count records =
     \<lparr>rb_base_offset = base_offset, rb_batch_length = 49 + of_nat (length records),
      rb_partition_leader_epoch = - 1, rb_magic = 2, rb_crc = crc records, rb_attributes = 0,
      rb_last_offset_delta = records_count - 1, rb_base_timestamp = 0, rb_max_timestamp = 0,
      rb_producer_id = - 1, rb_producer_epoch = - 1, rb_base_sequence = - 1,
      rb_records_count = records_count, rb_records = records\<rparr>"

definition batch_checksum :: "(u8 list \<Rightarrow> u32) \<Rightarrow> record_batch \<Rightarrow> bool" where
  "batch_checksum crc b \<longleftrightarrow> crc (rb_records b) = rb_crc b"

definition batch_get_size :: "record_batch \<Rightarrow> u32" where
  "batch_get_size b = 12 + rb_batch_length b"

definition batch_update_base_offset :: "u64 \<Rightarrow> record_batch \<Rightarrow> record_batch" where
  "batch_update_base_offset offset b = b\<lparr>rb_base_offset := offset\<rparr>"

definition batch_encode_header :: "record_batch \<Rightarrow> u8 list" where
  "batch_encode_header b =
     be64 (rb_base_offset b) @ be32 (rb_batch_length b) @ be32 (rb_partition_leader_epoch b)
     @ [rb_magic b] @ be32 (rb_crc b) @ be16 (rb_attributes b) @ be32 (rb_last_offset_delta b)
     @ be64 (rb_base_timestamp b) @ be64 (rb_max_timestamp b) @ be64 (rb_producer_id b)
     @ be16 (rb_producer_epoch b) @ be32 (rb_base_sequence b) @ be32 (rb_records_count b)"

section \<open>Decoding from a file and from a slice\<close>

definition read_at :: "u8 list \<Rightarrow> u64 \<Rightarrow> nat \<Rightarrow> u8 list" where
  "read_at file pos n =
     take n (drop (unat pos) file) @ replicate (n - (length file - unat pos)) 0"

text \<open>\<open>bytes[a..b]\<close> in bounds.\<close>

definition slice :: "nat \<Rightarrow> nat \<Rightarrow> 'a list \<Rightarrow> 'a list" where
  "slice a b bs = drop a (take b bs)"

text \<open>The fields of the payload; \<open>None\<close> when an index panics.\<close>

definition batch_of_payload :: "u64 \<Rightarrow> u32 \<Rightarrow> u8 list \<Rightarrow> record_batch option" where
  "batch_of_payload base_offset batch_length payload =
     (if length payload < 49 then None
      else Some
        \<lparr>rb_base_offset = base_offset, rb_batch_length = batch_length,
         rb_partition_leader_epoch = from_be32 (slice 0 4 payload),
         rb_magic = payload ! 4,
         rb_crc = from_be32 (slice 5 9 payload),
         rb_attributes = from_be16 (slice 9 11 payload),
         rb_last_offset_delta = from_be32 (slice 11 15 payload),
         rb_base_timestamp = from_be64 (slice 15 23 payload),
         rb_max_timestamp = from_be64 (slice 23 31 payload),
         rb_producer_id = from_be64 (slice 31 39 payload),
         rb_producer_epoch = from_be16 (slice 39 41 payload),
         rb_base_sequence = from_be32 (slice 41 45 payload),
         rb_records_count = from_be32 (slice 45 49 payload),
         rb_records = drop 49 payload\<rparr>)"

definition batch_decode_file :: "u8 list \<Rightarrow> u64 \<Rightarrow> record_batch option" where
  "batch_decode_file file pos =
     (let prefix = read_at file pos 12;
          base_offset = from_be64 (slice 0 8 prefix);
          batch_length = from_be32 (slice 8 12 prefix);
          payload = read_at file (pos + 12) (unat batch_length)
      in batch_of_payload base_offset batch_length payload)"

definition batch_decode_slice :: "u8 list \<Rightarrow> u64 \<Rightarrow> record_batch option" where
  "batch_decode_slice raw pos =
     (if length raw < 12 then None
      else
        let base_offset = from_be64 (slice 0 8 raw);
            batch_length = from_be32 (slice 8 12 raw)
        in if length raw < 12 + unat batch_length then None
           else batch_of_payload base_offset batch_length (slice 12 (12 + unat batch_length) raw))"

section \<open>Finding and slicing\<close>

definition batch_records_iter :: "record_batch \<Rightarrow> record_iter" where
  "batch_records_iter b = record_iter_new (rb_records b)"

definition batch_record_refs :: "record_batch \<Rightarrow> record_ref_iter" where
  "batch_record_refs b = record_ref_iter_new (rb_records b)"

definition batch_find_record ::
    "bytes_ops \<Rightarrow> record_batch \<Rightarrow> u64 \<Rightarrow> (unit, record_ref option) outcome option" where
  "batch_find_record B b offset_delta = record_ref_find B offset_delta (batch_record_refs b)"

text \<open>\<open>None\<close> when the search for the record does not return.\<close>

definition batch_slice_from_offset ::
    "bytes_ops \<Rightarrow> (u8 list \<Rightarrow> u32) \<Rightarrow> record_batch \<Rightarrow> u64 \<Rightarrow>
      (proto_error, record_batch) outcome option" where
  "batch_slice_from_offset B crc b offset =
     (if offset = rb_base_offset b then Some (Ok b)
      else
        let delta = offset - rb_base_offset b
        in case batch_find_record B b delta of
             None \<Rightarrow> None
           | Some (Ok None) \<Rightarrow> Some (Err InvalidOffset)
           | Some (Ok (Some loc)) \<Rightarrow>
               (case bo_slice_from B (rr_byte_offset loc) (rb_records b) of
                  None \<Rightarrow> Some Panic
                | Some sliced_records \<Rightarrow>
                    Some (Ok (b\<lparr>rb_base_offset := offset,
                                rb_batch_length := 49 + of_nat (length sliced_records),
                                rb_crc := crc sliced_records,
                                rb_last_offset_delta := rb_last_offset_delta b - ucast delta,
                                rb_records_count := rb_records_count b - rr_index loc,
                                rb_records := sliced_records\<rparr>)))
           | Some (Err e) \<Rightarrow> Some Panic
           | Some Panic \<Rightarrow> Some Panic)"

section \<open>The codec of the wire\<close>

definition batch_encode :: "bytes_ops \<Rightarrow> record_batch \<Rightarrow> u8 list \<Rightarrow> u8 list" where
  "batch_encode B b =
     emit [bo_put_u64 B (rb_base_offset b), bo_put_u32 B (rb_batch_length b),
           bo_put_i32 B (rb_partition_leader_epoch b), bo_put_u8 B (rb_magic b),
           bo_put_u32 B (rb_crc b), bo_put_u16 B (rb_attributes b),
           bo_put_i32 B (rb_last_offset_delta b), bo_put_u64 B (rb_base_timestamp b),
           bo_put_u64 B (rb_max_timestamp b), bo_put_i64 B (rb_producer_id b),
           bo_put_i16 B (rb_producer_epoch b), bo_put_i32 B (rb_base_sequence b),
           bo_put_u32 B (rb_records_count b), bo_put_slice B (rb_records b)]"

definition batch_decode ::
    "bytes_ops \<Rightarrow> (u8 list \<Rightarrow> u32) \<Rightarrow> u8 list \<Rightarrow> (proto_error, record_batch) outcome" where
  "batch_decode B crc buf =
     obind (rget (bo_get_u64 B) buf) (\<lambda>(base_offset, buf).
     obind (rget (bo_get_u32 B) buf) (\<lambda>(batch_length, buf).
     obind (rget (bo_get_i32 B) buf) (\<lambda>(partition_leader_epoch, buf).
     obind (rget (bo_get_u8 B) buf) (\<lambda>(magic, buf).
     obind (rget (bo_get_u32 B) buf) (\<lambda>(crc_field, buf).
     obind (rget (bo_get_u16 B) buf) (\<lambda>(attributes, buf).
     obind (rget (bo_get_i32 B) buf) (\<lambda>(last_offset_delta, buf).
     obind (rget (bo_get_u64 B) buf) (\<lambda>(base_timestamp, buf).
     obind (rget (bo_get_u64 B) buf) (\<lambda>(max_timestamp, buf).
     obind (rget (bo_get_i64 B) buf) (\<lambda>(producer_id, buf).
     obind (rget (bo_get_i16 B) buf) (\<lambda>(producer_epoch, buf).
     obind (rget (bo_get_i32 B) buf) (\<lambda>(base_sequence, buf).
     obind (rget (bo_get_u32 B) buf) (\<lambda>(records_count, records).
     if crc records \<noteq> crc_field then Err CRC
     else Ok
       \<lparr>rb_base_offset = base_offset, rb_batch_length = batch_length,
        rb_partition_leader_epoch = partition_leader_epoch, rb_magic = magic, rb_crc = crc_field,
        rb_attributes = attributes, rb_last_offset_delta = last_offset_delta,
        rb_base_timestamp = base_timestamp, rb_max_timestamp = max_timestamp,
        rb_producer_id = producer_id, rb_producer_epoch = producer_epoch,
        rb_base_sequence = base_sequence, rb_records_count = records_count,
        rb_records = records\<rparr>)))))))))))))"

section \<open>The iterator over a file\<close>

record batch_iter =
  bi_file :: "u8 list"
  bi_pos :: u64
  bi_end :: u64

definition batch_iter_empty :: "u8 list \<Rightarrow> batch_iter" where
  "batch_iter_empty file = \<lparr>bi_file = file, bi_pos = 0, bi_end = 0\<rparr>"

definition batch_iter_next :: "batch_iter \<Rightarrow> (unit, record_batch option \<times> batch_iter) outcome" where
  "batch_iter_next it =
     (if bi_end it \<le> bi_pos it then Ok (None, it)
      else
        let header = read_at (bi_file it) (bi_pos it) 12;
            batch_length = from_be32 (slice 8 12 header)
        in if bi_end it < bi_pos it + 12 + ucast batch_length then Ok (None, it)
           else case batch_decode_file (bi_file it) (bi_pos it) of
                  None \<Rightarrow> Panic
                | Some b \<Rightarrow> Ok (Some b, it\<lparr>bi_pos := bi_pos it + (12 + ucast batch_length)\<rparr>))"

text \<open>
  A \<open>for\<close> loop over the iterator. The body goes on, leaves the loop or panics; the loop itself
  need not end.
\<close>

datatype 's flow = Continue 's | Break 's | Crash

partial_function (option) batch_for ::
    "('s \<Rightarrow> record_batch \<Rightarrow> 's flow) \<Rightarrow> 's \<Rightarrow> batch_iter \<Rightarrow> (unit, 's) outcome option" where
  "batch_for body s it =
     (case batch_iter_next it of
        Ok (None, it') \<Rightarrow> Some (Ok s)
      | Ok (Some b, it') \<Rightarrow>
          (case body s b of
             Continue s' \<Rightarrow> batch_for body s' it'
           | Break s' \<Rightarrow> Some (Ok s')
           | Crash \<Rightarrow> Some Panic)
      | Err e \<Rightarrow> Some (Err e)
      | Panic \<Rightarrow> Some Panic)"

end
