(* ===== verification/Proto_Layout.thy ===== *)
theory Proto_Layout
  imports Proto_Batch
begin

text \<open>
  What the batch codecs do, stated over the layout of a batch: the three decoders read back what
  the two encoders write, the loop over a file visits the batches written to it, and a slice
  holds the records from the one at its offset.
\<close>

section \<open>The layout of a batch\<close>

definition batch_layout :: "record_batch \<Rightarrow> u8 list" where
  "batch_layout b = batch_encode_header b @ rb_records b"

definition batch_sized :: "record_batch \<Rightarrow> bool" where
  "batch_sized b \<longleftrightarrow> unat (rb_batch_length b) = 49 + length (rb_records b)"

definition batch_payload :: "record_batch \<Rightarrow> u8 list" where
  "batch_payload b =
     be32 (rb_partition_leader_epoch b)
     @ [rb_magic b] @ be32 (rb_crc b) @ be16 (rb_attributes b) @ be32 (rb_last_offset_delta b)
     @ be64 (rb_base_timestamp b) @ be64 (rb_max_timestamp b) @ be64 (rb_producer_id b)
     @ be16 (rb_producer_epoch b) @ be32 (rb_base_sequence b) @ be32 (rb_records_count b)
     @ rb_records b"

lemma batch_layout_payload:
  "batch_layout b = be64 (rb_base_offset b) @ be32 (rb_batch_length b) @ batch_payload b"
  by (simp add: batch_layout_def batch_encode_header_def batch_payload_def)

lemma length_batch_encode_header [simp]: "length (batch_encode_header b) = 61"
  by (simp add: batch_encode_header_def)

lemma length_batch_payload [simp]: "length (batch_payload b) = 49 + length (rb_records b)"
  by (simp add: batch_payload_def)

lemma length_batch_layout [size_simps]: "length (batch_layout b) = 61 + length (rb_records b)"
  by (simp add: batch_layout_def)

lemma batch_sized_layout:
  "batch_sized b \<Longrightarrow> length (batch_layout b) = 12 + unat (rb_batch_length b)"
  by (simp add: batch_sized_def length_batch_layout)

lemma batch_get_size_layout:
  assumes "batch_sized b"
  shows "batch_get_size b = of_nat (length (batch_layout b))"
proof -
  have "(of_nat (length (batch_layout b)) :: u32) = 12 + of_nat (unat (rb_batch_length b))"
    using batch_sized_layout [OF assms] by simp
  then show ?thesis
    by (simp add: batch_get_size_def)
qed

lemma slice_skip:
  assumes "length p \<le> a" and "a \<le> b"
  shows "slice a b (p @ s) = slice (a - length p) (b - length p) s"
  using assms by (simp add: slice_def)

lemma slice_first: "length p = b \<Longrightarrow> slice 0 b (p @ s) = p"
  by (simp add: slice_def)

lemma batch_of_payload_layout:
  "batch_of_payload (rb_base_offset b) (rb_batch_length b) (batch_payload b) = Some b"
proof -
  have "\<not> length (batch_payload b) < 49"
    by simp
  then show ?thesis
    unfolding batch_of_payload_def
    by (simp add: batch_payload_def slice_def nth_append)
qed

lemma batch_decode_slice_layout:
  assumes "batch_sized b"
  shows "batch_decode_slice (batch_layout b @ rest) pos = Some b"
proof -
  have len: "\<not> length (batch_layout b @ rest) < 12"
    "\<not> length (batch_layout b @ rest) < 12 + unat (rb_batch_length b)"
    using batch_sized_layout [OF assms] by simp_all
  have "from_be64 (slice 0 8 (batch_layout b @ rest)) = rb_base_offset b"
    "from_be32 (slice 8 12 (batch_layout b @ rest)) = rb_batch_length b"
    "slice 12 (12 + unat (rb_batch_length b)) (batch_layout b @ rest) = batch_payload b"
    using assms by (simp_all add: batch_layout_payload slice_def batch_sized_def)
  with len show ?thesis
    by (simp add: batch_decode_slice_def Let_def batch_of_payload_layout)
qed

section \<open>Files\<close>

lemma read_at_layout:
  "unat pos = length pre \<Longrightarrow> n = length m \<Longrightarrow> read_at (pre @ m @ post) pos n = m"
  by (simp add: read_at_def)

lemma read_at_prefix:
  assumes "unat pos = length pre"
  shows "read_at (pre @ batch_layout b @ post) pos 12
    = be64 (rb_base_offset b) @ be32 (rb_batch_length b)"
  using read_at_layout [OF assms, of 12 "be64 (rb_base_offset b) @ be32 (rb_batch_length b)"]
  by (simp add: batch_layout_payload)

lemma batch_decode_file_layout:
  assumes "batch_sized b" and pos: "unat pos = length pre" and "length pre + 12 < 2 ^ 64"
  shows "batch_decode_file (pre @ batch_layout b @ post) pos = Some b"
proof -
  have "unat (pos + 12) = length (pre @ be64 (rb_base_offset b) @ be32 (rb_batch_length b))"
    using assms(3) pos by (simp add: unat_add_lem [THEN iffD1])
  then have "read_at (pre @ batch_layout b @ post) (pos + 12) (unat (rb_batch_length b))
      = batch_payload b"
    using read_at_layout [of "pos + 12" "pre @ be64 (rb_base_offset b) @ be32 (rb_batch_length b)"
        "unat (rb_batch_length b)" "batch_payload b" post] assms(1)
    by (simp add: batch_layout_payload batch_sized_def)
  then show ?thesis
    by (simp add: batch_decode_file_def read_at_prefix [OF pos] Let_def slice_def
        batch_of_payload_layout)
qed

lemma batch_iter_next_layout:
  assumes b: "batch_sized b" and contents: "bi_file it = pre @ batch_layout b @ post"
    and pos: "unat (bi_pos it) = length pre"
    and lim: "length pre + length (batch_layout b) \<le> unat (bi_end it)"
  shows "batch_iter_next it = Ok (Some b, it\<lparr>bi_pos := bi_pos it + (12 + ucast (rb_batch_length b))\<rparr>)"
    and "unat (bi_pos it + (12 + ucast (rb_batch_length b))) = length (pre @ batch_layout b)"
proof -
  have small: "length pre + (12 + unat (rb_batch_length b)) < 2 ^ 64"
    using lim batch_sized_layout [OF b] unat_bound [of "bi_end it"] by simp
  have u: "unat (12 + ucast (rb_batch_length b) :: u64) = 12 + unat (rb_batch_length b)"
    using small by (simp add: unat_word_ariths unat_ucast_up)
  show p: "unat (bi_pos it + (12 + ucast (rb_batch_length b))) = length (pre @ batch_layout b)"
    using small pos u batch_sized_layout [OF b] by (simp add: unat_word_ariths)
  have pos12: "bi_pos it + 12 + ucast (rb_batch_length b) = bi_pos it + (12 + ucast (rb_batch_length b))"
    by (simp add: add.assoc)
  have "\<not> bi_end it < bi_pos it + (12 + ucast (rb_batch_length b))"
    using p lim unfolding word_less_nat_alt by simp
  moreover have "\<not> bi_end it \<le> bi_pos it"
    using pos lim unfolding word_le_nat_alt by (simp add: length_batch_layout)
  moreover have "batch_decode_file (bi_file it) (bi_pos it) = Some b"
    using batch_decode_file_layout [OF b pos, of post] small contents by simp
  ultimately show "batch_iter_next it =
      Ok (Some b, it\<lparr>bi_pos := bi_pos it + (12 + ucast (rb_batch_length b))\<rparr>)"
    unfolding batch_iter_next_def contents read_at_prefix [OF pos] Let_def
    by (simp add: slice_def pos12)
qed

text \<open>The loop over the batches as a loop over the list of them.\<close>

fun list_for :: "('s \<Rightarrow> record_batch \<Rightarrow> 's flow) \<Rightarrow> 's \<Rightarrow> record_batch list \<Rightarrow> (unit, 's) outcome" where
  "list_for body s [] = Ok s"
| "list_for body s (b # bs) =
     (case body s b of Continue s' \<Rightarrow> list_for body s' bs | Break s' \<Rightarrow> Ok s' | Crash \<Rightarrow> Panic)"

definition batches_layout :: "record_batch list \<Rightarrow> u8 list" where
  "batches_layout bs = concat (map batch_layout bs)"

lemma batches_layout_simps [simp]:
  "batches_layout [] = []"
  "batches_layout (b # bs) = batch_layout b @ batches_layout bs"
  "batches_layout (bs @ cs) = batches_layout bs @ batches_layout cs"
  by (simp_all add: batches_layout_def)

lemma batch_for_layout:
  assumes "\<forall>b \<in> set bs. batch_sized b" and "bi_file it = pre @ batches_layout bs @ post"
    and "unat (bi_pos it) = length pre"
    and "unat (bi_end it) = length pre + length (batches_layout bs)"
  shows "batch_for body s it = Some (list_for body s bs)"
  using assms
proof (induction bs arbitrary: it pre s)
  case Nil
  then have "batch_iter_next it = Ok (None, it)"
    by (simp add: batch_iter_next_def word_le_nat_alt)
  then show ?case
    by (subst batch_for.simps) simp
next
  case (Cons b bs)
  let ?it = "it\<lparr>bi_pos := bi_pos it + (12 + ucast (rb_batch_length b))\<rparr>"
  have contents: "bi_file it = pre @ batch_layout b @ (batches_layout bs @ post)"
    using Cons.prems(2) by simp
  have "batch_iter_next it = Ok (Some b, ?it)"
    and p: "unat (bi_pos it + (12 + ucast (rb_batch_length b))) = length (pre @ batch_layout b)"
    using batch_iter_next_layout [OF _ contents Cons.prems(3)] Cons.prems(1,4) by simp_all
  moreover have "batch_for body s' ?it = Some (list_for body s' bs)" for s'
    using Cons.prems p by (intro Cons.IH [of _ "pre @ batch_layout b"]) simp_all
  ultimately show ?case
    by (subst batch_for.simps) (simp split: flow.splits)
qed

section \<open>The codec of the wire\<close>

context bytes_crate
begin

lemma batch_encode_layout: "batch_encode B b buf = buf @ batch_layout b"
  by (simp add: batch_encode_def batch_layout_payload batch_payload_def puts)

lemma batch_decode_layout:
  "batch_decode B crc (batch_layout b) = (if batch_checksum crc b then Ok b else Err CRC)"
  by (simp add: batch_decode_def batch_layout_payload batch_payload_def gets batch_checksum_def)

section \<open>From records and back\<close>

lemma batch_from_records_records:
  "rb_records (batch_from_records B crc rs) =
     records_layout (map (rebase_record (batch_min_timestamp rs)) (enumerate 0 rs))"
  by (simp add: batch_from_records_def Let_def records_layout_def emit_concat [of _ _ "record_layout \<circ> rebase_record (batch_min_timestamp rs)"]
      record_encode_to_layout comp_def)

end

lemma rebase_record_layout:
  "length (record_layout (rebase_record t (i, r))) = length (record_layout r)"
  "record_fits (rebase_record t (i, r)) = record_fits r"
  "record_sized (rebase_record t (i, r)) = record_sized r"
  by (simp_all add: rebase_record_def record_layout_def record_fits_def record_sized_def)

definition rebased :: "msg_record list \<Rightarrow> msg_record list" where
  "rebased rs = map (rebase_record (batch_min_timestamp rs)) (enumerate 0 rs)"

lemma rebased_nth:
  "i < length rs \<Longrightarrow> rebased rs ! i = rebase_record (batch_min_timestamp rs) (i, rs ! i)"
  by (simp add: rebased_def nth_enumerate_eq)

lemma length_rebased [simp]: "length (rebased rs) = length rs"
  by (simp add: rebased_def)

lemma rebased_fits: "\<forall>r \<in> set rs. record_fits r \<Longrightarrow> \<forall>r \<in> set (rebased rs). record_fits r"
  by (auto simp: rebased_def in_set_enumerate_eq rebase_record_layout)

lemma rebased_sized: "\<forall>r \<in> set rs. record_sized r \<Longrightarrow> \<forall>r \<in> set (rebased rs). record_sized r"
  by (auto simp: rebased_def in_set_enumerate_eq rebase_record_layout)

lemma rebased_offset: "i < length rs \<Longrightarrow> rc_offset_delta (rebased rs ! i) = of_nat i"
  by (simp add: rebased_nth rebase_record_def)

lemma length_records_layout_rebased: "length (records_layout (rebased rs)) = length (records_layout rs)"
proof -
  have "map (\<lambda>r. length (record_layout r)) (rebased rs) = map (\<lambda>r. length (record_layout r)) rs"
    by (rule nth_equalityI) (simp_all add: rebased_nth rebase_record_layout)
  then show ?thesis
    by (simp add: records_layout_def length_concat comp_def)
qed

text \<open>A batch that holds the records: the invariant of the batches that are stored.\<close>

definition batch_holds :: "record_batch \<Rightarrow> msg_record list \<Rightarrow> bool" where
  "batch_holds b rs \<longleftrightarrow>
     batch_sized b \<and> rb_records b = records_layout rs \<and> unat (rb_records_count b) = length rs
     \<and> (\<forall>r \<in> set rs. record_sized r)"

context bytes_crate
begin

lemma batch_from_records_holds:
  assumes "\<forall>r \<in> set rs. record_sized r" and "length (records_layout rs) + 49 < 2 ^ 32"
  shows "batch_holds (batch_from_records B crc rs) (rebased rs)"
    and "batch_checksum crc (batch_from_records B crc rs)"
proof -
  let ?b = "batch_from_records B crc rs"
  have rec: "rb_records ?b = records_layout (rebased rs)"
    by (simp add: batch_from_records_records rebased_def)
  have "length rs \<le> length (records_layout rs)"
  proof (induction rs)
    case (Cons r rs)
    with record_layout_min [of r] show ?case
      by simp
  qed simp
  then have n: "unat (rb_records_count ?b) = length rs"
    using assms(2) by (simp add: batch_from_records_def Let_def)
  have "rb_batch_length ?b = 49 + of_nat (length (rb_records ?b))"
    by (simp add: batch_from_records_def Let_def)
  then have "unat (rb_batch_length ?b) = 49 + length (rb_records ?b)"
    using assms(2) rec length_records_layout_rebased [of rs]
      unat_of_nat_id [where 'a = 32, of "49 + length (records_layout rs)"] by simp
  then show "batch_holds ?b (rebased rs)"
    using rec n rebased_sized [OF assms(1)] by (simp add: batch_holds_def batch_sized_def)
  show "batch_checksum crc ?b"
    by (simp add: batch_checksum_def batch_from_records_def Let_def)
qed

lemma batch_into_records_holds:
  assumes "batch_holds b rs"
  shows "batch_into_records B b = Ok rs"
proof -
  have "rrepeat (length rs) (record_decode B) (concat (map record_layout rs) @ []) = Ok (rs, [])"
    using assms by (intro rrepeat_concat) (simp add: batch_holds_def record_sized_def record_decode_layout)
  then show ?thesis
    using assms by (simp add: batch_into_records_def batch_holds_def records_layout_def)
qed

lemma batch_slice_holds:
  assumes b: "batch_holds b rs" and deltas: "\<forall>i < length rs. rc_offset_delta (rs ! i) = of_nat i"
    and k: "0 < k" "k < length rs"
  obtains c where
    "batch_slice_from_offset B crc b (rb_base_offset b + of_nat k) = Some (Ok c)"
    "rb_base_offset c = rb_base_offset b + of_nat k" "batch_holds c (drop k rs)"
    "batch_checksum crc c" "rb_partition_leader_epoch c = rb_partition_leader_epoch b"
proof -
  let ?pos = "length (records_layout (take k rs))"
  have len: "length (records_layout rs) + 49 < 2 ^ 32"
    using b unat_bound [of "rb_batch_length b"] by (simp add: batch_holds_def batch_sized_def)
  have n: "length rs < 2 ^ 32"
    using b unat_bound [of "rb_records_count b"] by (simp add: batch_holds_def)
  have ids: "rb_records b = records_layout (take k rs) @ records_layout (drop k rs)"
    using b by (simp add: batch_holds_def flip: records_layout_simps(3))
  have find: "batch_find_record B b (of_nat k) =
      Some (Ok (ref_search (of_nat k) 0 0 rs))"
    using record_ref_find_layout [of rs "batch_record_refs b" "of_nat k"] b len
    by (simp add: batch_find_record_def batch_record_refs_def record_ref_iter_new_def batch_holds_def)
  have ref: "ref_search (of_nat k) 0 0 rs = Some
      \<lparr>rr_offset_delta = of_nat k, rr_byte_offset = ?pos,
       rr_byte_len = 4 + ucast (rc_length (rs ! k)), rr_index = of_nat k\<rparr>"
    using ref_search_nth [of rs 0 k 0 0] deltas k n by simp
  define c where "c = b\<lparr>rb_base_offset := rb_base_offset b + of_nat k,
      rb_batch_length := 49 + of_nat (length (records_layout (drop k rs))),
      rb_crc := crc (records_layout (drop k rs)),
      rb_last_offset_delta := rb_last_offset_delta b - ucast (of_nat k :: u64),
      rb_records_count := rb_records_count b - of_nat k,
      rb_records := records_layout (drop k rs)\<rparr>"
  have "(of_nat k :: u64) \<noteq> 0"
    using k n unat_of_nat_id [where 'a = 64, of k] by (intro notI) simp
  then have "rb_base_offset b + of_nat k \<noteq> rb_base_offset b"
    by simp
  then have slice: "batch_slice_from_offset B crc b (rb_base_offset b + of_nat k) = Some (Ok c)"
    by (simp add: batch_slice_from_offset_def Let_def find ref slice_from ids c_def)
  have "length (records_layout (drop k rs)) \<le> length (records_layout rs)"
    by (metis append_take_drop_id le_add2 length_append records_layout_simps(3))
  then have "unat (rb_batch_length c) = 49 + length (rb_records c)"
    using len unat_of_nat_id [where 'a = 32, of "49 + length (records_layout (drop k rs))"]
    by (simp add: c_def)
  moreover have "unat (rb_records_count b - of_nat k) = length rs - k"
    using b k n by (simp add: unat_sub_if' batch_holds_def)
  ultimately have "batch_holds c (drop k rs)"
    using b by (auto simp: batch_holds_def batch_sized_def c_def dest: in_set_dropD)
  moreover have "rb_base_offset c = rb_base_offset b + of_nat k" and "batch_checksum crc c"
    and "rb_partition_leader_epoch c = rb_partition_leader_epoch b"
    by (simp_all add: c_def batch_checksum_def)
  ultimately show thesis
    using slice that [of c] by blast
qed

end

section \<open>Properties\<close>

text \<open>Decoding what \<open>Record::encode\<close> wrote gives the record back and leaves exactly the bytes
  after it, and \<open>decode_raw\<close> reports the number of bytes the record takes, as \<open>get_size\<close> does.\<close>

theorem record_roundtrip:
  assumes "bytes_crate B" and "record_fits r"
  shows "record_decode B (record_encode B r @ rest) = Ok (r, rest)
    \<and> record_decode_raw B (record_encode B r @ rest) = Ok (r, length (record_encode B r))
    \<and> record_get_size r = of_nat (length (record_encode B r))"
  using assms
  by (simp add: bytes_crate.record_encode_layout bytes_crate.record_decode_layout
      bytes_crate.record_decode_raw_layout record_get_size_layout)

definition sample_records :: "msg_record list" where
  "sample_records =
     [record_new 1000 0 [107] [118, 49], record_new 1005 0 [] [118, 50],
      (record_new 1002 0 [107] [118])
        \<lparr>rc_length := 45, rc_headers := [\<lparr>rh_key = [104], rh_value = [1]\<rparr>]\<rparr>]"

lemma sample_records_sized: "\<forall>r \<in> set sample_records. record_sized r"
  by (simp add: sample_records_def record_sized_def record_fits_def record_new_def header_fits_def
      record_get_size_def length_record_layout length_header_layout Let_def)

lemma record_roundtrip_witness:
  "record_decode list_bytes (record_encode list_bytes (sample_records ! 2) @ [9]) =
     Ok (sample_records ! 2, [9])"
proof -
  have "record_fits (sample_records ! 2)"
    using sample_records_sized by (simp add: sample_records_def record_sized_def)
  then show ?thesis
    using record_roundtrip [OF list_bytes.bytes_crate_axioms] by blast
qed

text \<open>C27: a batch made from records has a valid checksum and size, and turning it back into records
  gives the same records with their offset deltas numbered from zero and their timestamps taken
  from the earliest one.\<close>

theorem batch_records_roundtrip:
  assumes "bytes_crate B" and "\<forall>r \<in> set rs. record_sized r"
    and "length (concat (map (record_encode B) rs)) + 49 < 2 ^ 32"
  shows "batch_checksum crc (batch_from_records B crc rs)
    \<and> batch_get_size (batch_from_records B crc rs) = of_nat (61 + length (rb_records (batch_from_records B crc rs)))
    \<and> batch_into_records B (batch_from_records B crc rs) =
        Ok (map (\<lambda>(i, r). r\<lparr>rc_offset_delta := of_nat i,
              rc_timestamp_delta := rc_timestamp_delta r - batch_min_timestamp rs\<rparr>) (enumerate 0 rs))"
proof -
  let ?b = "batch_from_records B crc rs"
  have "length (records_layout rs) + 49 < 2 ^ 32"
    using assms by (simp add: bytes_crate.record_encode_layout records_layout_def cong: map_cong)
  then have holds: "batch_holds ?b (rebased rs)" and "batch_checksum crc ?b"
    using bytes_crate.batch_from_records_holds [OF assms(1,2)] by blast+
  moreover have "batch_get_size ?b = of_nat (61 + length (rb_records ?b))"
    using holds batch_get_size_layout [of ?b] by (simp add: batch_holds_def length_batch_layout)
  moreover have "rebased rs = map (\<lambda>(i, r). r\<lparr>rc_offset_delta := of_nat i,
              rc_timestamp_delta := rc_timestamp_delta r - batch_min_timestamp rs\<rparr>) (enumerate 0 rs)"
    by (simp add: rebased_def rebase_record_def case_prod_unfold)
  ultimately show ?thesis
    using bytes_crate.batch_into_records_holds [OF assms(1) holds] by simp
qed

lemma sample_records_small:
  "length (concat (map (record_encode list_bytes) sample_records)) + 49 < 2 ^ 32"
  by (simp add: list_bytes.record_encode_layout sample_records_def record_new_def
      length_record_layout length_header_layout Let_def)

lemma batch_records_roundtrip_witness:
  "omap (map (\<lambda>r. (rc_value r, rc_offset_delta r, rc_timestamp_delta r)))
     (batch_into_records list_bytes (batch_from_records list_bytes (\<lambda>bs. 0) sample_records))
   = Ok [([118, 49], 0, 0), ([118, 50], 1, 5), ([118], 2, 2)]"
  using batch_records_roundtrip [OF list_bytes.bytes_crate_axioms sample_records_sized
      sample_records_small, of "\<lambda>bs. 0"]
  by (simp add: sample_records_def record_new_def Let_def batch_min_timestamp_def)

text \<open>C28: the three decoders of a batch, from a slice, from a position of a file and from a
  received buffer, all read back what \<open>encode_header\<close> followed by the records, or \<open>encode\<close>, wrote;
  the one from a buffer refuses it when the checksum does not match.\<close>

theorem batch_codecs_agree:
  assumes "bytes_crate B" and "unat (rb_batch_length b) = 49 + length (rb_records b)"
    and "unat pos = length pre" and "length pre + 12 < 2 ^ 64"
  shows "batch_encode B b [] = batch_encode_header b @ rb_records b
    \<and> batch_decode_slice (batch_encode B b [] @ post) 0 = Some b
    \<and> batch_decode_file (pre @ batch_encode_header b @ rb_records b @ post) pos = Some b
    \<and> batch_decode B crc (batch_encode B b []) = (if batch_checksum crc b then Ok b else Err CRC)"
  using assms batch_decode_file_layout [of b pos pre post] batch_decode_slice_layout [of b post 0]
  by (simp add: bytes_crate.batch_encode_layout bytes_crate.batch_decode_layout batch_sized_def)
    (simp add: batch_layout_def)

definition sample_batch :: record_batch where
  "sample_batch = batch_from_compact (\<lambda>bs. 7) 10 0 1 (record_layout (record_new 5 0 [107] [118]))"

lemma sample_batch_length:
  "unat (rb_batch_length sample_batch) = 49 + length (rb_records sample_batch)"
  by (simp add: sample_batch_def batch_from_compact_def record_new_def length_record_layout Let_def)

lemma batch_codecs_agree_witness:
  "batch_decode_file ([1, 2, 3] @ batch_encode_header sample_batch @ rb_records sample_batch @ [4]) 3
     = Some sample_batch
   \<and> batch_decode list_bytes (\<lambda>bs. 8) (batch_encode list_bytes sample_batch []) = Err CRC"
proof -
  have "\<not> batch_checksum (\<lambda>bs. 8) sample_batch"
    by (simp add: batch_checksum_def sample_batch_def batch_from_compact_def)
  then show ?thesis
    using batch_codecs_agree [OF list_bytes.bytes_crate_axioms sample_batch_length,
        of 3 "[1, 2, 3]" "[4]" "\<lambda>bs. 8", THEN conjunct2, THEN conjunct2]
    by simp
qed

text \<open>C26: slicing a batch at one of its offsets returns, and gives a batch with the new base
  offset, the records from that one on, their count, a valid length and a fresh checksum.\<close>

theorem slice_keeps_suffix:
  assumes "bytes_crate B" and "batch_holds b rs"
    and "\<forall>i < length rs. rc_offset_delta (rs ! i) = of_nat i" and "k < length rs"
    and "batch_checksum crc b"
  shows "\<exists>c. batch_slice_from_offset B crc b (rb_base_offset b + of_nat k) = Some (Ok c)
    \<and> rb_base_offset c = rb_base_offset b + of_nat k
    \<and> batch_into_records B c = Ok (drop k rs)
    \<and> unat (rb_records_count c) = length rs - k
    \<and> batch_checksum crc c"
proof (cases "k = 0")
  case True
  then show ?thesis
    using assms bytes_crate.batch_into_records_holds [OF assms(1,2)]
    by (intro exI [of _ b]) (simp add: batch_slice_from_offset_def batch_holds_def)
next
  case False
  then obtain c where
    "batch_slice_from_offset B crc b (rb_base_offset b + of_nat k) = Some (Ok c)"
    "rb_base_offset c = rb_base_offset b + of_nat k" "batch_holds c (drop k rs)"
    "batch_checksum crc c"
    using bytes_crate.batch_slice_holds [OF assms(1-3) _ assms(4), of crc] by blast
  then show ?thesis
    using bytes_crate.batch_into_records_holds [OF assms(1)]
    by (intro exI [of _ c]) (simp add: batch_holds_def)
qed

lemma slice_keeps_suffix_witness:
  "\<exists>c. batch_slice_from_offset list_bytes (\<lambda>bs. 0) (batch_from_records list_bytes (\<lambda>bs. 0) sample_records) 2
       = Some (Ok c) \<and> unat (rb_records_count c) = 1"
proof -
  let ?b = "batch_from_records list_bytes (\<lambda>bs. 0) sample_records"
  have "length (records_layout sample_records) + 49 < 2 ^ 32"
    using sample_records_small by (simp add: list_bytes.record_encode_layout records_layout_def cong: map_cong)
  then have "batch_holds ?b (rebased sample_records)" and "batch_checksum (\<lambda>bs. 0) ?b"
    using list_bytes.batch_from_records_holds [OF sample_records_sized] by blast+
  moreover have "length sample_records = 3" and "rb_base_offset ?b = 0"
    by (simp_all add: sample_records_def batch_from_records_def Let_def)
  ultimately show ?thesis
    using slice_keeps_suffix [OF list_bytes.bytes_crate_axioms, of ?b "rebased sample_records" 2 "\<lambda>bs. 0"]
      rebased_offset by auto
qed

text \<open>C38: on a buffer of records that ends in one to three stray bytes the search for a record that is
  not among them never returns: after the last record the iterator reports the same error for
  ever and \<open>find_record\<close> skips it. Nor does slicing at the offset of such a record.\<close>

theorem find_record_may_not_return:
  assumes "bytes_crate B" and "rb_records b = records_layout rs @ stray" and "0 < length stray" "length stray < 4"
    and "\<forall>r \<in> set rs. record_sized r \<and> rc_offset_delta r \<noteq> offset - rb_base_offset b"
    and "length (rb_records b) < 2 ^ 64" and "offset \<noteq> rb_base_offset b"
  shows "batch_find_record B b (offset - rb_base_offset b) = None \<and> batch_slice_from_offset B crc b offset = None"
proof -
  have "batch_find_record B b (offset - rb_base_offset b) = None"
    unfolding batch_find_record_def
    by (rule record_ref_find_stray [OF assms(1,5) _ assms(3,4)])
      (use assms(2,6) in \<open>simp_all add: batch_record_refs_def record_ref_iter_new_def\<close>)
  then show ?thesis
    using assms(7) by (simp add: batch_slice_from_offset_def)
qed

lemma find_record_may_not_return_witness:
  "batch_slice_from_offset list_bytes (\<lambda>bs. 0)
     (batch_from_compact (\<lambda>bs. 0) 0 0 1 (record_layout (record_new 5 0 [107] [118]) @ [1, 2])) 1 = None"
proof -
  let ?r = "record_new 5 0 [107] [118]"
  have "record_sized ?r" and "rc_offset_delta ?r = 0"
    by (simp_all add: record_sized_def record_fits_def record_new_def record_get_size_def length_record_layout Let_def)
  then show ?thesis
    using find_record_may_not_return [OF list_bytes.bytes_crate_axioms, of "batch_from_compact (\<lambda>bs. 0) 0 0 1 (record_layout ?r @ [1, 2])"
        "[?r]" "[1, 2]" 1 "\<lambda>bs. 0"]
    by (simp add: batch_from_compact_def record_new_def length_record_layout Let_def)
qed

end
