(* ===== verification/Error_Codes.thy ===== *)
theory Error_Codes
  imports Prelude
begin

text \<open>
  The error codes of the protocol (\<open>crates/proto/src/error_codes.rs\<close>). The enum is
  \<open>repr(i16)\<close>: its variants are listed with their discriminants, and the type is the set of
  those discriminants, so that a value is a variant and the cast to \<open>i16\<close> is the
  representation. The variants the program uses by name are constants.
\<close>

section \<open>The enum\<close>

definition error_code_variants :: "(string \<times> i16) list" where
  "error_code_variants =
     [(''UnknownServerError'', - 1),
      (''None'', 0),
      (''OffsetOutOfRange'', 1),
      (''CorruptMessage'', 2),
      (''UnknownTopicOrPartition'', 3),
      (''InvalidFetchSize'', 4),
      (''LeaderNotAvailable'', 5),
      (''NotLeaderOrFollower'', 6),
      (''RequestTimedOut'', 7),
      (''BrokerNotAvailable'', 8),
      (''ReplicaNotAvailable'', 9),
      (''MessageTooLarge'', 10),
      (''StaleControllerEpoch'', 11),
      (''OffsetMetadataTooLarge'', 12),
      (''NetworkException'', 13),
      (''CoordinatorLoadInProgress'', 14),
      (''CoordinatorNotAvailable'', 15),
      (''NotCoordinator'', 16),
      (''InvalidTopicException'', 17),
      (''RecordListTooLarge'', 18),
      (''NotEnoughReplicas'', 19),
      (''NotEnoughReplicasAfterAppend'', 20),
      (''InvalidRequiredAcks'', 21),
      (''IllegalGeneration'', 22),
      (''InconsistentGroupProtocol'', 23),
      (''InvalidGroupId'', 24),
      (''UnknownMemberId'', 25),
      (''InvalidSessionTimeout'', 26),
      (''RebalanceInProgress'', 27),
      (''InvalidCommitOffsetSize'', 28),
      (''TopicAuthorizationFailed'', 29),
      (''GroupAuthorizationFailed'', 30),
      (''ClusterAuthorizationFailed'', 31),
      (''InvalidTimestamp'', 32),
      (''UnsupportedSaslMechanism'', 33),
      (''IllegalSaslState'', 34),
      (''UnsupportedVersion'', 35),
      (''TopicAlreadyExists'', 36),
      (''InvalidPartitions'', 37),
      (''InvalidReplicationFactor'', 38),
      (''InvalidReplicaAssignment'', 39),
      (''InvalidConfig'', 40),
      (''NotController'', 41),
      (''InvalidRequest'', 42),
      (''UnsupportedForMessageFormat'', 43),
      (''PolicyViolation'', 44),
      (''OutOfOrderSequenceNumber'', 45),
      (''DuplicateSequenceNumber'', 46),
      (''InvalidProducerEpoch'', 47),
      (''InvalidTxnState'', 48),
      (''InvalidProducerIdMapping'', 49),
      (''InvalidTransactionTimeout'', 50),
      (''ConcurrentTransactions'', 51),
      (''TransactionCoordinatorFenced'', 52),
      (''TransactionalIdAuthorizationFailed'', 53),
      (''SecurityDisabled'', 54),
      (''OperationNotAttempted'', 55),
      (''KafkaStorageError'', 56),
      (''LogDirNotFound'', 57),
      (''SaslAuthenticationFailed'', 58),
      (''UnknownProducerId'', 59),
      (''ReassignmentInProgress'', 60),
      (''DelegationTokenAuthDisabled'', 61),
      (''DelegationTokenNotFound'', 62),
      (''DelegationTokenOwnerMismatch'', 63),
      (''DelegationTokenRequestNotAllowed'', 64),
      (''DelegationTokenAuthorizationFailed'', 65),
      (''DelegationTokenExpired'', 66),
      (''InvalidPrincipalType'', 67),
      (''NonEmptyGroup'', 68),
      (''GroupIdNotFound'', 69),
      (''FetchSessionIdNotFound'', 70),
      (''InvalidFetchSessionEpoch'', 71),
      (''ListenerNotFound'', 72),
      (''TopicDeletionDisabled'', 73),
      (''FencedLeaderEpoch'', 74),
      (''UnknownLeaderEpoch'', 75),
      (''UnsupportedCompressionType'', 76),
      (''StaleBrokerEpoch'', 77),
      (''OffsetNotAvailable'', 78),
      (''MemberIdRequired'', 79),
      (''PreferredLeaderNotAvailable'', 80),
      (''GroupMaxSizeReached'', 81),
      (''FencedInstanceId'', 82),
      (''EligibleLeadersNotAvailable'', 83),
      (''ElectionNotNeeded'', 84),
      (''NoReassignmentInProgress'', 85),
      (''GroupSubscribedToTopic'', 86),
      (''InvalidRecord'', 87),
      (''UnstableOffsetCommit'', 88),
      (''ThrottlingQuotaExceeded'', 89),
      (''ProducerFenced'', 90),
      (''ResourceNotFound'', 91),
      (''DuplicateResource'', 92),
      (''UnacceptableCredential'', 93),
      (''InconsistentVoterSet'', 94),
      (''InvalidUpdateVersion'', 95),
      (''FeatureUpdateFailed'', 96),
      (''PrincipalDeserializationFailure'', 97),
      (''SnapshotNotFound'', 98),
      (''PositionOutOfRange'', 99),
      (''UnknownTopicId'', 100),
      (''DuplicateBrokerRegistration'', 101),
      (''BrokerIdNotRegistered'', 102),
      (''InconsistentTopicId'', 103),
      (''InconsistentClusterId'', 104),
      (''TransactionalIdNotFound'', 105),
      (''FetchSessionTopicIdError'', 106),
      (''IneligibleReplica'', 107),
      (''NewLeaderElected'', 108),
      (''OffsetMovedToTieredStorage'', 109),
      (''FencedMemberEpoch'', 110),
      (''UnreleasedInstanceId'', 111),
      (''UnsupportedAssignor'', 112),
      (''StaleMemberEpoch'', 113),
      (''MismatchedEndpointType'', 114),
      (''UnsupportedEndpointType'', 115),
      (''UnknownControllerId'', 116),
      (''UnknownSubscriptionId'', 117),
      (''TelemetryTooLarge'', 118),
      (''InvalidRegistration'', 119),
      (''TransactionAbortable'', 120),
      (''InvalidRecordState'', 121),
      (''ShareSessionNotFound'', 122),
      (''InvalidShareSessionEpoch'', 123),
      (''FencedStateEpoch'', 124),
      (''InvalidVoterKey'', 125),
      (''DuplicateVoter'', 126),
      (''VoterNotFound'', 127),
      (''InvalidRegularExpression'', 128),
      (''RebootstrapRequired'', 129),
      (''StreamsInvalidTopology'', 130),
      (''StreamsInvalidTopologyEpoch'', 131),
      (''StreamsTopologyFenced'', 132),
      (''ShareSessionLimitReached'', 133)]"

definition error_code_discriminants :: "i16 list" where
  "error_code_discriminants = map snd error_code_variants"

lemma error_code_discriminants_eval:
  "error_code_discriminants = - 1 # map of_nat [0..<134]"
  by code_simp

lemma error_code_discriminants_mem [simp]:
  "- 1 \<in> set error_code_discriminants" "0 \<in> set error_code_discriminants"
  "3 \<in> set error_code_discriminants"
  by (simp_all add: error_code_discriminants_def error_code_variants_def)

typedef error_code = "set error_code_discriminants"
  morphisms error_code_to_i16 Abs_error_code
  by (rule exI [of _ 0]) simp

setup_lifting type_definition_error_code

lift_definition UnknownServerError :: error_code is "- 1" by simp

lift_definition NoError :: error_code is "0" by simp

lift_definition UnknownTopicOrPartition :: error_code is "3" by simp

instantiation error_code :: equal
begin

definition equal_error_code :: "error_code \<Rightarrow> error_code \<Rightarrow> bool" where
  "equal_error_code a b \<longleftrightarrow> error_code_to_i16 a = error_code_to_i16 b"

instance
  by standard (simp add: equal_error_code_def error_code_to_i16_inject)

end

section \<open>From an integer\<close>

text \<open>
  The arms of the match of \<open>TryFrom<i16>\<close>, in their order: the pattern and the discriminant
  of the variant it returns.
\<close>

definition error_code_arms :: "(i16 \<times> i16) list" where
  "error_code_arms =
     [(- 1, - 1), (0, 0), (1, 1), (2, 2), (3, 3), (4, 4), (5, 5), (6, 6),
      (7, 7), (8, 8), (9, 9), (10, 10), (11, 11), (12, 12), (13, 13), (14, 14),
      (15, 15), (16, 16), (17, 17), (18, 18), (19, 19), (20, 20), (21, 21), (22, 22),
      (23, 23), (24, 24), (25, 25), (26, 26), (27, 27), (28, 28), (29, 29), (30, 30),
      (31, 31), (32, 32), (33, 33), (34, 34), (35, 35), (36, 36), (37, 37), (38, 38),
      (39, 39), (40, 40), (41, 41), (42, 42), (43, 43), (44, 44), (45, 45), (46, 46),
      (47, 47), (48, 48), (49, 49), (50, 50), (51, 51), (52, 52), (53, 53), (54, 54),
      (55, 55), (56, 56), (57, 57), (58, 58), (59, 59), (60, 60), (61, 61), (62, 62),
      (63, 63), (64, 64), (65, 65), (66, 66), (67, 67), (68, 68), (69, 69), (70, 70),
      (71, 71), (72, 72), (73, 73), (74, 74), (75, 75), (76, 76), (77, 77), (78, 78),
      (79, 79), (80, 80), (81, 81), (82, 82), (83, 83), (84, 84), (85, 85), (86, 86),
      (87, 87), (88, 88), (89, 89), (90, 90), (91, 91), (92, 92), (93, 93), (94, 94),
      (95, 95), (96, 96), (97, 97), (98, 98), (99, 99), (100, 100), (101, 101), (102, 102),
      (103, 103), (104, 104), (105, 105), (106, 106), (107, 107), (108, 108), (109, 109), (110, 110),
      (111, 111), (112, 112), (113, 113), (114, 114), (115, 115), (116, 116), (117, 117), (118, 118),
      (119, 119), (120, 120), (121, 121), (122, 122), (123, 123), (124, 124), (125, 125), (126, 126),
      (127, 127), (128, 128), (129, 129), (130, 130), (131, 131), (132, 132), (133, 133)]"

definition error_code_arm :: "i16 \<Rightarrow> i16 option" where
  "error_code_arm v = map_of error_code_arms v"

lemma error_code_arms_eq: "error_code_arms = map (\<lambda>v. (v, v)) error_code_discriminants"
  by (simp add: error_code_arms_def error_code_discriminants_def error_code_variants_def)

lemma map_of_diagonal: "map_of (map (\<lambda>v. (v, v)) vs) v = (if v \<in> set vs then Some v else None)"
  by (induction vs) auto

lemma error_code_arm_eq:
  "error_code_arm v = (if v \<in> set error_code_discriminants then Some v else None)"
  by (simp add: error_code_arm_def error_code_arms_eq map_of_diagonal)

lift_definition error_code_or_unknown :: "i16 \<Rightarrow> error_code" is
  "\<lambda>v. if v \<in> set error_code_discriminants then v else - 1"
  by simp

definition error_code_try_from :: "i16 \<Rightarrow> (i16, error_code) outcome" where
  "error_code_try_from v =
     (case error_code_arm v of Some d \<Rightarrow> Ok (error_code_or_unknown d) | None \<Rightarrow> Err v)"

lemma error_code_to_mem [simp]: "error_code_to_i16 e \<in> set error_code_discriminants"
  by (rule error_code_to_i16)

lemma error_code_or_unknown_to [simp]: "error_code_or_unknown (error_code_to_i16 e) = e"
  by transfer simp

lemma error_code_try_from_to [simp]: "error_code_try_from (error_code_to_i16 e) = Ok e"
  by (simp add: error_code_try_from_def error_code_arm_eq)

lemma error_code_try_from_Ok: "error_code_try_from v = Ok e \<longleftrightarrow> error_code_to_i16 e = v"
  by (auto simp: error_code_try_from_def error_code_arm_eq error_code_or_unknown.rep_eq
      split: if_splits)

text \<open>The decoders read an unknown code with \<open>unwrap_or(UnknownServerError)\<close>.\<close>

definition error_code_unwrap_or :: "error_code \<Rightarrow> i16 \<Rightarrow> error_code" where
  "error_code_unwrap_or d v = (case error_code_try_from v of Ok e \<Rightarrow> e | _ \<Rightarrow> d)"

lemma error_code_unwrap_or_to [simp]: "error_code_unwrap_or d (error_code_to_i16 e) = e"
  by (simp add: error_code_unwrap_or_def)

end
