(* ===== verification/Proto_Wire.thy ===== *)
theory Proto_Wire
  imports Proto_Batch Error_Codes
begin

text \<open>
  The parts of requests and responses that the crate \<open>musil-proto\<close> defines and the storage
  layer fills in: the acknowledgement level (\<open>produce/acks.rs\<close>), the partition of a fetch
  request (\<open>fetch/request/fetch_partition.rs\<close>) and the partitions of the two responses
  (\<open>fetch/response/partition_response.rs\<close>, \<open>produce/response/partition_response.rs\<close>), with the
  sizes they declare. A \<open>String\<close> is the list of its UTF-8 bytes.
\<close>

section \<open>Acknowledgements\<close>

datatype acks = AcksNone | AcksLeader | AcksAll

definition acks_try_from :: "u32 \<Rightarrow> (u32, acks) outcome" where
  "acks_try_from v =
     (if v = 0 then Ok AcksNone else if v = 1 then Ok AcksLeader
      else if v = 2 then Ok AcksAll else Err v)"

fun acks_to_u32 :: "acks \<Rightarrow> u32" where
  "acks_to_u32 AcksNone = 0"
| "acks_to_u32 AcksLeader = 1"
| "acks_to_u32 AcksAll = 2"

lemma acks_try_from_to [simp]: "acks_try_from (acks_to_u32 a) = Ok a"
  by (cases a) (simp_all add: acks_try_from_def)

lemma acks_to_try_from: "acks_try_from v = Ok a \<Longrightarrow> acks_to_u32 a = v"
  by (auto simp: acks_try_from_def split: if_splits)

section \<open>Fetch\<close>

record fetch_partition =
  fp_partition :: u32
  fp_fetch_offset :: u64
  fp_partition_max_bytes :: u32
  fp_high_watermark :: u64

definition fetch_partition_from :: "u64 \<Rightarrow> fetch_partition" where
  "fetch_partition_from fetch_offset =
     \<lparr>fp_partition = 0, fp_fetch_offset = fetch_offset,
      fp_partition_max_bytes = - 1, fp_high_watermark = 0\<rparr>"

record partition_response =
  pr_partition_index :: u32
  pr_error_code :: error_code
  pr_high_watermark :: u64
  pr_log_start_offset :: u64
  pr_records :: "record_batch list"

definition partition_response_error :: "u32 \<Rightarrow> error_code \<Rightarrow> partition_response" where
  "partition_response_error partition_index code =
     \<lparr>pr_partition_index = partition_index, pr_error_code = code,
      pr_high_watermark = 0, pr_log_start_offset = 0, pr_records = []\<rparr>"

definition partition_response_get_size :: "partition_response \<Rightarrow> u32" where
  "partition_response_get_size p =
     4 + 2 + 8 + 8 + 4 + sum_list (map batch_get_size (pr_records p))"

section \<open>Produce\<close>

record current_leader =
  cl_leader_id :: i32
  cl_leader_epoch :: u32

record produce_partition_response =
  pp_index :: u32
  pp_error_code :: error_code
  pp_base_offset :: u64
  pp_log_append_time_ms :: u64
  pp_log_start_offset :: u64
  pp_error_message :: "u8 list"
  pp_current_leader :: "current_leader option"

definition produce_partition_response_new :: "u32 \<Rightarrow> u64 \<Rightarrow> i32 \<Rightarrow> produce_partition_response" where
  "produce_partition_response_new index base_offset broker_id =
     \<lparr>pp_index = index, pp_error_code = NoError, pp_base_offset = base_offset,
      pp_log_append_time_ms = 0, pp_log_start_offset = 0, pp_error_message = [],
      pp_current_leader = Some \<lparr>cl_leader_id = broker_id, cl_leader_epoch = 0\<rparr>\<rparr>"

definition produce_partition_response_error :: "u32 \<Rightarrow> error_code \<Rightarrow> produce_partition_response" where
  "produce_partition_response_error index code =
     \<lparr>pp_index = index, pp_error_code = code, pp_base_offset = 0,
      pp_log_append_time_ms = 0, pp_log_start_offset = 0, pp_error_message = [],
      pp_current_leader = None\<rparr>"

definition produce_partition_response_get_size :: "produce_partition_response \<Rightarrow> u32" where
  "produce_partition_response_get_size p =
     (let current_leader_size = (if pp_current_leader p \<noteq> None then 1 + 8 else 1);
          msg_len = of_nat (length (pp_error_message p))
      in 4 + 2 + 8 + 8 + 8 + 2 + msg_len + current_leader_size)"

end
