(* ===== verification/Storage_Segment.thy ===== *)
theory Storage_Segment
  imports Proto_Layout Proto_Wire
begin

text \<open>
  Log segments of the crate \<open>musil-storage\<close>: the segment being written
  (\<open>segment/log_segment.rs\<close>) and the view through which it is read
  (\<open>segment/metadata.rs\<close>).

  A partition has a directory of its own. A file has an inode, which a handle or a mapping
  keeps alive after its name is removed; the segment and all its views share the inodes of its
  log and of its index. A memory-mapped index is read and written through its inode. A handle
  opened on an existing file writes from the start of it.
\<close>

section \<open>Files\<close>

datatype file_kind = LogFile | IndexFile | TimeIndexFile

record file_system =
  fs_names :: "file_kind \<times> u64 \<Rightarrow> nat option"
  fs_data :: "nat \<Rightarrow> u8 list"
  fs_next :: nat

definition fs_empty :: file_system where
  "fs_empty = \<lparr>fs_names = Map.empty, fs_data = (\<lambda>i. []), fs_next = 0\<rparr>"

definition fs_store :: "nat \<Rightarrow> u8 list \<Rightarrow> file_system \<Rightarrow> file_system" where
  "fs_store i bs fs = fs\<lparr>fs_data := (fs_data fs)(i := bs)\<rparr>"

text \<open>Open, create if missing, truncate if asked to.\<close>

definition fs_open :: "file_kind \<times> u64 \<Rightarrow> bool \<Rightarrow> file_system \<Rightarrow> nat \<times> file_system" where
  "fs_open nm trunc fs =
     (case fs_names fs nm of
        Some i \<Rightarrow> (i, if trunc then fs_store i [] fs else fs)
      | None \<Rightarrow> (fs_next fs,
                 fs_store (fs_next fs) []
                   (fs\<lparr>fs_names := (fs_names fs)(nm \<mapsto> fs_next fs), fs_next := fs_next fs + 1\<rparr>)))"

definition fs_set_len :: "nat \<Rightarrow> nat \<Rightarrow> file_system \<Rightarrow> file_system" where
  "fs_set_len i n fs =
     fs_store i (take n (fs_data fs i) @ replicate (n - length (fs_data fs i)) 0) fs"

definition overwrite :: "nat \<Rightarrow> u8 list \<Rightarrow> u8 list \<Rightarrow> u8 list" where
  "overwrite pos bs contents = take pos contents @ bs @ drop (pos + length bs) contents"

definition fs_write_at :: "nat \<Rightarrow> nat \<Rightarrow> u8 list \<Rightarrow> file_system \<Rightarrow> file_system" where
  "fs_write_at i pos bs fs = fs_store i (overwrite pos bs (fs_data fs i)) fs"

definition fs_remove :: "file_kind \<times> u64 \<Rightarrow> file_system \<Rightarrow> file_system" where
  "fs_remove nm fs = fs\<lparr>fs_names := (fs_names fs)(nm := None)\<rparr>"

section \<open>The view of a segment\<close>

record segment_view =
  sv_base_offset :: u64
  sv_log :: nat
  sv_index :: nat
  sv_index_count :: nat
  sv_size :: nat

record index_entry =
  ie_offset :: u64
  ie_pos :: u64

definition segment_view_new :: "u64 \<Rightarrow> nat \<Rightarrow> nat \<Rightarrow> segment_view" where
  "segment_view_new base_offset log index =
     \<lparr>sv_base_offset = base_offset, sv_log = log, sv_index = index,
      sv_index_count = 0, sv_size = 0\<rparr>"

definition view_with_metadata :: "segment_view \<Rightarrow> nat \<Rightarrow> nat \<Rightarrow> segment_view" where
  "view_with_metadata v index_count sz = v\<lparr>sv_index_count := index_count, sv_size := sz\<rparr>"

text \<open>\<open>index[base..base + 8]\<close> as a number; \<open>None\<close> when the range is out of bounds.\<close>

definition index_u64 :: "u8 list \<Rightarrow> nat \<Rightarrow> u64 option" where
  "index_u64 index base =
     (if base + 8 \<le> length index then Some (from_be64 (slice base (base + 8) index)) else None)"

text \<open>The binary search: the value of \<open>lo\<close> when the loop ends.\<close>

function index_search :: "u8 list \<Rightarrow> u64 \<Rightarrow> nat \<Rightarrow> nat \<Rightarrow> nat option" where
  "index_search index target lo hi =
     (if lo \<le> hi
      then
        let mid = lo + (hi - lo) div 2
        in case index_u64 index (mid * 16) of
             None \<Rightarrow> None
           | Some offset \<Rightarrow>
               (if offset \<le> target then index_search index target (mid + 1) hi
                else if mid = 0 then Some lo
                else index_search index target lo (mid - 1))
      else Some lo)"
  by pat_completeness auto
termination
  by (relation "measure (\<lambda>(index, target, lo, hi). Suc hi - lo)") auto

declare index_search.simps [simp del]

definition find_physical_position ::
    "u8 list \<Rightarrow> segment_view \<Rightarrow> u64 \<Rightarrow> (unit, index_entry option) outcome" where
  "find_physical_position index v target =
     (if sv_index_count v = 0 then Ok None
      else
        case index_search index target 0 (sv_index_count v - 1) of
          None \<Rightarrow> Panic
        | Some lo \<Rightarrow>
            (if lo = 0 then Ok None
             else
               let base = (lo - 1) * 16
               in case (index_u64 index base, index_u64 index (base + 8)) of
                    (Some offset, Some pos) \<Rightarrow> Ok (Some \<lparr>ie_offset = offset, ie_pos = pos\<rparr>)
                  | _ \<Rightarrow> Panic))"

definition read_u32_at :: "u8 list \<Rightarrow> u64 \<Rightarrow> u32" where
  "read_u32_at file pos = from_be32 (read_at file pos 4)"

text \<open>
  The walk from batch to batch; nothing makes it end if the positions wrap around.
\<close>

partial_function (option) linear_loop ::
    "u8 list \<Rightarrow> nat \<Rightarrow> u64 \<Rightarrow> u64 \<Rightarrow> u64 \<Rightarrow> (io_error, u64) outcome option" where
  "linear_loop file sz target offset pos =
     (if offset < target
      then
        if of_nat sz \<le> pos then Some (Err (UnexpectedEof ''offset beyond end of segment''))
        else
          let batch_length = read_u32_at file (pos + 8);
              records_count = read_u32_at file (pos + 57)
          in if target < offset + ucast records_count then Some (Ok pos)
             else linear_loop file sz target (offset + ucast records_count)
                    (pos + (12 + ucast batch_length))
      else Some (Ok pos))"

definition linear_search ::
    "u8 list \<Rightarrow> segment_view \<Rightarrow> u64 \<Rightarrow> index_entry \<Rightarrow> (io_error, u64) outcome option" where
  "linear_search file v target idx =
     linear_loop file (sv_size v) target (ie_offset idx) (ie_pos idx)"

text \<open>The files are read through their inodes; \<open>data\<close> is the contents of each.\<close>

definition batches_from :: "(nat \<Rightarrow> u8 list) \<Rightarrow> segment_view \<Rightarrow> u64 \<Rightarrow> batch_iter" where
  "batches_from data v pos =
     \<lparr>bi_file = data (sv_log v), bi_pos = pos, bi_end = of_nat (sv_size v)\<rparr>"

definition batch_iter_from ::
    "(nat \<Rightarrow> u8 list) \<Rightarrow> segment_view \<Rightarrow> u64 \<Rightarrow> (proto_error, batch_iter) outcome option" where
  "batch_iter_from data v offset =
     (let search = (\<lambda>start.
            case linear_search (data (sv_log v)) v offset start of
              None \<Rightarrow> None
            | Some (Ok pos) \<Rightarrow> Some (Ok (batches_from data v pos))
            | Some (Err e) \<Rightarrow> Some (Err (Io e))
            | Some Panic \<Rightarrow> Some Panic)
      in case find_physical_position (data (sv_index v)) v offset of
           Ok (Some idx) \<Rightarrow> search idx
         | Ok None \<Rightarrow>
             (if 0 < sv_size v then search \<lparr>ie_offset = sv_base_offset v, ie_pos = 0\<rparr>
              else Some (Ok (batch_iter_empty (data (sv_log v)))))
         | Err e \<Rightarrow> Some Panic
         | Panic \<Rightarrow> Some Panic)"

definition view_fetch_all ::
    "(nat \<Rightarrow> u8 list) \<Rightarrow> segment_view \<Rightarrow> (unit, record_batch list) outcome option" where
  "view_fetch_all data v =
     batch_for (\<lambda>result b. Continue (result @ [b])) [] (batches_from data v 0)"

definition fetch_step :: "u32 \<Rightarrow> u32 \<times> record_batch list \<Rightarrow> record_batch \<Rightarrow> (u32 \<times> record_batch list) flow" where
  "fetch_step max_bytes = (\<lambda>(bytes, result) b.
     if max_bytes < bytes + rb_batch_length b then Break (bytes, result)
     else Continue (bytes + rb_batch_length b, result @ [b]))"

definition view_fetch ::
    "bytes_ops \<Rightarrow> (u8 list \<Rightarrow> u32) \<Rightarrow> (nat \<Rightarrow> u8 list) \<Rightarrow> segment_view \<Rightarrow> fetch_partition \<Rightarrow>
      (unit, record_batch list) outcome option" where
  "view_fetch B crc data v req =
     (case batch_iter_from data v (fp_fetch_offset req) of
        None \<Rightarrow> None
      | Some (Err e) \<Rightarrow> Some (Ok [])
      | Some Panic \<Rightarrow> Some Panic
      | Some (Ok batches) \<Rightarrow>
          (case batch_iter_next batches of
             Ok (None, rest) \<Rightarrow> Some (Ok [])
           | Err e \<Rightarrow> Some Panic
           | Panic \<Rightarrow> Some Panic
           | Ok (Some b, rest) \<Rightarrow>
               (case batch_slice_from_offset B crc b (fp_fetch_offset req) of
                  None \<Rightarrow> None
                | Some (Err e) \<Rightarrow> Some (Ok [])
                | Some Panic \<Rightarrow> Some Panic
                | Some (Ok first) \<Rightarrow>
                    map_option (omap snd)
                      (batch_for (fetch_step (fp_partition_max_bytes req))
                         (rb_batch_length first, [first]) rest))))"

section \<open>The segment\<close>

record segment_config =
  sg_base_offset :: u64
  sg_segment_bytes :: nat
  sg_index_interval_bytes :: nat

record log_segment =
  ls_segment :: segment_view
  ls_log :: nat
  ls_log_cursor :: nat
  ls_index :: nat
  ls_time_index :: nat
  ls_index_write_pos :: nat
  ls_size :: nat
  ls_index_count :: nat
  ls_bytes_since_last_index :: nat
  ls_index_threshold_bytes :: nat

text \<open>The loop that counts index entries: it stops at the first zero entry after the first.\<close>

fun count_entries :: "u8 list \<Rightarrow> nat list \<Rightarrow> nat" where
  "count_entries index [] = 0"
| "count_entries index (i # is) =
     (if 0 < i \<and> slice (i * 16) (i * 16 + 16) index = replicate 16 0 then 0
      else Suc (count_entries index is))"

definition segment_open :: "segment_config \<Rightarrow> file_system \<Rightarrow> file_system \<times> log_segment" where
  "segment_open opts fs =
     (let existing_size = (case fs_names fs (LogFile, sg_base_offset opts) of
                             Some i \<Rightarrow> length (fs_data fs i) | None \<Rightarrow> 0);
          fresh = (existing_size = 0);
          (log, fs1) = fs_open (LogFile, sg_base_offset opts) fresh fs;
          (index, fs2) = fs_open (IndexFile, sg_base_offset opts) fresh fs1;
          (time_index, fs3) = fs_open (TimeIndexFile, sg_base_offset opts) fresh fs2;
          max_entries = sg_segment_bytes opts div sg_index_interval_bytes opts + 1;
          index_size = max_entries * 16;
          fs4 = fs_set_len time_index index_size (fs_set_len index index_size fs3);
          (index_count, sz, since) =
            (if fresh then (0, 0, sg_index_interval_bytes opts)
             else (count_entries (fs_data fs4 index) [0..<max_entries], existing_size, 0))
      in (fs4, \<lparr>ls_segment = segment_view_new (sg_base_offset opts) log index,
                ls_log = log, ls_log_cursor = 0, ls_index = index, ls_time_index = time_index,
                ls_index_write_pos = index_count * 16, ls_size = sz,
                ls_index_count = index_count, ls_bytes_since_last_index = since,
                ls_index_threshold_bytes = sg_index_interval_bytes opts\<rparr>))"

definition segment_records_count ::
    "(nat \<Rightarrow> u8 list) \<Rightarrow> log_segment \<Rightarrow> (unit, u64) outcome option" where
  "segment_records_count data seg =
     batch_for (\<lambda>total b. Continue (total + ucast (rb_records_count b))) 0
       \<lparr>bi_file = data (ls_log seg), bi_pos = 0, bi_end = of_nat (ls_size seg)\<rparr>"

definition segment_append_batch ::
    "record_batch \<Rightarrow> file_system \<times> log_segment \<Rightarrow> file_system \<times> log_segment" where
  "segment_append_batch b = (\<lambda>(fs, seg).
     (let log_pos = of_nat (length (fs_data fs (ls_log seg))) :: u64;
          header = batch_encode_header b;
          fs1 = fs_write_at (ls_log seg) (ls_log_cursor seg) header fs;
          fs2 = fs_write_at (ls_log seg) (ls_log_cursor seg + length header) (rb_records b) fs1;
          batch_on_disk = 12 + unat (rb_batch_length b);
          since = ls_bytes_since_last_index seg + batch_on_disk;
          seg1 = seg\<lparr>ls_log_cursor := ls_log_cursor seg + length header + length (rb_records b),
                     ls_bytes_since_last_index := since\<rparr>;
          pos = ls_index_write_pos seg;
          (fs3, seg2) =
            (if ls_index_threshold_bytes seg \<le> since
                \<and> pos + 16 \<le> length (fs_data fs2 (ls_index seg))
             then (fs_write_at (ls_time_index seg) pos (be64 (rb_base_offset b) @ be64 (rb_base_offset b))
                     (fs_write_at (ls_index seg) pos (be64 (rb_base_offset b) @ be64 log_pos) fs2),
                   seg1\<lparr>ls_index_write_pos := pos + 16, ls_index_count := ls_index_count seg + 1,
                        ls_bytes_since_last_index := 0\<rparr>)
             else (fs2, seg1))
      in (fs3, seg2\<lparr>ls_size := ls_size seg + batch_on_disk\<rparr>)))"

definition segment_publish :: "log_segment \<Rightarrow> log_segment \<times> segment_view" where
  "segment_publish seg =
     (let new = view_with_metadata (ls_segment seg) (ls_index_count seg) (ls_size seg)
      in (seg\<lparr>ls_segment := new\<rparr>, new))"

end
