(* ===== verification/Storage_Search.thy ===== *)
theory Storage_Search
  imports Storage_Segment
begin

text \<open>
  Finding an offset in a segment: the binary search of the sparse index returns the last entry
  at or before the offset, and the walk from there stops at the batch that contains it.
\<close>

section \<open>The index\<close>

definition index_layout :: "(u64 \<times> u64) list \<Rightarrow> u8 list" where
  "index_layout es = concat (map (\<lambda>(off, pos). be64 off @ be64 pos) es)"

lemma index_layout_simps [simp]:
  "index_layout [] = []"
  "index_layout ((off, pos) # es) = be64 off @ be64 pos @ index_layout es"
  "index_layout (es @ fs) = index_layout es @ index_layout fs"
  by (simp_all add: index_layout_def)

lemma length_index_layout [simp]: "length (index_layout es) = 16 * length es"
  by (induction es) auto

lemma drop_index_layout:
  "i < length es \<Longrightarrow> drop (i * 16) (index_layout es @ r) =
     be64 (fst (es ! i)) @ be64 (snd (es ! i)) @ drop (Suc i * 16) (index_layout es @ r)"
proof (induction es arbitrary: i)
  case (Cons e es)
  then show ?case
    by (cases e; cases i) (simp_all add: drop_append)
qed simp

lemma index_u64_layout:
  assumes "i < length es"
  shows "index_u64 (index_layout es @ r) (i * 16) = Some (fst (es ! i))"
    and "index_u64 (index_layout es @ r) (i * 16 + 8) = Some (snd (es ! i))"
proof -
  have len: "i * 16 + 16 \<le> length (index_layout es @ r)"
    using assms by simp
  have slice: "slice a (a + 8) xs = take 8 (drop a xs)" for a and xs :: "u8 list"
    by (simp add: slice_def take_drop add.commute)
  have front: "take 8 (be64 w @ xs) = be64 w" "drop 8 (be64 w @ xs) = xs" for w xs
    by simp_all
  have "drop (i * 16 + 8) (index_layout es @ r) = drop 8 (drop (i * 16) (index_layout es @ r))"
    by (simp only: drop_drop add.commute)
  then show "index_u64 (index_layout es @ r) (i * 16) = Some (fst (es ! i))"
    and "index_u64 (index_layout es @ r) (i * 16 + 8) = Some (snd (es ! i))"
    using len unfolding index_u64_def slice
    by (simp_all add: drop_index_layout [OF assms] front del: drop_drop drop_append)
qed

lemma index_search_correct:
  assumes "sorted (map fst es)" and "lo \<le> Suc hi" and "hi < length es"
    and "\<forall>i < lo. fst (es ! i) \<le> target"
    and "\<forall>i. hi < i \<longrightarrow> i < length es \<longrightarrow> target < fst (es ! i)"
  shows "\<exists>n. index_search (index_layout es @ r) target lo hi = Some n \<and> n \<le> length es
    \<and> (\<forall>i < n. fst (es ! i) \<le> target) \<and> (\<forall>i. n \<le> i \<longrightarrow> i < length es \<longrightarrow> target < fst (es ! i))"
  using assms(2-)
proof (induction "index_layout es @ r" target lo hi rule: index_search.induct)
  case (1 target lo hi)
  let ?mid = "lo + (hi - lo) div 2"
  show ?case
  proof (cases "lo \<le> hi")
    case False
    with "1.prems" have "lo = Suc hi"
      by simp
    with "1.prems" show ?thesis
      by (intro exI [of _ lo]) (auto simp: index_search.simps)
  next
    case True
    then have mid: "lo \<le> ?mid" "?mid \<le> hi" "?mid < length es"
      using "1.prems"(2) by auto
    have read: "index_u64 (index_layout es @ r) (?mid * 16) = Some (fst (es ! ?mid))"
      by (rule index_u64_layout [OF mid(3)])
    note step = index_search.simps [of "index_layout es @ r" target lo hi]
    show ?thesis
    proof (cases "fst (es ! ?mid) \<le> target")
      case le: True
      have "\<forall>i < ?mid + 1. fst (es ! i) \<le> target"
      proof (intro allI impI)
        fix i
        assume "i < ?mid + 1"
        then have "fst (es ! i) \<le> fst (es ! ?mid)"
          using sorted_nth_mono [OF assms(1), of i ?mid] mid(3) by simp
        with le show "fst (es ! i) \<le> target"
          by simp
      qed
      then show ?thesis
        using "1.hyps"(1) [OF True refl read le] "1.prems" mid le read True step by simp
    next
      case gt: False
      have above: "\<forall>i. ?mid \<le> i \<longrightarrow> i < length es \<longrightarrow> target < fst (es ! i)"
      proof (intro allI impI)
        fix i
        assume "?mid \<le> i" and "i < length es"
        then have "fst (es ! ?mid) \<le> fst (es ! i)"
          using sorted_nth_mono [OF assms(1), of ?mid i] by simp
        with gt show "target < fst (es ! i)"
          by simp
      qed
      show ?thesis
      proof (cases "?mid = 0")
        case zero: True
        then have "lo = 0"
          by simp
        with above zero gt read True step show ?thesis
          by (intro exI [of _ lo]) simp
      next
        case False
        have "index_search (index_layout es @ r) target lo hi =
            index_search (index_layout es @ r) target lo (?mid - 1)"
          unfolding step using True read gt False by (simp only: Let_def if_True if_False option.case)
        moreover have "\<forall>i. ?mid - 1 < i \<longrightarrow> i < length es \<longrightarrow> target < fst (es ! i)"
          using above by auto
        moreover have "lo \<le> Suc (?mid - 1)" and "?mid - 1 < length es"
          using mid by auto
        ultimately show ?thesis
          using "1.hyps"(2) [OF True refl read gt False] "1.prems"(3) by simp
      qed
    qed
  qed
qed

definition index_lookup :: "(u64 \<times> u64) list \<Rightarrow> u64 \<Rightarrow> index_entry option" where
  "index_lookup es target =
     (let fs = filter (\<lambda>e. fst e \<le> target) es
      in if fs = [] then None
         else Some \<lparr>ie_offset = fst (last fs), ie_pos = snd (last fs)\<rparr>)"

lemma filter_prefix:
  assumes "n \<le> length es" and "\<forall>i < n. P (es ! i)"
    and "\<forall>i. n \<le> i \<longrightarrow> i < length es \<longrightarrow> \<not> P (es ! i)"
  shows "filter P es = take n es"
proof -
  have "filter P (take n es) = take n es"
    using assms(1,2) by (auto simp: filter_id_conv in_set_conv_nth)
  moreover have "filter P (drop n es) = []"
    using assms(3) by (auto simp: filter_empty_conv in_set_conv_nth)
  ultimately show ?thesis
    by (metis append_Nil2 append_take_drop_id filter_append)
qed

lemma find_physical_position_correct:
  assumes "sorted (map fst es)" and "sv_index_count v = length es"
  shows "find_physical_position (index_layout es @ r) v target = Ok (index_lookup es target)"
proof (cases "es = []")
  case True
  with assms(2) show ?thesis
    by (simp add: find_physical_position_def index_lookup_def)
next
  case False
  then obtain n where n: "index_search (index_layout es @ r) target 0 (length es - 1) = Some n"
      "n \<le> length es" "\<forall>i < n. fst (es ! i) \<le> target"
      "\<forall>i. n \<le> i \<longrightarrow> i < length es \<longrightarrow> target < fst (es ! i)"
    using index_search_correct [OF assms(1), of 0 "length es - 1" target r] by force
  have filt: "filter (\<lambda>e. fst e \<le> target) es = take n es"
    using n by (intro filter_prefix) auto
  show ?thesis
  proof (cases "n = 0")
    case True
    with n(1) filt False assms(2) show ?thesis
      by (simp add: find_physical_position_def index_lookup_def)
  next
    case n0: False
    then have i: "n - Suc 0 < length es"
      using n(2) by simp
    have "last (take n es) = es ! (n - 1)" and ne: "take n es \<noteq> []"
      using n0 n(2) False by (auto simp: last_conv_nth)
    then have "index_lookup es target =
        Some \<lparr>ie_offset = fst (es ! (n - 1)), ie_pos = snd (es ! (n - 1))\<rparr>"
      using filt by (simp add: index_lookup_def Let_def)
    with n(1) n0 False assms(2) show ?thesis
      by (simp add: find_physical_position_def Let_def index_u64_layout [OF i])
  qed
qed

section \<open>The chain of batches\<close>

text \<open>Batches that follow each other without gaps from an offset on, none of them empty.\<close>

fun batch_chain :: "nat \<Rightarrow> record_batch list \<Rightarrow> bool" where
  "batch_chain n [] \<longleftrightarrow> True"
| "batch_chain n (b # bs) \<longleftrightarrow>
     unat (rb_base_offset b) = n \<and> 0 < unat (rb_records_count b) \<and> batch_sized b
     \<and> batch_chain (n + unat (rb_records_count b)) bs"

fun chain_end :: "nat \<Rightarrow> record_batch list \<Rightarrow> nat" where
  "chain_end n [] = n"
| "chain_end n (b # bs) = chain_end (n + unat (rb_records_count b)) bs"

lemma chain_end_append: "chain_end n (bs @ cs) = chain_end (chain_end n bs) cs"
  by (induction bs arbitrary: n) auto

lemma chain_end_le: "n \<le> chain_end n bs"
  by (induction bs arbitrary: n) (auto intro: order_trans [OF _ le_add1] elim: add_leE)

lemma batch_chain_append:
  "batch_chain n (bs @ cs) \<longleftrightarrow> batch_chain n bs \<and> batch_chain (chain_end n bs) cs"
  by (induction bs arbitrary: n) auto

lemma batch_chain_sized: "batch_chain n bs \<Longrightarrow> \<forall>b \<in> set bs. batch_sized b"
  by (induction bs arbitrary: n) auto

text \<open>The walk over the chain: the position of the batch that contains the target.\<close>

fun locate :: "nat \<Rightarrow> nat \<Rightarrow> nat \<Rightarrow> record_batch list \<Rightarrow> (io_error, nat) outcome" where
  "locate t n pos [] = (if n < t then Err (UnexpectedEof ''offset beyond end of segment'') else Ok pos)"
| "locate t n pos (b # bs) =
     (if n < t \<and> n + unat (rb_records_count b) \<le> t
      then locate t (n + unat (rb_records_count b)) (pos + length (batch_layout b)) bs
      else Ok pos)"

lemma read_at_field:
  assumes "unat pos = length pre" and "length m = n"
  shows "read_at (pre @ m @ post) pos n = m"
  using assms by (simp add: read_at_def)

lemma read_batch_fields:
  assumes pos: "unat pos = length pre" and small: "length pre + 61 < 2 ^ 64"
  shows "read_u32_at (pre @ batch_layout b @ post) (pos + 8) = rb_batch_length b"
    and "read_u32_at (pre @ batch_layout b @ post) (pos + 57) = rb_records_count b"
proof -
  have "unat (pos + 8) = length (pre @ be64 (rb_base_offset b))"
    using pos small by (simp add: unat_word_ariths)
  then show "read_u32_at (pre @ batch_layout b @ post) (pos + 8) = rb_batch_length b"
    using read_at_field [of "pos + 8" "pre @ be64 (rb_base_offset b)" "be32 (rb_batch_length b)" 4]
    by (simp add: read_u32_at_def batch_layout_payload)
  define h where "h = be64 (rb_base_offset b) @ be32 (rb_batch_length b) @ be32 (rb_partition_leader_epoch b)
     @ [rb_magic b] @ be32 (rb_crc b) @ be16 (rb_attributes b) @ be32 (rb_last_offset_delta b)
     @ be64 (rb_base_timestamp b) @ be64 (rb_max_timestamp b) @ be64 (rb_producer_id b)
     @ be16 (rb_producer_epoch b) @ be32 (rb_base_sequence b)"
  have "unat (pos + 57) = length (pre @ h)"
    using pos small by (simp add: unat_word_ariths h_def)
  moreover have "batch_layout b = h @ be32 (rb_records_count b) @ rb_records b"
    by (simp add: batch_layout_payload batch_payload_def h_def)
  ultimately show "read_u32_at (pre @ batch_layout b @ post) (pos + 57) = rb_records_count b"
    using read_at_field [of "pos + 57" "pre @ h" "be32 (rb_records_count b)" 4]
    by (simp add: read_u32_at_def)
qed

lemma linear_loop_correct:
  assumes "batch_chain (unat off) bs" and "chain_end (unat off) bs < 2 ^ 64"
    and "file = pre @ batches_layout bs @ post" and "unat pos = length pre"
    and "length pre + length (batches_layout bs) < 2 ^ 64"
  shows "linear_loop file (length pre + length (batches_layout bs)) target off pos =
    Some (omap of_nat (locate (unat target) (unat off) (length pre) bs))"
  using assms
proof (induction bs arbitrary: off pos pre)
  case Nil
  have "of_nat (length pre) = pos"
    using Nil.prems(4) [symmetric] by simp
  then show ?case
    by (subst linear_loop.simps) (simp add: word_less_nat_alt)
next
  case (Cons b bs)
  let ?sz = "length pre + length (batches_layout (b # bs))"
  let ?off = "off + ucast (rb_records_count b)"
  let ?pos = "pos + (12 + ucast (rb_batch_length b))"
  have b: "batch_sized b" and len: "length (batch_layout b) = 12 + unat (rb_batch_length b)"
    using Cons.prems(1) batch_sized_layout by auto
  have contents: "file = pre @ batch_layout b @ (batches_layout bs @ post)"
    using Cons.prems(3) by simp
  have "unat off + unat (rb_records_count b) < 2 ^ 64"
    using Cons.prems(2) chain_end_le [of "unat off + unat (rb_records_count b)" bs] by simp
  then have off: "unat ?off = unat off + unat (rb_records_count b)"
    by (simp add: unat_word_ariths unat_ucast_up)
  have pos: "unat ?pos = length (pre @ batch_layout b)"
    using Cons.prems(4,5) len by (simp add: unat_word_ariths unat_ucast_up)
  have "61 \<le> length (batch_layout b)"
    by (simp add: length_batch_layout)
  then have fields: "read_u32_at file (pos + 8) = rb_batch_length b"
    "read_u32_at file (pos + 57) = rb_records_count b"
    using read_batch_fields [OF Cons.prems(4), of b "batches_layout bs @ post"] Cons.prems(5) contents
    by simp_all
  have inside: "\<not> of_nat ?sz \<le> pos"
    using Cons.prems(4,5) \<open>61 \<le> length (batch_layout b)\<close>
      unat_of_nat_id [where 'a = 64, of ?sz] unfolding word_le_nat_alt by auto
  have IH: "linear_loop file ?sz target ?off ?pos =
      Some (omap of_nat (locate (unat target) (unat ?off) (length (pre @ batch_layout b)) bs))"
    using Cons.IH [of ?off "pre @ batch_layout b" ?pos] Cons.prems(1,2,3,5) off pos
    by (simp add: add.assoc)
  have pos_id: "of_nat (length pre) = pos"
    using Cons.prems(4) [symmetric] by simp
  show ?case
  proof (cases "off < target")
    case False
    then show ?thesis
      by (subst linear_loop.simps) (simp add: word_less_nat_alt pos_id)
  next
    case True
    show ?thesis
    proof (cases "target < ?off")
      case stop: True
      with True inside fields pos_id off show ?thesis
        by (subst linear_loop.simps) (simp add: word_less_nat_alt Let_def)
    next
      case False
      have "linear_loop file ?sz target off pos = linear_loop file ?sz target ?off ?pos"
        using True inside fields False by (subst linear_loop.simps) (simp add: Let_def)
      with IH True False off show ?thesis
        by (simp add: word_less_nat_alt)
    qed
  qed
qed

end
