(* ===== verification/Storage_Fetch.thy ===== *)
theory Storage_Fetch
  imports Storage_Search
begin

text \<open>
  Reading and writing a segment: what a view with a well-formed log and index returns for a
  fetch, and that appending to the active segment keeps its log and index well formed.
\<close>

section \<open>Well-formed views\<close>

text \<open>An index entry is the base offset and the position of one of the batches.\<close>

definition index_ok :: "record_batch list \<Rightarrow> (u64 \<times> u64) list \<Rightarrow> bool" where
  "index_ok bs es \<longleftrightarrow> sorted (map fst es)
     \<and> (\<forall>e \<in> set es. \<exists>k < length bs. fst e = rb_base_offset (bs ! k)
          \<and> unat (snd e) = length (batches_layout (take k bs)))"

definition view_holds ::
    "(nat \<Rightarrow> u8 list) \<Rightarrow> segment_view \<Rightarrow> record_batch list \<Rightarrow> (u64 \<times> u64) list \<Rightarrow> bool" where
  "view_holds data v bs es \<longleftrightarrow>
     (\<exists>post. data (sv_log v) = batches_layout bs @ post)
     \<and> sv_size v = length (batches_layout bs) \<and> sv_size v < 2 ^ 64
     \<and> batch_chain (unat (sv_base_offset v)) bs
     \<and> chain_end (unat (sv_base_offset v)) bs < 2 ^ 64
     \<and> sv_index_count v = length es \<and> (\<exists>r. data (sv_index v) = index_layout es @ r)
     \<and> index_ok bs es"

lemma batch_chain_nth:
  "batch_chain n bs \<Longrightarrow> k < length bs \<Longrightarrow> unat (rb_base_offset (bs ! k)) = chain_end n (take k bs)"
proof (induction bs arbitrary: n k)
  case (Cons b bs)
  then show ?case
    by (cases k) auto
qed simp

lemma locate_skip:
  assumes "batch_chain n (cs @ ds)" and "chain_end n cs \<le> t"
  shows "locate t n pos (cs @ ds) = locate t (chain_end n cs) (pos + length (batches_layout cs)) ds"
  using assms
proof (induction cs arbitrary: n pos)
  case (Cons b cs)
  have "n + unat (rb_records_count b) \<le> t"
    using Cons.prems(2) chain_end_le [of "n + unat (rb_records_count b)" cs] by simp
  moreover have "n < n + unat (rb_records_count b)"
    using Cons.prems(1) by simp
  ultimately show ?case
    using Cons.IH [of "n + unat (rb_records_count b)" "pos + length (batch_layout b)"] Cons.prems
    by (simp add: add.assoc)
qed simp

lemma locate_inside:
  assumes "batch_chain n bs" and "n \<le> t" and "t < chain_end n bs"
  shows "\<exists>k < length bs. locate t n pos bs = Ok (pos + length (batches_layout (take k bs)))
    \<and> chain_end n (take k bs) \<le> t \<and> t < chain_end n (take (Suc k) bs)"
  using assms
proof (induction bs arbitrary: n pos)
  case (Cons b bs)
  let ?n = "n + unat (rb_records_count b)"
  show ?case
  proof (cases "?n \<le> t")
    case True
    then obtain k where "k < length bs"
      "locate t ?n (pos + length (batch_layout b)) bs =
         Ok (pos + length (batch_layout b) + length (batches_layout (take k bs)))"
      "chain_end ?n (take k bs) \<le> t" "t < chain_end ?n (take (Suc k) bs)"
      using Cons.IH [of ?n "pos + length (batch_layout b)"] Cons.prems by auto
    with True Cons.prems(1) show ?thesis
      by (intro exI [of _ "Suc k"]) simp
  next
    case False
    with Cons.prems show ?thesis
      by (intro exI [of _ 0]) simp
  qed
qed simp

lemma locate_end:
  assumes "batch_chain n bs"
  shows "locate (chain_end n bs) n pos bs = Ok (pos + length (batches_layout bs))"
  using locate_skip [of n bs "[]" "chain_end n bs" pos] assms by simp

text \<open>The walk may start at the index entry: it ends where the walk from the start ends.\<close>

lemma batch_iter_from_correct:
  assumes v: "view_holds data v bs es" and ne: "bs \<noteq> []"
  shows "batch_iter_from data v target =
    Some (case locate (unat target) (unat (sv_base_offset v)) 0 bs of
            Ok pos \<Rightarrow> Ok (batches_from data v (of_nat pos)) | Err e \<Rightarrow> Err (Io e) | Panic \<Rightarrow> Panic)"
proof -
  let ?n = "unat (sv_base_offset v)"
  obtain post where log: "data (sv_log v) = batches_layout bs @ post"
    using v by (auto simp: view_holds_def)
  obtain r where index: "data (sv_index v) = index_layout es @ r"
    using v by (auto simp: view_holds_def)
  have chain: "batch_chain ?n bs" and fits: "chain_end ?n bs < 2 ^ 64"
    and sz: "sv_size v = length (batches_layout bs)" "sv_size v < 2 ^ 64" and ok: "index_ok bs es"
    and count: "sv_index_count v = length es"
    using v by (simp_all add: view_holds_def)
  have search: "linear_search (data (sv_log v)) v target start =
      Some (omap of_nat (locate (unat target) ?n 0 bs))"
    if start: "k < length bs" "unat (ie_offset start) = chain_end ?n (take k bs)"
      "unat (ie_pos start) = length (batches_layout (take k bs))"
      "chain_end ?n (take k bs) \<le> unat target \<or> k = 0" for start k
  proof -
    have split: "bs = take k bs @ drop k bs"
      by simp
    have chain': "batch_chain (unat (ie_offset start)) (drop k bs)"
      using chain split start(2) by (metis batch_chain_append)
    have end': "chain_end (unat (ie_offset start)) (drop k bs) = chain_end ?n bs"
      using split start(2) by (metis chain_end_append)
    have len: "length (batches_layout (take k bs)) + length (batches_layout (drop k bs))
        = length (batches_layout bs)"
      using split by (metis batches_layout_simps(3) length_append)
    have "linear_loop (data (sv_log v)) (length (batches_layout (take k bs)) + length (batches_layout (drop k bs)))
        target (ie_offset start) (ie_pos start) =
      Some (omap of_nat (locate (unat target) (unat (ie_offset start)) (length (batches_layout (take k bs))) (drop k bs)))"
    proof (rule linear_loop_correct [OF chain'])
      show "data (sv_log v) = batches_layout (take k bs) @ batches_layout (drop k bs) @ post"
        using log split by (metis append.assoc batches_layout_simps(3))
    qed (use fits end' start(3) sz len in simp_all)
    moreover have "locate (unat target) (unat (ie_offset start)) (length (batches_layout (take k bs))) (drop k bs)
        = locate (unat target) ?n 0 bs"
      using locate_skip [of ?n "take k bs" "drop k bs" "unat target" 0] chain start(2,4) by auto
    ultimately show ?thesis
      using len sz(1) by (simp add: linear_search_def)
  qed
  have first: "linear_search (data (sv_log v)) v target \<lparr>ie_offset = sv_base_offset v, ie_pos = 0\<rparr> =
      Some (omap of_nat (locate (unat target) ?n 0 bs))"
    using search [of 0] ne by simp
  have pos: "0 < sv_size v"
    using sz(1) ne by (cases bs) (simp_all add: length_batch_layout)
  have find: "find_physical_position (data (sv_index v)) v target = Ok (index_lookup es target)"
    using ok count by (simp add: index find_physical_position_correct index_ok_def)
  have entry: "linear_search (data (sv_log v)) v target idx =
      Some (omap of_nat (locate (unat target) ?n 0 bs))" if "index_lookup es target = Some idx" for idx
  proof -
    let ?fs = "filter (\<lambda>e. fst e \<le> target) es"
    have "?fs \<noteq> []" and idx: "idx = \<lparr>ie_offset = fst (last ?fs), ie_pos = snd (last ?fs)\<rparr>"
      using that by (auto simp: index_lookup_def Let_def split: if_splits)
    then have "last ?fs \<in> set ?fs"
      by (metis last_in_set)
    then have "last ?fs \<in> set es" and le: "fst (last ?fs) \<le> target"
      by auto
    then obtain k where k: "k < length bs" "fst (last ?fs) = rb_base_offset (bs ! k)"
      "unat (snd (last ?fs)) = length (batches_layout (take k bs))"
      using ok by (auto simp: index_ok_def)
    moreover have "unat (rb_base_offset (bs ! k)) = chain_end ?n (take k bs)"
      by (rule batch_chain_nth [OF chain k(1)])
    ultimately show ?thesis
      using search [of k idx] le idx by (simp add: word_le_nat_alt)
  qed
  show ?thesis
    using find first entry pos
    by (cases "index_lookup es target"; cases "locate (unat target) ?n 0 bs")
      (simp_all add: batch_iter_from_def Let_def)
qed

section \<open>A fetch\<close>

text \<open>The batches that follow the first while the total stays within the limit.\<close>

fun within_limit :: "u32 \<Rightarrow> u32 \<Rightarrow> record_batch list \<Rightarrow> record_batch list" where
  "within_limit max_bytes bytes [] = []"
| "within_limit max_bytes bytes (b # bs) =
     (if max_bytes < bytes + rb_batch_length b then []
      else b # within_limit max_bytes (bytes + rb_batch_length b) bs)"

lemma list_for_fetch_step:
  "omap snd (list_for (fetch_step max_bytes) (bytes, result) bs) =
     Ok (result @ within_limit max_bytes bytes bs)"
  by (induction bs arbitrary: bytes result) (simp_all add: fetch_step_def)

lemma within_limit_prefix: "\<exists>m. within_limit max_bytes bytes bs = take m bs"
proof (induction bs arbitrary: bytes)
  case (Cons b bs)
  obtain m where "within_limit max_bytes (bytes + rb_batch_length b) bs = take m bs"
    using Cons by blast
  then show ?case
    by (cases "max_bytes < bytes + rb_batch_length b")
      (auto intro: exI [of _ 0] exI [of _ "Suc m"])
qed simp

definition batches_hold :: "record_batch list \<Rightarrow> msg_record list list \<Rightarrow> bool" where
  "batches_hold bs rss \<longleftrightarrow>
     list_all2 (\<lambda>b rs. batch_holds b rs \<and> (\<forall>i < length rs. rc_offset_delta (rs ! i) = of_nat i)) bs rss"

lemma batches_hold_nth:
  "batches_hold bs rss \<Longrightarrow> k < length bs \<Longrightarrow>
     batch_holds (bs ! k) (rss ! k) \<and> (\<forall>i < length (rss ! k). rc_offset_delta (rss ! k ! i) = of_nat i)"
  by (simp add: batches_hold_def list_all2_conv_all_nth)

lemma chain_end_records:
  "batches_hold bs rss \<Longrightarrow> chain_end n bs = n + length (concat rss)"
proof (induction bs arbitrary: n rss)
  case (Cons b bs)
  then obtain rs rss' where "rss = rs # rss'" and "batch_holds b rs" and "batches_hold bs rss'"
    by (auto simp: batches_hold_def list_all2_Cons1)
  with Cons.IH [of rss'] show ?case
    by (simp add: batch_holds_def)
qed (simp add: batches_hold_def)

lemma batches_hold_take: "batches_hold bs rss \<Longrightarrow> batches_hold (take k bs) (take k rss)"
  by (simp add: batches_hold_def list_all2_takeI)

context bytes_crate
begin

lemma view_fetch_correct:
  assumes v: "view_holds data v bs es" and holds: "batches_hold bs rss"
    and lower: "unat (sv_base_offset v) \<le> unat (fp_fetch_offset req)"
    and upper: "unat (fp_fetch_offset req) < chain_end (unat (sv_base_offset v)) bs"
    and crcs: "\<forall>b \<in> set bs. batch_checksum crc b"
  obtains k c j where "k < length bs" and "j < length (rss ! k)"
    and "unat (fp_fetch_offset req) = unat (sv_base_offset v) + length (concat (take k rss)) + j"
    and "view_fetch B crc data v req =
      Some (Ok (c # within_limit (fp_partition_max_bytes req) (rb_batch_length c) (drop (Suc k) bs)))"
    and "rb_base_offset c = fp_fetch_offset req" and "batch_holds c (drop j (rss ! k))"
    and "batch_checksum crc c"
    and "rb_partition_leader_epoch c = rb_partition_leader_epoch (bs ! k)"
proof -
  let ?n = "unat (sv_base_offset v)" and ?t = "fp_fetch_offset req"
  have ne: "bs \<noteq> []"
    using lower upper by auto
  have chain: "batch_chain ?n bs" and sz: "sv_size v = length (batches_layout bs)" "sv_size v < 2 ^ 64"
    using v by (simp_all add: view_holds_def)
  obtain post where log: "data (sv_log v) = batches_layout bs @ post"
    using v by (auto simp: view_holds_def)
  obtain k where k: "k < length bs" "locate (unat ?t) ?n 0 bs = Ok (length (batches_layout (take k bs)))"
      "chain_end ?n (take k bs) \<le> unat ?t" "unat ?t < chain_end ?n (take (Suc k) bs)"
    using locate_inside [OF chain lower upper, of 0] by auto
  let ?b = "bs ! k" and ?pos = "length (batches_layout (take k bs))"
  have split: "bs = take k bs @ ?b # drop (Suc k) bs"
    using k(1) by (rule id_take_nth_drop)
  have layout: "batches_layout bs = batches_layout (take k bs) @ batch_layout ?b @ batches_layout (drop (Suc k) bs)"
    by (subst split) simp
  have len: "?pos + length (batch_layout ?b) + length (batches_layout (drop (Suc k) bs)) = sv_size v"
    using sz(1) layout by simp
  have base: "unat (rb_base_offset ?b) = chain_end ?n (take k bs)"
    by (rule batch_chain_nth [OF chain k(1)])
  define j where "j = unat ?t - unat (rb_base_offset ?b)"
  have bk: "batch_holds ?b (rss ! k)" "\<forall>i < length (rss ! k). rc_offset_delta (rss ! k ! i) = of_nat i"
    using batches_hold_nth [OF holds k(1)] by auto
  have "chain_end ?n (take (Suc k) bs) = chain_end ?n (take k bs) + unat (rb_records_count ?b)"
    using k(1) by (simp add: take_Suc_conv_app_nth chain_end_append)
  then have j: "j < length (rss ! k)"
    using k(3,4) base bk(1) by (simp add: j_def batch_holds_def)
  have off: "unat ?t = ?n + length (concat (take k rss)) + j"
    using chain_end_records [OF batches_hold_take [OF holds], of ?n k] k(3) base by (simp add: j_def)
  have t: "?t = rb_base_offset ?b + of_nat j"
  proof -
    have "of_nat (unat ?t) = (of_nat (unat (rb_base_offset ?b) + j) :: u64)"
      using k(3) base by (simp add: j_def)
    then show ?thesis
      by simp
  qed
  let ?it = "batches_from data v (of_nat ?pos)"
  have upos: "unat (of_nat ?pos :: u64) = ?pos"
    using len sz(2) by (intro unat_of_nat_id) simp
  have sized: "batch_sized ?b"
    using batch_chain_sized [OF chain] k(1) by simp
  have contents: "bi_file ?it = batches_layout (take k bs) @ batch_layout ?b
      @ (batches_layout (drop (Suc k) bs) @ post)"
    using log layout by (simp add: batches_from_def)
  have lim: "unat (bi_end ?it) = sv_size v"
    using sz(2) by (simp add: batches_from_def)
  let ?rest = "?it\<lparr>bi_pos := bi_pos ?it + (12 + ucast (rb_batch_length ?b))\<rparr>"
  have next1: "batch_iter_next ?it = Ok (Some ?b, ?rest)"
    and rpos: "unat (bi_pos ?it + (12 + ucast (rb_batch_length ?b))) =
      length (batches_layout (take k bs) @ batch_layout ?b)"
    using batch_iter_next_layout [OF sized contents] upos lim len by (simp_all add: batches_from_def)
  have loop: "batch_for body s ?rest = Some (list_for body s (drop (Suc k) bs))"
    for body and s :: "u32 \<times> record_batch list"
  proof (rule batch_for_layout)
    show "\<forall>b \<in> set (drop (Suc k) bs). batch_sized b"
      using batch_chain_sized [OF chain] by (auto dest: in_set_dropD)
    show "bi_file ?rest = (batches_layout (take k bs) @ batch_layout ?b)
        @ batches_layout (drop (Suc k) bs) @ post"
      using contents by simp
  qed (use rpos lim len in simp_all)
  obtain c where c: "batch_slice_from_offset B crc ?b ?t = Some (Ok c)"
    "rb_base_offset c = ?t" "batch_holds c (drop j (rss ! k))" "batch_checksum crc c"
    "rb_partition_leader_epoch c = rb_partition_leader_epoch ?b"
  proof (cases "j = 0")
    case True
    show thesis
    proof (rule that [of ?b])
      show "batch_checksum crc ?b"
        using crcs k(1) by simp
      show "batch_holds ?b (drop j (rss ! k))"
        using bk(1) True by simp
      show "batch_slice_from_offset B crc ?b ?t = Some (Ok ?b)"
        unfolding t True by (simp add: batch_slice_from_offset_def)
      show "rb_base_offset ?b = ?t"
        unfolding t True by simp
    qed (rule refl)
  next
    case False
    then have "0 < j"
      by simp
    then show thesis
      by (rule batch_slice_holds [OF bk _ j, of crc, folded t]) (rule that; assumption)
  qed
  have "view_fetch B crc data v req = Some (Ok (c # within_limit (fp_partition_max_bytes req)
      (rb_batch_length c) (drop (Suc k) bs)))"
    using batch_iter_from_correct [OF v ne, of ?t] k(2) next1 c(1) loop
      list_for_fetch_step [of "fp_partition_max_bytes req" "rb_batch_length c" "[c]"]
    by (simp add: view_fetch_def)
  then show thesis
    using that [OF k(1) j off _ c(2-5)] by blast
qed

text \<open>A fetch at the end of the segment returns nothing; so does one past it.\<close>

lemma view_fetch_end:
  assumes v: "view_holds data v bs es" and ne: "bs \<noteq> []"
    and "chain_end (unat (sv_base_offset v)) bs \<le> unat (fp_fetch_offset req)"
  shows "view_fetch B crc data v req = Some (Ok [])"
proof -
  let ?n = "unat (sv_base_offset v)" and ?t = "unat (fp_fetch_offset req)"
  have chain: "batch_chain ?n bs" and sz: "sv_size v = length (batches_layout bs)" "sv_size v < 2 ^ 64"
    using v by (simp_all add: view_holds_def)
  have "locate ?t ?n 0 bs = locate ?t (chain_end ?n bs) (length (batches_layout bs)) []"
    using locate_skip [of ?n bs "[]" ?t 0] chain assms(3) by simp
  moreover have "batch_iter_next (batches_from data v (of_nat (length (batches_layout bs)))) =
      Ok (None, batches_from data v (of_nat (length (batches_layout bs))))"
    using sz by (simp add: batch_iter_next_def batches_from_def)
  ultimately show ?thesis
    using batch_iter_from_correct [OF v ne, of "fp_fetch_offset req"]
    by (auto simp: view_fetch_def)
qed

end

end
