(* ===== verification/Storage_Append.thy ===== *)
theory Storage_Append
  imports Storage_Fetch
begin

text \<open>
  Writing a segment: a fresh segment is empty, appending a batch adds it to the log and at most
  one entry to the index, and every view published before still reads what it read. A segment
  that is opened again on an existing file is written from the start.
\<close>

section \<open>The invariant of the active segment\<close>

definition segment_holds ::
    "file_system \<Rightarrow> log_segment \<Rightarrow> record_batch list \<Rightarrow> (u64 \<times> u64) list \<Rightarrow> bool" where
  "segment_holds fs seg bs es \<longleftrightarrow>
     sv_log (ls_segment seg) = ls_log seg \<and> sv_index (ls_segment seg) = ls_index seg
     \<and> distinct [ls_log seg, ls_index seg, ls_time_index seg]
     \<and> fs_data fs (ls_log seg) = batches_layout bs
     \<and> ls_log_cursor seg = length (batches_layout bs) \<and> ls_size seg = length (batches_layout bs)
     \<and> batch_chain (unat (sv_base_offset (ls_segment seg))) bs
     \<and> ls_index_count seg = length es \<and> ls_index_write_pos seg = 16 * length es
     \<and> (\<exists>r. fs_data fs (ls_index seg) = index_layout es @ r) \<and> index_ok bs es"

lemma index_ok_Nil [simp]: "index_ok bs []"
  by (simp add: index_ok_def)

lemma index_ok_grow:
  assumes "index_ok bs es"
  shows "index_ok (bs @ [b]) es"
proof -
  have "\<exists>k < length (bs @ [b]). fst e = rb_base_offset ((bs @ [b]) ! k)
      \<and> unat (snd e) = length (batches_layout (take k (bs @ [b])))" if "e \<in> set es" for e
  proof -
    obtain k where "k < length bs" "fst e = rb_base_offset (bs ! k)"
      "unat (snd e) = length (batches_layout (take k bs))"
      using assms \<open>e \<in> set es\<close> by (auto simp: index_ok_def)
    then show ?thesis
      by (intro exI [of _ k]) (simp add: nth_append)
  qed
  with assms show ?thesis
    by (simp add: index_ok_def)
qed

lemma index_ok_snoc:
  assumes ok: "index_ok bs es" and chain: "batch_chain n bs"
    and b: "unat (rb_base_offset b) = chain_end n bs"
    and pos: "unat pos = length (batches_layout bs)"
  shows "index_ok (bs @ [b]) (es @ [(rb_base_offset b, pos)])"
proof -
  have "fst e \<le> rb_base_offset b" if "e \<in> set es" for e
  proof -
    obtain k where "k < length bs" and e: "fst e = rb_base_offset (bs ! k)"
      using ok \<open>e \<in> set es\<close> by (auto simp: index_ok_def)
    then have "unat (fst e) = chain_end n (take k bs)"
      using batch_chain_nth [OF chain] by simp
    moreover have "chain_end n (take k bs) \<le> chain_end n bs"
      using chain_end_le [of "chain_end n (take k bs)" "drop k bs"]
      by (simp add: chain_end_append [symmetric])
    ultimately show ?thesis
      using b by (simp add: word_le_nat_alt)
  qed
  moreover have "\<exists>k < length (bs @ [b]). rb_base_offset b = rb_base_offset ((bs @ [b]) ! k)
      \<and> unat pos = length (batches_layout (take k (bs @ [b])))"
    by (intro exI [of _ "length bs"]) (simp add: pos)
  ultimately show ?thesis
    using index_ok_grow [OF ok, of b] by (auto simp: index_ok_def sorted_append)
qed

lemma overwrite_end: "pos = length c \<Longrightarrow> overwrite pos bs c = c @ bs"
  by (simp add: overwrite_def)

lemma overwrite_index:
  assumes "16 * length es + 16 \<le> length (index_layout es @ r)"
  shows "overwrite (16 * length es) (be64 off @ be64 pos) (index_layout es @ r)
    = index_layout (es @ [(off, pos)]) @ drop 16 r"
  by (simp add: overwrite_def)

lemma length_overwrite: "pos + length bs \<le> length c \<Longrightarrow> length (overwrite pos bs c) = length c"
  by (simp add: overwrite_def)

section \<open>Appending\<close>

lemma fs_store_data [simp]: "fs_data (fs_store i bs fs) = (fs_data fs)(i := bs)"
  by (simp add: fs_store_def)

lemma fs_store_names [simp]: "fs_names (fs_store i bs fs) = fs_names fs" "fs_next (fs_store i bs fs) = fs_next fs"
  by (simp_all add: fs_store_def)

lemma segment_append_frame:
  assumes "segment_append_batch b (fs, seg) = (fs', seg')"
  shows "ls_segment seg' = ls_segment seg" "ls_log seg' = ls_log seg" "ls_index seg' = ls_index seg"
    "ls_time_index seg' = ls_time_index seg"
    "fs_names fs' = fs_names fs" "fs_next fs' = fs_next fs"
    "ls_size seg' = ls_size seg + (12 + unat (rb_batch_length b))"
    "\<And>i. i \<notin> {ls_log seg, ls_index seg, ls_time_index seg} \<Longrightarrow> fs_data fs' i = fs_data fs i"
  using assms
  by (auto simp: segment_append_batch_def Let_def fs_write_at_def split: if_splits)

lemma segment_append_holds:
  assumes seg: "segment_holds fs seg bs es" and b: "batch_sized b"
    and off: "unat (rb_base_offset b) = chain_end (unat (sv_base_offset (ls_segment seg))) bs"
    and count: "0 < unat (rb_records_count b)"
    and small: "length (batches_layout bs) < 2 ^ 64"
    and app: "segment_append_batch b (fs, seg) = (fs', seg')"
  shows "\<exists>fs_new. segment_holds fs' seg' (bs @ [b]) (es @ fs_new)"
proof -
  let ?n = "unat (sv_base_offset (ls_segment seg))"
  let ?log = "ls_log seg" and ?index = "ls_index seg" and ?time = "ls_time_index seg"
  have d: "?log \<noteq> ?index" "?log \<noteq> ?time" "?index \<noteq> ?time"
    and log: "fs_data fs ?log = batches_layout bs" "ls_log_cursor seg = length (batches_layout bs)"
      "ls_size seg = length (batches_layout bs)"
    and chain: "batch_chain ?n bs" and ok: "index_ok bs es"
    and cnt: "ls_index_count seg = length es" "ls_index_write_pos seg = 16 * length es"
    using seg by (auto simp: segment_holds_def)
  obtain r where r: "fs_data fs ?index = index_layout es @ r"
    using seg by (auto simp: segment_holds_def)
  let ?pos = "of_nat (length (batches_layout bs)) :: u64"
  have upos: "unat ?pos = length (batches_layout bs)"
    using small by simp
  let ?since = "ls_bytes_since_last_index seg + (12 + unat (rb_batch_length b))"
  let ?hit = "ls_index_threshold_bytes seg \<le> ?since \<and> 16 * length es + 16 \<le> length (index_layout es @ r)"
  have twice: "overwrite (length c + length h) x (c @ h) = c @ h @ x" for c h x
    by (simp add: overwrite_def)
  have data: "fs_data fs' ?log = batches_layout (bs @ [b])"
    "fs_data fs' ?index = (if ?hit then index_layout (es @ [(rb_base_offset b, ?pos)]) @ drop 16 r
       else index_layout es @ r)"
    using app d log cnt r overwrite_index [of es r "rb_base_offset b" ?pos]
    by (auto simp: segment_append_batch_def Let_def fs_write_at_def overwrite_end twice batch_layout_def
        split: if_splits)
  have fields: "ls_log_cursor seg' = length (batches_layout (bs @ [b]))"
    "ls_index_count seg' = (if ?hit then Suc (length es) else length es)"
    "ls_index_write_pos seg' = 16 * (if ?hit then Suc (length es) else length es)"
    using app d log cnt r
    by (auto simp: segment_append_batch_def Let_def fs_write_at_def overwrite_end twice batch_layout_def
        split: if_splits)
  have sz: "ls_size seg' = length (batches_layout (bs @ [b]))"
    using segment_append_frame(7) [OF app] log(3) batch_sized_layout [OF b] by simp
  have chain': "batch_chain ?n (bs @ [b])"
    using chain off count b by (simp add: batch_chain_append)
  note frame = segment_append_frame(1-4) [OF app]
  show ?thesis
  proof (cases ?hit)
    case True
    then have "segment_holds fs' seg' (bs @ [b]) (es @ [(rb_base_offset b, ?pos)])"
      using seg data fields sz chain' index_ok_snoc [OF ok chain off upos]
      by (simp add: segment_holds_def frame)
    then show ?thesis
      by blast
  next
    case False
    then have "segment_holds fs' seg' (bs @ [b]) (es @ [])"
      using seg data fields sz chain' index_ok_grow [OF ok, of b]
      by (simp add: segment_holds_def frame)
    then show ?thesis
      by blast
  qed
qed

text \<open>A view of an earlier state of the segment reads the same batches from the later state.\<close>

lemma segment_view_holds:
  assumes seg: "segment_holds fs seg (bs @ cs) (es @ gs)"
    and v: "sv_log v = ls_log seg" "sv_index v = ls_index seg"
      "sv_base_offset v = sv_base_offset (ls_segment seg)"
      "sv_size v = length (batches_layout bs)" "sv_index_count v = length es"
    and ok: "index_ok bs es"
    and small: "length (batches_layout bs) < 2 ^ 64"
      "chain_end (unat (sv_base_offset v)) bs < 2 ^ 64"
  shows "view_holds (fs_data fs) v bs es"
  using assms by (auto simp: view_holds_def segment_holds_def batch_chain_append)

lemma segment_publish_holds:
  assumes "segment_holds fs seg bs es" and "segment_publish seg = (seg', v)"
    and "length (batches_layout bs) < 2 ^ 64"
    and "chain_end (unat (sv_base_offset (ls_segment seg))) bs < 2 ^ 64"
  shows "segment_holds fs seg' bs es \<and> view_holds (fs_data fs) v bs es
    \<and> sv_base_offset v = sv_base_offset (ls_segment seg)
    \<and> sv_log v = ls_log seg \<and> sv_index v = ls_index seg"
proof -
  have seg': "segment_holds fs seg' bs es"
    using assms(1,2)
    by (auto simp: segment_holds_def segment_publish_def view_with_metadata_def Let_def)
  moreover have "view_holds (fs_data fs) v bs es"
    using assms segment_view_holds [of fs seg bs "[]" es "[]" v]
    by (auto simp: segment_holds_def segment_publish_def view_with_metadata_def Let_def)
  ultimately show ?thesis
    using assms(1,2)
    by (auto simp: segment_holds_def segment_publish_def view_with_metadata_def Let_def)
qed

section \<open>Opening\<close>

text \<open>Names lead to distinct inodes that have been handed out.\<close>

definition fs_ok :: "file_system \<Rightarrow> bool" where
  "fs_ok fs \<longleftrightarrow> inj_on (fs_names fs) (dom (fs_names fs)) \<and> (\<forall>i \<in> ran (fs_names fs). i < fs_next fs)"

lemma fs_ok_empty: "fs_ok fs_empty"
  by (simp add: fs_ok_def fs_empty_def)

lemma fs_ok_same: "fs_names fs' = fs_names fs \<Longrightarrow> fs_next fs' = fs_next fs \<Longrightarrow> fs_ok fs' = fs_ok fs"
  by (simp add: fs_ok_def)

lemma fs_open_ok:
  assumes "fs_ok fs" and "fs_open nm trunc fs = (i, fs')"
  shows "fs_ok fs' \<and> fs_names fs' = (fs_names fs)(nm \<mapsto> i) \<and> fs_next fs \<le> fs_next fs'
    \<and> (trunc \<longrightarrow> fs_data fs' i = []) \<and> (\<forall>j. j \<noteq> i \<longrightarrow> fs_data fs' j = fs_data fs j)
    \<and> (\<forall>nm'. nm' \<noteq> nm \<longrightarrow> fs_names fs nm' \<noteq> Some i)
    \<and> (fs_names fs nm = Some i \<or> i = fs_next fs \<and> fs_names fs nm = None)"
proof (cases "fs_names fs nm")
  case None
  have fresh: "fs_next fs \<notin> ran (fs_names fs)"
    using assms(1) by (auto simp: fs_ok_def)
  have upd: "fs_names fs' = (fs_names fs)(nm \<mapsto> fs_next fs)" "fs_next fs' = fs_next fs + 1"
    using None assms(2) by (auto simp: fs_open_def)
  have "inj_on (fs_names fs') (dom (fs_names fs'))"
    using assms(1) fresh None unfolding upd
    by (auto simp: fs_ok_def inj_on_def ran_def)
  moreover have "\<forall>j \<in> ran (fs_names fs'). j < fs_next fs'"
    using assms(1) unfolding upd by (auto simp: fs_ok_def ran_def less_Suc_eq split: if_splits)
  ultimately show ?thesis
    using None assms(2) fresh upd by (auto simp: fs_open_def fs_ok_def ran_def)
next
  case (Some k)
  then have "fs_names fs nm' \<noteq> Some k" if "nm' \<noteq> nm" for nm'
    using assms(1) that Some by (metis domI fs_ok_def inj_onD)
  moreover have "(fs_names fs)(nm \<mapsto> k) = fs_names fs"
    using Some by (simp add: fun_upd_idem)
  ultimately show ?thesis
    using Some assms by (auto simp: fs_open_def fs_ok_def split: if_splits)
qed

definition fresh_log :: "file_system \<Rightarrow> u64 \<Rightarrow> bool" where
  "fresh_log fs base_offset \<longleftrightarrow>
     (case fs_names fs (LogFile, base_offset) of Some i \<Rightarrow> fs_data fs i = [] | None \<Rightarrow> True)"

text \<open>A segment opened on a log that is missing or empty is empty; no other file changes.\<close>

lemma segment_open_fresh:
  assumes ok: "fs_ok fs" and fresh: "fresh_log fs (sg_base_offset opts)"
    and "open": "segment_open opts fs = (fs', seg)"
  shows "segment_holds fs' seg [] [] \<and> fs_ok fs'
    \<and> sv_base_offset (ls_segment seg) = sg_base_offset opts
    \<and> fs_names fs' = (fs_names fs)((LogFile, sg_base_offset opts) \<mapsto> ls_log seg,
        (IndexFile, sg_base_offset opts) \<mapsto> ls_index seg,
        (TimeIndexFile, sg_base_offset opts) \<mapsto> ls_time_index seg)
    \<and> (\<forall>i. i \<notin> {ls_log seg, ls_index seg, ls_time_index seg} \<longrightarrow> fs_data fs' i = fs_data fs i)
    \<and> (\<forall>kind. \<forall>base. base \<noteq> sg_base_offset opts \<longrightarrow> fs_names fs (kind, base) \<notin>
         {Some (ls_log seg), Some (ls_index seg), Some (ls_time_index seg)})"
proof -
  let ?base = "sg_base_offset opts"
  obtain log fs1 where o1: "fs_open (LogFile, ?base) True fs = (log, fs1)"
    by fastforce
  obtain index fs2 where o2: "fs_open (IndexFile, ?base) True fs1 = (index, fs2)"
    by fastforce
  obtain tix fs3 where o3: "fs_open (TimeIndexFile, ?base) True fs2 = (tix, fs3)"
    by fastforce
  define n where "n = (sg_segment_bytes opts div sg_index_interval_bytes opts + 1) * 16"
  have size0: "(case fs_names fs (LogFile, ?base) of Some i \<Rightarrow> length (fs_data fs i) | None \<Rightarrow> 0) = 0"
    using fresh by (auto simp: fresh_log_def split: option.splits)
  have res: "fs' = fs_set_len tix n (fs_set_len index n fs3)"
    "seg = \<lparr>ls_segment = segment_view_new ?base log index, ls_log = log, ls_log_cursor = 0,
        ls_index = index, ls_time_index = tix, ls_index_write_pos = 0, ls_size = 0,
        ls_index_count = 0, ls_bytes_since_last_index = sg_index_interval_bytes opts,
        ls_index_threshold_bytes = sg_index_interval_bytes opts\<rparr>"
    using "open" size0 o1 o2 o3 by (simp_all add: segment_open_def Let_def n_def)
  note p1 = fs_open_ok [OF ok o1]
  note p2 = fs_open_ok [OF p1 [THEN conjunct1] o2]
  note p3 = fs_open_ok [OF p2 [THEN conjunct1] o3]
  have li: "log \<noteq> index"
    using p1 p2 by (metis file_kind.distinct(1) fun_upd_same prod.inject)
  have lt: "log \<noteq> tix" and it: "index \<noteq> tix"
    using p1 p2 p3 by (metis file_kind.distinct(3,5) fun_upd_same fun_upd_other prod.inject
        file_kind.distinct(1))+
  have data: "fs_data fs' log = []" "fs_data fs' index = replicate n 0"
    "\<And>i. i \<notin> {log, index, tix} \<Longrightarrow> fs_data fs' i = fs_data fs i"
    using p1 p2 p3 li lt it by (simp_all add: res(1) fs_set_len_def)
  have names: "fs_names fs' = (fs_names fs)((LogFile, ?base) \<mapsto> log, (IndexFile, ?base) \<mapsto> index,
        (TimeIndexFile, ?base) \<mapsto> tix)"
    using p1 p2 p3 by (simp add: res(1) fs_set_len_def)
  have ok': "fs_ok fs'"
    using p3 [THEN conjunct1] fs_ok_same [of fs' fs3] by (simp add: res(1) fs_set_len_def)
  have others: "fs_names fs (kind, base) \<notin> {Some log, Some index, Some tix}" if "base \<noteq> ?base" for kind base
    using p1 p2 p3 that by (metis (no_types, lifting) fun_upd_other insert_iff prod.inject singletonD)
  show ?thesis
    using li lt it data names ok' others
    by (auto simp: segment_holds_def res(2) segment_view_new_def)
qed

end
