(* ===== verification/Storage_Partition.thy ===== *)
theory Storage_Partition
  imports Storage_Append
begin

text \<open>
  Partitions of the crate \<open>musil-storage\<close>: the snapshot that readers use
  (\<open>partition/state.rs\<close>), the actor that owns the active segment and handles the commands
  (\<open>partition/actor.rs\<close>, \<open>command.rs\<close>, \<open>config.rs\<close>) and the handle the rest of the program
  holds (\<open>partition/handle.rs\<close>).

  The channel to the actor is the list of the commands it receives. A reply channel is a
  number; \<open>alive\<close> says whether its receiver still exists, for the actor panics when it cannot
  send a reply it unwraps. The snapshot is stored at the end of a command.
\<close>

section \<open>The snapshot\<close>

record replica_metadata =
  rm_broker_id :: "u8 list"
  rm_replica_id :: u32
  rm_log_end_offset :: u64
  rm_is_in_sync :: bool

definition replica_empty :: "u8 list \<Rightarrow> u32 \<Rightarrow> replica_metadata" where
  "replica_empty broker_id replica_id =
     \<lparr>rm_broker_id = broker_id, rm_replica_id = replica_id,
      rm_log_end_offset = 0, rm_is_in_sync = True\<rparr>"

record partition_state =
  ps_segments :: "segment_view list"
  ps_log_end_offset :: u64
  ps_high_watermark :: u64
  ps_replicas :: "replica_metadata list"

definition partition_state_new :: "replica_metadata list \<Rightarrow> partition_state" where
  "partition_state_new replicas =
     \<lparr>ps_segments = [], ps_log_end_offset = 0, ps_high_watermark = 0, ps_replicas = replicas\<rparr>"

text \<open>\<open>partition_point\<close> on a slice whose elements satisfy the predicate up to some index.\<close>

definition partition_point :: "('a \<Rightarrow> bool) \<Rightarrow> 'a list \<Rightarrow> nat" where
  "partition_point P xs = length (takeWhile P xs)"

definition state_fetch ::
    "bytes_ops \<Rightarrow> (u8 list \<Rightarrow> u32) \<Rightarrow> (nat \<Rightarrow> u8 list) \<Rightarrow> partition_state \<Rightarrow> u32 \<Rightarrow> fetch_partition \<Rightarrow>
      (unit, partition_response) outcome option" where
  "state_fetch B crc data s partition_index req =
     (let idx = partition_point (\<lambda>seg. sv_base_offset seg \<le> fp_fetch_offset req) (ps_segments s)
      in if idx = 0 then Some Panic
         else map_option
           (omap (\<lambda>records.
              \<lparr>pr_partition_index = partition_index, pr_error_code = NoError,
               pr_high_watermark = ps_high_watermark s,
               pr_log_start_offset = ps_log_end_offset s, pr_records = records\<rparr>))
           (view_fetch B crc data (ps_segments s ! (idx - 1)) req))"

fun fetch_all_views ::
    "(nat \<Rightarrow> u8 list) \<Rightarrow> segment_view list \<Rightarrow> (unit, record_batch list) outcome option" where
  "fetch_all_views data [] = Some (Ok [])"
| "fetch_all_views data (v # vs) =
     Option.bind (view_fetch_all data v) (\<lambda>r.
     Option.bind (fetch_all_views data vs) (\<lambda>rs.
     Some (obind r (\<lambda>bs. omap (\<lambda>cs. bs @ cs) rs))))"

definition state_fetch_all ::
    "(nat \<Rightarrow> u8 list) \<Rightarrow> partition_state \<Rightarrow> (unit, partition_response) outcome option" where
  "state_fetch_all data s =
     map_option
       (omap (\<lambda>records.
          \<lparr>pr_partition_index = 0, pr_error_code = NoError, pr_high_watermark = 0,
           pr_log_start_offset = 0, pr_records = records\<rparr>))
       (fetch_all_views data (ps_segments s))"

text \<open>The first replica with the id moves forward; the high watermark is the least of them all.\<close>

fun bump_replica :: "u32 \<Rightarrow> u64 \<Rightarrow> replica_metadata list \<Rightarrow> replica_metadata list" where
  "bump_replica replica_id leo [] = []"
| "bump_replica replica_id leo (r # rs) =
     (if rm_replica_id r = replica_id
      then r\<lparr>rm_log_end_offset := max (rm_log_end_offset r) leo\<rparr> # rs
      else r # bump_replica replica_id leo rs)"

definition state_ack_replica :: "u32 \<Rightarrow> u64 \<Rightarrow> partition_state \<Rightarrow> partition_state" where
  "state_ack_replica replica_id leo s =
     (let replicas = bump_replica replica_id leo (ps_replicas s);
          s1 = s\<lparr>ps_replicas := replicas\<rparr>
      in if replicas = [] then s1
         else s1\<lparr>ps_high_watermark := Min (set (map rm_log_end_offset replicas))\<rparr>)"

definition state_consume ::
    "segment_view list \<Rightarrow> u64 \<Rightarrow> u64 \<Rightarrow> partition_state \<Rightarrow> partition_state" where
  "state_consume segments log_end_offset high_watermark s =
     s\<lparr>ps_segments := segments, ps_log_end_offset := log_end_offset,
       ps_high_watermark := high_watermark\<rparr>"

section \<open>The actor\<close>

record pending_response =
  pn_hw :: u64
  pn_base_offset :: u64
  pn_done :: nat

record partition_config =
  pc_segment_bytes :: nat
  pc_replicas :: "replica_metadata list"
  pc_partition_id :: u16
  pc_broker_id :: u16

record partition_actor =
  pa_partition_id :: u16
  pa_broker_id :: u16
  pa_segment_bytes :: nat
  pa_active :: log_segment
  pa_snapshot :: partition_state
  pa_acks_pending :: "pending_response list"
  pa_fs :: file_system

datatype partition_command =
    Append record_batch acks nat
  | Truncate u64 nat
  | UpdateReplicaLeo u32 u64
  | Shutdown

datatype partition_effect =
    Produced nat produce_partition_response
  | Truncated nat

definition build_segment_config :: "u64 \<Rightarrow> nat \<Rightarrow> segment_config" where
  "build_segment_config base_offset segment_bytes =
     \<lparr>sg_base_offset = base_offset, sg_segment_bytes = segment_bytes,
      sg_index_interval_bytes = 4096\<rparr>"

text \<open>
  \<open>dir\<close> is what reading the directory yields: the base offsets of the log files, in any order.
\<close>

fun open_and_publish ::
    "nat \<Rightarrow> u64 list \<Rightarrow> file_system \<Rightarrow> file_system \<times> segment_view list" where
  "open_and_publish segment_bytes [] fs = (fs, [])"
| "open_and_publish segment_bytes (base # bases) fs =
     (let (fs1, seg) = segment_open (build_segment_config base segment_bytes) fs;
          v = snd (segment_publish seg);
          (fs2, vs) = open_and_publish segment_bytes bases fs1
      in (fs2, v # vs))"

definition actor_initialize ::
    "nat \<Rightarrow> u64 list \<Rightarrow> file_system \<Rightarrow>
      (unit, file_system \<times> log_segment \<times> segment_view list \<times> u64) outcome option" where
  "actor_initialize segment_bytes dir fs =
     (let log_offsets = sort dir;
          last_base = (if log_offsets = [] then 0 else last log_offsets);
          (fs1, active) = segment_open (build_segment_config last_base segment_bytes) fs
      in map_option
        (omap (\<lambda>count.
           (let leo = last_base + count;
                (fs2, vs) = open_and_publish segment_bytes (butlast log_offsets) fs1;
                (active1, v) = segment_publish active
            in if segment_bytes \<le> ls_size active1
               then (let (fs3, new_active) = segment_open (build_segment_config leo segment_bytes) fs2;
                         (new_active1, v1) = segment_publish new_active
                     in (fs3, new_active1, vs @ [v, v1], leo))
               else (fs2, active1, vs @ [v], leo))))
        (segment_records_count (fs_data fs1) active))"

definition actor_new ::
    "partition_config \<Rightarrow> u64 list \<Rightarrow> file_system \<Rightarrow> (unit, partition_actor) outcome option" where
  "actor_new cfg dir fs =
     map_option
       (omap (\<lambda>(fs1, active, segments, leo).
          (let state = partition_state_new (pc_replicas cfg);
               hw = (if ps_replicas state = [] then leo else ps_high_watermark state)
           in \<lparr>pa_partition_id = pc_partition_id cfg, pa_broker_id = pc_broker_id cfg,
               pa_segment_bytes = pc_segment_bytes cfg, pa_active = active,
               pa_snapshot = state_consume segments leo hw state,
               pa_acks_pending = [], pa_fs = fs1\<rparr>)))
       (actor_initialize (pc_segment_bytes cfg) dir fs)"

definition handle_truncate :: "u64 \<Rightarrow> partition_actor \<Rightarrow> partition_actor" where
  "handle_truncate offset a =
     (let state = pa_snapshot a
      in if ps_log_end_offset state \<le> offset then a
         else
           let kept = filter (\<lambda>seg. sv_base_offset seg < offset) (ps_segments state);
               gone = filter (\<lambda>seg. \<not> sv_base_offset seg < offset) (ps_segments state);
               fs1 = fold (\<lambda>seg fs. fs_remove (IndexFile, sv_base_offset seg)
                                      (fs_remove (LogFile, sv_base_offset seg) fs)) gone (pa_fs a);
               (fs2, active) = segment_open (build_segment_config offset (pa_segment_bytes a)) fs1;
               (active1, v) = segment_publish active
           in a\<lparr>pa_fs := fs2, pa_active := active1,
                pa_snapshot :=
                  \<lparr>ps_segments = kept @ [v], ps_log_end_offset = offset,
                   ps_high_watermark = min (ps_high_watermark state) offset,
                   ps_replicas = ps_replicas state\<rparr>\<rparr>)"

text \<open>
  An append. The list of segments is never empty, so the assignment to its last element does
  not panic.
\<close>

definition actor_append :: "record_batch \<Rightarrow> partition_actor \<Rightarrow> partition_actor" where
  "actor_append record a =
     (let state = pa_snapshot a;
          b = batch_update_base_offset (ps_log_end_offset state) record;
          (fs1, active) = segment_append_batch b (pa_fs a, pa_active a);
          leo = ps_log_end_offset state + ucast (rb_records_count b);
          (active1, current_active) = segment_publish active;
          segments = butlast (ps_segments state) @ [current_active];
          (fs2, segments1, active2) =
            (if pa_segment_bytes a \<le> ls_size active1
             then (let (fs2, new_active) = segment_open (build_segment_config leo (pa_segment_bytes a)) fs1;
                       (new_active1, v) = segment_publish new_active
                   in (fs2, segments @ [v], new_active1))
             else (fs1, segments, active1));
          hw = (if ps_replicas state = []
                then ps_high_watermark state + ucast (rb_records_count b)
                else ps_high_watermark state)
      in a\<lparr>pa_fs := fs2, pa_active := active2,
           pa_snapshot :=
             \<lparr>ps_segments = segments1, ps_log_end_offset = leo, ps_high_watermark = hw,
              ps_replicas = ps_replicas state\<rparr>\<rparr>)"

definition produced :: "partition_actor \<Rightarrow> u64 \<Rightarrow> produce_partition_response" where
  "produced a base_offset =
     produce_partition_response_new (ucast (pa_partition_id a)) base_offset (ucast (pa_broker_id a))"

text \<open>The loop over the pending acknowledgements: from the front, while they are covered.\<close>

fun release_acks ::
    "(nat \<Rightarrow> bool) \<Rightarrow> partition_actor \<Rightarrow> u64 \<Rightarrow> pending_response list \<Rightarrow>
      (unit, pending_response list \<times> partition_effect list) outcome" where
  "release_acks alive a hw [] = Ok ([], [])"
| "release_acks alive a hw (ack # rest) =
     (if hw < pn_hw ack then Ok (ack # rest, [])
      else if alive (pn_done ack)
      then omap (\<lambda>(left, fx). (left, Produced (pn_done ack) (produced a (pn_base_offset ack)) # fx))
             (release_acks alive a hw rest)
      else Panic)"

fun actor_handle ::
    "(nat \<Rightarrow> bool) \<Rightarrow> partition_command \<Rightarrow> partition_actor \<Rightarrow>
      (unit, partition_actor \<times> partition_effect list) outcome" where
  "actor_handle alive (Append record acks reply) a =
     (let base_offset = ps_log_end_offset (pa_snapshot a);
          a1 = actor_append record a
      in case acks of
           AcksAll \<Rightarrow>
             Ok (a1\<lparr>pa_acks_pending := pa_acks_pending a1 @
                       [\<lparr>pn_hw = ps_log_end_offset (pa_snapshot a1),
                         pn_base_offset = base_offset, pn_done = reply\<rparr>]\<rparr>, [])
         | _ \<Rightarrow>
             (if alive reply then Ok (a1, [Produced reply (produced a1 base_offset)]) else Panic))"
| "actor_handle alive (Truncate offset reply) a = Ok (handle_truncate offset a, [Truncated reply])"
| "actor_handle alive (UpdateReplicaLeo replica_id leo) a =
     (let next = state_ack_replica replica_id leo (pa_snapshot a)
      in omap (\<lambda>(pending, fx). (a\<lparr>pa_acks_pending := pending, pa_snapshot := next\<rparr>, fx))
           (release_acks alive a (ps_high_watermark next) (pa_acks_pending a)))"
| "actor_handle alive Shutdown a = Ok (a, [])"

fun actor_run ::
    "(nat \<Rightarrow> bool) \<Rightarrow> partition_command list \<Rightarrow> partition_actor \<Rightarrow>
      (unit, partition_actor \<times> partition_effect list) outcome" where
  "actor_run alive [] a = Ok (a, [])"
| "actor_run alive (c # cs) a =
     (if c = Shutdown then Ok (a, [])
      else obind (actor_handle alive c a) (\<lambda>(a1, fx).
           omap (\<lambda>(a2, fy). (a2, fx @ fy)) (actor_run alive cs a1)))"

section \<open>The handle\<close>

text \<open>A fetch through the handle: the response, and the command it sends when a replica fetches.\<close>

definition handle_fetch ::
    "bytes_ops \<Rightarrow> (u8 list \<Rightarrow> u32) \<Rightarrow> u32 \<Rightarrow> partition_actor \<Rightarrow> fetch_partition \<Rightarrow> i32 \<Rightarrow>
      (unit, partition_response \<times> partition_command list) outcome option" where
  "handle_fetch B crc ident a req replica_id =
     map_option
       (omap (\<lambda>res. (res,
          if 0 \<le> sint replica_id
          then [UpdateReplicaLeo replica_id (pr_log_start_offset res)] else [])))
       (state_fetch B crc (fs_data (pa_fs a)) (pa_snapshot a) ident req)"

end
