(* ===== verification/Storage_Actor.thy ===== *)
theory Storage_Actor
  imports Storage_Partition
begin

text \<open>
  A partition as a log of batches: the invariant that ties the snapshot, the active segment and
  the files of an actor to the batches appended to it, its preservation by an append, with or
  without a new segment, and what a fetch returns under it.
\<close>

section \<open>The invariant\<close>

text \<open>The segments before the active one: each full of batches, one after the other.\<close>

fun older_hold ::
    "(nat \<Rightarrow> u8 list) \<Rightarrow> nat \<Rightarrow> segment_view list \<Rightarrow> record_batch list list \<Rightarrow> bool" where
  "older_hold data n [] [] \<longleftrightarrow> True"
| "older_hold data n (v # vs) (bs # bss) \<longleftrightarrow>
     unat (sv_base_offset v) = n \<and> (\<exists>es. view_holds data v bs es) \<and> bs \<noteq> []
     \<and> older_hold data (chain_end n bs) vs bss"
| "older_hold data n _ _ \<longleftrightarrow> False"

definition names_hold :: "file_system \<Rightarrow> segment_view list \<Rightarrow> log_segment \<Rightarrow> bool" where
  "names_hold fs vs active \<longleftrightarrow> fs_ok fs
     \<and> (\<forall>v \<in> set vs. fs_names fs (LogFile, sv_base_offset v) = Some (sv_log v)
          \<and> fs_names fs (IndexFile, sv_base_offset v) = Some (sv_index v))
     \<and> fs_names fs (TimeIndexFile, sv_base_offset (ls_segment active)) = Some (ls_time_index active)
     \<and> (\<forall>base. fs_names fs (LogFile, base) \<noteq> None \<longrightarrow> base \<in> sv_base_offset ` set vs)"

definition partition_holds ::
    "partition_actor \<Rightarrow> nat \<Rightarrow> record_batch list list \<Rightarrow> record_batch list \<Rightarrow> bool" where
  "partition_holds a n bss bs \<longleftrightarrow>
     (\<exists>vs v es. ps_segments (pa_snapshot a) = vs @ [v]
        \<and> older_hold (fs_data (pa_fs a)) n vs bss
        \<and> unat (sv_base_offset v) = chain_end n (concat bss)
        \<and> unat (ps_log_end_offset (pa_snapshot a)) = chain_end n (concat bss @ bs)
        \<and> length (batches_layout bs) < 2 ^ 64
        \<and> segment_holds (pa_fs a) (pa_active a) bs es
        \<and> ls_segment (pa_active a) = v \<and> view_holds (fs_data (pa_fs a)) v bs es
        \<and> names_hold (pa_fs a) (vs @ [v]) (pa_active a))"

lemma view_holds_cong:
  "data' (sv_log v) = data (sv_log v) \<Longrightarrow> data' (sv_index v) = data (sv_index v) \<Longrightarrow>
     view_holds data' v bs es = view_holds data v bs es"
  by (simp add: view_holds_def)

lemma chain_end_less:
  assumes "batch_chain n bs" and "bs \<noteq> []"
  shows "n < chain_end n bs"
proof (cases bs)
  case (Cons b cs)
  with assms(1) show ?thesis
    using chain_end_le [of "n + unat (rb_records_count b)" cs] by auto
qed (use assms(2) in simp)

lemma view_holds_chain: "view_holds data v bs es \<Longrightarrow> batch_chain (unat (sv_base_offset v)) bs"
  by (simp add: view_holds_def)

lemma older_hold_snoc:
  "older_hold data n vs bss \<Longrightarrow> older_hold data n (vs @ [v]) (bss @ [bs]) \<longleftrightarrow>
     unat (sv_base_offset v) = chain_end n (concat bss) \<and> (\<exists>es. view_holds data v bs es) \<and> bs \<noteq> []"
  by (induction data n vs bss rule: older_hold.induct) (auto simp: chain_end_append)

lemma older_hold_cong:
  assumes "older_hold data n vs bss"
    and "\<forall>v \<in> set vs. data' (sv_log v) = data (sv_log v) \<and> data' (sv_index v) = data (sv_index v)"
  shows "older_hold data' n vs bss"
  using assms
proof (induction data n vs bss rule: older_hold.induct)
  case (2 data n v vs bs bss)
  have "view_holds data' v bs = view_holds data v bs"
    using 2 by (intro ext view_holds_cong) simp_all
  with 2 show ?case
    by simp
qed simp_all

lemma older_hold_base:
  assumes "older_hold data n vs bss" and "v \<in> set vs"
  shows "n \<le> unat (sv_base_offset v) \<and> unat (sv_base_offset v) < chain_end n (concat bss)"
  using assms
proof (induction data n vs bss rule: older_hold.induct)
  case (2 data n w ws bs bss)
  from "2.prems"(1) obtain es where w: "unat (sv_base_offset w) = n" "view_holds data w bs es" "bs \<noteq> []"
    and rest: "older_hold data (chain_end n bs) ws bss"
    by auto
  have less: "n < chain_end n bs"
    using chain_end_less [of n bs] view_holds_chain [OF w(2)] w(1,3) by simp
  have end_eq: "chain_end n (concat (bs # bss)) = chain_end (chain_end n bs) (concat bss)"
    by (simp add: chain_end_append)
  have le: "chain_end n bs \<le> chain_end (chain_end n bs) (concat bss)"
    by (rule chain_end_le)
  show ?case
  proof (cases "v = w")
    case True
    from less le show ?thesis
      by (simp add: True w(1) end_eq del: concat.simps)
  next
    case False
    with "2.prems"(2) have "v \<in> set ws"
      by simp
    from "2.IH" [OF rest this] less show ?thesis
      by (simp add: end_eq del: concat.simps)
  qed
qed simp_all

section \<open>An append\<close>

text \<open>The views before the active segment keep their files when only the active one changes.\<close>

lemma names_hold_disjoint:
  assumes nm: "names_hold fs (vs @ [ls_segment seg]) seg" and u: "u \<in> set vs"
    and ne: "sv_base_offset u \<noteq> sv_base_offset (ls_segment seg)"
    and seg: "sv_log (ls_segment seg) = ls_log seg" "sv_index (ls_segment seg) = ls_index seg"
  shows "sv_log u \<notin> {ls_log seg, ls_index seg, ls_time_index seg}
    \<and> sv_index u \<notin> {ls_log seg, ls_index seg, ls_time_index seg}"
proof -
  have inj: "fs_names fs x = Some i \<Longrightarrow> fs_names fs y = Some i \<Longrightarrow> x = y" for x y i
    using nm by (metis domI fs_ok_def inj_onD names_hold_def)
  have "fs_names fs (LogFile, sv_base_offset u) = Some (sv_log u)"
    "fs_names fs (IndexFile, sv_base_offset u) = Some (sv_index u)"
    "fs_names fs (LogFile, sv_base_offset (ls_segment seg)) = Some (ls_log seg)"
    "fs_names fs (IndexFile, sv_base_offset (ls_segment seg)) = Some (ls_index seg)"
    "fs_names fs (TimeIndexFile, sv_base_offset (ls_segment seg)) = Some (ls_time_index seg)"
    using nm u seg by (auto simp: names_hold_def)
  with ne show ?thesis
    by (auto dest: inj)
qed

lemma segment_holds_sel:
  "segment_holds fs seg bs es \<Longrightarrow> sv_log (ls_segment seg) = ls_log seg \<and> sv_index (ls_segment seg) = ls_index seg"
  by (simp add: segment_holds_def)

lemma segment_publish_sel:
  "segment_publish seg = (seg', v) \<Longrightarrow> ls_segment seg' = v \<and> ls_log seg' = ls_log seg
     \<and> ls_index seg' = ls_index seg \<and> ls_time_index seg' = ls_time_index seg
     \<and> ls_size seg' = ls_size seg \<and> sv_base_offset v = sv_base_offset (ls_segment seg)
     \<and> sv_log v = sv_log (ls_segment seg) \<and> sv_index v = sv_index (ls_segment seg)"
  by (auto simp: segment_publish_def view_with_metadata_def Let_def)

text \<open>What an append needs: room for the offsets and for the bytes of the active segment.\<close>

definition append_fits :: "partition_actor \<Rightarrow> record_batch list \<Rightarrow> record_batch \<Rightarrow> bool" where
  "append_fits a bs b \<longleftrightarrow>
     batch_sized b \<and> 0 < unat (rb_records_count b)
     \<and> unat (ps_log_end_offset (pa_snapshot a)) + unat (rb_records_count b) < 2 ^ 64
     \<and> length (batches_layout bs) + length (batch_layout b) < 2 ^ 64"

lemma based_batch [simp]:
  "rb_records_count (batch_update_base_offset off b) = rb_records_count b"
  "rb_records (batch_update_base_offset off b) = rb_records b"
  "rb_base_offset (batch_update_base_offset off b) = off"
  "batch_sized (batch_update_base_offset off b) = batch_sized b"
  "length (batch_layout (batch_update_base_offset off b)) = length (batch_layout b)"
  by (simp_all add: batch_update_base_offset_def batch_sized_def length_batch_layout)

lemma actor_append_holds:
  assumes inv: "partition_holds a n bss bs" and fits: "append_fits a bs record"
  defines "b \<equiv> batch_update_base_offset (ps_log_end_offset (pa_snapshot a)) record"
  shows "partition_holds (actor_append record a) n bss (bs @ [b])
      \<or> partition_holds (actor_append record a) n (bss @ [bs @ [b]]) []"
    and "unat (ps_log_end_offset (pa_snapshot (actor_append record a))) =
      unat (ps_log_end_offset (pa_snapshot a)) + unat (rb_records_count record)"
proof -
  let ?fs = "pa_fs a" and ?seg = "pa_active a" and ?leo = "ps_log_end_offset (pa_snapshot a)"
  obtain vs v es where vs: "ps_segments (pa_snapshot a) = vs @ [v]"
    and older: "older_hold (fs_data ?fs) n vs bss"
    and base: "unat (sv_base_offset v) = chain_end n (concat bss)"
    and leo: "unat ?leo = chain_end n (concat bss @ bs)"
    and seg: "segment_holds ?fs ?seg bs es" and v: "ls_segment ?seg = v"
    and nm: "names_hold ?fs (vs @ [v]) ?seg" and small: "length (batches_layout bs) < 2 ^ 64"
    using inv by (auto simp: partition_holds_def)
  note sel = segment_holds_sel [OF seg]
  obtain fs1 seg1 where app: "segment_append_batch b (?fs, ?seg) = (fs1, seg1)"
    by fastforce
  obtain seg2 v2 where pub: "segment_publish seg1 = (seg2, v2)"
    by fastforce
  note frame = segment_append_frame [OF app]
  let ?leo' = "?leo + ucast (rb_records_count b)"
  have b: "batch_sized b" "unat (rb_base_offset b) = chain_end (unat (sv_base_offset v)) bs"
    "0 < unat (rb_records_count b)" "rb_records_count b = rb_records_count record"
    using fits base leo by (simp_all add: b_def append_fits_def chain_end_append)
  obtain es1 where seg1: "segment_holds fs1 seg1 (bs @ [b]) es1"
    using segment_append_holds [OF seg b(1) _ b(3) small app] b(2) v by auto
  have leo': "unat ?leo' = chain_end n (concat bss @ (bs @ [b]))"
    and leo'': "unat ?leo' = unat ?leo + unat (rb_records_count record)"
    using fits leo b(4) by (simp_all add: append_fits_def unat_word_ariths unat_ucast_up chain_end_append)
  have small1: "length (batches_layout (bs @ [b])) < 2 ^ 64"
    using fits by (simp add: append_fits_def b_def)
  have "chain_end (unat (sv_base_offset (ls_segment seg1))) (bs @ [b]) < 2 ^ 64"
    using leo' base v frame(1) unat_bound [of ?leo'] by (simp add: chain_end_append)
  then have seg2: "segment_holds fs1 seg2 (bs @ [b]) es1" and v2: "view_holds (fs_data fs1) v2 (bs @ [b]) es1"
    using segment_publish_holds [OF seg1 pub small1] by auto
  note psel = segment_publish_sel [OF pub]
  have base2: "sv_base_offset v2 = sv_base_offset v" "sv_log v2 = sv_log v" "sv_index v2 = sv_index v"
    using psel frame(1) v by simp_all
  have keep: "fs_data fs1 (sv_log u) = fs_data ?fs (sv_log u) \<and> fs_data fs1 (sv_index u) = fs_data ?fs (sv_index u)"
    if "u \<in> set vs" for u
  proof -
    have "sv_base_offset u \<noteq> sv_base_offset v"
      using older_hold_base [OF older that] base by auto
    then show ?thesis
      using names_hold_disjoint [of ?fs vs ?seg u] nm that v sel frame(8) by auto
  qed
  have older1: "older_hold (fs_data fs1) n vs bss"
    using older_hold_cong [OF older] keep by blast
  have nm2: "names_hold fs1 (vs @ [v2]) seg2"
    using nm base2 psel frame(1-6) v by (auto simp: names_hold_def fs_ok_same [OF frame(5,6)])
  show "partition_holds (actor_append record a) n bss (bs @ [b])
      \<or> partition_holds (actor_append record a) n (bss @ [bs @ [b]]) []"
  proof (cases "pa_segment_bytes a \<le> ls_size seg2")
    case False
    let ?a = "actor_append record a"
    have "ps_segments (pa_snapshot ?a) = vs @ [v2]" "pa_fs ?a = fs1" "pa_active ?a = seg2"
      "ps_log_end_offset (pa_snapshot ?a) = ?leo'"
      using False vs app pub by (simp_all add: actor_append_def Let_def b_def)
    then have "partition_holds ?a n bss (bs @ [b])"
      unfolding partition_holds_def
      using older1 base base2 leo' small1 seg2 v2 nm2 psel by auto
    then show ?thesis
      by blast
  next
    case True
    let ?a = "actor_append record a"
    obtain fs3 seg3 where opened: "segment_open (build_segment_config ?leo' (pa_segment_bytes a)) fs1 = (fs3, seg3)"
      by fastforce
    obtain seg4 v4 where pub4: "segment_publish seg3 = (seg4, v4)"
      by fastforce
    have a: "ps_segments (pa_snapshot ?a) = (vs @ [v2]) @ [v4]" "pa_fs ?a = fs3" "pa_active ?a = seg4"
      "ps_log_end_offset (pa_snapshot ?a) = ?leo'"
      using True vs app pub opened pub4 by (simp_all add: actor_append_def Let_def b_def)
    have before: "unat (sv_base_offset u) < unat ?leo'" if "u \<in> set (vs @ [v2])" for u
    proof (cases "u = v2")
      case True
      have "batch_chain (unat (sv_base_offset v2)) (bs @ [b])"
        by (rule view_holds_chain [OF v2])
      from chain_end_less [OF this] True show ?thesis
        using base base2 leo' by (simp add: chain_end_append)
    next
      case False
      with that have "unat (sv_base_offset u) < chain_end n (concat bss)"
        using older_hold_base [OF older] by simp
      also have "\<dots> \<le> unat ?leo'"
        using leo' chain_end_le [of "chain_end n (concat bss)" "bs @ [b]"] by (simp add: chain_end_append)
      finally show ?thesis .
    qed
    then have new: "?leo' \<notin> sv_base_offset ` set (vs @ [v2])"
      by fastforce
    have ok1: "fs_ok fs1" and fresh: "fresh_log fs1 (sg_base_offset (build_segment_config ?leo' (pa_segment_bytes a)))"
      using nm2 new by (auto simp: names_hold_def fresh_log_def build_segment_config_def split: option.splits)
    note open3 = segment_open_fresh [OF ok1 fresh opened, unfolded build_segment_config_def segment_config.simps]
    have seg3: "segment_holds fs3 seg3 [] []" and base3: "sv_base_offset (ls_segment seg3) = ?leo'"
      using open3 by simp_all
    have seg4: "segment_holds fs3 seg4 [] []" and v4: "view_holds (fs_data fs3) v4 [] []"
      using segment_publish_holds [OF seg3 pub4] unat_bound [of ?leo'] by (auto simp: base3)
    note psel4 = segment_publish_sel [OF pub4]
    have keep3: "fs_data fs3 (sv_log u) = fs_data fs1 (sv_log u) \<and> fs_data fs3 (sv_index u) = fs_data fs1 (sv_index u)"
      and names3: "fs_names fs3 (LogFile, sv_base_offset u) = fs_names fs1 (LogFile, sv_base_offset u)
        \<and> fs_names fs3 (IndexFile, sv_base_offset u) = fs_names fs1 (IndexFile, sv_base_offset u)"
      if "u \<in> set (vs @ [v2])" for u
    proof -
      have ne: "sv_base_offset u \<noteq> ?leo'"
        using before [OF that] by auto
      then have names: "fs_names fs3 (k, sv_base_offset u) = fs_names fs1 (k, sv_base_offset u)" for k
        using open3 by simp
      have apart: "fs_names fs1 (k, sv_base_offset u) = Some i \<Longrightarrow> fs_data fs3 i = fs_data fs1 i" for k i
        using open3 ne by (metis empty_iff insert_iff)
      have "fs_names fs1 (LogFile, sv_base_offset u) = Some (sv_log u)"
        "fs_names fs1 (IndexFile, sv_base_offset u) = Some (sv_index u)"
        using nm2 that by (auto simp: names_hold_def)
      from this [THEN apart] names
      show "fs_data fs3 (sv_log u) = fs_data fs1 (sv_log u) \<and> fs_data fs3 (sv_index u) = fs_data fs1 (sv_index u)"
        and "fs_names fs3 (LogFile, sv_base_offset u) = fs_names fs1 (LogFile, sv_base_offset u)
        \<and> fs_names fs3 (IndexFile, sv_base_offset u) = fs_names fs1 (IndexFile, sv_base_offset u)"
        by simp_all
    qed
    have older3: "older_hold (fs_data fs3) n (vs @ [v2]) (bss @ [bs @ [b]])"
    proof (rule older_hold_cong [of "fs_data fs1"])
      show "older_hold (fs_data fs1) n (vs @ [v2]) (bss @ [bs @ [b]])"
        using older_hold_snoc [OF older1] base base2 v2 by auto
    qed (use keep3 in blast)
    have nm4: "names_hold fs3 ((vs @ [v2]) @ [v4]) seg4"
      using nm2 open3 names3 psel4 base3 segment_holds_sel [OF seg3]
      by (auto simp: names_hold_def)
    have "partition_holds ?a n (bss @ [bs @ [b]]) []"
      unfolding partition_holds_def a
      using older3 base3 psel4 leo' seg4 v4 nm4 by (intro exI conjI) (auto simp: chain_end_append)
    then show ?thesis
      by blast
  qed
  show "unat (ps_log_end_offset (pa_snapshot (actor_append record a))) =
      unat ?leo + unat (rb_records_count record)"
    using leo'' app pub by (simp add: actor_append_def Let_def b_def case_prod_unfold)
qed

end
