(* ===== verification/Storage_Log.thy ===== *)
theory Storage_Log
  imports Storage_Actor
begin

text \<open>
  The partition as an append-only log of batches: a new actor on an empty directory, a run of
  appends, and what a fetch at any offset below the end returns, however the batches were
  divided into segments.
\<close>

section \<open>Fetching under the invariant\<close>

lemma older_hold_select:
  assumes "older_hold data n vs bss" and "unat (sv_base_offset v) = chain_end n (concat bss)"
    and "view_holds data v bs es" and "n \<le> t" and "t < chain_end n (concat bss @ bs)"
  shows "\<exists>m es'. m < length (vs @ [v])
    \<and> partition_point (\<lambda>u. unat (sv_base_offset u) \<le> t) (vs @ [v]) = Suc m
    \<and> m < length (bss @ [bs]) \<and> view_holds data ((vs @ [v]) ! m) ((bss @ [bs]) ! m) es'
    \<and> unat (sv_base_offset ((vs @ [v]) ! m)) = chain_end n (concat (take m (bss @ [bs])))
    \<and> unat (sv_base_offset ((vs @ [v]) ! m)) \<le> t
    \<and> t < chain_end (unat (sv_base_offset ((vs @ [v]) ! m))) ((bss @ [bs]) ! m)"
  using assms
proof (induction data n vs bss rule: older_hold.induct)
  case (1 data n)
  then show ?case
    by (intro exI [of _ 0] exI [of _ es]) (simp add: partition_point_def)
next
  case (2 data n w ws cs css)
  from "2.prems"(1) obtain es0 where w: "unat (sv_base_offset w) = n" "view_holds data w cs es0"
    and rest: "older_hold data (chain_end n cs) ws css"
    by auto
  have base: "unat (sv_base_offset v) = chain_end (chain_end n cs) (concat css)"
    and upper: "t < chain_end (chain_end n cs) (concat css @ bs)"
    using "2.prems"(2,5) by (simp_all add: chain_end_append)
  show ?case
  proof (cases "chain_end n cs \<le> t")
    case True
    from "2.IH" [OF rest base "2.prems"(3) True upper] obtain m es' where
      "m < length (ws @ [v])" "partition_point (\<lambda>u. unat (sv_base_offset u) \<le> t) (ws @ [v]) = Suc m"
      "m < length (css @ [bs])" "view_holds data ((ws @ [v]) ! m) ((css @ [bs]) ! m) es'"
      "unat (sv_base_offset ((ws @ [v]) ! m)) = chain_end (chain_end n cs) (concat (take m (css @ [bs])))"
      "unat (sv_base_offset ((ws @ [v]) ! m)) \<le> t"
      "t < chain_end (unat (sv_base_offset ((ws @ [v]) ! m))) ((css @ [bs]) ! m)"
      by blast
    with w(1) "2.prems"(4) show ?thesis
      by (intro exI [of _ "Suc m"] exI [of _ es']) (simp add: partition_point_def chain_end_append)
  next
    case False
    have "unat (sv_base_offset (hd (ws @ [v]))) = chain_end n cs"
      using rest base by (cases ws; cases css) simp_all
    with False have "takeWhile (\<lambda>u. unat (sv_base_offset u) \<le> t) (ws @ [v]) = []"
      by (cases ws) simp_all
    with w False "2.prems"(4) show ?thesis
      by (intro exI [of _ 0] exI [of _ es0]) (simp add: partition_point_def)
  qed
qed simp_all

text \<open>The log of a partition: the stored batches, in order, and the records each holds.\<close>

definition log_holds ::
    "(u8 list \<Rightarrow> u32) \<Rightarrow> partition_actor \<Rightarrow> record_batch list \<Rightarrow> msg_record list list \<Rightarrow> bool" where
  "log_holds crc a stored rss \<longleftrightarrow>
     (\<exists>bss bs. stored = concat bss @ bs \<and> partition_holds a 0 bss bs)
     \<and> batches_hold stored rss \<and> (\<forall>b \<in> set stored. batch_checksum crc b)"

lemma log_end_offset_holds:
  "log_holds crc a stored rss \<Longrightarrow> unat (ps_log_end_offset (pa_snapshot a)) = length (concat rss)"
  by (auto simp: log_holds_def partition_holds_def dest: chain_end_records [of _ _ 0])

lemma log_end_offset_eq:
  assumes "log_holds crc a stored rss"
  shows "ps_log_end_offset (pa_snapshot a) = of_nat (length (concat rss))"
  using arg_cong [OF log_end_offset_holds [OF assms], of "of_nat :: nat \<Rightarrow> u64"] by simp

lemma batches_hold_slice:
  "batches_hold (xs @ ys @ zs) rss \<Longrightarrow>
     batches_hold xs (take (length xs) rss) \<and> batches_hold ys (take (length ys) (drop (length xs) rss))"
  by (auto simp: batches_hold_def list_all2_append1)

lemma batches_hold_length: "batches_hold bs rss \<Longrightarrow> length bs = length rss"
  by (simp add: batches_hold_def list_all2_lengthD)

lemma concat_split:
  "m < length xss \<Longrightarrow> concat xss = concat (take m xss) @ xss ! m @ concat (drop (Suc m) xss)"
  by (metis concat.simps(2) concat_append id_take_nth_drop)

context bytes_crate
begin

lemma state_fetch_holds:
  assumes log: "log_holds crc a stored rss" and t: "unat (fp_fetch_offset req) < length (concat rss)"
  shows "\<exists>k j c rest. k < length rss \<and> j < length (rss ! k)
    \<and> unat (fp_fetch_offset req) = length (concat (take k rss)) + j
    \<and> state_fetch B crc (fs_data (pa_fs a)) (pa_snapshot a) i req =
        Some (Ok \<lparr>pr_partition_index = i, pr_error_code = NoError,
                  pr_high_watermark = ps_high_watermark (pa_snapshot a),
                  pr_log_start_offset = ps_log_end_offset (pa_snapshot a), pr_records = c # rest\<rparr>)
    \<and> rb_base_offset c = fp_fetch_offset req \<and> batch_holds c (drop j (rss ! k))
    \<and> batch_checksum crc c \<and> (\<exists>m. rest = take m (drop (Suc k) stored))"
proof -
  let ?t = "unat (fp_fetch_offset req)" and ?data = "fs_data (pa_fs a)"
  obtain bss bs where stored: "stored = concat bss @ bs" and ph: "partition_holds a 0 bss bs"
    and holds: "batches_hold stored rss" and crcs: "\<forall>b \<in> set stored. batch_checksum crc b"
    using log by (auto simp: log_holds_def)
  obtain vs v es where vs: "ps_segments (pa_snapshot a) = vs @ [v]"
    and older: "older_hold ?data 0 vs bss" and base: "unat (sv_base_offset v) = chain_end 0 (concat bss)"
    and view: "view_holds ?data v bs es"
    using ph by (auto simp: partition_holds_def)
  have upper: "?t < chain_end 0 (concat bss @ bs)"
    using t chain_end_records [OF holds, of 0] stored by simp
  obtain m es' where m: "partition_point (\<lambda>u. unat (sv_base_offset u) \<le> ?t) (vs @ [v]) = Suc m"
    "m < length (bss @ [bs])" "view_holds ?data ((vs @ [v]) ! m) ((bss @ [bs]) ! m) es'"
    "unat (sv_base_offset ((vs @ [v]) ! m)) = chain_end 0 (concat (take m (bss @ [bs])))"
    "unat (sv_base_offset ((vs @ [v]) ! m)) \<le> ?t"
    "?t < chain_end (unat (sv_base_offset ((vs @ [v]) ! m))) ((bss @ [bs]) ! m)"
    using older_hold_select [OF older base view le0 upper] by blast
  let ?u = "(vs @ [v]) ! m" and ?cs = "(bss @ [bs]) ! m"
  let ?pre = "concat (take m (bss @ [bs]))" and ?post = "concat (drop (Suc m) (bss @ [bs]))"
  have split: "stored = ?pre @ ?cs @ ?post"
    using concat_split [OF m(2)] stored by simp
  define p q where "p = length ?pre" and "q = length ?cs"
  have len: "length stored = length rss"
    by (rule batches_hold_length [OF holds])
  have pre: "batches_hold ?pre (take p rss)" and mid: "batches_hold ?cs (take q (drop p rss))"
    using batches_hold_slice [of ?pre ?cs ?post rss] holds split unfolding p_def q_def by metis+
  have lens: "p + q \<le> length rss"
    using len arg_cong [OF split, of length] by (simp add: p_def q_def)
  have "\<forall>b \<in> set ?cs. batch_checksum crc b"
    using crcs split by (metis Un_iff set_append)
  from view_fetch_correct [OF m(3) mid m(5,6) this]
  obtain k c j where k: "k < length ?cs" "j < length (take q (drop p rss) ! k)"
    "?t = unat (sv_base_offset ?u) + length (concat (take k (take q (drop p rss)))) + j"
    "view_fetch B crc ?data ?u req =
      Some (Ok (c # within_limit (fp_partition_max_bytes req) (rb_batch_length c) (drop (Suc k) ?cs)))"
    "rb_base_offset c = fp_fetch_offset req" "batch_holds c (drop j (take q (drop p rss) ! k))"
    "batch_checksum crc c"
    by metis
  have kq: "k < q" "p + k < length rss"
    using k(1) lens by (simp_all add: q_def)
  have nth: "take q (drop p rss) ! k = rss ! (p + k)"
    using kq by simp
  have "unat (sv_base_offset ?u) = length (concat (take p rss))"
    using m(4) chain_end_records [OF pre, of 0] by simp
  moreover have "take (p + k) rss = take p rss @ take k (take q (drop p rss))"
    using kq by (simp add: take_add min_def)
  ultimately have off: "?t = length (concat (take (p + k) rss)) + j"
    using k(3) by simp
  obtain l where "within_limit (fp_partition_max_bytes req) (rb_batch_length c) (drop (Suc k) ?cs) =
      take l (drop (Suc k) ?cs)"
    using within_limit_prefix by blast
  moreover have "drop (Suc (p + k)) stored = drop (Suc k) ?cs @ ?post"
    by (subst split) (use k(1) in \<open>simp add: p_def\<close>)
  ultimately have "\<exists>l. within_limit (fp_partition_max_bytes req) (rb_batch_length c) (drop (Suc k) ?cs) =
      take l (drop (Suc (p + k)) stored)"
    by (intro exI [of _ "min l (length (drop (Suc k) ?cs))"]) (simp add: min_def)
  moreover have "state_fetch B crc ?data (pa_snapshot a) i req =
      Some (Ok \<lparr>pr_partition_index = i, pr_error_code = NoError,
                pr_high_watermark = ps_high_watermark (pa_snapshot a),
                pr_log_start_offset = ps_log_end_offset (pa_snapshot a),
                pr_records = c # within_limit (fp_partition_max_bytes req) (rb_batch_length c) (drop (Suc k) ?cs)\<rparr>)"
    using m(1) k(4) by (simp add: state_fetch_def vs word_le_nat_alt)
  ultimately show ?thesis
    using kq(2) k(2,5-7) off unfolding nth by blast
qed

end

section \<open>A run of appends\<close>

text \<open>The batches as they are stored: each stamped with the offset it gets.\<close>

fun stamped :: "nat \<Rightarrow> record_batch list \<Rightarrow> record_batch list" where
  "stamped n [] = []"
| "stamped n (b # bs) =
     batch_update_base_offset (of_nat n) b # stamped (n + unat (rb_records_count b)) bs"

lemma batch_holds_based:
  "batch_holds (batch_update_base_offset off b) rs = batch_holds b rs"
  by (simp add: batch_holds_def)

lemma batches_layout_concat_le:
  "length (batches_layout bs) \<le> length (batches_layout (cs @ bs))"
  by simp

lemma log_holds_append:
  assumes log: "log_holds crc a stored rss" and b: "batches_hold [b] [rs]" "rs \<noteq> []" "batch_checksum crc b"
    and offsets: "length (concat rss) + length rs < 2 ^ 64"
    and bytes: "length (batches_layout stored) + length (batch_layout b) < 2 ^ 64"
  shows "log_holds crc (actor_append b a)
    (stored @ [batch_update_base_offset (of_nat (length (concat rss))) b]) (rss @ [rs])"
proof -
  obtain bss bs where stored: "stored = concat bss @ bs" and ph: "partition_holds a 0 bss bs"
    and holds: "batches_hold stored rss" and crcs: "\<forall>b \<in> set stored. batch_checksum crc b"
    using log by (auto simp: log_holds_def)
  let ?leo = "ps_log_end_offset (pa_snapshot a)"
  have leo: "?leo = of_nat (length (concat rss))"
    by (rule log_end_offset_eq [OF log])
  have bh: "batch_holds b rs"
    using b(1) by (simp add: batches_hold_def)
  have "append_fits a bs b"
    using bh b(2) offsets bytes log_end_offset_holds [OF log]
    by (simp add: append_fits_def batch_holds_def stored)
  from actor_append_holds(1) [OF ph this]
  have "\<exists>bss' bs'. stored @ [batch_update_base_offset ?leo b] = concat bss' @ bs'
      \<and> partition_holds (actor_append b a) 0 bss' bs'"
  proof
    assume "partition_holds (actor_append b a) 0 bss (bs @ [batch_update_base_offset ?leo b])"
    then show ?thesis
      using stored by (metis append.assoc)
  next
    assume "partition_holds (actor_append b a) 0 (bss @ [bs @ [batch_update_base_offset ?leo b]]) []"
    then show ?thesis
      using stored by (intro exI conjI) auto
  qed
  moreover have "batches_hold (stored @ [batch_update_base_offset ?leo b]) (rss @ [rs])"
    using holds b(1) by (simp add: batches_hold_def batch_holds_based list_all2_appendI)
  moreover have "\<forall>b \<in> set (stored @ [batch_update_base_offset ?leo b]). batch_checksum crc b"
    using crcs b(3) by (simp add: batch_checksum_def batch_update_base_offset_def)
  ultimately show ?thesis
    by (simp add: log_holds_def leo)
qed

lemma actor_append_ids:
  "pa_partition_id (actor_append b a) = pa_partition_id a" "pa_broker_id (actor_append b a) = pa_broker_id a"
  by (simp_all add: actor_append_def Let_def case_prod_unfold)

lemma actor_handle_append:
  assumes "acks \<noteq> AcksAll" and "alive reply"
  shows "actor_handle alive (Append b acks reply) a =
    Ok (actor_append b a, [Produced reply (produced a (ps_log_end_offset (pa_snapshot a)))])"
  using assms by (cases acks) (simp_all add: produced_def actor_append_ids)

text \<open>The answers to a run of appends: the running base offset, to each caller.\<close>

fun append_answers :: "partition_actor \<Rightarrow> nat \<Rightarrow> (record_batch \<times> nat) list \<Rightarrow> partition_effect list" where
  "append_answers a n [] = []"
| "append_answers a n ((b, reply) # reqs) =
     Produced reply (produced a (of_nat n)) # append_answers a (n + unat (rb_records_count b)) reqs"

lemma append_answers_cong:
  "produced a' = produced a \<Longrightarrow> append_answers a' n reqs = append_answers a n reqs"
  by (induction a n reqs rule: append_answers.induct) simp_all

lemma actor_run_appends:
  assumes "log_holds crc a stored rss" and "acks \<noteq> AcksAll" and "\<forall>(b, reply) \<in> set reqs. alive reply"
    and "batches_hold (map fst reqs) sss" and "\<forall>rs \<in> set sss. rs \<noteq> []"
    and "\<forall>(b, reply) \<in> set reqs. batch_checksum crc b"
    and "length (concat rss) + length (concat sss) < 2 ^ 64"
    and "length (batches_layout stored) + length (batches_layout (map fst reqs)) < 2 ^ 64"
  shows "\<exists>a'. actor_run alive (map (\<lambda>(b, reply). Append b acks reply) reqs) a =
      Ok (a', append_answers a (length (concat rss)) reqs)
    \<and> log_holds crc a' (stored @ stamped (length (concat rss)) (map fst reqs)) (rss @ sss)"
  using assms
proof (induction reqs arbitrary: a stored rss sss)
  case Nil
  then show ?case
    by (simp add: batches_hold_def)
next
  case (Cons p reqs)
  obtain b reply where p: "p = (b, reply)"
    by fastforce
  obtain rs sss' where sss: "sss = rs # sss'" and b: "batches_hold [b] [rs]"
    and rest: "batches_hold (map fst reqs) sss'"
    using Cons.prems(4) p by (auto simp: batches_hold_def list_all2_Cons1)
  let ?n = "length (concat rss)"
  let ?b = "batch_update_base_offset (of_nat ?n) b"
  have count: "unat (rb_records_count b) = length rs"
    using b by (simp add: batches_hold_def batch_holds_def)
  have next_log: "log_holds crc (actor_append b a) (stored @ [?b]) (rss @ [rs])"
    by (rule log_holds_append [OF Cons.prems(1) b]) (use Cons.prems(5-8) p sss in simp_all)
  have "\<exists>a'. actor_run alive (map (\<lambda>(b, reply). Append b acks reply) reqs) (actor_append b a) =
      Ok (a', append_answers (actor_append b a) (length (concat (rss @ [rs]))) reqs)
    \<and> log_holds crc a' ((stored @ [?b]) @ stamped (length (concat (rss @ [rs]))) (map fst reqs)) ((rss @ [rs]) @ sss')"
    by (rule Cons.IH [OF next_log Cons.prems(2) _ rest]) (use Cons.prems p sss in simp_all)
  then obtain a' where run: "actor_run alive (map (\<lambda>(b, reply). Append b acks reply) reqs) (actor_append b a) =
      Ok (a', append_answers a (?n + length rs) reqs)"
    and log: "log_holds crc a' (stored @ stamped ?n (map fst (p # reqs))) (rss @ sss)"
    using append_answers_cong [of "actor_append b a" a] p sss count
    by (auto simp: produced_def actor_append_ids fun_eq_iff)
  have "actor_handle alive (Append b acks reply) a =
      Ok (actor_append b a, [Produced reply (produced a (of_nat ?n))])"
    using actor_handle_append [OF Cons.prems(2), of alive reply b a] Cons.prems(3) p
      log_end_offset_eq [OF Cons.prems(1)] by simp
  with run log show ?case
    by (simp add: p count)
qed

section \<open>A new partition\<close>

lemma segment_records_count_empty:
  "ls_size seg = 0 \<Longrightarrow> segment_records_count data seg = Some (Ok 0)"
  by (simp add: segment_records_count_def batch_for.simps [of _ 0] batch_iter_next_def)

lemma actor_new_empty:
  assumes bytes: "0 < pc_segment_bytes cfg"
  shows "\<exists>a. actor_new cfg [] fs_empty = Some (Ok a) \<and> log_holds crc a [] []
    \<and> pa_partition_id a = pc_partition_id cfg \<and> pa_broker_id a = pc_broker_id cfg
    \<and> ps_replicas (pa_snapshot a) = pc_replicas cfg"
proof -
  obtain fs1 seg1 where opened: "segment_open (build_segment_config 0 (pc_segment_bytes cfg)) fs_empty = (fs1, seg1)"
    by fastforce
  obtain seg2 v where pub: "segment_publish seg1 = (seg2, v)"
    by fastforce
  have fresh: "fresh_log fs_empty (sg_base_offset (build_segment_config 0 (pc_segment_bytes cfg)))"
    by (simp add: fresh_log_def fs_empty_def)
  note open1 = segment_open_fresh [OF fs_ok_empty fresh opened, unfolded build_segment_config_def segment_config.simps]
  have seg1: "segment_holds fs1 seg1 [] []" and ok: "fs_ok fs1" and base: "sv_base_offset (ls_segment seg1) = 0"
    and names: "fs_names fs1 = [(LogFile, 0) \<mapsto> ls_log seg1, (IndexFile, 0) \<mapsto> ls_index seg1,
        (TimeIndexFile, 0) \<mapsto> ls_time_index seg1]"
    using open1 by (simp_all add: fs_empty_def)
  have seg2: "segment_holds fs1 seg2 [] []" and v: "view_holds (fs_data fs1) v [] []"
    using segment_publish_holds [OF seg1 pub] by (auto simp: base)
  note psel = segment_publish_sel [OF pub]
  have size1: "ls_size seg1 = 0" and size2: "ls_size seg2 = 0"
    using seg1 seg2 by (simp_all add: segment_holds_def)
  have init: "actor_initialize (pc_segment_bytes cfg) [] fs_empty = Some (Ok (fs1, seg2, [v], 0))"
    using opened pub size1 size2 bytes
    by (simp add: actor_initialize_def segment_records_count_empty)
  let ?a = "\<lparr>pa_partition_id = pc_partition_id cfg, pa_broker_id = pc_broker_id cfg,
    pa_segment_bytes = pc_segment_bytes cfg, pa_active = seg2,
    pa_snapshot = state_consume [v] 0 0 (partition_state_new (pc_replicas cfg)),
    pa_acks_pending = [], pa_fs = fs1\<rparr>"
  have new: "actor_new cfg [] fs_empty = Some (Ok ?a)"
    by (simp add: actor_new_def init partition_state_new_def Let_def)
  have nm: "names_hold fs1 [v] seg2"
    using ok names psel base segment_holds_sel [OF seg1] by (auto simp: names_hold_def)
  have "partition_holds ?a 0 [] []"
    unfolding partition_holds_def
    by (rule exI [of _ "[]"], rule exI [of _ v], rule exI [of _ "[]"])
      (use nm seg2 v psel base in \<open>simp add: state_consume_def\<close>)
  then have "log_holds crc ?a [] []"
    by (auto simp: log_holds_def batches_hold_def intro: exI [of _ "[]"])
  with new show ?thesis
    by (intro exI [of _ ?a]) (simp add: state_consume_def partition_state_new_def)
qed

lemma appends_to_new:
  assumes "0 < pc_segment_bytes cfg" and "acks \<noteq> AcksAll"
    and "batches_hold (map fst reqs) rss" and "\<forall>rs \<in> set rss. rs \<noteq> []"
    and "\<forall>(b, reply) \<in> set reqs. batch_checksum crc b \<and> alive reply"
    and "length (concat rss) < 2 ^ 64"
    and "sum_list (map (\<lambda>b. 61 + length (rb_records b)) (map fst reqs)) < 2 ^ 64"
  obtains a a' where "actor_new cfg [] fs_empty = Some (Ok a)"
    and "actor_run alive (map (\<lambda>(b, reply). Append b acks reply) reqs) a = Ok (a', append_answers a 0 reqs)"
    and "log_holds crc a' (stamped 0 (map fst reqs)) rss"
proof -
  have layout: "length (batches_layout bs) = sum_list (map (\<lambda>b. 61 + length (rb_records b)) bs)" for bs
    by (induction bs) (simp_all add: length_batch_layout)
  obtain a where a: "actor_new cfg [] fs_empty = Some (Ok a)" "log_holds crc a [] []"
    using actor_new_empty [OF assms(1)] by blast
  have "\<exists>a'. actor_run alive (map (\<lambda>(b, reply). Append b acks reply) reqs) a =
      Ok (a', append_answers a (length (concat ([] :: msg_record list list))) reqs)
    \<and> log_holds crc a' ([] @ stamped (length (concat ([] :: msg_record list list))) (map fst reqs)) ([] @ rss)"
    by (rule actor_run_appends [OF a(2) assms(2) _ assms(3,4)])
      (use assms(5-7) in \<open>auto simp: layout [of "map fst reqs"]\<close>)
  then show thesis
    using that a(1) by auto
qed

section \<open>Produce and fetch\<close>

text \<open>C6: batches appended to a new partition are answered with the running base offset, and
  afterwards a fetch at any offset below the end returns, first, a batch that starts at exactly
  that offset, holds the records of the appended batch from there on and has a valid checksum,
  and then stored batches that follow it in order; where the segments were cut and where the
  index has entries makes no difference.\<close>

theorem produce_then_fetch:
  assumes "bytes_crate B" and "0 < pc_segment_bytes cfg" and "acks \<noteq> AcksAll"
    and "batches_hold (map fst reqs) rss" and "\<forall>rs \<in> set rss. rs \<noteq> []"
    and "\<forall>(b, reply) \<in> set reqs. batch_checksum crc b \<and> alive reply"
    and "length (concat rss) < 2 ^ 64"
    and "sum_list (map (\<lambda>b. 61 + length (rb_records b)) (map fst reqs)) < 2 ^ 64"
  shows "\<exists>a a'. actor_new cfg [] fs_empty = Some (Ok a)
    \<and> actor_run alive (map (\<lambda>(b, reply). Append b acks reply) reqs) a = Ok (a', append_answers a 0 reqs)
    \<and> ps_log_end_offset (pa_snapshot a') = of_nat (length (concat rss))
    \<and> (\<forall>req i. unat (fp_fetch_offset req) < length (concat rss) \<longrightarrow>
        (\<exists>k j c rest m. k < length rss \<and> j < length (rss ! k)
          \<and> unat (fp_fetch_offset req) = length (concat (take k rss)) + j
          \<and> map_option (omap pr_records)
              (state_fetch B crc (fs_data (pa_fs a')) (pa_snapshot a') i req) = Some (Ok (c # rest))
          \<and> rb_base_offset c = fp_fetch_offset req
          \<and> batch_into_records B c = Ok (drop j (rss ! k)) \<and> batch_checksum crc c
          \<and> rest = take m (drop (Suc k) (stamped 0 (map fst reqs)))))"
proof -
  obtain a a' where a: "actor_new cfg [] fs_empty = Some (Ok a)"
    and run: "actor_run alive (map (\<lambda>(b, reply). Append b acks reply) reqs) a = Ok (a', append_answers a 0 reqs)"
    and log: "log_holds crc a' (stamped 0 (map fst reqs)) rss"
    by (rule appends_to_new [OF assms(2-8)])
  have "\<exists>k j c rest m. k < length rss \<and> j < length (rss ! k)
          \<and> unat (fp_fetch_offset req) = length (concat (take k rss)) + j
          \<and> map_option (omap pr_records)
              (state_fetch B crc (fs_data (pa_fs a')) (pa_snapshot a') i req) = Some (Ok (c # rest))
          \<and> rb_base_offset c = fp_fetch_offset req
          \<and> batch_into_records B c = Ok (drop j (rss ! k)) \<and> batch_checksum crc c
          \<and> rest = take m (drop (Suc k) (stamped 0 (map fst reqs)))"
    if "unat (fp_fetch_offset req) < length (concat rss)" for req i
  proof -
    from bytes_crate.state_fetch_holds [OF assms(1) log that, of i]
    obtain k j c rest m where k: "k < length rss" "j < length (rss ! k)"
      "unat (fp_fetch_offset req) = length (concat (take k rss)) + j"
      "state_fetch B crc (fs_data (pa_fs a')) (pa_snapshot a') i req =
        Some (Ok \<lparr>pr_partition_index = i, pr_error_code = NoError,
                  pr_high_watermark = ps_high_watermark (pa_snapshot a'),
                  pr_log_start_offset = ps_log_end_offset (pa_snapshot a'), pr_records = c # rest\<rparr>)"
      "rb_base_offset c = fp_fetch_offset req" "batch_holds c (drop j (rss ! k))" "batch_checksum crc c"
      "rest = take m (drop (Suc k) (stamped 0 (map fst reqs)))"
      by blast
    show ?thesis
      by (rule exI [of _ k], rule exI [of _ j], rule exI [of _ c], rule exI [of _ rest], rule exI [of _ m])
        (use k bytes_crate.batch_into_records_holds [OF assms(1) k(6)] in simp)
  qed
  with a run log_end_offset_eq [OF log] show ?thesis
    by blast
qed

definition sample_config :: partition_config where
  "sample_config =
     \<lparr>pc_segment_bytes = 100, pc_replicas = [], pc_partition_id = 0, pc_broker_id = 1\<rparr>"

definition sample_produce :: record_batch where
  "sample_produce = batch_from_records list_bytes (\<lambda>bs. 7) sample_records"

lemma sample_records_layout_small: "length (records_layout sample_records) < 1000"
  by (simp add: records_layout_def sample_records_def record_new_def
      length_record_layout length_header_layout Let_def)

lemma sample_produce_holds:
  "batch_holds sample_produce (rebased sample_records)" "batch_checksum (\<lambda>bs. 7) sample_produce"
  using list_bytes.batch_from_records_holds [OF sample_records_sized, of "\<lambda>bs. 7"]
    sample_records_layout_small
  by (simp_all add: sample_produce_def)

lemma sample_produce_length: "length (rb_records sample_produce) < 1000"
  using sample_produce_holds(1) sample_records_layout_small
  by (simp add: batch_holds_def length_records_layout_rebased)

lemma sample_produce_stored: "batches_hold [sample_produce] [rebased sample_records]"
  using sample_produce_holds(1) by (simp add: batches_hold_def rebased_offset)

lemma length_sample_records: "length sample_records = 3"
  by (simp add: sample_records_def)

lemma produce_then_fetch_witness:
  "\<exists>a a' c rest. actor_new sample_config [] fs_empty = Some (Ok a)
    \<and> actor_run (\<lambda>reply. True) [Append sample_produce AcksLeader 1, Append sample_produce AcksLeader 2] a =
        Ok (a', [Produced 1 (produced a 0), Produced 2 (produced a 3)])
    \<and> map_option (omap pr_records)
        (state_fetch list_bytes (\<lambda>bs. 7) (fs_data (pa_fs a')) (pa_snapshot a') 0 (fetch_partition_from 4)) =
        Some (Ok (c # rest))
    \<and> rb_base_offset c = 4 \<and> batch_into_records list_bytes c = Ok (drop 1 (rebased sample_records))"
proof -
  let ?reqs = "[(sample_produce, 1 :: nat), (sample_produce, 2)]" and ?rs = "rebased sample_records"
  have count: "unat (rb_records_count sample_produce) = 3"
    using sample_produce_holds(1) by (simp add: batch_holds_def length_sample_records)
  have holds: "batches_hold (map fst ?reqs) [?rs, ?rs]"
    using sample_produce_stored by (simp add: batches_hold_def)
  have ne: "\<forall>rs \<in> set [?rs, ?rs]. rs \<noteq> []"
    by (auto simp: rebased_def sample_records_def)
  have crcs: "\<forall>(b, reply) \<in> set ?reqs. batch_checksum (\<lambda>bs. 7) b \<and> (\<lambda>reply. True) reply"
    using sample_produce_holds(2) by simp
  have bytes: "sum_list (map (\<lambda>b. 61 + length (rb_records b)) (map fst ?reqs)) < 2 ^ 64"
    using sample_produce_length by simp
  have cfg: "0 < pc_segment_bytes sample_config" and len: "length (concat [?rs, ?rs]) < 2 ^ 64"
    by (simp_all add: sample_config_def length_sample_records)
  have acks: "AcksLeader \<noteq> AcksAll"
    by simp
  from produce_then_fetch [OF list_bytes.bytes_crate_axioms cfg acks holds ne crcs len bytes]
  obtain a a' where run: "actor_new sample_config [] fs_empty = Some (Ok a)"
    "actor_run (\<lambda>reply. True) (map (\<lambda>(b, reply). Append b AcksLeader reply) ?reqs) a =
      Ok (a', append_answers a 0 ?reqs)"
    and fetch: "\<forall>req i. unat (fp_fetch_offset req) < length (concat [?rs, ?rs]) \<longrightarrow>
        (\<exists>k j c rest m. k < length [?rs, ?rs] \<and> j < length ([?rs, ?rs] ! k)
          \<and> unat (fp_fetch_offset req) = length (concat (take k [?rs, ?rs])) + j
          \<and> map_option (omap pr_records)
              (state_fetch list_bytes (\<lambda>bs. 7) (fs_data (pa_fs a')) (pa_snapshot a') i req) = Some (Ok (c # rest))
          \<and> rb_base_offset c = fp_fetch_offset req
          \<and> batch_into_records list_bytes c = Ok (drop j ([?rs, ?rs] ! k)) \<and> batch_checksum (\<lambda>bs. 7) c
          \<and> rest = take m (drop (Suc k) (stamped 0 (map fst ?reqs))))"
    by (elim exE conjE) (rule that; assumption)
  have "unat (fp_fetch_offset (fetch_partition_from 4)) < length (concat [?rs, ?rs])"
    by (simp add: fetch_partition_from_def length_sample_records)
  from fetch [rule_format, OF this, of 0] obtain k j c rest where k: "k < length [?rs, ?rs]"
    "j < length ([?rs, ?rs] ! k)"
    "unat (fp_fetch_offset (fetch_partition_from 4)) = length (concat (take k [?rs, ?rs])) + j"
    "map_option (omap pr_records)
        (state_fetch list_bytes (\<lambda>bs. 7) (fs_data (pa_fs a')) (pa_snapshot a') 0 (fetch_partition_from 4)) =
        Some (Ok (c # rest))"
    "rb_base_offset c = fp_fetch_offset (fetch_partition_from 4)"
    "batch_into_records list_bytes c = Ok (drop j ([?rs, ?rs] ! k))"
    by blast
  have "k = 1 \<and> j = 1"
    using k(1-3) by (cases k) (auto simp: fetch_partition_from_def length_sample_records)
  moreover have "rb_base_offset c = 4"
    using k(5) by (simp add: fetch_partition_from_def)
  moreover have "append_answers a 0 ?reqs = [Produced 1 (produced a 0), Produced 2 (produced a 3)]"
    using count by simp
  ultimately have "actor_run (\<lambda>reply. True) [Append sample_produce AcksLeader 1, Append sample_produce AcksLeader 2] a =
        Ok (a', [Produced 1 (produced a 0), Produced 2 (produced a 3)])"
    and "batch_into_records list_bytes c = Ok (drop 1 ?rs)" and "rb_base_offset c = 4"
    using run(2) k(6) by simp_all
  with run(1) k(4) show ?thesis
    by blast
qed

end
