(* ===== verification/Storage_Acks.thy ===== *)
theory Storage_Acks
  imports Storage_Log
begin

text \<open>
  Replication in a partition: when the acknowledgements of \<open>acks = all\<close> are released, that
  they are answered in order and once, and what the high watermark means; and where the code
  departs from that, in a truncation and in the fetch of a replica.
\<close>

section \<open>Releasing acknowledgements\<close>

definition ack_effect :: "partition_actor \<Rightarrow> pending_response \<Rightarrow> partition_effect" where
  "ack_effect a p = Produced (pn_done p) (produced a (pn_base_offset p))"

lemma release_acks_spec:
  "release_acks alive a hw ps =
     (let covered = takeWhile (\<lambda>p. pn_hw p \<le> hw) ps
      in if \<forall>p \<in> set covered. alive (pn_done p)
         then Ok (drop (length covered) ps, map (ack_effect a) covered) else Panic)"
  by (induction ps) (auto simp: Let_def ack_effect_def not_less)

lemma bump_replica_ne [simp]: "bump_replica i leo rs = [] \<longleftrightarrow> rs = []"
  by (induction rs) auto

lemma bump_replica_leo:
  "r \<in> set (bump_replica i leo rs) \<Longrightarrow> \<exists>r' \<in> set rs. rm_log_end_offset r = rm_log_end_offset r'
     \<or> rm_log_end_offset r = max (rm_log_end_offset r') leo"
  by (induction rs) (auto split: if_splits)

lemma bump_replica_grows:
  "list_all2 (\<lambda>r r'. rm_log_end_offset r \<le> rm_log_end_offset r') rs (bump_replica i leo rs)"
  by (induction rs) (auto intro: list_all2_refl)

lemma ack_replica_replicas: "ps_replicas (state_ack_replica i leo s) = bump_replica i leo (ps_replicas s)"
  by (simp add: state_ack_replica_def Let_def)

lemma ack_replica_watermark:
  "ps_replicas s \<noteq> [] \<Longrightarrow> ps_high_watermark (state_ack_replica i leo s) =
     Min (rm_log_end_offset ` set (bump_replica i leo (ps_replicas s)))"
  by (simp add: state_ack_replica_def Let_def)

lemma ack_replica_end [simp]: "ps_log_end_offset (state_ack_replica i leo s) = ps_log_end_offset s"
  by (simp add: state_ack_replica_def Let_def)

lemma le_watermark_iff:
  "ps_replicas s \<noteq> [] \<Longrightarrow> x \<le> ps_high_watermark (state_ack_replica i leo s) \<longleftrightarrow>
     (\<forall>r \<in> set (ps_replicas (state_ack_replica i leo s)). x \<le> rm_log_end_offset r)"
  by (simp add: ack_replica_watermark ack_replica_replicas)

text \<open>C24: when a replica reports its log end, the acknowledgements released are those at the front
  of the queue whose batch every replica has reported to hold, each answered with the base
  offset of its batch; the others stay, in order. The actor panics if the caller of one of
  them has gone.\<close>

theorem acks_wait_for_replicas:
  assumes "ps_replicas (pa_snapshot a) \<noteq> []"
  shows "actor_handle alive (UpdateReplicaLeo i leo) a =
    (let state = state_ack_replica i leo (pa_snapshot a);
         covered = takeWhile (\<lambda>p. \<forall>r \<in> set (ps_replicas state). pn_hw p \<le> rm_log_end_offset r)
                     (pa_acks_pending a)
     in if \<forall>p \<in> set covered. alive (pn_done p)
        then Ok (a\<lparr>pa_acks_pending := drop (length covered) (pa_acks_pending a), pa_snapshot := state\<rparr>,
                 map (\<lambda>p. Produced (pn_done p) (produced a (pn_base_offset p))) covered)
        else Panic)"
  using assms by (simp add: release_acks_spec le_watermark_iff Let_def ack_effect_def)

text \<open>A partition with six records, two replicas and two callers that wait.\<close>

definition replicated_actor :: partition_actor where
  "replicated_actor =
     \<lparr>pa_partition_id = 0, pa_broker_id = 1, pa_segment_bytes = 100,
      pa_active = snd (segment_open (build_segment_config 0 100) fs_empty),
      pa_snapshot =
        \<lparr>ps_segments = [segment_view_new 0 0 1], ps_log_end_offset = 6, ps_high_watermark = 2,
         ps_replicas = [(replica_empty [98] 7)\<lparr>rm_log_end_offset := 2\<rparr>,
                        (replica_empty [99] 8)\<lparr>rm_log_end_offset := 5\<rparr>]\<rparr>,
      pa_acks_pending = [\<lparr>pn_hw = 3, pn_base_offset = 0, pn_done = 1\<rparr>,
                         \<lparr>pn_hw = 6, pn_base_offset = 3, pn_done = 2\<rparr>],
      pa_fs = fs_empty\<rparr>"

lemma acks_wait_for_replicas_witness:
  "omap snd (actor_handle (\<lambda>reply. True) (UpdateReplicaLeo 7 4) replicated_actor) =
     Ok [Produced 1 (produced replicated_actor 0)]"
proof -
  have "ps_replicas (pa_snapshot replicated_actor) \<noteq> []"
    by (simp add: replicated_actor_def)
  from acks_wait_for_replicas [OF this, of "\<lambda>reply. True" 7 4] show ?thesis
    by (simp add: ack_replica_replicas Let_def)
      (simp add: replicated_actor_def replica_empty_def ack_replica_replicas)
qed

section \<open>Every acknowledgement once, in order\<close>

fun all_replies :: "partition_command list \<Rightarrow> nat list" where
  "all_replies [] = []"
| "all_replies (Append b acks reply # cs) = (if acks = AcksAll then [reply] else []) @ all_replies cs"
| "all_replies (Shutdown # cs) = []"
| "all_replies (c # cs) = all_replies cs"

fun direct_replies :: "partition_command list \<Rightarrow> nat list" where
  "direct_replies [] = []"
| "direct_replies (Append b acks reply # cs) = (if acks = AcksAll then [] else [reply]) @ direct_replies cs"
| "direct_replies (Shutdown # cs) = []"
| "direct_replies (c # cs) = direct_replies cs"

fun effect_replies :: "partition_effect list \<Rightarrow> nat list" where
  "effect_replies [] = []"
| "effect_replies (Produced reply r # fx) = reply # effect_replies fx"
| "effect_replies (Truncated reply # fx) = effect_replies fx"

lemma effect_replies_append [simp]: "effect_replies (fx @ fy) = effect_replies fx @ effect_replies fy"
  by (induction fx rule: effect_replies.induct) auto

lemma effect_replies_acks [simp]: "effect_replies (map (ack_effect a) ps) = map pn_done ps"
  by (induction ps) (auto simp: ack_effect_def)

lemma actor_append_pending [simp]: "pa_acks_pending (actor_append b a) = pa_acks_pending a"
  by (simp add: actor_append_def Let_def case_prod_unfold)

lemma handle_truncate_pending [simp]: "pa_acks_pending (handle_truncate off a) = pa_acks_pending a"
  by (simp add: handle_truncate_def Let_def case_prod_unfold)

text \<open>One command: of the waiting callers, those answered come from the front.\<close>

lemma actor_handle_acks:
  assumes "actor_handle alive c a = Ok (a', fx)" and "c \<noteq> Shutdown"
    and "set (map pn_done (pa_acks_pending a)) \<subseteq> S" and "set (all_replies [c]) \<subseteq> S"
    and "set (direct_replies [c]) \<inter> S = {}"
  shows "filter (\<lambda>r. r \<in> S) (effect_replies fx) @ map pn_done (pa_acks_pending a') =
      map pn_done (pa_acks_pending a) @ all_replies [c]"
proof (cases c)
  case (Append b acks reply)
  then show ?thesis
    using assms by (cases acks) (auto simp: Let_def split: if_splits)
next
  case (UpdateReplicaLeo i leo)
  let ?hw = "ps_high_watermark (state_ack_replica i leo (pa_snapshot a))"
  let ?covered = "takeWhile (\<lambda>p. pn_hw p \<le> ?hw) (pa_acks_pending a)"
  have fx: "fx = map (ack_effect a) ?covered"
    and a': "pa_acks_pending a' = drop (length ?covered) (pa_acks_pending a)"
    using assms(1) UpdateReplicaLeo by (auto simp: release_acks_spec Let_def split: if_splits)
  have "filter (\<lambda>r. r \<in> S) (map pn_done ?covered) = map pn_done ?covered"
    using assms(3) by (auto simp: filter_id_conv dest: set_takeWhileD)
  moreover have "?covered @ drop (length ?covered) (pa_acks_pending a) = pa_acks_pending a"
    by (metis dropWhile_eq_drop takeWhile_dropWhile_id)
  ultimately show ?thesis
    by (simp add: fx a' UpdateReplicaLeo flip: map_append)
qed (use assms in auto)

lemma replies_Cons:
  "c \<noteq> Shutdown \<Longrightarrow> all_replies (c # cs) = all_replies [c] @ all_replies cs"
  "c \<noteq> Shutdown \<Longrightarrow> direct_replies (c # cs) = direct_replies [c] @ direct_replies cs"
  by (cases c; simp)+

lemma actor_run_acks:
  "actor_run alive cs a = Ok (a', fx) \<Longrightarrow> set (map pn_done (pa_acks_pending a)) \<subseteq> S \<Longrightarrow>
     set (all_replies cs) \<subseteq> S \<Longrightarrow> set (direct_replies cs) \<inter> S = {} \<Longrightarrow>
     filter (\<lambda>r. r \<in> S) (effect_replies fx) @ map pn_done (pa_acks_pending a') =
       map pn_done (pa_acks_pending a) @ all_replies cs"
proof (induction cs arbitrary: a fx)
  case (Cons c cs)
  show ?case
  proof (cases "c = Shutdown")
    case False
    then obtain a1 fx1 fx2 where step: "actor_handle alive c a = Ok (a1, fx1)"
      and run: "actor_run alive cs a1 = Ok (a', fx2)" and fx: "fx = fx1 @ fx2"
      using Cons.prems(1)
      by (auto simp: obind_eq_Ok omap_eq_Ok)
    note parts = replies_Cons [OF False, of cs]
    have one: "filter (\<lambda>r. r \<in> S) (effect_replies fx1) @ map pn_done (pa_acks_pending a1) =
        map pn_done (pa_acks_pending a) @ all_replies [c]"
      by (rule actor_handle_acks [OF step False]) (use Cons.prems parts in auto)
    have "set (map pn_done (pa_acks_pending a1)) \<subseteq> S"
      using arg_cong [OF one, of set] Cons.prems(2,3) parts by auto
    then have "filter (\<lambda>r. r \<in> S) (effect_replies fx2) @ map pn_done (pa_acks_pending a') =
        map pn_done (pa_acks_pending a1) @ all_replies cs"
      by (rule Cons.IH [OF run]) (use Cons.prems(3,4) parts in auto)
    then have "filter (\<lambda>r. r \<in> S) (effect_replies fx) @ map pn_done (pa_acks_pending a') =
        (filter (\<lambda>r. r \<in> S) (effect_replies fx1) @ map pn_done (pa_acks_pending a1)) @ all_replies cs"
      by (simp add: fx)
    then show ?thesis
      unfolding one parts by simp
  qed (use Cons.prems in simp)
qed simp

text \<open>C25: over any run of the actor every append with \<open>acks = all\<close> is answered at most once and in the
  order of the appends: the answers, followed by the callers that still wait, are the callers
  that waited at the start followed by those of the run.\<close>

theorem acks_answered_once_in_order:
  assumes "actor_run alive cs a = Ok (a', fx)"
    and "distinct (map pn_done (pa_acks_pending a) @ all_replies cs)"
    and "set (direct_replies cs) \<inter> set (map pn_done (pa_acks_pending a) @ all_replies cs) = {}"
  shows "filter (\<lambda>r. r \<notin> set (direct_replies cs)) (effect_replies fx)
      @ map pn_done (pa_acks_pending a') = map pn_done (pa_acks_pending a) @ all_replies cs
    \<and> distinct (filter (\<lambda>r. r \<notin> set (direct_replies cs)) (effect_replies fx))"
proof -
  have "filter (\<lambda>r. r \<notin> set (direct_replies cs)) (effect_replies fx)
      @ map pn_done (pa_acks_pending a') = map pn_done (pa_acks_pending a) @ all_replies cs"
    using actor_run_acks [OF assms(1), of "- set (direct_replies cs)"] assms(3) by auto
  then show ?thesis
    using assms(2) by (metis distinct_append)
qed

lemma acks_answered_once_in_order_witness:
  "\<exists>a' fx. actor_run (\<lambda>reply. True)
      [Append sample_produce AcksAll 9, Append sample_produce AcksLeader 8, UpdateReplicaLeo 7 4]
      replicated_actor = Ok (a', fx)
    \<and> filter (\<lambda>r. r \<notin> {8}) (effect_replies fx) @ map pn_done (pa_acks_pending a') = [1, 2, 9]"
proof -
  let ?cs = "[Append sample_produce AcksAll 9, Append sample_produce AcksLeader 8, UpdateReplicaLeo 7 4]"
  obtain a' fx where run: "actor_run (\<lambda>reply. True) ?cs replicated_actor = Ok (a', fx)"
    by (simp add: release_acks_spec Let_def)
  have waiting: "map pn_done (pa_acks_pending replicated_actor) @ all_replies ?cs = [1, 2, 9]"
    and direct: "direct_replies ?cs = [8]"
    by (simp_all add: replicated_actor_def)
  have "filter (\<lambda>r. r \<notin> {8}) (effect_replies fx) @ map pn_done (pa_acks_pending a') = [1, 2, 9]"
    using acks_answered_once_in_order [OF run, unfolded waiting direct] by simp
  with run show ?thesis
    by blast
qed

section \<open>The high watermark\<close>

text \<open>The high watermark of a partition without truncations: the least that a replica has reported,
  or the end of the log when there are none.\<close>

definition watermark_ok :: "partition_state \<Rightarrow> bool" where
  "watermark_ok s \<longleftrightarrow>
     (\<forall>r \<in> set (ps_replicas s). rm_log_end_offset r \<le> ps_log_end_offset s)
     \<and> ps_high_watermark s =
         (if ps_replicas s = [] then ps_log_end_offset s
          else Min (rm_log_end_offset ` set (ps_replicas s)))"

text \<open>What a command may carry: no truncation, an append that does not exhaust the offsets, a report
  within the log.\<close>

fun command_ok :: "partition_state \<Rightarrow> partition_command \<Rightarrow> bool" where
  "command_ok s (Append b acks reply) \<longleftrightarrow>
     unat (ps_log_end_offset s) + unat (rb_records_count b) < 2 ^ 64"
| "command_ok s (Truncate offset reply) \<longleftrightarrow> False"
| "command_ok s (UpdateReplicaLeo i leo) \<longleftrightarrow> leo \<le> ps_log_end_offset s"
| "command_ok s Shutdown \<longleftrightarrow> True"

lemma actor_append_snapshot:
  "ps_log_end_offset (pa_snapshot (actor_append b a)) =
     ps_log_end_offset (pa_snapshot a) + ucast (rb_records_count b)"
  "ps_replicas (pa_snapshot (actor_append b a)) = ps_replicas (pa_snapshot a)"
  "ps_high_watermark (pa_snapshot (actor_append b a)) =
     (if ps_replicas (pa_snapshot a) = []
      then ps_high_watermark (pa_snapshot a) + ucast (rb_records_count b)
      else ps_high_watermark (pa_snapshot a))"
  by (simp_all add: actor_append_def Let_def case_prod_unfold)

lemma append_end_le:
  assumes "unat x + unat (c :: u32) < 2 ^ 64"
  shows "x \<le> (x :: u64) + ucast c"
  using assms by (simp add: word_le_nat_alt unat_word_ariths unat_ucast_up)

lemma bump_replica_Min:
  assumes "rs \<noteq> []"
  shows "Min (rm_log_end_offset ` set rs) \<le> Min (rm_log_end_offset ` set (bump_replica i leo rs))"
proof -
  have "\<exists>r \<in> set rs. rm_log_end_offset r \<le> rm_log_end_offset r'"
    if "r' \<in> set (bump_replica i leo rs)" for r'
    using bump_replica_grows [of rs i leo] that by (metis in_set_conv_nth list_all2_conv_all_nth)
  with assms show ?thesis
    by (auto simp: Min_le_iff)
qed

text \<open>C40: as long as nothing is truncated and replicas report offsets within the log, the high
  watermark is the least offset reported by a replica, or the end of the log without replicas; it
  stays within the log and never goes back, whatever the commands.\<close>

theorem watermark_within_log:
  assumes "watermark_ok (pa_snapshot a)" and "command_ok (pa_snapshot a) c"
    and "actor_handle alive c a = Ok (a', fx)"
  shows "watermark_ok (pa_snapshot a')
    \<and> ps_high_watermark (pa_snapshot a) \<le> ps_high_watermark (pa_snapshot a')
    \<and> ps_high_watermark (pa_snapshot a') \<le> ps_log_end_offset (pa_snapshot a')"
proof -
  have within: "ps_high_watermark s \<le> ps_log_end_offset s" if "watermark_ok s" for s
    using that by (auto simp: watermark_ok_def Min_le_iff) (metis list.set_intros(1) neq_Nil_conv)
  show ?thesis
  proof (cases c)
    case (Append b acks reply)
    let ?s = "pa_snapshot a" and ?s' = "pa_snapshot (actor_append b a)"
    have s': "pa_snapshot a' = ?s'"
      using assms(3) Append by (auto simp: Let_def split: acks.splits if_splits)
    have le: "ps_log_end_offset ?s \<le> ps_log_end_offset ?s + ucast (rb_records_count b)"
      using append_end_le assms(2) Append by simp
    then have "watermark_ok ?s'"
      using assms(1) by (auto simp: watermark_ok_def actor_append_snapshot intro: order_trans)
    with within [of ?s'] s' le assms(1) show ?thesis
      by (auto simp: actor_append_snapshot watermark_ok_def)
  next
    case (UpdateReplicaLeo i leo)
    let ?s = "pa_snapshot a" and ?s' = "state_ack_replica i leo (pa_snapshot a)"
    have s': "pa_snapshot a' = ?s'"
      using assms(3) UpdateReplicaLeo by (auto simp: omap_eq_Ok Let_def)
    have "\<forall>r \<in> set (ps_replicas ?s'). rm_log_end_offset r \<le> ps_log_end_offset ?s"
      using assms(1,2) UpdateReplicaLeo bump_replica_leo [of _ i leo "ps_replicas ?s"]
      by (auto simp: ack_replica_replicas watermark_ok_def)
        (metis max.boundedI)
    then have "watermark_ok ?s'"
      using assms(1) ack_replica_watermark [of ?s i leo]
      by (auto simp: watermark_ok_def ack_replica_replicas state_ack_replica_def Let_def)
    moreover have "ps_high_watermark ?s \<le> ps_high_watermark ?s'"
      using assms(1) bump_replica_Min [of "ps_replicas ?s" i leo] ack_replica_watermark [of ?s i leo]
      by (cases "ps_replicas ?s = []") (auto simp: watermark_ok_def state_ack_replica_def)
    ultimately show ?thesis
      using within [of ?s'] s' by simp
  qed (use assms within in auto)
qed

lemma watermark_within_log_witness:
  "\<exists>a' fx. actor_handle (\<lambda>reply. True) (UpdateReplicaLeo 7 4) replicated_actor = Ok (a', fx)
    \<and> watermark_ok (pa_snapshot a') \<and> 2 \<le> ps_high_watermark (pa_snapshot a')"
proof -
  let ?u = "UpdateReplicaLeo 7 4"
  obtain a' fx where step: "actor_handle (\<lambda>reply. True) ?u replicated_actor = Ok (a', fx)"
    by (simp add: release_acks_spec Let_def)
  have "watermark_ok (pa_snapshot replicated_actor)" and "command_ok (pa_snapshot replicated_actor) ?u"
    by (simp_all add: watermark_ok_def replicated_actor_def replica_empty_def)
  from watermark_within_log [OF this step] step show ?thesis
    by (auto simp: replicated_actor_def)
qed



text \<open>C35: the command that a replica's fetch sends reports the end of the leader's own log, whatever
  offset the replica asked for: with one replica, its first fetch, even at offset zero,
  releases every acknowledgement that waits for it.\<close>

theorem replica_fetch_acks_unread_records:
  assumes "handle_fetch B crc ident a req replica_id = Some (Ok (res, cmds))" and "0 \<le> sint replica_id"
    and "ps_replicas (pa_snapshot a) = [r]" and "rm_replica_id r = replica_id"
    and "\<forall>p \<in> set (pa_acks_pending a). pn_hw p \<le> ps_log_end_offset (pa_snapshot a) \<and> alive (pn_done p)"
  shows "cmds = [UpdateReplicaLeo replica_id (ps_log_end_offset (pa_snapshot a))]
    \<and> (\<exists>a' fx. actor_run alive cmds a = Ok (a', fx) \<and> pa_acks_pending a' = []
        \<and> effect_replies fx = map pn_done (pa_acks_pending a))"
proof -
  obtain res' where "state_fetch B crc (fs_data (pa_fs a)) (pa_snapshot a) ident req = Some (Ok res')"
    and res: "res = res'" and cmds: "cmds = [UpdateReplicaLeo replica_id (pr_log_start_offset res)]"
    using assms(1,2) by (auto simp: handle_fetch_def omap_eq_Ok)
  then have leo: "pr_log_start_offset res = ps_log_end_offset (pa_snapshot a)"
    by (auto simp: state_fetch_def Let_def omap_eq_Ok split: if_splits)
  let ?hw = "ps_high_watermark (state_ack_replica replica_id (ps_log_end_offset (pa_snapshot a)) (pa_snapshot a))"
  have "ps_log_end_offset (pa_snapshot a) \<le> ?hw"
    using assms(3,4) by (simp add: ack_replica_watermark)
  then have all: "takeWhile (\<lambda>p. pn_hw p \<le> ?hw) (pa_acks_pending a) = pa_acks_pending a"
    using assms(5) by (simp add: takeWhile_eq_all_conv) (meson order_trans)
  show ?thesis
    using assms(5) cmds leo by (simp add: release_acks_spec Let_def all)
qed

definition replica_config :: partition_config where
  "replica_config = sample_config\<lparr>pc_replicas := [replica_empty [98] 7]\<rparr>"

lemma actor_new_pending: "actor_new cfg dir fs = Some (Ok a) \<Longrightarrow> pa_acks_pending a = []"
  by (auto simp: actor_new_def omap_eq_Ok Let_def)

lemma replica_fetch_acks_unread_records_witness:
  "\<exists>a a1 res cmds a2 fx. actor_new replica_config [] fs_empty = Some (Ok a)
    \<and> actor_handle (\<lambda>reply. True) (Append sample_produce AcksAll 9) a = Ok (a1, [])
    \<and> handle_fetch list_bytes (\<lambda>bs. 7) 0 a1 (fetch_partition_from 0) 7 = Some (Ok (res, cmds))
    \<and> actor_run (\<lambda>reply. True) cmds a1 = Ok (a2, fx) \<and> effect_replies fx = [9]"
proof -
  let ?req = "fetch_partition_from 0"
  have "0 < pc_segment_bytes replica_config"
    by (simp add: replica_config_def sample_config_def)
  then obtain a where new: "actor_new replica_config [] fs_empty = Some (Ok a)"
    and log: "log_holds (\<lambda>bs. 7) a [] []" and reps: "ps_replicas (pa_snapshot a) = [replica_empty [98] 7]"
    using actor_new_empty [of replica_config "\<lambda>bs. 7"] by (auto simp: replica_config_def)
  let ?a = "actor_append sample_produce a"
  have "rebased sample_records \<noteq> []" and "length (rebased sample_records) < 2 ^ 64"
    by (auto simp: rebased_def sample_records_def)
  then have stored: "log_holds (\<lambda>bs. 7) ?a
      ([] @ [batch_update_base_offset (of_nat (length (concat ([] :: msg_record list list)))) sample_produce]) ([] @ [rebased sample_records])"
    using sample_produce_length
    by (intro log_holds_append [OF log sample_produce_stored _ sample_produce_holds(2)])
      (simp_all add: length_batch_layout)
  define a1 where "a1 = ?a\<lparr>pa_acks_pending := [\<lparr>pn_hw = ps_log_end_offset (pa_snapshot ?a),
      pn_base_offset = ps_log_end_offset (pa_snapshot a), pn_done = 9\<rparr>]\<rparr>"
  have step: "actor_handle (\<lambda>reply. True) (Append sample_produce AcksAll 9) a = Ok (a1, [])"
    using actor_new_pending [OF new] by (simp add: a1_def Let_def)
  have "\<exists>res. state_fetch list_bytes (\<lambda>bs. 7) (fs_data (pa_fs ?a)) (pa_snapshot ?a) 0 ?req = Some (Ok res)"
    using list_bytes.state_fetch_holds [OF stored, of ?req 0]
    by (auto simp: fetch_partition_from_def length_sample_records)
  then obtain res cmds where fetch: "handle_fetch list_bytes (\<lambda>bs. 7) 0 a1 ?req 7 = Some (Ok (res, cmds))"
    by (auto simp: handle_fetch_def a1_def)
  have "cmds = [UpdateReplicaLeo 7 (ps_log_end_offset (pa_snapshot a1))]
    \<and> (\<exists>a' fx. actor_run (\<lambda>reply. True) cmds a1 = Ok (a', fx) \<and> pa_acks_pending a' = []
        \<and> effect_replies fx = map pn_done (pa_acks_pending a1))"
    by (rule replica_fetch_acks_unread_records [OF fetch, of "replica_empty [98] 7"])
      (simp_all add: a1_def actor_append_snapshot reps replica_empty_def)
  then show ?thesis
    using new step fetch by (auto simp: a1_def)
qed

end
