(* ===== verification/Storage_Reopen.thy ===== *)
theory Storage_Reopen
  imports Storage_Acks
begin

text \<open>
  Reading a whole partition, and two ways to lose what it holds: a restart, after which the
  first append overwrites the log from its start, and a truncation, after which the batches
  that were cut off are still read.
\<close>

section \<open>Reading everything\<close>

lemma list_for_collect: "list_for (\<lambda>result b. Continue (result @ [b])) acc bs = Ok (acc @ bs)"
  by (induction bs arbitrary: acc) simp_all

lemma view_fetch_all_layout:
  assumes "data (sv_log v) = batches_layout bs @ post" and "sv_size v = length (batches_layout bs)"
    and "sv_size v < 2 ^ 64" and "\<forall>b \<in> set bs. batch_sized b"
  shows "view_fetch_all data v = Some (Ok bs)"
proof -
  have "batch_for (\<lambda>result b. Continue (result @ [b])) [] (batches_from data v 0) =
      Some (list_for (\<lambda>result b. Continue (result @ [b])) [] bs)"
    by (rule batch_for_layout [of _ _ "[]" post]) (use assms in \<open>simp_all add: batches_from_def\<close>)
  then show ?thesis
    by (simp add: view_fetch_all_def list_for_collect)
qed

lemma view_fetch_all_correct:
  assumes "view_holds data v bs es"
  shows "view_fetch_all data v = Some (Ok bs)"
  using assms by (auto simp: view_holds_def dest: batch_chain_sized intro!: view_fetch_all_layout)

lemma fetch_all_views_older:
  assumes "older_hold data n vs bss" and "fetch_all_views data ws = Some (Ok bs)"
  shows "fetch_all_views data (vs @ ws) = Some (Ok (concat bss @ bs))"
  using assms
proof (induction data n vs bss rule: older_hold.induct)
  case (2 data n v vs bs' bss)
  then obtain es where "view_holds data v bs' es"
    by auto
  from view_fetch_all_correct [OF this] 2 show ?case
    by simp
qed simp_all

lemma partition_fetch_all:
  assumes "partition_holds a n bss bs"
  shows "fetch_all_views (fs_data (pa_fs a)) (ps_segments (pa_snapshot a)) = Some (Ok (concat bss @ bs))"
proof -
  obtain vs v es where "ps_segments (pa_snapshot a) = vs @ [v]" "older_hold (fs_data (pa_fs a)) n vs bss"
    "view_holds (fs_data (pa_fs a)) v bs es"
    using assms by (auto simp: partition_holds_def)
  then show ?thesis
    using view_fetch_all_correct by (simp add: fetch_all_views_older)
qed

lemma state_fetch_all_holds:
  "log_holds crc a stored rss \<Longrightarrow>
     map_option (omap pr_records) (state_fetch_all (fs_data (pa_fs a)) (pa_snapshot a)) = Some (Ok stored)"
  by (auto simp: log_holds_def state_fetch_all_def partition_fetch_all)

text \<open>Reading a whole partition returns every batch appended to it, once, in order and stamped
  with its offset.\<close>

theorem fetch_all_returns_log:
  assumes "0 < pc_segment_bytes cfg" and "acks \<noteq> AcksAll"
    and "batches_hold (map fst reqs) rss" and "\<forall>rs \<in> set rss. rs \<noteq> []"
    and "\<forall>(b, reply) \<in> set reqs. batch_checksum crc b \<and> alive reply"
    and "length (concat rss) < 2 ^ 64"
    and "sum_list (map (\<lambda>b. 61 + length (rb_records b)) (map fst reqs)) < 2 ^ 64"
  shows "\<exists>a a'. actor_new cfg [] fs_empty = Some (Ok a)
    \<and> actor_run alive (map (\<lambda>(b, reply). Append b acks reply) reqs) a = Ok (a', append_answers a 0 reqs)
    \<and> map_option (omap pr_records) (state_fetch_all (fs_data (pa_fs a')) (pa_snapshot a')) =
        Some (Ok (stamped 0 (map fst reqs)))"
  by (rule appends_to_new [OF assms]) (blast dest: state_fetch_all_holds)

lemma fetch_all_returns_log_witness:
  "\<exists>a a'. actor_new sample_config [] fs_empty = Some (Ok a)
    \<and> actor_run (\<lambda>reply. True) [Append sample_produce AcksNone 1, Append sample_produce AcksNone 2] a =
        Ok (a', [Produced 1 (produced a 0), Produced 2 (produced a 3)])
    \<and> map_option (omap pr_records) (state_fetch_all (fs_data (pa_fs a')) (pa_snapshot a')) =
        Some (Ok [batch_update_base_offset 0 sample_produce, batch_update_base_offset 3 sample_produce])"
proof -
  let ?reqs = "[(sample_produce, 1 :: nat), (sample_produce, 2)]" and ?rs = "rebased sample_records"
  have count: "unat (rb_records_count sample_produce) = 3"
    using sample_produce_holds(1) by (simp add: batch_holds_def length_sample_records)
  have holds: "batches_hold (map fst ?reqs) [?rs, ?rs]"
    using sample_produce_stored by (simp add: batches_hold_def)
  have ne: "\<forall>rs \<in> set [?rs, ?rs]. rs \<noteq> []"
    by (auto simp: rebased_def sample_records_def)
  have crcs: "\<forall>(b, reply) \<in> set ?reqs. batch_checksum (\<lambda>bs. 7) b \<and> (\<lambda>reply. True) reply"
    using sample_produce_holds(2) by simp
  have bytes: "sum_list (map (\<lambda>b. 61 + length (rb_records b)) (map fst ?reqs)) < 2 ^ 64"
    using sample_produce_length by simp
  have cfg: "0 < pc_segment_bytes sample_config" and len: "length (concat [?rs, ?rs]) < 2 ^ 64"
    and acks: "AcksNone \<noteq> AcksAll"
    by (simp_all add: sample_config_def length_sample_records)
  show ?thesis
    using fetch_all_returns_log [OF cfg acks holds ne crcs len bytes] count by simp
qed

section \<open>After a restart\<close>

lemma overwrite_start: "overwrite 0 bs c = bs @ drop (length bs) c"
  by (simp add: overwrite_def)

text \<open>The handle opened on a file that is not empty: nothing is truncated and it is written from
  the start, while the size is that of the file.\<close>

lemma segment_open_existing:
  assumes ok: "fs_ok fs" and log: "fs_names fs (LogFile, sg_base_offset opts) = Some i" "fs_data fs i \<noteq> []"
    and "open": "segment_open opts fs = (fs', seg)"
  shows "ls_log seg = i \<and> ls_log_cursor seg = 0 \<and> ls_size seg = length (fs_data fs i)
    \<and> fs_data fs' i = fs_data fs i \<and> ls_index seg \<noteq> i \<and> ls_time_index seg \<noteq> i"
proof -
  let ?base = "sg_base_offset opts"
  obtain log fs1 where o1: "fs_open (LogFile, ?base) False fs = (log, fs1)"
    by fastforce
  obtain index fs2 where o2: "fs_open (IndexFile, ?base) False fs1 = (index, fs2)"
    by fastforce
  obtain tix fs3 where o3: "fs_open (TimeIndexFile, ?base) False fs2 = (tix, fs3)"
    by fastforce
  note k1 = fs_open_ok [OF ok o1]
  note k2 = fs_open_ok [OF conjunct1 [OF k1] o2]
  note k3 = fs_open_ok [OF conjunct1 [OF k2] o3]
  have i: "log = i"
    using k1 log(1) by auto
  have "fs_names fs1 (LogFile, ?base) = Some i" "fs_names fs2 (LogFile, ?base) = Some i"
    using k1 k2 i by auto
  then have ne: "index \<noteq> i" "tix \<noteq> i"
    using k2 k3 by (metis Pair_inject file_kind.distinct(1,3))+
  have "fs1 = fs"
    using o1 log(1) i by (simp add: fs_open_def)
  then have "fs_data fs3 i = fs_data fs i"
    using k2 k3 ne by auto
  with log i ne "open" show ?thesis
    by (auto simp: segment_open_def o1 o2 o3 Let_def fs_set_len_def)
qed

lemma segment_append_log:
  assumes "segment_append_batch b (fs, seg) = (fs', seg')"
    and "ls_index seg \<noteq> ls_log seg" and "ls_time_index seg \<noteq> ls_log seg"
  shows "fs_data fs' (ls_log seg) =
    overwrite (ls_log_cursor seg + length (batch_encode_header b)) (rb_records b)
      (overwrite (ls_log_cursor seg) (batch_encode_header b) (fs_data fs (ls_log seg)))"
  using assms by (auto simp: segment_append_batch_def Let_def fs_write_at_def split: if_splits)

text \<open>C34: after a restart the first append to the active segment goes over the start of its log:
  the log then holds the new batch followed by what the old bytes have beyond its length, whatever
  batches they were, and the size, which now claims to hold both, exceeds the file. When the new
  batch is as long as some first ones of those stored, these are lost and the others are kept.\<close>

theorem restart_overwrites_log:
  assumes "fs_ok fs" and "fs_names fs (LogFile, sg_base_offset opts) = Some i" and "fs_data fs i = old" "old \<noteq> []"
    and "batch_sized b" and "segment_open opts fs = (fs1, seg)" and "segment_append_batch b (fs1, seg) = (fs2, seg2)"
  shows "fs_data fs2 (ls_log seg2) = batch_layout b @ drop (length (batch_layout b)) old
    \<and> ls_size seg2 = length old + length (batch_layout b)
    \<and> length (fs_data fs2 (ls_log seg2)) < ls_size seg2
    \<and> (\<forall>lost kept. old = batches_layout (lost @ kept) \<and> length (batch_layout b) = length (batches_layout lost) \<longrightarrow>
         fs_data fs2 (ls_log seg2) = batches_layout (b # kept))"
proof -
  have "fs_data fs i \<noteq> []"
    using assms(3,4) by simp
  note op = segment_open_existing [OF assms(1,2) this assms(6)]
  note frame = segment_append_frame [OF assms(7)]
  have "fs_data fs2 i = overwrite (length (batch_encode_header b)) (rb_records b)
      (overwrite 0 (batch_encode_header b) (fs_data fs i))"
    using segment_append_log [OF assms(7)] op by simp
  then have log: "fs_data fs2 (ls_log seg2) = batch_layout b @ drop (length (batch_layout b)) old"
    using op frame(2) assms(3) by (simp add: overwrite_def batch_layout_def add.commute)
  moreover have size: "ls_size seg2 = length old + length (batch_layout b)"
    using op frame(7) assms(3,5) by (simp add: batch_sized_def length_batch_layout)
  moreover have "0 < length old" and "0 < length (batch_layout b)"
    using assms(4) by (simp_all add: length_batch_layout)
  ultimately show ?thesis
    by auto
qed

definition restarted_files :: file_system where
  "restarted_files =
     \<lparr>fs_names = [(LogFile, 0) \<mapsto> 0], fs_data = (\<lambda>i. batches_layout [sample_produce]), fs_next = 1\<rparr>"

lemma restart_overwrites_log_witness:
  "(let (fs1, seg) = segment_open (build_segment_config 0 100) restarted_files;
        (fs2, seg2) = segment_append_batch (batch_update_base_offset 3 sample_produce) (fs1, seg)
    in fs_data fs2 (ls_log seg2) = batches_layout [batch_update_base_offset 3 sample_produce]
      \<and> ls_size seg2 = 2 * length (batch_layout sample_produce))"
proof -
  let ?b = "batch_update_base_offset 3 sample_produce" and ?old = "batches_layout [sample_produce]"
  obtain fs1 seg where o1: "segment_open (build_segment_config 0 100) restarted_files = (fs1, seg)"
    by fastforce
  obtain fs2 seg2 where o2: "segment_append_batch ?b (fs1, seg) = (fs2, seg2)"
    by fastforce
  have ok: "fs_ok restarted_files"
    by (simp add: fs_ok_def restarted_files_def)
  have name: "fs_names restarted_files (LogFile, sg_base_offset (build_segment_config 0 100)) = Some 0"
    and data: "fs_data restarted_files 0 = ?old"
    by (simp_all add: restarted_files_def build_segment_config_def)
  have sized: "batch_sized ?b" and len: "length (batch_layout ?b) = length (batch_layout sample_produce)"
    using sample_produce_holds(1) by (simp_all add: batch_holds_def)
  have "length ?old \<noteq> 0"
    by (simp add: length_batch_layout)
  then have "?old \<noteq> []"
    by auto
  from restart_overwrites_log [OF ok name data this sized o1 o2]
  have "ls_size seg2 = length ?old + length (batch_layout ?b)"
    and lost: "\<forall>lost kept. ?old = batches_layout (lost @ kept) \<and> length (batch_layout ?b) = length (batches_layout lost) \<longrightarrow>
         fs_data fs2 (ls_log seg2) = batches_layout (?b # kept)"
    by blast+
  moreover have "fs_data fs2 (ls_log seg2) = batches_layout [?b]"
    using lost [rule_format, of "[sample_produce]" "[]"] len by simp
  ultimately show ?thesis
    using len by (simp add: o1 o2)
qed

section \<open>After a truncation\<close>

text \<open>C36: truncating a partition of one segment at an offset inside the log removes no batch: reading
  the partition still returns every one of them, although the end of the log is the offset.\<close>

theorem truncate_keeps_batches:
  assumes "log_holds crc a stored rss" and "ps_segments (pa_snapshot a) = [v]"
    and "0 < offset" and "offset < ps_log_end_offset (pa_snapshot a)"
  shows "ps_log_end_offset (pa_snapshot (handle_truncate offset a)) = offset
    \<and> map_option (omap pr_records)
        (state_fetch_all (fs_data (pa_fs (handle_truncate offset a))) (pa_snapshot (handle_truncate offset a))) =
      Some (Ok stored)"
proof -
  let ?fs = "pa_fs a"
  obtain bss bs where stored: "stored = concat bss @ bs" and ph: "partition_holds a 0 bss bs"
    using assms(1) by (auto simp: log_holds_def)
  obtain vs es where older: "older_hold (fs_data ?fs) 0 vs bss" and vs: "vs = []"
    and base: "unat (sv_base_offset v) = chain_end 0 (concat bss)"
    and view: "view_holds (fs_data ?fs) v bs es" and nm: "names_hold ?fs [v] (pa_active a)"
    using ph assms(2) by (auto simp: partition_holds_def)
  have bss: "bss = []"
    using older vs by (cases bss) simp_all
  have zero: "sv_base_offset v = 0"
    using base bss by (simp add: unat_eq_0)
  obtain fs2 active where opened: "segment_open (build_segment_config offset (pa_segment_bytes a)) ?fs = (fs2, active)"
    by fastforce
  obtain active1 v2 where pub: "segment_publish active = (active1, v2)"
    by fastforce
  have ok: "fs_ok ?fs" and fresh: "fresh_log ?fs (sg_base_offset (build_segment_config offset (pa_segment_bytes a)))"
    using nm zero assms(3)
    by (auto simp: names_hold_def fresh_log_def build_segment_config_def split: option.splits)
  note op = segment_open_fresh [OF ok fresh opened, unfolded build_segment_config_def segment_config.simps]
  have v2: "view_holds (fs_data fs2) v2 [] []"
    using segment_publish_holds [of fs2 active "[]" "[]"] op pub unat_bound [of offset] by auto
  have "sv_log v \<notin> {ls_log active, ls_index active, ls_time_index active}"
    "sv_index v \<notin> {ls_log active, ls_index active, ls_time_index active}"
    using nm op zero assms(3) by (auto simp: names_hold_def)
  then have "view_holds (fs_data fs2) v bs es"
    using view op by (subst view_holds_cong) auto
  then have "fetch_all_views (fs_data fs2) [v, v2] = Some (Ok bs)"
    using view_fetch_all_correct v2 by simp
  moreover have "pa_fs (handle_truncate offset a) = fs2" "ps_segments (pa_snapshot (handle_truncate offset a)) = [v, v2]"
    "ps_log_end_offset (pa_snapshot (handle_truncate offset a)) = offset"
    using assms(2-4) zero opened pub by (simp_all add: handle_truncate_def Let_def not_le [symmetric])
  ultimately show ?thesis
    by (simp add: state_fetch_all_def stored bss)
qed

definition large_config :: partition_config where
  "large_config = sample_config\<lparr>pc_segment_bytes := 100000\<rparr>"

lemma actor_new_segment_bytes:
  "actor_new cfg dir fs = Some (Ok a) \<Longrightarrow> pa_segment_bytes a = pc_segment_bytes cfg"
  by (auto simp: actor_new_def omap_eq_Ok Let_def)

lemma append_one_segment:
  assumes "ps_segments (pa_snapshot a) = [u]"
    and "ls_size (pa_active a) + (12 + unat (rb_batch_length b)) < pa_segment_bytes a"
  shows "\<exists>v. ps_segments (pa_snapshot (actor_append b a)) = [v]"
proof -
  let ?b = "batch_update_base_offset (ps_log_end_offset (pa_snapshot a)) b"
  obtain fs1 seg1 where app: "segment_append_batch ?b (pa_fs a, pa_active a) = (fs1, seg1)"
    by fastforce
  obtain seg2 v where pub: "segment_publish seg1 = (seg2, v)"
    by fastforce
  have "ls_size seg2 = ls_size (pa_active a) + (12 + unat (rb_batch_length b))"
    using segment_append_frame(7) [OF app] segment_publish_sel [OF pub]
    by (simp add: batch_update_base_offset_def)
  with assms app pub show ?thesis
    by (simp add: actor_append_def Let_def)
qed

lemma truncate_keeps_batches_witness:
  "\<exists>a. actor_new large_config [] fs_empty = Some (Ok a)
    \<and> map_option (omap pr_records)
        (state_fetch_all (fs_data (pa_fs (handle_truncate 1 (actor_append sample_produce a))))
          (pa_snapshot (handle_truncate 1 (actor_append sample_produce a)))) =
      Some (Ok [batch_update_base_offset 0 sample_produce])"
proof -
  have "0 < pc_segment_bytes large_config"
    by (simp add: large_config_def)
  then obtain a where new: "actor_new large_config [] fs_empty = Some (Ok a)"
    and log: "log_holds (\<lambda>bs. 7) a [] []"
    using actor_new_empty by blast
  let ?a = "actor_append sample_produce a"
  have "rebased sample_records \<noteq> []"
    by (auto simp: rebased_def sample_records_def)
  then have stored: "log_holds (\<lambda>bs. 7) ?a
      ([] @ [batch_update_base_offset (of_nat (length (concat ([] :: msg_record list list)))) sample_produce])
      ([] @ [rebased sample_records])"
    using sample_produce_length
    by (intro log_holds_append [OF log sample_produce_stored _ sample_produce_holds(2)])
      (simp_all add: length_batch_layout length_sample_records)
  obtain bss bs where "concat bss @ bs = []" and ph: "partition_holds a 0 bss bs"
    using log by (auto simp: log_holds_def)
  moreover obtain vs v es where vs: "ps_segments (pa_snapshot a) = vs @ [v]"
    and older: "older_hold (fs_data (pa_fs a)) 0 vs bss" and seg: "segment_holds (pa_fs a) (pa_active a) bs es"
    using ph by (auto simp: partition_holds_def)
  moreover have "vs = []"
    using older \<open>concat bss @ bs = []\<close> by (cases vs; cases bss) auto
  ultimately have "ps_segments (pa_snapshot a) = [v]" and "ls_size (pa_active a) = 0"
    by (auto simp: segment_holds_def)
  moreover have "unat (rb_batch_length sample_produce) < 2000"
    using sample_produce_holds(1) sample_produce_length by (simp add: batch_holds_def batch_sized_def)
  ultimately obtain w where "ps_segments (pa_snapshot ?a) = [w]"
    using append_one_segment [of a v sample_produce] actor_new_segment_bytes [OF new]
    by (auto simp: large_config_def)
  moreover have "1 < ps_log_end_offset (pa_snapshot ?a)"
    using log_end_offset_holds [OF stored] by (simp add: word_less_nat_alt length_sample_records)
  ultimately have "map_option (omap pr_records)
        (state_fetch_all (fs_data (pa_fs (handle_truncate 1 ?a))) (pa_snapshot (handle_truncate 1 ?a))) =
      Some (Ok [batch_update_base_offset 0 sample_produce])"
    using truncate_keeps_batches [OF stored, of w 1] by simp
  with new show ?thesis
    by blast
qed

end
