(* ===== verification/Storage_Raft.thy ===== *)
theory Storage_Raft
  imports Storage_Reopen Raft_Log
begin

text \<open>
  The partition as the log of the Raft node (\<open>crates/storage/src/partition/raft.rs\<close>): each
  entry is a batch of one record, whose leader epoch is the epoch of the entry. The queries
  satisfy the laws of \<open>RaftLog\<close> and an append adds the entry at the end; the last epoch is
  not the one of the last entry.
\<close>

section \<open>The operations\<close>

definition epoch_step ::
    "u64 \<Rightarrow> u32 option \<Rightarrow> record_batch \<Rightarrow> u32 option flow" where
  "epoch_step offset found b =
     (if rb_base_offset b = offset then Break (Some (rb_partition_leader_epoch b))
      else if offset < rb_base_offset b then Break found
      else Continue found)"

definition partition_epoch_at ::
    "(nat \<Rightarrow> u8 list) \<Rightarrow> partition_state \<Rightarrow> u64 \<Rightarrow> (unit, u32 option) outcome option" where
  "partition_epoch_at data s offset =
     (let idx = partition_point (\<lambda>seg. sv_base_offset seg \<le> offset) (ps_segments s)
      in if idx = 0 then Some (Ok None)
         else case batch_iter_from data (ps_segments s ! (idx - 1)) offset of
                None \<Rightarrow> None
              | Some (Err e) \<Rightarrow> Some (Ok None)
              | Some Panic \<Rightarrow> Some Panic
              | Some (Ok it) \<Rightarrow> batch_for (epoch_step offset) None it)"

definition last_epoch_step :: "u32 \<times> u32 \<Rightarrow> record_batch \<Rightarrow> (u32 \<times> u32) flow" where
  "last_epoch_step = (\<lambda>(prev_epoch, curr_epoch) b.
     let epoch = rb_partition_leader_epoch b
     in Continue (if epoch \<noteq> curr_epoch then (curr_epoch, epoch) else (prev_epoch, curr_epoch)))"

fun views_for ::
    "('s \<Rightarrow> record_batch \<Rightarrow> 's flow) \<Rightarrow> (nat \<Rightarrow> u8 list) \<Rightarrow> 's \<Rightarrow> segment_view list \<Rightarrow>
      (unit, 's) outcome option" where
  "views_for body data s [] = Some (Ok s)"
| "views_for body data s (v # vs) =
     (case batch_for body s (batches_from data v 0) of
        None \<Rightarrow> None
      | Some (Ok s') \<Rightarrow> views_for body data s' vs
      | Some (Err e) \<Rightarrow> Some (Err e)
      | Some Panic \<Rightarrow> Some Panic)"

definition partition_last_epoch ::
    "(nat \<Rightarrow> u8 list) \<Rightarrow> partition_state \<Rightarrow> (unit, u32) outcome option" where
  "partition_last_epoch data s =
     map_option (omap fst) (views_for last_epoch_step data (0, 0) (ps_segments s))"

text \<open>The flag says that the function has returned from inside the loops.\<close>

definition entries_step ::
    "bytes_ops \<Rightarrow> u64 \<Rightarrow> u64 \<Rightarrow> bool \<times> log_entry list \<Rightarrow> record_batch \<Rightarrow>
      (bool \<times> log_entry list) flow" where
  "entries_step B start end' = (\<lambda>(done, result) b.
     if end' \<le> rb_base_offset b then Break (True, result)
     else if rb_base_offset b < start then Continue (done, result)
     else case record_decode B (rb_records b) of
            Panic \<Rightarrow> Crash
          | Ok (r, rest) \<Rightarrow> Continue (done, result @
              [\<lparr>le_epoch = rb_partition_leader_epoch b, le_offset = rb_base_offset b, le_data = rc_value r\<rparr>])
          | Err e \<Rightarrow> Continue (done, result @
              [\<lparr>le_epoch = rb_partition_leader_epoch b, le_offset = rb_base_offset b, le_data = []\<rparr>]))"

fun entries_views ::
    "bytes_ops \<Rightarrow> (nat \<Rightarrow> u8 list) \<Rightarrow> u64 \<Rightarrow> u64 \<Rightarrow> log_entry list \<Rightarrow> segment_view list \<Rightarrow>
      (unit, log_entry list) outcome option" where
  "entries_views B data start end' result [] = Some (Ok result)"
| "entries_views B data start end' result (v # vs) =
     (case batch_iter_from data v start of
        None \<Rightarrow> None
      | Some (Err e) \<Rightarrow> entries_views B data start end' result vs
      | Some Panic \<Rightarrow> Some Panic
      | Some (Ok it) \<Rightarrow>
          (case batch_for (entries_step B start end') (False, result) it of
             None \<Rightarrow> None
           | Some (Ok (done, result')) \<Rightarrow>
               (if done then Some (Ok result') else entries_views B data start end' result' vs)
           | Some (Err e) \<Rightarrow> Some (Err e)
           | Some Panic \<Rightarrow> Some Panic))"

definition partition_entries ::
    "bytes_ops \<Rightarrow> (nat \<Rightarrow> u8 list) \<Rightarrow> partition_state \<Rightarrow> u64 \<Rightarrow> u64 \<Rightarrow>
      (unit, log_entry list) outcome option" where
  "partition_entries B data s start end' =
     (let idx = partition_point (\<lambda>seg. sv_base_offset seg \<le> start) (ps_segments s);
          start_idx = (if idx = 0 then 0 else idx - 1)
      in entries_views B data start end' [] (drop start_idx (ps_segments s)))"

definition find_epoch_step :: "u32 \<Rightarrow> u64 option \<Rightarrow> record_batch \<Rightarrow> u64 option flow" where
  "find_epoch_step epoch found b =
     (if rb_partition_leader_epoch b = epoch then Break (Some (rb_base_offset b)) else Continue found)"

fun find_epoch_views ::
    "(nat \<Rightarrow> u8 list) \<Rightarrow> u32 \<Rightarrow> segment_view list \<Rightarrow> (unit, u64 option) outcome option" where
  "find_epoch_views data epoch [] = Some (Ok None)"
| "find_epoch_views data epoch (v # vs) =
     (case batch_for (find_epoch_step epoch) None (batches_from data v 0) of
        Some (Ok None) \<Rightarrow> find_epoch_views data epoch vs
      | r \<Rightarrow> r)"

definition partition_find_epoch_start ::
    "(nat \<Rightarrow> u8 list) \<Rightarrow> partition_state \<Rightarrow> u32 \<Rightarrow> (unit, u64) outcome option" where
  "partition_find_epoch_start data s epoch =
     (if ps_segments s = [] then Some (Ok 0)
      else map_option (omap (\<lambda>found. case found of Some off \<Rightarrow> off | None \<Rightarrow> ps_log_end_offset s))
             (find_epoch_views data epoch (ps_segments s)))"

text \<open>The batch of an entry; \<open>now\<close> is the clock. The checksum does not cover the epoch.\<close>

definition entry_batch :: "bytes_ops \<Rightarrow> (u8 list \<Rightarrow> u32) \<Rightarrow> u64 \<Rightarrow> log_entry \<Rightarrow> record_batch" where
  "entry_batch B crc now entry =
     (let records = record_encode B (record_new now 0 [] (le_data entry));
          batch_length = 49 + of_nat (length records)
      in (batch_from_compact crc (le_offset entry) batch_length 1 records)
           \<lparr>rb_partition_leader_epoch := le_epoch entry\<rparr>)"

text \<open>The append waits for the reply, so the commands are handled one by one.\<close>

definition partition_raft_append ::
    "bytes_ops \<Rightarrow> (u8 list \<Rightarrow> u32) \<Rightarrow> u64 \<Rightarrow> log_entry \<Rightarrow> partition_actor \<Rightarrow>
      (unit, partition_actor) outcome" where
  "partition_raft_append B crc now entry a =
     omap fst (actor_handle (\<lambda>reply. True) (Append (entry_batch B crc now entry) AcksNone 0) a)"

definition partition_raft_truncate ::
    "u64 \<Rightarrow> partition_actor \<Rightarrow> (unit, partition_actor) outcome" where
  "partition_raft_truncate offset a =
     omap fst (actor_handle (\<lambda>reply. True) (Truncate offset 0) a)"

section \<open>The queries read the log\<close>

definition singles :: "record_batch list \<Rightarrow> bool" where
  "singles bs \<longleftrightarrow> (\<forall>b \<in> set bs. unat (rb_records_count b) = 1)"

lemma singles_simps [simp]:
  "singles []" "singles (b # bs) \<longleftrightarrow> unat (rb_records_count b) = 1 \<and> singles bs"
  "singles (bs @ cs) \<longleftrightarrow> singles bs \<and> singles cs"
  by (auto simp: singles_def)

lemma singles_chain_end: "singles bs \<Longrightarrow> chain_end n bs = n + length bs"
  by (induction bs arbitrary: n) auto

lemma singles_take: "singles bs \<Longrightarrow> singles (take k bs)"
  by (auto simp: singles_def dest: in_set_takeD)

lemma batch_chain_bases:
  "batch_chain n bs \<Longrightarrow> b \<in> set bs \<Longrightarrow> n \<le> unat (rb_base_offset b)"
proof (induction bs arbitrary: n)
  case (Cons c bs)
  then show ?case
    by (cases "b = c") fastforce+
qed simp

lemma singles_base:
  assumes "batch_chain n bs" and "singles bs" and "k < length bs"
  shows "unat (rb_base_offset (bs ! k)) = n + k"
  using batch_chain_nth [OF assms(1,3)] singles_chain_end [OF singles_take [OF assms(2)], of n k] assms(3)
  by simp

text \<open>A loop over a view from the start of one of its batches.\<close>

lemma view_for_drop:
  assumes v: "view_holds data v bs es"
  shows "batch_for body s (batches_from data v (of_nat (length (batches_layout (take k bs))))) =
    Some (list_for body s (drop k bs))"
proof -
  obtain post where log: "data (sv_log v) = batches_layout bs @ post"
    and sz: "sv_size v = length (batches_layout bs)" "sv_size v < 2 ^ 64"
    and chain: "batch_chain (unat (sv_base_offset v)) bs"
    using v by (auto simp: view_holds_def)
  have split: "batches_layout bs = batches_layout (take k bs) @ batches_layout (drop k bs)"
    by (simp flip: batches_layout_simps(3))
  have len: "length (batches_layout bs) = length (batches_layout (take k bs)) + length (batches_layout (drop k bs))"
    by (subst split) simp
  show ?thesis
  proof (rule batch_for_layout)
    show "\<forall>b \<in> set (drop k bs). batch_sized b"
      using batch_chain_sized [OF chain] by (auto dest: in_set_dropD)
    show "bi_file (batches_from data v (of_nat (length (batches_layout (take k bs))))) =
        batches_layout (take k bs) @ batches_layout (drop k bs) @ post"
      using log split by (simp add: batches_from_def)
    show "unat (bi_end (batches_from data v (of_nat (length (batches_layout (take k bs)))))) =
        length (batches_layout (take k bs)) + length (batches_layout (drop k bs))"
      unfolding len [symmetric] sz(1) [symmetric] using sz(2) by (simp add: batches_from_def)
  qed (use sz len in \<open>simp add: batches_from_def\<close>)
qed

text \<open>A loop over a view of single records, from an offset: an error is a loop over nothing.\<close>

lemma view_for_offset:
  assumes v: "view_holds data v bs es" and one: "singles bs"
  shows "(case batch_iter_from data v t of
      None \<Rightarrow> None | Some (Err e) \<Rightarrow> Some (Ok s) | Some Panic \<Rightarrow> Some Panic
    | Some (Ok it) \<Rightarrow> batch_for body s it) =
    Some (list_for body s (drop (unat t - unat (sv_base_offset v)) bs))"
proof (cases "bs = []")
  case True
  have "es = []"
    using v True by (cases es) (auto simp: view_holds_def index_ok_def)
  then have "sv_size v = 0" and "sv_index_count v = 0"
    using v True by (simp_all add: view_holds_def)
  moreover have "batch_for body s (batch_iter_empty f) = Some (Ok s)" for f
    by (subst batch_for.simps) (simp add: batch_iter_next_def batch_iter_empty_def)
  ultimately show ?thesis
    by (simp add: batch_iter_from_def find_physical_position_def True)
next
  case False
  let ?n = "unat (sv_base_offset v)"
  have chain: "batch_chain ?n bs"
    using v by (simp add: view_holds_def)
  note it = batch_iter_from_correct [OF v False, of t]
  note last = singles_chain_end [OF one, of ?n]
  consider "unat t < ?n" | "?n \<le> unat t" "unat t < ?n + length bs" | "unat t = ?n + length bs"
    | "?n + length bs < unat t"
    by linarith
  then show ?thesis
  proof cases
    case 1
    then have "locate (unat t) ?n 0 bs = Ok 0"
      using False by (cases bs) simp_all
    then show ?thesis
      using it view_for_drop [OF v, of body s 0] 1 by simp
  next
    case 2
    then obtain k where k: "k < length bs" "locate (unat t) ?n 0 bs = Ok (length (batches_layout (take k bs)))"
      "chain_end ?n (take k bs) \<le> unat t" "unat t < chain_end ?n (take (Suc k) bs)"
      using locate_inside [OF chain 2(1), of 0] last by auto
    then have "unat t - ?n = k"
      using singles_chain_end [OF singles_take [OF one]] by simp
    with k(2) it view_for_drop [OF v, of body s k] show ?thesis
      by simp
  next
    case 3
    then have "locate (unat t) ?n 0 bs = Ok (length (batches_layout bs))"
      using locate_end [OF chain, of 0] last by simp
    then show ?thesis
      using it view_for_drop [OF v, of body s "length bs"] 3 by simp
  next
    case 4
    then have "locate (unat t) ?n 0 bs = Err (UnexpectedEof ''offset beyond end of segment'')"
      using locate_skip [of ?n bs "[]" "unat t" 0] chain last by simp
    then show ?thesis
      using it 4 by simp
  qed
qed

lemma older_hold_chain:
  "older_hold data n vs bss \<Longrightarrow> batch_chain n (concat bss)"
  by (induction data n vs bss rule: older_hold.induct) (auto simp: batch_chain_append view_holds_def)

lemma partition_holds_chain:
  "partition_holds a n bss bs \<Longrightarrow> batch_chain n (concat bss @ bs)"
  by (auto simp: partition_holds_def batch_chain_append view_holds_def dest: older_hold_chain)

section \<open>Refinement of the reference log\<close>

definition entry_of :: "bytes_ops \<Rightarrow> record_batch \<Rightarrow> log_entry" where
  "entry_of B b =
     \<lparr>le_epoch = rb_partition_leader_epoch b, le_offset = rb_base_offset b,
      le_data = (case record_decode B (rb_records b) of Ok (r, rest) \<Rightarrow> rc_value r | _ \<Rightarrow> [])\<rparr>"

text \<open>The log a partition stands for: the entries of the batches that a full read returns.\<close>

definition partition_log :: "bytes_ops \<Rightarrow> partition_actor \<Rightarrow> log_entry list" where
  "partition_log B a =
     (case state_fetch_all (fs_data (pa_fs a)) (pa_snapshot a) of
        Some (Ok p) \<Rightarrow> map (entry_of B) (pr_records p) | _ \<Rightarrow> [])"

definition raft_log_holds :: "(u8 list \<Rightarrow> u32) \<Rightarrow> partition_actor \<Rightarrow> record_batch list \<Rightarrow> bool" where
  "raft_log_holds crc a stored \<longleftrightarrow>
     (\<exists>rss. log_holds crc a stored rss) \<and> singles stored"

lemma raft_log_holds_partition:
  assumes "raft_log_holds crc a stored"
  obtains bss bs where "stored = concat bss @ bs" and "partition_holds a 0 bss bs"
  using assms by (auto simp: raft_log_holds_def log_holds_def)

lemma raft_log_holds_chain: "raft_log_holds crc a stored \<Longrightarrow> batch_chain 0 stored"
  by (auto simp: raft_log_holds_def log_holds_def dest: partition_holds_chain)

lemma partition_log_eq: "raft_log_holds crc a stored \<Longrightarrow> partition_log B a = map (entry_of B) stored"
  using state_fetch_all_holds by (fastforce simp: raft_log_holds_def partition_log_def omap_eq_Ok)

lemma raft_log_length:
  "raft_log_holds crc a stored \<Longrightarrow> unat (ps_log_end_offset (pa_snapshot a)) = length stored"
  by (auto simp: raft_log_holds_def log_holds_def partition_holds_def singles_chain_end)

lemma raft_log_numbered:
  assumes "raft_log_holds crc a stored"
  shows "vec_log_inv (partition_log B a)"
proof -
  have "rb_base_offset (stored ! i) = of_nat i" if "i < length stored" for i
    using singles_base [OF raft_log_holds_chain [OF assms] _ that] assms
    by (metis add_0 of_nat_unat ucast_id raft_log_holds_def)
  moreover have "length stored < 2 ^ 64"
    using raft_log_length [OF assms] unat_bound [of "ps_log_end_offset (pa_snapshot a)"] by simp
  ultimately show ?thesis
    by (simp add: partition_log_eq [OF assms] vec_log_inv_def entry_of_def)
qed

subsection \<open>The epoch of an entry\<close>

lemma epoch_at_inside:
  assumes "batch_chain n bs" and "singles bs" and "n \<le> unat t" and "unat t < n + length bs"
  shows "list_for (epoch_step t) None (drop (unat t - n) bs) =
    Ok (Some (rb_partition_leader_epoch (bs ! (unat t - n))))"
proof -
  have "unat (rb_base_offset (bs ! (unat t - n))) = unat t"
    using singles_base [OF assms(1,2), of "unat t - n"] assms(3,4) by simp
  then have "rb_base_offset (bs ! (unat t - n)) = t"
    by (simp add: word_unat_eq_iff)
  moreover have "drop (unat t - n) bs = bs ! (unat t - n) # drop (Suc (unat t - n)) bs"
    using assms(3,4) by (intro Cons_nth_drop_Suc [symmetric]) simp
  ultimately show ?thesis
    by (simp add: epoch_step_def)
qed

lemma partition_epoch_at_log:
  assumes holds: "raft_log_holds crc a stored"
  shows "partition_epoch_at (fs_data (pa_fs a)) (pa_snapshot a) t =
    Some (Ok (if unat t < length stored then Some (rb_partition_leader_epoch (stored ! unat t)) else None))"
proof -
  let ?data = "fs_data (pa_fs a)"
  obtain bss bs where stored: "stored = concat bss @ bs" and ph: "partition_holds a 0 bss bs"
    by (rule raft_log_holds_partition [OF holds])
  have one: "singles stored"
    using holds by (simp add: raft_log_holds_def)
  obtain vs v es where vs: "ps_segments (pa_snapshot a) = vs @ [v]" and older: "older_hold ?data 0 vs bss"
    and base: "unat (sv_base_offset v) = chain_end 0 (concat bss)" and view: "view_holds ?data v bs es"
    using ph by (auto simp: partition_holds_def)
  have at: "partition_epoch_at ?data (pa_snapshot a) t =
      Some (list_for (epoch_step t) None (drop (unat t - unat (sv_base_offset ((vs @ [v]) ! m))) cs))"
    if "partition_point (\<lambda>u. unat (sv_base_offset u) \<le> unat t) (vs @ [v]) = Suc m"
      "view_holds ?data ((vs @ [v]) ! m) cs es'" "singles cs" for m cs es'
    using view_for_offset [OF that(2,3), where t = t and s = None and body = "epoch_step t"] that(1)
    by (simp add: partition_epoch_at_def vs word_le_nat_alt)
  show ?thesis
  proof (cases "unat t < length stored")
    case True
    then have "unat t < chain_end 0 (concat bss @ bs)"
      using singles_chain_end [OF one, of 0] stored by simp
    from older_hold_select [OF older base view le0 this] obtain m es' where
      m: "partition_point (\<lambda>u. unat (sv_base_offset u) \<le> unat t) (vs @ [v]) = Suc m"
        "m < length (bss @ [bs])" "view_holds ?data ((vs @ [v]) ! m) ((bss @ [bs]) ! m) es'"
        "unat (sv_base_offset ((vs @ [v]) ! m)) = chain_end 0 (concat (take m (bss @ [bs])))"
        "unat (sv_base_offset ((vs @ [v]) ! m)) \<le> unat t"
        "unat t < chain_end (unat (sv_base_offset ((vs @ [v]) ! m))) ((bss @ [bs]) ! m)"
      by blast
    let ?cs = "(bss @ [bs]) ! m" and ?pre = "concat (take m (bss @ [bs]))"
    have split: "stored = ?pre @ ?cs @ concat (drop (Suc m) (bss @ [bs]))"
      using concat_split [OF m(2)] stored by simp
    have cs: "singles ?cs" and pre: "singles ?pre"
      using one split by (metis singles_simps(3))+
    have n: "unat (sv_base_offset ((vs @ [v]) ! m)) = length ?pre"
      using m(4) singles_chain_end [OF pre, of 0] by simp
    have inside: "unat t < length ?pre + length ?cs"
      using m(6) singles_chain_end [OF cs] n by simp
    have "list_for (epoch_step t) None (drop (unat t - length ?pre) ?cs) =
        Ok (Some (rb_partition_leader_epoch (?cs ! (unat t - length ?pre))))"
      by (rule epoch_at_inside [OF _ cs]) (use view_holds_chain [OF m(3)] n m(5) inside in simp_all)
    moreover have "stored ! unat t = ?cs ! (unat t - length ?pre)"
      by (subst split) (use inside m(5) n in \<open>simp add: nth_append del: concat_append take_append nth_append_length\<close>)
    ultimately show ?thesis
      using at [OF m(1,3) cs] True n by simp
  next
    case False
    have bsl: "singles bs" "length stored = unat (sv_base_offset v) + length bs"
      using one stored base singles_chain_end [of "concat bss" 0] by simp_all
    have "unat (sv_base_offset u) \<le> unat t" if "u \<in> set (vs @ [v])" for u
      using that older_hold_base [OF older, of u] base bsl(2) False
      by (auto simp: singles_chain_end)
    then have "partition_point (\<lambda>u. unat (sv_base_offset u) \<le> unat t) (vs @ [v]) = Suc (length vs)"
      by (simp add: partition_point_def takeWhile_eq_all_conv [THEN iffD2])
    from at [OF this _ bsl(1), of es] view False bsl(2) show ?thesis
      by simp
  qed
qed

subsection \<open>The entries of a range\<close>

definition in_range :: "u64 \<Rightarrow> u64 \<Rightarrow> record_batch \<Rightarrow> bool" where
  "in_range start end' b \<longleftrightarrow> start \<le> rb_base_offset b \<and> rb_base_offset b < end'"

definition readable :: "bytes_ops \<Rightarrow> record_batch list \<Rightarrow> bool" where
  "readable B bs \<longleftrightarrow> (\<forall>b \<in> set bs. record_decode B (rb_records b) \<noteq> Panic)"

lemma entries_step_eq:
  "record_decode B (rb_records b) \<noteq> Panic \<Longrightarrow> entries_step B start end' (done, result) b =
     (if end' \<le> rb_base_offset b then Break (True, result)
      else Continue (done, result @ (if in_range start end' b then [entry_of B b] else [])))"
  by (auto simp: entries_step_def in_range_def entry_of_def split: outcome.splits)

lemma in_range_past:
  assumes "batch_chain n bs" and "unat end' \<le> n"
  shows "filter (in_range start end') bs = []"
proof -
  have "\<not> in_range start end' b" if "b \<in> set bs" for b
    using batch_chain_bases [OF assms(1) that] assms(2) by (simp add: in_range_def word_less_nat_alt)
  then show ?thesis
    by (simp add: filter_empty_conv)
qed

text \<open>The loop over a chain of batches collects those in the range; it stops only past the range.\<close>

lemma entries_loop:
  assumes "batch_chain n bs" and "readable B bs"
  shows "\<exists>done. list_for (entries_step B start end') (False, result) bs =
      Ok (done, result @ map (entry_of B) (filter (in_range start end') bs))
    \<and> (done \<longrightarrow> unat end' \<le> chain_end n bs)"
  using assms
proof (induction bs arbitrary: n result)
  case (Cons b bs)
  have step: "entries_step B start end' (False, result) b =
     (if end' \<le> rb_base_offset b then Break (True, result)
      else Continue (False, result @ (if in_range start end' b then [entry_of B b] else [])))"
    using Cons.prems(2) by (intro entries_step_eq) (simp add: readable_def)
  show ?case
  proof (cases "end' \<le> rb_base_offset b")
    case True
    then have past: "unat end' \<le> n"
      using Cons.prems(1) by (simp add: word_le_nat_alt)
    have "n \<le> chain_end n (b # bs)"
      by (rule chain_end_le)
    with past in_range_past [OF Cons.prems(1) past, of start] step True show ?thesis
      by auto
  next
    case False
    have "batch_chain (n + unat (rb_records_count b)) bs" and "readable B bs"
      using Cons.prems by (simp_all add: readable_def)
    from Cons.IH [OF this, of "result @ (if in_range start end' b then [entry_of B b] else [])"] step False
    show ?thesis
      by (cases "in_range start end' b") simp_all
  qed
qed auto

lemma in_range_drop:
  assumes "batch_chain n bs" and "singles bs"
  shows "filter (in_range start end') (drop (unat start - n) bs) = filter (in_range start end') bs"
proof -
  have "\<not> in_range start end' b" if "b \<in> set (take (unat start - n) bs)" for b
  proof -
    obtain k where "k < length bs" "k < unat start - n" "b = bs ! k"
      using \<open>b \<in> _\<close> by (auto simp: in_set_conv_nth)
    then have "unat (rb_base_offset b) < unat start"
      using singles_base [OF assms, of k] by simp
    then show ?thesis
      by (simp add: in_range_def word_le_nat_alt)
  qed
  then have "filter (in_range start end') (take (unat start - n) bs) = []"
    by (simp add: filter_empty_conv)
  then show ?thesis
    by (metis append_Nil append_take_drop_id filter_append)
qed

lemma entries_views_Cons:
  assumes v: "view_holds data v bs es" and one: "singles bs" and ok: "readable B bs"
  shows "\<exists>done. entries_views B data start end' result (v # vs) =
      (if done then Some (Ok (result @ map (entry_of B) (filter (in_range start end') bs)))
       else entries_views B data start end' (result @ map (entry_of B) (filter (in_range start end') bs)) vs)
    \<and> (done \<longrightarrow> unat end' \<le> chain_end (unat (sv_base_offset v)) bs)"
proof -
  let ?n = "unat (sv_base_offset v)"
  let ?k = "unat start - ?n" and ?body = "entries_step B start end'"
  have chain: "batch_chain ?n bs"
    by (rule view_holds_chain [OF v])
  have "batch_chain (chain_end ?n (take ?k bs)) (drop ?k bs)"
    using chain by (metis append_take_drop_id batch_chain_append)
  moreover have "readable B (drop ?k bs)"
    using ok by (auto simp: readable_def dest: in_set_dropD)
  ultimately obtain don where loop: "list_for ?body (False, result) (drop ?k bs) =
      Ok (don, result @ map (entry_of B) (filter (in_range start end') bs))"
    and past: "don \<longrightarrow> unat end' \<le> chain_end (chain_end ?n (take ?k bs)) (drop ?k bs)"
    using entries_loop [of _ "drop ?k bs" B start end' result] in_range_drop [OF chain one] by fastforce
  have "chain_end (chain_end ?n (take ?k bs)) (drop ?k bs) = chain_end ?n bs"
    by (metis append_take_drop_id chain_end_append)
  with past loop view_for_offset [OF v one, where t = start and s = "(False, result)" and body = ?body]
  show ?thesis
    by (intro exI [of _ don])
      (auto split: option.splits outcome.splits if_splits)
qed

lemma entries_views_holds:
  assumes "older_hold data n vs bss" and "unat (sv_base_offset v) = chain_end n (concat bss)"
    and "view_holds data v bs es" and "singles (concat bss @ bs)" and "readable B (concat bss @ bs)"
  shows "entries_views B data start end' result (vs @ [v]) =
    Some (Ok (result @ map (entry_of B) (filter (in_range start end') (concat bss @ bs))))"
  using assms
proof (induction data n vs bss arbitrary: result rule: older_hold.induct)
  case (1 data n)
  then show ?case
    using entries_views_Cons [of data v bs es B start end' result "[]"] by (auto split: if_splits)
next
  case (2 data n w ws cs css)
  from "2.prems"(1) obtain es0 where w: "unat (sv_base_offset w) = n" "view_holds data w cs es0"
    and rest: "older_hold data (chain_end n cs) ws css"
    by auto
  have base: "unat (sv_base_offset v) = chain_end (chain_end n cs) (concat css)"
    using "2.prems"(2) by (simp add: chain_end_append)
  have one: "singles cs" "singles (concat css @ bs)" and ok: "readable B cs" "readable B (concat css @ bs)"
    using "2.prems"(4,5) by (auto simp: readable_def)
  let ?res = "result @ map (entry_of B) (filter (in_range start end') cs)"
  have tail: "batch_chain (chain_end n cs) (concat css @ bs)"
    using older_hold_chain [OF rest] view_holds_chain [OF "2.prems"(3)] base by (simp add: batch_chain_append)
  obtain don where step: "entries_views B data start end' result ((w # ws) @ [v]) =
      (if don then Some (Ok ?res) else entries_views B data start end' ?res (ws @ [v]))"
    and past: "don \<longrightarrow> unat end' \<le> chain_end n cs"
    using entries_views_Cons [OF w(2) one(1) ok(1), of start end' result "ws @ [v]"] w(1)
    by (metis append_Cons)
  show ?case
  proof (cases don)
    case True
    with past have "filter (in_range start end') (concat css @ bs) = []"
      by (intro in_range_past [OF tail]) simp
    with step True show ?thesis
      by simp
  next
    case False
    with step "2.IH" [OF rest base "2.prems"(3) one(2) ok(2), of ?res] show ?thesis
      by simp
  qed
qed simp_all

text \<open>Starting at the segment that holds the start changes nothing: the earlier ones have no entry in
  the range.\<close>

lemma entries_views_skip:
  assumes "older_hold data n vs bss" and "unat (sv_base_offset v) = chain_end n (concat bss)"
    and "view_holds data v bs es" and "singles (concat bss)" and "readable B (concat bss)"
  shows "entries_views B data start end' result
      (drop (partition_point (\<lambda>u. unat (sv_base_offset u) \<le> unat start) (vs @ [v]) - 1) (vs @ [v])) =
    entries_views B data start end' result (vs @ [v])"
  using assms
proof (induction data n vs bss rule: older_hold.induct)
  case (2 data n w ws cs css)
  from "2.prems"(1) obtain es0 where w: "unat (sv_base_offset w) = n" "view_holds data w cs es0"
    and rest: "older_hold data (chain_end n cs) ws css"
    by auto
  have base: "unat (sv_base_offset v) = chain_end (chain_end n cs) (concat css)"
    using "2.prems"(2) by (simp add: chain_end_append)
  have one: "singles cs" "singles (concat css)" and ok: "readable B cs" "readable B (concat css)"
    using "2.prems"(4,5) by (auto simp: readable_def)
  let ?P = "\<lambda>u. unat (sv_base_offset u) \<le> unat start"
  have hd: "unat (sv_base_offset (hd (ws @ [v]))) = chain_end n cs"
    using rest base by (cases ws; cases css) simp_all
  show ?case
  proof (cases "?P w \<and> chain_end n cs \<le> unat start")
    case True
    then have pp: "partition_point ?P (w # ws @ [v]) = Suc (partition_point ?P (ws @ [v]))"
      and pos: "0 < partition_point ?P (ws @ [v])"
      using hd by (cases ws; simp add: partition_point_def)+
    have none: "drop (unat start - unat (sv_base_offset w)) cs = []"
      using True singles_chain_end [OF one(1), of n] w(1) by (auto simp: le_diff_conv2)
    have "entries_views B data start end' result (w # ws @ [v]) = entries_views B data start end' result (ws @ [v])"
      using view_for_offset [OF w(2) one(1), where t = start and s = "(False, result)" and body = "entries_step B start end'"]
      by (auto simp: none split: option.splits outcome.splits)
    with "2.IH" [OF rest base "2.prems"(3) one(2) ok(2)] pp pos show ?thesis
      by (cases "partition_point ?P (ws @ [v])") simp_all
  next
    case False
    then have "partition_point ?P (w # ws @ [v]) \<le> 1"
      using hd w(1) by (cases ws) (auto simp: partition_point_def)
    then show ?thesis
      by simp
  qed
qed (auto simp: partition_point_def)

lemma map_in_range:
  "map (entry_of B) (filter (in_range start end') bs) = vec_entries (map (entry_of B) bs) start end'"
  by (simp add: vec_entries_def filter_map comp_def in_range_def [abs_def] entry_of_def)

lemma partition_entries_log:
  assumes holds: "raft_log_holds crc a stored" and ok: "readable B stored"
  shows "partition_entries B (fs_data (pa_fs a)) (pa_snapshot a) start end' =
    Some (Ok (vec_entries (map (entry_of B) stored) start end'))"
proof -
  let ?data = "fs_data (pa_fs a)"
  obtain bss bs where stored: "stored = concat bss @ bs" and ph: "partition_holds a 0 bss bs"
    by (rule raft_log_holds_partition [OF holds])
  have one: "singles (concat bss @ bs)" "singles (concat bss)"
    using holds stored by (simp_all add: raft_log_holds_def)
  have rd: "readable B (concat bss @ bs)" "readable B (concat bss)"
    using ok stored by (auto simp: readable_def)
  obtain vs v es where vs: "ps_segments (pa_snapshot a) = vs @ [v]" and older: "older_hold ?data 0 vs bss"
    and base: "unat (sv_base_offset v) = chain_end 0 (concat bss)" and view: "view_holds ?data v bs es"
    using ph by (auto simp: partition_holds_def)
  let ?pp = "partition_point (\<lambda>u. unat (sv_base_offset u) \<le> unat start) (vs @ [v])"
  have "partition_entries B ?data (pa_snapshot a) start end' =
      entries_views B ?data start end' [] (drop (?pp - 1) (vs @ [v]))"
    by (simp add: partition_entries_def vs word_le_nat_alt Let_def)
  also have "\<dots> = entries_views B ?data start end' [] (vs @ [v])"
    by (rule entries_views_skip [OF older base view one(2) rd(2)])
  also have "\<dots> = Some (Ok (vec_entries (map (entry_of B) stored) start end'))"
    using entries_views_holds [OF older base view one(1) rd(1), of start end' "[]"]
    by (simp only: stored map_in_range append_Nil)
  finally show ?thesis .
qed

subsection \<open>Epochs of the whole log\<close>

fun last_epochs :: "u32 \<times> u32 \<Rightarrow> record_batch list \<Rightarrow> u32 \<times> u32" where
  "last_epochs s [] = s"
| "last_epochs (prev_epoch, curr_epoch) (b # bs) =
     last_epochs (if rb_partition_leader_epoch b \<noteq> curr_epoch
                  then (curr_epoch, rb_partition_leader_epoch b) else (prev_epoch, curr_epoch)) bs"

lemma last_epochs_append [simp]: "last_epochs s (bs @ cs) = last_epochs (last_epochs s bs) cs"
  by (induction s bs rule: last_epochs.induct) auto

lemma list_for_last_epoch: "list_for last_epoch_step s bs = Ok (last_epochs s bs)"
  by (induction s bs rule: last_epochs.induct) (auto simp: last_epoch_step_def Let_def)

lemma last_epochs_curr: "snd (last_epochs s bs) = (if bs = [] then snd s else rb_partition_leader_epoch (last bs))"
  by (induction s bs rule: last_epochs.induct) auto

lemma last_epochs_same:
  "\<forall>b \<in> set bs. rb_partition_leader_epoch b = snd s \<Longrightarrow> last_epochs s bs = s"
  by (induction s bs rule: last_epochs.induct) auto

lemma view_for_start: "view_holds data v bs es \<Longrightarrow> batch_for body s (batches_from data v 0) = Some (list_for body s bs)"
  using view_for_drop [of data v bs es body s 0] by simp

lemma last_epoch_views:
  assumes "older_hold data n vs bss" and "view_holds data v bs es"
  shows "views_for last_epoch_step data s (vs @ [v]) = Some (Ok (last_epochs s (concat bss @ bs)))"
  using assms
proof (induction data n vs bss arbitrary: s rule: older_hold.induct)
  case (2 data n w ws cs css)
  then obtain es0 where w: "view_holds data w cs es0"
    by auto
  with 2 show ?case
    by (simp add: view_for_start [OF w] list_for_last_epoch)
qed (simp_all add: view_for_start list_for_last_epoch)

lemma partition_last_epoch_log:
  assumes "raft_log_holds crc a stored"
  shows "partition_last_epoch (fs_data (pa_fs a)) (pa_snapshot a) = Some (Ok (fst (last_epochs (0, 0) stored)))"
  by (rule raft_log_holds_partition [OF assms])
    (auto simp: partition_holds_def partition_last_epoch_def last_epoch_views)

lemma list_for_find_epoch:
  "list_for (find_epoch_step epoch) None bs =
     Ok (map_option rb_base_offset (find (\<lambda>b. rb_partition_leader_epoch b = epoch) bs))"
  by (induction bs) (auto simp: find_epoch_step_def)

lemma find_append_case: "find P (xs @ ys) = (case find P xs of None \<Rightarrow> find P ys | r \<Rightarrow> r)"
  by (induction xs) auto

lemma find_epoch_views_holds:
  assumes "older_hold data n vs bss" and "view_holds data v bs es"
  shows "find_epoch_views data epoch (vs @ [v]) =
    Some (Ok (map_option rb_base_offset (find (\<lambda>b. rb_partition_leader_epoch b = epoch) (concat bss @ bs))))"
  using assms
proof (induction data n vs bss rule: older_hold.induct)
  case (2 data n w ws cs css)
  then obtain es0 where w: "view_holds data w cs es0"
    by auto
  with 2 show ?case
    by (auto simp: view_for_start [OF w] list_for_find_epoch find_append_case split: option.splits)
qed (auto simp: view_for_start list_for_find_epoch split: option.splits)

lemma partition_find_epoch_start_log:
  assumes "raft_log_holds crc a stored"
  shows "partition_find_epoch_start (fs_data (pa_fs a)) (pa_snapshot a) epoch =
    Some (Ok (case find (\<lambda>b. rb_partition_leader_epoch b = epoch) stored of
                Some b \<Rightarrow> rb_base_offset b | None \<Rightarrow> ps_log_end_offset (pa_snapshot a)))"
  by (rule raft_log_holds_partition [OF assms])
    (auto simp: partition_holds_def partition_find_epoch_start_def find_epoch_views_holds split: option.splits)

section \<open>An append\<close>

lemma raft_append_eq:
  "partition_raft_append B crc now entry a = Ok (actor_append (entry_batch B crc now entry) a)"
  by (simp add: partition_raft_append_def Let_def)

context bytes_crate
begin

lemma raft_log_readable:
  assumes "raft_log_holds crc a stored"
  shows "readable B stored"
proof -
  obtain rss where holds: "batches_hold stored rss" and one: "singles stored"
    using assms by (auto simp: raft_log_holds_def log_holds_def)
  have "record_decode B (rb_records (stored ! k)) \<noteq> Panic" if k: "k < length stored" for k
  proof -
    have "batch_holds (stored ! k) (rss ! k)"
      using batches_hold_nth [OF holds k] by simp
    moreover have "unat (rb_records_count (stored ! k)) = 1"
      using one k by (simp add: singles_def)
    ultimately obtain r where "rb_records (stored ! k) = record_layout r" "record_sized r"
      by (cases "rss ! k") (auto simp: batch_holds_def records_layout_def)
    then show ?thesis
      using record_decode_layout [of r "[]"] by (simp add: record_sized_def)
  qed
  then show ?thesis
    by (auto simp: readable_def in_set_conv_nth)
qed

lemma entry_batch_holds:
  assumes "length (le_data entry) + 1000 < 2 ^ 32"
  shows "batch_holds (entry_batch B crc now entry) [record_new now 0 [] (le_data entry)]"
    and "batch_checksum crc (entry_batch B crc now entry)"
    and "length (batch_layout (entry_batch B crc now entry)) = length (le_data entry) + 94"
    and "entry_of B (batch_update_base_offset (le_offset entry) (entry_batch B crc now entry)) = entry"
proof -
  let ?r = "record_new now 0 [] (le_data entry)"
  have len: "length (record_layout ?r) = length (le_data entry) + 33"
    by (simp add: length_record_layout record_new_def Let_def)
  have fits: "record_fits ?r"
    using assms by (simp add: record_fits_def record_new_def Let_def)
  have sized: "record_sized ?r"
    using assms by (intro record_new_sized) simp
  have recs: "rb_records (entry_batch B crc now entry) = record_layout ?r"
    by (simp add: entry_batch_def batch_from_compact_def record_encode_layout Let_def)
  have "rb_batch_length (entry_batch B crc now entry) = of_nat (49 + length (record_layout ?r))"
    by (simp add: entry_batch_def batch_from_compact_def record_encode_layout Let_def)
  moreover have "49 + length (record_layout ?r) < 2 ^ 32"
    using assms len by simp
  ultimately have "batch_sized (entry_batch B crc now entry)"
    using unat_of_nat_id [where 'a = 32, of "49 + length (record_layout ?r)"]
    unfolding batch_sized_def recs by simp
  moreover have "rb_records_count (entry_batch B crc now entry) = 1"
    by (simp add: entry_batch_def batch_from_compact_def Let_def)
  ultimately show "batch_holds (entry_batch B crc now entry) [?r]"
    using sized recs by (simp add: batch_holds_def records_layout_def)
  show "batch_checksum crc (entry_batch B crc now entry)"
    by (simp add: batch_checksum_def entry_batch_def batch_from_compact_def Let_def)
  show "length (batch_layout (entry_batch B crc now entry)) = length (le_data entry) + 94"
    by (simp add: length_batch_layout recs len)
  show "entry_of B (batch_update_base_offset (le_offset entry) (entry_batch B crc now entry)) = entry"
    using record_decode_layout [OF fits, of "[]"]
    by (simp add: entry_of_def recs)
      (simp add: entry_batch_def batch_update_base_offset_def Let_def record_new_def)
qed

lemma raft_append_log:
  assumes holds: "raft_log_holds crc a stored" and off: "le_offset entry = ps_log_end_offset (pa_snapshot a)"
    and data: "length (le_data entry) + 1000 < 2 ^ 32"
    and room: "Suc (length stored) < 2 ^ 64"
      "length (batches_layout stored) + length (le_data entry) + 94 < 2 ^ 64"
  shows "raft_log_holds crc (actor_append (entry_batch B crc now entry) a)
    (stored @ [batch_update_base_offset (le_offset entry) (entry_batch B crc now entry)])"
proof -
  obtain rss where crc: "log_holds crc a stored rss"
    using holds by (auto simp: raft_log_holds_def)
  let ?b = "entry_batch B crc now entry" and ?r = "record_new now 0 [] (le_data entry)"
  note b = entry_batch_holds [OF data, of crc now]
  have one: "singles stored" and len: "length (concat rss) = length stored"
    using holds raft_log_length [OF holds] log_end_offset_holds [OF crc] by (simp_all add: raft_log_holds_def)
  have "rc_offset_delta ?r = 0"
    by (simp add: record_new_def Let_def)
  then have "batches_hold [?b] [[?r]]"
    using b(1) by (simp add: batches_hold_def)
  from log_holds_append [OF crc this _ b(2)] room b(3) len
  have "log_holds crc (actor_append ?b a) (stored @ [batch_update_base_offset (of_nat (length stored)) ?b]) (rss @ [[?r]])"
    by simp
  moreover have "le_offset entry = of_nat (length stored)"
    using off log_end_offset_eq [OF crc] len by simp
  moreover have "unat (rb_records_count ?b) = 1"
    using b(1) by (simp add: batch_holds_def)
  ultimately show ?thesis
    using one by (auto simp: raft_log_holds_def)
qed

end

section \<open>The partition satisfies the laws\<close>

text \<open>The queries as the operations of the trait; under the invariant they return.\<close>

definition returned :: "'a \<Rightarrow> (unit, 'a) outcome option \<Rightarrow> 'a" where
  "returned d r = (case r of Some (Ok x) \<Rightarrow> x | _ \<Rightarrow> d)"

definition partition_log_ops :: "bytes_ops \<Rightarrow> (u8 list \<Rightarrow> u32) \<Rightarrow> u64 \<Rightarrow> partition_actor log_ops" where
  "partition_log_ops B crc now =
     \<lparr>lo_log_end_offset = (\<lambda>a. ps_log_end_offset (pa_snapshot a)),
      lo_epoch_at = (\<lambda>a t. returned None (partition_epoch_at (fs_data (pa_fs a)) (pa_snapshot a) t)),
      lo_last_epoch = (\<lambda>a. returned 0 (partition_last_epoch (fs_data (pa_fs a)) (pa_snapshot a))),
      lo_entries = (\<lambda>a s e. returned [] (partition_entries B (fs_data (pa_fs a)) (pa_snapshot a) s e)),
      lo_find_epoch_start =
        (\<lambda>a epoch. returned 0 (partition_find_epoch_start (fs_data (pa_fs a)) (pa_snapshot a) epoch)),
      lo_append = (\<lambda>a entry. returned a (Some (case partition_raft_append B crc now entry a of
        Ok a' \<Rightarrow> Ok a' | Err e \<Rightarrow> Err () | Panic \<Rightarrow> Panic))),
      lo_truncate = (\<lambda>a off. handle_truncate off a)\<rparr>"

interpretation partition_log: raft_log_view "partition_log_ops list_bytes crc now"
    "\<lambda>a. \<exists>stored. raft_log_holds crc a stored" "partition_log list_bytes" for crc now
proof
  fix a :: partition_actor and t s e :: u64 and i :: nat
  assume "\<exists>stored. raft_log_holds crc a stored"
  then obtain stored where holds: "raft_log_holds crc a stored"
    by blast
  note inv = raft_log_numbered [OF holds, of list_bytes]
  note abs = partition_log_eq [OF holds, of list_bytes]
  show "length (partition_log list_bytes a) < 2 ^ 64"
    using inv by (rule vec_log.bounded)
  show "le_offset (partition_log list_bytes a ! i) = of_nat i" if "i < length (partition_log list_bytes a)"
    using inv that by (rule vec_log.numbered)
  show "lo_log_end_offset (partition_log_ops list_bytes crc now) a = of_nat (length (partition_log list_bytes a))"
    using arg_cong [OF raft_log_length [OF holds], of "of_nat :: nat \<Rightarrow> u64"]
    by (simp add: partition_log_ops_def abs)
  show "lo_epoch_at (partition_log_ops list_bytes crc now) a t =
      (if unat t < length (partition_log list_bytes a)
       then Some (le_epoch (partition_log list_bytes a ! unat t)) else None)"
    by (simp add: partition_log_ops_def abs partition_epoch_at_log [OF holds] returned_def entry_of_def)
  show "lo_entries (partition_log_ops list_bytes crc now) a s e =
      drop (unat s) (take (unat e) (partition_log list_bytes a))"
    using vec_entries_slice [OF inv, of s e]
    by (simp add: partition_log_ops_def abs returned_def
        partition_entries_log [OF holds list_bytes.raft_log_readable [OF holds]])
qed

text \<open>A new partition with one entry.\<close>

definition sample_entry :: log_entry where
  "sample_entry = \<lparr>le_epoch = 3, le_offset = 0, le_data = [104, 105]\<rparr>"

definition sample_entry_batch :: record_batch where
  "sample_entry_batch = entry_batch list_bytes (\<lambda>bs. 7) 5 sample_entry"

lemma sample_new:
  obtains a where "actor_new large_config [] fs_empty = Some (Ok a)" and "raft_log_holds (\<lambda>bs. 7) a []"
proof -
  have "0 < pc_segment_bytes large_config"
    by (simp add: large_config_def)
  from actor_new_empty [OF this, of "\<lambda>bs. 7"] show thesis
    using that by (auto simp: raft_log_holds_def)
qed

lemma sample_partition:
  obtains a where "actor_new large_config [] fs_empty = Some (Ok a)"
    and "raft_log_holds (\<lambda>bs. 7) (actor_append sample_entry_batch a) [batch_update_base_offset 0 sample_entry_batch]"
    and "partition_log list_bytes (actor_append sample_entry_batch a) = [sample_entry]"
proof -
  obtain a where a: "actor_new large_config [] fs_empty = Some (Ok a)" "raft_log_holds (\<lambda>bs. 7) a []"
    by (rule sample_new)
  have "le_offset sample_entry = ps_log_end_offset (pa_snapshot a)"
    using raft_log_length [OF a(2)] by (simp add: sample_entry_def unat_eq_0)
  from list_bytes.raft_append_log [OF a(2) this, of 5]
  have holds: "raft_log_holds (\<lambda>bs. 7) (actor_append sample_entry_batch a) [batch_update_base_offset 0 sample_entry_batch]"
    by (simp add: sample_entry_batch_def) (simp add: sample_entry_def)
  have "partition_log list_bytes (actor_append sample_entry_batch a) = [sample_entry]"
  proof -
    have "length (le_data sample_entry) + 1000 < 2 ^ 32" and "le_offset sample_entry = 0"
      by (simp_all add: sample_entry_def)
    then show ?thesis
      using partition_log_eq [OF holds, of list_bytes]
        list_bytes.entry_batch_holds(4) [of sample_entry "\<lambda>bs. 7" 5]
      by (simp add: sample_entry_batch_def)
  qed
  with a(1) holds show thesis
    using that by blast
qed

lemma sample_entry_epoch:
  "rb_partition_leader_epoch (batch_update_base_offset 0 sample_entry_batch) = 3"
  by (simp add: sample_entry_batch_def entry_batch_def Let_def batch_update_base_offset_def sample_entry_def)

text \<open>C20: a partition whose batches are single records answers the queries of \<open>RaftLog\<close> as the
  in-memory log with the same entries does: its end offset, the epoch at any offset and the
  entries of any range, whatever its segments.\<close>

theorem partition_refines_vec_log:
  assumes "bytes_crate B" and "raft_log_holds crc a stored"
  defines "es \<equiv> partition_log B a"
  shows "ps_log_end_offset (pa_snapshot a) = vec_log_end_offset es
    \<and> partition_epoch_at (fs_data (pa_fs a)) (pa_snapshot a) t = Some (Ok (vec_epoch_at es t))
    \<and> partition_entries B (fs_data (pa_fs a)) (pa_snapshot a) s e = Some (Ok (vec_entries es s e))"
proof -
  note inv = raft_log_numbered [OF assms(2), of B, folded es_def]
  have es: "es = map (entry_of B) stored"
    by (simp add: es_def partition_log_eq [OF assms(2)])
  have "ps_log_end_offset (pa_snapshot a) = vec_log_end_offset es"
    using arg_cong [OF raft_log_length [OF assms(2)], of "of_nat :: nat \<Rightarrow> u64"]
    by (simp add: vec_end_offset [OF inv]) (simp add: es)
  moreover have "vec_epoch_at es t =
      (if unat t < length stored then Some (rb_partition_leader_epoch (stored ! unat t)) else None)"
    by (simp add: vec_epoch_at_nth [OF inv]) (simp add: es entry_of_def)
  ultimately show ?thesis
    using partition_epoch_at_log [OF assms(2)]
      partition_entries_log [OF assms(2) bytes_crate.raft_log_readable [OF assms(1,2)]]
    by (simp add: es)
qed

lemma partition_refines_vec_log_witness:
  "\<exists>a. actor_new large_config [] fs_empty = Some (Ok a)
    \<and> partition_epoch_at (fs_data (pa_fs (actor_append sample_entry_batch a)))
        (pa_snapshot (actor_append sample_entry_batch a)) 0 = Some (Ok (Some 3))
    \<and> partition_entries list_bytes (fs_data (pa_fs (actor_append sample_entry_batch a)))
        (pa_snapshot (actor_append sample_entry_batch a)) 0 1 = Some (Ok [sample_entry])"
proof -
  obtain a where a: "actor_new large_config [] fs_empty = Some (Ok a)"
    and holds: "raft_log_holds (\<lambda>bs. 7) (actor_append sample_entry_batch a) [batch_update_base_offset 0 sample_entry_batch]"
    and log: "partition_log list_bytes (actor_append sample_entry_batch a) = [sample_entry]"
    by (rule sample_partition)
  have "vec_epoch_at [sample_entry] 0 = Some 3" and "vec_entries [sample_entry] 0 1 = [sample_entry]"
    by (simp_all add: vec_epoch_at_def vec_entries_def sample_entry_def)
  with partition_refines_vec_log [OF list_bytes.bytes_crate_axioms holds, of 0 0 1] a log show ?thesis
    by auto
qed

text \<open>C39: appending an entry at the end offset of the log of a partition, given room, adds exactly that
  entry, with its epoch and its data, to the log the partition stands for.\<close>

theorem partition_append_refines:
  assumes "bytes_crate B" and "raft_log_holds crc a stored"
    and "le_offset entry = ps_log_end_offset (pa_snapshot a)"
    and "length (le_data entry) + 1000 < 2 ^ 32" and "Suc (length stored) < 2 ^ 64"
    and "sum_list (map (\<lambda>b. 61 + length (rb_records b)) stored) + length (le_data entry) + 94 < 2 ^ 64"
  shows "\<exists>a' b. partition_raft_append B crc now entry a = Ok a'
    \<and> raft_log_holds crc a' (stored @ [b])
    \<and> partition_log B a' = partition_log B a @ [entry]
    \<and> partition_log B a' = vec_append (partition_log B a) entry"
proof -
  have "length (batches_layout stored) = sum_list (map (\<lambda>b. 61 + length (rb_records b)) stored)"
    by (induction stored) (simp_all add: length_batch_layout)
  then have after: "raft_log_holds crc (actor_append (entry_batch B crc now entry) a)
      (stored @ [batch_update_base_offset (le_offset entry) (entry_batch B crc now entry)])"
    using bytes_crate.raft_append_log [OF assms(1-5), of now] assms(6) by simp
  moreover have "partition_log B (actor_append (entry_batch B crc now entry) a) = partition_log B a @ [entry]"
    using bytes_crate.entry_batch_holds(4) [OF assms(1,4)]
    by (simp add: partition_log_eq [OF after] partition_log_eq [OF assms(2)])
  ultimately show ?thesis
    by (auto simp: raft_append_eq vec_append_def)
qed

lemma partition_append_refines_witness:
  "\<exists>a a'. actor_new large_config [] fs_empty = Some (Ok a)
    \<and> partition_raft_append list_bytes (\<lambda>bs. 7) 5 sample_entry a = Ok a'
    \<and> partition_log list_bytes a' = [sample_entry]"
proof -
  obtain a where a: "actor_new large_config [] fs_empty = Some (Ok a)" "raft_log_holds (\<lambda>bs. 7) a []"
    by (rule sample_new)
  have "le_offset sample_entry = ps_log_end_offset (pa_snapshot a)"
    using raft_log_length [OF a(2)] by (simp add: sample_entry_def unat_eq_0)
  from partition_append_refines [OF list_bytes.bytes_crate_axioms a(2) this, of 5]
  have "\<exists>a'. partition_raft_append list_bytes (\<lambda>bs. 7) 5 sample_entry a = Ok a'
    \<and> partition_log list_bytes a' = partition_log list_bytes a @ [sample_entry]"
    by (auto simp: sample_entry_def)
  then show ?thesis
    using a(1) partition_log_eq [OF a(2), of list_bytes] by auto
qed

text \<open>C30: the last epoch a partition reports is the epoch before the last change: on a log whose last
  entries have epoch \<open>e\<close> it is that of the entry before them, or zero when there is none,
  while the in-memory log reports \<open>e\<close>.\<close>

theorem partition_last_epoch_is_previous:
  assumes "raft_log_holds crc a (old @ new)" and "new \<noteq> []"
    and "\<forall>b \<in> set new. rb_partition_leader_epoch b = e"
    and "e \<noteq> (if old = [] then 0 else rb_partition_leader_epoch (last old))"
  shows "partition_last_epoch (fs_data (pa_fs a)) (pa_snapshot a) =
      Some (Ok (if old = [] then 0 else rb_partition_leader_epoch (last old)))
    \<and> vec_last_epoch (partition_log B a) = e"
proof -
  obtain b bs where new: "new = b # bs"
    using assms(2) by (cases new) auto
  let ?s = "last_epochs (0, 0) old"
  have curr: "snd ?s = (if old = [] then 0 else rb_partition_leader_epoch (last old))"
    by (simp add: last_epochs_curr)
  then have "last_epochs ?s new = last_epochs (snd ?s, e) bs"
    using assms(3,4) new by (cases ?s) simp
  also have "\<dots> = (snd ?s, e)"
    using assms(3) new by (intro last_epochs_same) simp
  finally have "partition_last_epoch (fs_data (pa_fs a)) (pa_snapshot a) = Some (Ok (snd ?s))"
    by (simp add: partition_last_epoch_log [OF assms(1)])
  moreover have "le_epoch (last (map (entry_of B) (old @ new))) = e"
    using assms(2,3) by (simp add: last_map entry_of_def)
  ultimately show ?thesis
    using curr assms(2) by (simp add: vec_last_epoch_def partition_log_eq [OF assms(1)])
qed

lemma partition_last_epoch_is_previous_witness:
  "\<exists>a. actor_new large_config [] fs_empty = Some (Ok a)
    \<and> partition_last_epoch (fs_data (pa_fs (actor_append sample_entry_batch a)))
        (pa_snapshot (actor_append sample_entry_batch a)) = Some (Ok 0)
    \<and> vec_last_epoch (partition_log list_bytes (actor_append sample_entry_batch a)) = 3"
proof -
  obtain a where a: "actor_new large_config [] fs_empty = Some (Ok a)"
    and holds: "raft_log_holds (\<lambda>bs. 7) (actor_append sample_entry_batch a)
      ([] @ [batch_update_base_offset 0 sample_entry_batch])"
    using sample_partition by (metis append_Nil)
  from partition_last_epoch_is_previous [OF holds, of 3 list_bytes] a show ?thesis
    by (auto simp: sample_entry_epoch)
qed

end
