(* ===== verification/Utf8.thy ===== *)
theory Utf8
  imports Prelude
begin

text \<open>
  Strings. A Rust \<open>String\<close> is the list of the bytes of its UTF-8 encoding. The decoders make
  strings from received bytes with \<open>String::from_utf8\<close>, which refuses what is not UTF-8, and
  with \<open>String::from_utf8_lossy\<close>, which replaces every maximal broken part by the replacement
  character U+FFFD.
\<close>

section \<open>The first character of a byte list\<close>

definition utf8_cont :: "u8 \<Rightarrow> bool" where
  "utf8_cont b \<longleftrightarrow> 0x80 \<le> b \<and> b \<le> 0xBF"

text \<open>Whether a byte starts a character and may be followed by the second byte.\<close>

definition utf8_lead3 :: "u8 \<Rightarrow> u8 \<Rightarrow> bool" where
  "utf8_lead3 a b \<longleftrightarrow>
     (if a = 0xE0 then 0xA0 \<le> b \<and> b \<le> 0xBF
      else if a = 0xED then 0x80 \<le> b \<and> b \<le> 0x9F
      else utf8_cont b)"

definition utf8_lead4 :: "u8 \<Rightarrow> u8 \<Rightarrow> bool" where
  "utf8_lead4 a b \<longleftrightarrow>
     (if a = 0xF0 then 0x90 \<le> b \<and> b \<le> 0xBF
      else if a = 0xF4 then 0x80 \<le> b \<and> b \<le> 0x8F
      else utf8_cont b)"

text \<open>
  The length of the character at the front, or of the broken part there, and which of the two
  it is. The second component of the list tells how far a prefix is well formed.
\<close>

fun utf8_tail :: "nat \<Rightarrow> nat \<Rightarrow> u8 list \<Rightarrow> nat \<times> bool" where
  "utf8_tail n 0 bs = (n, True)"
| "utf8_tail n (Suc k) [] = (n, False)"
| "utf8_tail n (Suc k) (b # bs) = (if utf8_cont b then utf8_tail (Suc n) k bs else (n, False))"

fun utf8_step :: "u8 list \<Rightarrow> nat \<times> bool" where
  "utf8_step [] = (0, False)"
| "utf8_step (a # bs) =
     (if a < 0x80 then (1, True)
      else if 0xC2 \<le> a \<and> a \<le> 0xDF then utf8_tail 1 1 bs
      else if 0xE0 \<le> a \<and> a \<le> 0xEF then
        (case bs of [] \<Rightarrow> (1, False)
         | b # cs \<Rightarrow> if utf8_lead3 a b then utf8_tail 2 1 cs else (1, False))
      else if 0xF0 \<le> a \<and> a \<le> 0xF4 then
        (case bs of [] \<Rightarrow> (1, False)
         | b # cs \<Rightarrow> if utf8_lead4 a b then utf8_tail 2 2 cs else (1, False))
      else (1, False))"

lemma utf8_tail_bounds:
  "utf8_tail n k bs = (m, ok) \<Longrightarrow> n \<le> m \<and> m \<le> n + length bs \<and> (ok \<longrightarrow> m = n + k)"
  by (induction n k bs arbitrary: m ok rule: utf8_tail.induct) (auto split: if_splits)

lemma utf8_step_bounds:
  assumes "utf8_step bs = (m, ok)" and "bs \<noteq> []"
  shows "0 < m \<and> m \<le> length bs"
  using assms by (cases bs) (auto split: if_splits list.splits dest!: utf8_tail_bounds)

section \<open>Validity and lossy decoding\<close>

function utf8_valid :: "u8 list \<Rightarrow> bool" where
  "utf8_valid bs =
     (if bs = [] then True
      else case utf8_step bs of (n, ok) \<Rightarrow> ok \<and> utf8_valid (drop n bs))"
  by pat_completeness auto
termination
  by (relation "measure length") (auto dest: utf8_step_bounds [OF sym])

function from_utf8_lossy :: "u8 list \<Rightarrow> u8 list" where
  "from_utf8_lossy bs =
     (if bs = [] then []
      else case utf8_step bs of (n, ok) \<Rightarrow>
        (if ok then take n bs else [0xEF, 0xBF, 0xBD]) @ from_utf8_lossy (drop n bs))"
  by pat_completeness auto
termination
  by (relation "measure length") (auto dest: utf8_step_bounds [OF sym])

declare utf8_valid.simps [simp del] from_utf8_lossy.simps [simp del]

definition from_utf8 :: "u8 list \<Rightarrow> u8 list option" where
  "from_utf8 bs = (if utf8_valid bs then Some bs else None)"

lemma utf8_valid_Nil [simp]: "utf8_valid []"
  by (simp add: utf8_valid.simps)

lemma from_utf8_lossy_valid: "utf8_valid bs \<Longrightarrow> from_utf8_lossy bs = bs"
proof (induction bs rule: utf8_valid.induct)
  case (1 bs)
  show ?case
  proof (cases "bs = []")
    case False
    obtain n ok where step: "utf8_step bs = (n, ok)"
      by fastforce
    with 1 False have "ok" and "from_utf8_lossy (drop n bs) = drop n bs"
      by (auto simp: utf8_valid.simps [of bs])
    with step False show ?thesis
      by (simp add: from_utf8_lossy.simps [of bs])
  qed (simp add: from_utf8_lossy.simps)
qed

text \<open>A character at the front is one whatever follows it.\<close>

lemma utf8_tail_take:
  "utf8_tail n k bs = (m, True) \<Longrightarrow> utf8_tail n k (take (m - n) bs @ cs) = (m, True)"
proof (induction n k bs rule: utf8_tail.induct)
  case (3 n k b bs)
  then have "utf8_cont b" and tail: "utf8_tail (Suc n) k bs = (m, True)"
    by (auto split: if_splits)
  moreover have "Suc n \<le> m"
    using utf8_tail_bounds [OF tail] by simp
  then have "m - n = Suc (m - Suc n)"
    by simp
  ultimately show ?case
    using 3 by simp
qed auto

lemma utf8_step_take:
  assumes "utf8_step bs = (m, True)"
  shows "utf8_step (take m bs @ cs) = (m, True)"
proof (cases bs)
  case (Cons a ds)
  obtain k where k: "m = Suc k"
    using utf8_step_bounds [OF assms] Cons by (cases m) auto
  have two: "utf8_tail 1 1 (take k ds @ cs) = (m, True)" if "utf8_tail 1 1 ds = (m, True)"
    using utf8_tail_take [OF that] k by simp
  have more: "\<exists>l. k = Suc l \<and> utf8_tail 2 j (take l es @ cs) = (m, True)"
    if "utf8_tail 2 j es = (m, True)" for j es
    using utf8_tail_take [OF that] utf8_tail_bounds [OF that] k by (cases k) auto
  consider "a < 0x80" | "\<not> a < 0x80" "0xC2 \<le> a \<and> a \<le> 0xDF"
    | "\<not> a < 0x80" "\<not> (0xC2 \<le> a \<and> a \<le> 0xDF)" "0xE0 \<le> a \<and> a \<le> 0xEF"
    | "\<not> a < 0x80" "\<not> (0xC2 \<le> a \<and> a \<le> 0xDF)" "\<not> (0xE0 \<le> a \<and> a \<le> 0xEF)" "0xF0 \<le> a \<and> a \<le> 0xF4"
    | "\<not> a < 0x80" "\<not> (0xC2 \<le> a \<and> a \<le> 0xDF)" "\<not> (0xE0 \<le> a \<and> a \<le> 0xEF)" "\<not> (0xF0 \<le> a \<and> a \<le> 0xF4)"
    by blast
  then show ?thesis
  proof cases
    case 1
    with assms Cons show ?thesis
      by auto
  next
    case 2
    with assms Cons have "utf8_tail 1 1 ds = (m, True)"
      by simp
    from two [OF this] 2 Cons k show ?thesis
      by simp
  next
    case 3
    with assms Cons obtain b es where ds: "ds = b # es" and lead: "utf8_lead3 a b"
      and tail: "utf8_tail 2 1 es = (m, True)"
      by (auto split: list.splits if_splits)
    from more [OF tail] 3 Cons k ds lead show ?thesis
      by auto
  next
    case 4
    with assms Cons obtain b es where ds: "ds = b # es" and lead: "utf8_lead4 a b"
      and tail: "utf8_tail 2 2 es = (m, True)"
      by (auto split: list.splits if_splits)
    from more [OF tail] 4 Cons k ds lead show ?thesis
      by auto
  next
    case 5
    with assms Cons show ?thesis
      by simp
  qed
qed (use assms in simp)

lemma utf8_valid_step: "utf8_step bs = (n, True) \<Longrightarrow> bs \<noteq> [] \<Longrightarrow> utf8_valid bs = utf8_valid (drop n bs)"
  by (simp add: utf8_valid.simps [of bs])

lemma utf8_step_replacement: "utf8_step (0xEF # 0xBF # 0xBD # bs) = (3, True)"
  by (simp add: utf8_lead3_def utf8_cont_def)

text \<open>What lossy decoding yields is always UTF-8.\<close>

lemma utf8_valid_lossy: "utf8_valid (from_utf8_lossy bs)"
proof (induction bs rule: from_utf8_lossy.induct)
  case (1 bs)
  show ?case
  proof (cases "bs = []")
    case False
    obtain n ok where step: "utf8_step bs = (n, ok)"
      by fastforce
    note rest = 1 [OF False step [symmetric]]
    show ?thesis
    proof (cases ok)
      case True
      let ?r = "from_utf8_lossy (drop n bs)"
      have n: "0 < n" "n \<le> length bs"
        using utf8_step_bounds [OF step False] by simp_all
      have "utf8_step (take n bs @ ?r) = (n, True)"
        using utf8_step_take step True by simp
      then have "utf8_valid (take n bs @ ?r)"
        using rest n False by (subst utf8_valid_step) auto
      with step True False show ?thesis
        by (simp add: from_utf8_lossy.simps [of bs])
    next
      case False': False
      have "utf8_valid ([0xEF, 0xBF, 0xBD] @ from_utf8_lossy (drop n bs))"
        using rest utf8_valid_step [OF utf8_step_replacement] by simp
      with step False False' show ?thesis
        by (simp add: from_utf8_lossy.simps [of bs])
    qed
  qed (simp add: from_utf8_lossy.simps)
qed

end
