(* ===== verification/Broker_Records.thy ===== *)
theory Broker_Records
  imports Proto_Layout Utf8
begin

text \<open>
  The records of the metadata log (\<open>crates/broker/src/broker/metadata_record.rs\<close>). A string is
  the list of its UTF-8 bytes. Where \<open>decode\<close> returns \<open>None\<close> the model returns \<open>Err ()\<close>; a
  slice beyond the end of the buffer panics, before its conversion could fail.
\<close>

section \<open>Records\<close>

datatype metadata_record_type = TopicType | PartitionType

fun record_type_to_u8 :: "metadata_record_type \<Rightarrow> u8" where
  "record_type_to_u8 TopicType = 0"
| "record_type_to_u8 PartitionType = 1"

definition record_type_try_from :: "u8 \<Rightarrow> (u8, metadata_record_type) outcome" where
  "record_type_try_from v =
     (if v = 0 then Ok TopicType else if v = 1 then Ok PartitionType else Err v)"

record topic_record =
  tc_name :: "u8 list"

record partition_record =
  pt_topic_id :: "u8 list"
  pt_partition_id :: u16
  pt_replicas :: "i32 list"
  pt_leader :: i32

datatype metadata_record = TopicRecord topic_record | PartitionRecord partition_record

fun metadata_record_encode :: "metadata_record \<Rightarrow> u8 list" where
  "metadata_record_encode (TopicRecord t) =
     [record_type_to_u8 TopicType] @ be16 (of_nat (length (tc_name t))) @ tc_name t"
| "metadata_record_encode (PartitionRecord p) =
     [record_type_to_u8 PartitionType] @ be16 (of_nat (length (pt_topic_id p))) @ pt_topic_id p
     @ be16 (pt_partition_id p) @ be16 (of_nat (length (pt_replicas p)))
     @ concat (map be32 (pt_replicas p)) @ be32 (pt_leader p)"

section \<open>Decoding\<close>

text \<open>The slice \<open>buf[a..b]\<close>.\<close>

definition sub_slice :: "nat \<Rightarrow> nat \<Rightarrow> u8 list \<Rightarrow> (unit, u8 list) outcome" where
  "sub_slice a b buf = (if a \<le> b \<and> b \<le> length buf then Ok (take (b - a) (drop a buf)) else Panic)"

definition string_at :: "nat \<Rightarrow> nat \<Rightarrow> u8 list \<Rightarrow> (unit, u8 list) outcome" where
  "string_at a b buf =
     obind (sub_slice a b buf) (\<lambda>s. case from_utf8 s of Some t \<Rightarrow> Ok t | None \<Rightarrow> Err ())"

fun decode_replicas :: "nat \<Rightarrow> nat \<Rightarrow> u8 list \<Rightarrow> (unit, i32 list \<times> nat) outcome" where
  "decode_replicas 0 pos buf = Ok ([], pos)"
| "decode_replicas (Suc n) pos buf =
     obind (sub_slice pos (pos + 4) buf) (\<lambda>r.
     omap (\<lambda>(rs, p). (from_be32 r # rs, p)) (decode_replicas n (pos + 4) buf))"

definition decode_topic :: "u8 list \<Rightarrow> (unit, metadata_record) outcome" where
  "decode_topic buf =
     obind (sub_slice 0 2 buf) (\<lambda>l.
     obind (string_at 2 (2 + unat (from_be16 l)) buf) (\<lambda>name.
     Ok (TopicRecord \<lparr>tc_name = name\<rparr>)))"

definition decode_partition :: "u8 list \<Rightarrow> (unit, metadata_record) outcome" where
  "decode_partition buf =
     obind (sub_slice 0 2 buf) (\<lambda>l.
     let topic_id_len = unat (from_be16 l); pos = 2 in
     obind (string_at pos (pos + topic_id_len) buf) (\<lambda>topic_id.
     let pos = pos + topic_id_len in
     obind (sub_slice pos (pos + 2) buf) (\<lambda>partition_id.
     let pos = pos + 2 in
     obind (sub_slice pos (pos + 2) buf) (\<lambda>n.
     let replicas_len = unat (from_be16 n); pos = pos + 2 in
     obind (decode_replicas replicas_len pos buf) (\<lambda>(replicas, pos).
     obind (sub_slice pos (pos + 4) buf) (\<lambda>leader.
     Ok (PartitionRecord
       \<lparr>pt_topic_id = topic_id, pt_partition_id = from_be16 partition_id, pt_replicas = replicas,
        pt_leader = from_be32 leader\<rparr>)))))))"

definition metadata_record_decode :: "u8 list \<Rightarrow> (unit, metadata_record) outcome" where
  "metadata_record_decode buf =
     (if buf = [] then Err ()
      else case record_type_try_from (hd buf) of
             Ok TopicType \<Rightarrow> decode_topic (tl buf)
           | Ok PartitionType \<Rightarrow> decode_partition (tl buf)
           | _ \<Rightarrow> Err ())"

section \<open>Reading back\<close>

lemma sub_slice_append:
  "a = length pre \<Longrightarrow> b = a + length s \<Longrightarrow> sub_slice a b (pre @ s @ post) = Ok s"
  by (simp add: sub_slice_def)

lemma sub_slice_front: "b = length s \<Longrightarrow> sub_slice 0 b (s @ post) = Ok s"
  using sub_slice_append [of 0 "[]" b s post] by simp

lemma string_at_append:
  "a = length pre \<Longrightarrow> b = a + length s \<Longrightarrow> utf8_valid s \<Longrightarrow> string_at a b (pre @ s @ post) = Ok s"
  by (simp add: string_at_def sub_slice_append from_utf8_def)

lemma decode_replicas_append:
  "pos = length pre \<Longrightarrow>
   decode_replicas (length rs) pos (pre @ concat (map be32 rs) @ post) = Ok (rs, pos + 4 * length rs)"
proof (induction rs arbitrary: pos pre)
  case (Cons r rs)
  have "sub_slice pos (pos + 4) (pre @ be32 r @ concat (map be32 rs) @ post) = Ok (be32 r)"
    by (rule sub_slice_append) (simp_all add: Cons.prems)
  with Cons.IH [of "pos + 4" "pre @ be32 r"] Cons.prems show ?case
    by simp
qed simp

definition metadata_record_fits :: "metadata_record \<Rightarrow> bool" where
  "metadata_record_fits r \<longleftrightarrow>
     (case r of
        TopicRecord t \<Rightarrow> utf8_valid (tc_name t) \<and> length (tc_name t) < 2 ^ 16
      | PartitionRecord p \<Rightarrow>
          utf8_valid (pt_topic_id p) \<and> length (pt_topic_id p) < 2 ^ 16 \<and> length (pt_replicas p) < 2 ^ 16)"

lemma decode_topic_append:
  assumes "utf8_valid s" and "length s < 2 ^ 16"
  shows "decode_topic (be16 (of_nat (length s)) @ s @ post) = Ok (TopicRecord \<lparr>tc_name = s\<rparr>)"
  using assms string_at_append [of 2 "be16 (of_nat (length s))" "2 + length s" s post]
  by (simp add: decode_topic_def sub_slice_front)

lemma decode_partition_append:
  assumes s: "utf8_valid s" "length s < 2 ^ 16" and n: "length rs < 2 ^ 16"
  shows "decode_partition (be16 (of_nat (length s)) @ s @ be16 p @ be16 (of_nat (length rs))
      @ concat (map be32 rs) @ be32 l @ post)
    = Ok (PartitionRecord \<lparr>pt_topic_id = s, pt_partition_id = p, pt_replicas = rs, pt_leader = l\<rparr>)"
    (is "decode_partition ?buf = _")
proof -
  let ?head = "be16 (of_nat (length s)) @ s"
  have "sub_slice 0 2 ?buf = Ok (be16 (of_nat (length s)))"
    by (rule sub_slice_front) simp
  moreover have "string_at 2 (2 + length s) ?buf = Ok s"
    by (rule string_at_append) (use s in simp_all)
  moreover have "sub_slice (2 + length s) (2 + length s + 2) ?buf = Ok (be16 p)"
    using sub_slice_append [of "2 + length s" ?head "2 + length s + 2" "be16 p"] by simp
  moreover have "sub_slice (2 + length s + 2) (2 + length s + 2 + 2) ?buf = Ok (be16 (of_nat (length rs)))"
    using sub_slice_append [of "2 + length s + 2" "?head @ be16 p" "2 + length s + 2 + 2" "be16 (of_nat (length rs))"]
    by simp
  moreover have "decode_replicas (length rs) (2 + length s + 2 + 2) ?buf
      = Ok (rs, 2 + length s + 2 + 2 + 4 * length rs)"
    using decode_replicas_append [of "2 + length s + 2 + 2" "?head @ be16 p @ be16 (of_nat (length rs))" rs "be32 l @ post"]
    by simp
  moreover have "sub_slice (2 + length s + 2 + 2 + 4 * length rs) (2 + length s + 2 + 2 + 4 * length rs + 4) ?buf
      = Ok (be32 l)"
    using sub_slice_append [of "2 + length s + 2 + 2 + 4 * length rs"
        "?head @ be16 p @ be16 (of_nat (length rs)) @ concat (map be32 rs)" _ "be32 l" post]
    by (simp add: length_concat_const [of rs be32 4])
  ultimately show ?thesis
    using s n by (simp add: decode_partition_def Let_def del: add_2_eq_Suc add_2_eq_Suc')
qed

lemma metadata_record_decode_append:
  assumes "metadata_record_fits r"
  shows "metadata_record_decode (metadata_record_encode r @ post) = Ok r"
proof (cases r)
  case (TopicRecord t)
  with assms show ?thesis
    using decode_topic_append [of "tc_name t" post]
    by (simp add: metadata_record_decode_def record_type_try_from_def metadata_record_fits_def)
next
  case (PartitionRecord p)
  with assms show ?thesis
    using decode_partition_append [of "pt_topic_id p" "pt_replicas p" "pt_partition_id p" "pt_leader p" post]
    by (simp add: metadata_record_decode_def record_type_try_from_def metadata_record_fits_def)
qed

lemma length_metadata_record_encode [size_simps]:
  "length (metadata_record_encode r) =
     (case r of TopicRecord t \<Rightarrow> 3 + length (tc_name t)
      | PartitionRecord p \<Rightarrow> 11 + length (pt_topic_id p) + 4 * length (pt_replicas p))"
  by (cases r) (simp_all add: length_concat_const [of _ be32 4])

end
