(* ===== verification/Net_Types.thy ===== *)
theory Net_Types
  imports Proto_Layout Proto_Wire Utf8
begin

text \<open>
  The messages of the crate \<open>musil-network\<close> (\<open>crates/network/src/protocol\<close>): the header of a
  frame (\<open>header.rs\<close>), the requests and responses (\<open>produce\<close>, \<open>fetch\<close>, \<open>metadata.rs\<close>), the
  body of a frame (\<open>body.rs\<close>) and the sizes they declare.

  A string is the bytes of its UTF-8 encoding. A duration is its number of nanoseconds.
\<close>

section \<open>Header\<close>

datatype api_key = ApiProduce | ApiFetch | ApiMetadata | ApiCreateTopics

definition api_key_try_from :: "u32 \<Rightarrow> (u32, api_key) outcome" where
  "api_key_try_from v =
     (if v = 0 then Ok ApiProduce else if v = 1 then Ok ApiFetch
      else if v = 3 then Ok ApiMetadata else if v = 19 then Ok ApiCreateTopics
      else Err v)"

fun api_key_to_u32 :: "api_key \<Rightarrow> u32" where
  "api_key_to_u32 ApiProduce = 0"
| "api_key_to_u32 ApiFetch = 1"
| "api_key_to_u32 ApiMetadata = 3"
| "api_key_to_u32 ApiCreateTopics = 19"

lemma api_key_try_from_to [simp]: "api_key_try_from (api_key_to_u32 k) = Ok k"
  by (cases k) (simp_all add: api_key_try_from_def)

lemma api_key_try_from_Ok: "api_key_try_from v = Ok k \<longleftrightarrow> v = api_key_to_u32 k"
  by (cases k) (auto simp: api_key_try_from_def split: if_splits)

record request_header =
  rq_api_key :: api_key
  rq_api_version :: u32
  rq_correlation_id :: u32
  rq_client_id :: "u8 list option"

definition request_header_get_size :: "request_header \<Rightarrow> u32" where
  "request_header_get_size h =
     (let client_id_size = (case rq_client_id h of Some c \<Rightarrow> length c | None \<Rightarrow> 0)
      in 4 + 4 + 4 + 2 + of_nat client_id_size)"

section \<open>Produce\<close>

type_synonym duration = nat

definition duration_from_millis :: "u64 \<Rightarrow> duration" where
  "duration_from_millis m = unat m * 1000000"

definition duration_as_millis :: "duration \<Rightarrow> nat" where
  "duration_as_millis d = d div 1000000"

record produce_partition =
  qp_index :: u16
  qp_records :: record_batch

record produce_topic =
  qt_topic :: "u8 list"
  qt_partitions :: "produce_partition list"

record produce_request =
  qr_transactional_id :: u64
  qr_acks :: acks
  qr_timeout :: duration
  qr_topics :: "produce_topic list"

definition produce_request_get_size :: "produce_request \<Rightarrow> u32" where
  "produce_request_get_size req =
     (let topics_size = sum_list (map (\<lambda>t. 2 + of_nat (length (qt_topic t)) + 4
            + sum_list (map (\<lambda>p. 2 + 4 + batch_get_size (qp_records p)) (qt_partitions t))) (qr_topics req))
      in 8 + 4 + 8 + 2 + topics_size)"

record produce_topic_response =
  ptr_topic :: "u8 list"
  ptr_partition_responses :: "produce_partition_response list"

definition produce_topic_response_get_size :: "produce_topic_response \<Rightarrow> u32" where
  "produce_topic_response_get_size t =
     2 + of_nat (length (ptr_topic t)) + 4
     + sum_list (map produce_partition_response_get_size (ptr_partition_responses t))"

record produce_response =
  prs_throttle_time_ms :: u32
  prs_responses :: "produce_topic_response list"

definition produce_response_get_size :: "produce_response \<Rightarrow> u32" where
  "produce_response_get_size r = 4 + 4 + sum_list (map produce_topic_response_get_size (prs_responses r))"

section \<open>Fetch\<close>

record fetch_topic =
  ft_topic :: "u8 list"
  ft_partitions :: "fetch_partition list"

record net_fetch_request =
  nf_replica_id :: i32
  nf_max_bytes :: u32
  nf_topics :: "fetch_topic list"

definition fetch_request_get_size :: "net_fetch_request \<Rightarrow> u32" where
  "fetch_request_get_size req =
     (let topics_size = sum_list (map (\<lambda>t. 2 + of_nat (length (ft_topic t)) + 4
            + of_nat (length (ft_partitions t)) * 24) (nf_topics req))
      in 4 + 4 + 4 + topics_size)"

record topic_response =
  tr_topic :: "u8 list"
  tr_partitions :: "partition_response list"

definition topic_response_get_size :: "topic_response \<Rightarrow> u32" where
  "topic_response_get_size t =
     2 + of_nat (length (tr_topic t)) + 4 + sum_list (map partition_response_get_size (tr_partitions t))"

record net_fetch_response =
  nr_throttle_time_ms :: u32
  nr_responses :: "topic_response list"

definition fetch_response_get_size :: "net_fetch_response \<Rightarrow> u32" where
  "fetch_response_get_size r = 4 + 4 + sum_list (map topic_response_get_size (nr_responses r))"

section \<open>Metadata and topics\<close>

record metadata_request =
  mq_topics :: "u8 list list"
  mq_allow_auto_topic_creation :: bool

definition metadata_request_get_size :: "metadata_request \<Rightarrow> u32" where
  "metadata_request_get_size req =
     4 + sum_list (map (\<lambda>t. 2 + of_nat (length t)) (mq_topics req)) + 1"

record broker_metadata =
  bm_node_id :: i32
  bm_host :: "u8 list"
  bm_port :: i32

definition broker_metadata_get_size :: "broker_metadata \<Rightarrow> u32" where
  "broker_metadata_get_size b = 4 + 4 + 2 + of_nat (length (bm_host b))"

record partition_metadata =
  pm_error_code :: error_code
  pm_partition_index :: i32
  pm_leader_id :: i32
  pm_replica_nodes :: u32
  pm_isr_nodes :: u32
  pm_offline_replicas :: u32

definition partition_metadata_get_size :: "partition_metadata \<Rightarrow> u32" where
  "partition_metadata_get_size p = 2 + 4 + 4 + 4 + 4 + 4"

record topic_metadata =
  tm_error_code :: error_code
  tm_name :: "u8 list"
  tm_partitions :: "partition_metadata list"

definition topic_metadata_get_size :: "topic_metadata \<Rightarrow> u32" where
  "topic_metadata_get_size t =
     2 + 2 + of_nat (length (tm_name t)) + 4 + sum_list (map partition_metadata_get_size (tm_partitions t))"

record metadata_response =
  mr_throttle_time_ms :: u32
  mr_brokers :: "broker_metadata list"
  mr_controller_id :: i32
  mr_topics :: "topic_metadata list"
  mr_error_code :: error_code

definition metadata_response_get_size :: "metadata_response \<Rightarrow> u32" where
  "metadata_response_get_size r =
     4 + 4 + 2 + 4 + 4 + sum_list (map broker_metadata_get_size (mr_brokers r))
     + sum_list (map topic_metadata_get_size (mr_topics r))"

record topic_partition_assignment =
  ta_partition_index :: i32
  ta_broker_ids :: i32

definition assignment_get_size :: "topic_partition_assignment \<Rightarrow> u32" where
  "assignment_get_size a = 4 + 4"

record topic_request =
  tq_name :: "u8 list"
  tq_num_partitions :: i32
  tq_replication_factor :: u16
  tq_assignments :: "topic_partition_assignment list"

definition topic_request_get_size :: "topic_request \<Rightarrow> u32" where
  "topic_request_get_size t =
     2 + of_nat (length (tq_name t)) + 4 + 2 + 2 + sum_list (map assignment_get_size (tq_assignments t))"

record create_topic_request =
  cq_topics :: "topic_request list"
  cq_timeout_ms :: u32
  cq_validate_only :: bool

definition create_topic_request_get_size :: "create_topic_request \<Rightarrow> u32" where
  "create_topic_request_get_size r = 2 + sum_list (map topic_request_get_size (cq_topics r)) + 4 + 1"

record create_topic_topic_response =
  ct_name :: "u8 list"
  ct_error_code :: error_code
  ct_error_message :: "u8 list"
  ct_num_partitions :: i32
  ct_replication_factor :: u16

definition create_topic_topic_response_get_size :: "create_topic_topic_response \<Rightarrow> u32" where
  "create_topic_topic_response_get_size t =
     2 + of_nat (length (ct_name t)) + 2 + 2 + of_nat (length (ct_error_message t)) + 4 + 2"

record create_topic_response =
  cr_throttle_time_ms :: u32
  cr_topics :: "create_topic_topic_response list"

definition create_topic_response_get_size :: "create_topic_response \<Rightarrow> u32" where
  "create_topic_response_get_size r =
     4 + 2 + sum_list (map create_topic_topic_response_get_size (cr_topics r))"

section \<open>Frames\<close>

datatype frame_body =
    Produce produce_request
  | ProduceResponse produce_response
  | Fetch net_fetch_request
  | FetchResponse net_fetch_response
  | Metadata metadata_request
  | MetadataResponse metadata_response
  | Topic create_topic_request
  | TopicResponse create_topic_response

fun frame_body_get_size :: "frame_body \<Rightarrow> u32" where
  "frame_body_get_size (Produce req) = produce_request_get_size req"
| "frame_body_get_size (ProduceResponse resp) = produce_response_get_size resp"
| "frame_body_get_size (Fetch req) = fetch_request_get_size req"
| "frame_body_get_size (FetchResponse resp) = fetch_response_get_size resp"
| "frame_body_get_size (Metadata req) = metadata_request_get_size req"
| "frame_body_get_size (MetadataResponse resp) = metadata_response_get_size resp"
| "frame_body_get_size (Topic req) = create_topic_request_get_size req"
| "frame_body_get_size (TopicResponse resp) = create_topic_response_get_size resp"

record frame =
  fm_size :: u32
  fm_header :: request_header
  fm_body :: frame_body

text \<open>\<open>correlation_id\<close> is the random number drawn.\<close>

definition frame_new :: "u32 \<Rightarrow> api_key \<Rightarrow> frame_body \<Rightarrow> frame" where
  "frame_new correlation_id key body =
     (let h = \<lparr>rq_api_key = key, rq_api_version = 0, rq_correlation_id = correlation_id,
               rq_client_id = None\<rparr>
      in \<lparr>fm_size = request_header_get_size h + frame_body_get_size body,
          fm_header = h, fm_body = body\<rparr>)"

end
