(* ===== verification/Broker_State.thy ===== *)
theory Broker_State
  imports Broker_Records Storage_Reopen Net_Types
begin

text \<open>
  The state of a broker: the image of the cluster's topics (\<open>crates/broker/src/broker/state.rs\<close>),
  the actor that keeps it and writes the metadata log (\<open>broker/actor.rs\<close>, \<open>command.rs\<close>), and the
  configuration (\<open>broker/config.rs\<close>).

  A partition handle is the actor it leads to; a command that is sent to it is handled at once.
  The hash map of the image is an association list, and the order in which a hash map is
  iterated is an argument. The directory of a partition is the file system in its actor while
  it is open, and \<open>disk\<close> before; \<open>read_dir\<close> yields the base offsets of the log files in a
  directory, in some order. The time a record is made at is given by its place in the metadata
  log.
\<close>

section \<open>The image\<close>

type_synonym topic_partition = "u8 list \<times> u16"

type_synonym image = "(topic_partition \<times> partition_actor) list"

definition image_empty :: image where
  "image_empty = []"

definition default_partition_config :: "u16 \<Rightarrow> u16 \<Rightarrow> partition_config" where
  "default_partition_config partition_id broker_id =
     \<lparr>pc_segment_bytes = 2 ^ 20, pc_replicas = [], pc_partition_id = partition_id,
      pc_broker_id = broker_id\<rparr>"

text \<open>What a new actor for the partition finds in its directory.\<close>

definition directory :: "(topic_partition \<Rightarrow> file_system) \<Rightarrow> image \<Rightarrow> topic_partition \<Rightarrow> file_system" where
  "directory disk im key = (case map_of im key of Some a \<Rightarrow> pa_fs a | None \<Rightarrow> disk key)"

definition handle_spawn ::
    "(file_system \<Rightarrow> u64 list) \<Rightarrow> partition_config \<Rightarrow> file_system \<Rightarrow> (unit, partition_actor) outcome option" where
  "handle_spawn read_dir cfg fs = map_option unwrap (actor_new cfg (read_dir fs) fs)"

fun image_create_topic ::
    "(file_system \<Rightarrow> u64 list) \<Rightarrow> (topic_partition \<Rightarrow> file_system) \<Rightarrow> topic_record \<Rightarrow>
      partition_record list \<Rightarrow> image \<Rightarrow> (unit, image) outcome option" where
  "image_create_topic read_dir disk topic [] im = Some (Ok im)"
| "image_create_topic read_dir disk topic (p # ps) im =
     (let key = (tc_name topic, pt_partition_id p);
          cfg = default_partition_config (pt_partition_id p) (ucast (pt_leader p))
      in Option.bind (handle_spawn read_dir cfg (directory disk im key)) (\<lambda>r.
         case r of
           Ok a \<Rightarrow> image_create_topic read_dir disk topic ps (AList.update key a im)
         | Err e \<Rightarrow> Some (Err e)
         | Panic \<Rightarrow> Some Panic))"

fun image_create_topics ::
    "(file_system \<Rightarrow> u64 list) \<Rightarrow> (topic_partition \<Rightarrow> file_system) \<Rightarrow>
      (topic_record \<times> partition_record list) list \<Rightarrow> image \<Rightarrow> (unit, image) outcome option" where
  "image_create_topics read_dir disk [] im = Some (Ok im)"
| "image_create_topics read_dir disk ((t, ps) # ts) im =
     Option.bind (image_create_topic read_dir disk t ps im) (\<lambda>r.
       case r of
         Ok im1 \<Rightarrow> image_create_topics read_dir disk ts im1
       | Err e \<Rightarrow> Some (Err e)
       | Panic \<Rightarrow> Some Panic)"

section \<open>Appending through a handle\<close>

text \<open>
  \<open>append\<close> sends the command and waits for the reply. Without \<open>acks = all\<close> the reply comes with
  the command; otherwise it comes when the replicas have the batch, so that the answer is what
  \<open>await\<close> says the others do until then, and \<open>None\<close> if they never do.
\<close>

definition handle_append ::
    "record_batch \<Rightarrow> acks \<Rightarrow> partition_actor \<Rightarrow>
      (unit, partition_actor \<times> produce_partition_response option) outcome" where
  "handle_append b acks a =
     (let reply = unat (ps_log_end_offset (pa_snapshot a))
      in omap (\<lambda>(a1, fx). (a1, (case fx of Produced r resp # _ \<Rightarrow> Some resp | _ \<Rightarrow> None)))
           (actor_handle (\<lambda>_. True) (Append b acks reply) a))"

lemma handle_append_now:
  assumes "acks \<noteq> AcksAll"
  shows "handle_append b acks a =
    Ok (actor_append b a, Some (produced a (ps_log_end_offset (pa_snapshot a))))"
  by (simp add: handle_append_def actor_handle_append [OF assms, of "\<lambda>_. True"] del: actor_handle.simps)

section \<open>The metadata actor\<close>

record metadata_actor =
  ma_handle :: partition_actor
  ma_snapshot :: image

definition metadata_batch ::
    "bytes_ops \<Rightarrow> (u8 list \<Rightarrow> u32) \<Rightarrow> u64 \<Rightarrow> metadata_record \<Rightarrow> i32 \<Rightarrow> record_batch" where
  "metadata_batch B crc now r epoch =
     (batch_from_records B crc [record_new now 0 [] (metadata_record_encode r)])
       \<lparr>rb_partition_leader_epoch := epoch\<rparr>"

text \<open>The records found in the log, and the topics they make: a topic is made by its first record.\<close>

definition replay_record ::
    "metadata_record \<Rightarrow> (u8 list \<times> topic_record \<times> partition_record list) list \<Rightarrow>
      (u8 list \<times> topic_record \<times> partition_record list) list" where
  "replay_record r topics =
     (case r of
        TopicRecord t \<Rightarrow>
          (if map_of topics (tc_name t) = None then AList.update (tc_name t) (t, []) topics else topics)
      | PartitionRecord p \<Rightarrow>
          (case map_of topics (pt_topic_id p) of
             Some (t, ps) \<Rightarrow> AList.update (pt_topic_id p) (t, ps @ [p]) topics
           | None \<Rightarrow> topics))"

fun replay_batches ::
    "bytes_ops \<Rightarrow> record_batch list \<Rightarrow> (u8 list \<times> topic_record \<times> partition_record list) list \<Rightarrow>
      (unit, (u8 list \<times> topic_record \<times> partition_record list) list) outcome" where
  "replay_batches B [] topics = Ok topics"
| "replay_batches B (b # bs) topics =
     (case record_decode B (rb_records b) of
        Ok (r, _) \<Rightarrow>
          (case metadata_record_decode (rc_value r) of
             Ok mr \<Rightarrow> replay_batches B bs (replay_record mr topics)
           | Err _ \<Rightarrow> replay_batches B bs topics
           | Panic \<Rightarrow> Panic)
      | Err _ \<Rightarrow> replay_batches B bs topics
      | Panic \<Rightarrow> Panic)"

text \<open>
  Starting up: only the first segment of the metadata log is read. \<open>order\<close> is the order in which
  the map of topics is iterated.
\<close>

definition metadata_actor_new ::
    "bytes_ops \<Rightarrow> (file_system \<Rightarrow> u64 list) \<Rightarrow> (topic_partition \<Rightarrow> file_system) \<Rightarrow>
      ((topic_record \<times> partition_record list) list \<Rightarrow> (topic_record \<times> partition_record list) list) \<Rightarrow>
      file_system \<Rightarrow> (unit, metadata_actor) outcome option" where
  "metadata_actor_new B read_dir disk order fs =
     Option.bind (handle_spawn read_dir (default_partition_config 0 0) fs) (\<lambda>r.
     case r of
       Ok a \<Rightarrow>
         Option.bind
           (case ps_segments (pa_snapshot a) of
              [] \<Rightarrow> Some (Ok [])
            | s # _ \<Rightarrow> view_fetch_all (fs_data (pa_fs a)) s) (\<lambda>bs.
         case obind bs (\<lambda>segment_batches. replay_batches B segment_batches []) of
           Ok topics \<Rightarrow>
             map_option (omap (\<lambda>im. \<lparr>ma_handle = a, ma_snapshot = im\<rparr>))
               (image_create_topics read_dir disk (order (map snd topics)) image_empty)
         | Err e \<Rightarrow> Some (Err e)
         | Panic \<Rightarrow> Some Panic)
     | Err e \<Rightarrow> Some (Err e)
     | Panic \<Rightarrow> Some Panic)"

text \<open>The range \<open>0..num_partitions\<close> of signed numbers, each cast to the width of an id.\<close>

definition topic_partitions :: "topic_request \<Rightarrow> partition_record list" where
  "topic_partitions t =
     map (\<lambda>p. \<lparr>pt_topic_id = tq_name t, pt_partition_id = of_nat p, pt_replicas = [], pt_leader = 0\<rparr>)
       [0..<nat (sint (tq_num_partitions t))]"

definition append_metadata ::
    "bytes_ops \<Rightarrow> (u8 list \<Rightarrow> u32) \<Rightarrow> (u64 \<Rightarrow> u64) \<Rightarrow> metadata_record \<Rightarrow> partition_actor \<Rightarrow>
      (unit, partition_actor) outcome" where
  "append_metadata B crc clock r a =
     omap fst (handle_append
       (metadata_batch B crc (clock (ps_log_end_offset (pa_snapshot a))) r 0) AcksNone a)"

fun append_all_metadata ::
    "bytes_ops \<Rightarrow> (u8 list \<Rightarrow> u32) \<Rightarrow> (u64 \<Rightarrow> u64) \<Rightarrow> metadata_record list \<Rightarrow> partition_actor \<Rightarrow>
      (unit, partition_actor) outcome" where
  "append_all_metadata B crc clock [] a = Ok a"
| "append_all_metadata B crc clock (r # rs) a =
     obind (append_metadata B crc clock r a) (append_all_metadata B crc clock rs)"

definition created_response :: "topic_request \<Rightarrow> create_topic_topic_response" where
  "created_response t =
     \<lparr>ct_name = tq_name t, ct_error_code = NoError, ct_error_message = [],
      ct_num_partitions = tq_num_partitions t, ct_replication_factor = tq_replication_factor t\<rparr>"

definition topic_records :: "topic_request \<Rightarrow> metadata_record list" where
  "topic_records t =
     TopicRecord \<lparr>tc_name = tq_name t\<rparr> # map PartitionRecord (topic_partitions t)"

fun log_topics ::
    "bytes_ops \<Rightarrow> (u8 list \<Rightarrow> u32) \<Rightarrow> (u64 \<Rightarrow> u64) \<Rightarrow> topic_request list \<Rightarrow> partition_actor \<Rightarrow>
      (unit, partition_actor) outcome" where
  "log_topics B crc clock [] a = Ok a"
| "log_topics B crc clock (t # ts) a =
     obind (append_all_metadata B crc clock (topic_records t) a) (log_topics B crc clock ts)"

text \<open>The handling of \<open>CreateTopic\<close>; \<open>elapsed\<close> is the time it took.\<close>

definition metadata_create_topics ::
    "bytes_ops \<Rightarrow> (u8 list \<Rightarrow> u32) \<Rightarrow> (file_system \<Rightarrow> u64 list) \<Rightarrow> (topic_partition \<Rightarrow> file_system) \<Rightarrow>
      (u64 \<Rightarrow> u64) \<Rightarrow> u32 \<Rightarrow> create_topic_request \<Rightarrow> metadata_actor \<Rightarrow>
      (unit, metadata_actor \<times> create_topic_response) outcome option" where
  "metadata_create_topics B crc read_dir disk clock elapsed req m =
     (case log_topics B crc clock (cq_topics req) (ma_handle m) of
        Ok a \<Rightarrow>
          map_option
            (omap (\<lambda>im. (\<lparr>ma_handle = a, ma_snapshot = im\<rparr>,
               \<lparr>cr_throttle_time_ms = elapsed, cr_topics = map created_response (cq_topics req)\<rparr>)))
            (image_create_topics read_dir disk
               (map (\<lambda>t. (\<lparr>tc_name = tq_name t\<rparr>, topic_partitions t)) (cq_topics req)) (ma_snapshot m))
      | Err e \<Rightarrow> Some (Err e)
      | Panic \<Rightarrow> Some Panic)"

text \<open>The two other commands are not written yet.\<close>

datatype metadata_command = CreateTopic create_topic_request | AddPartition | RegisterBroker

fun metadata_handle ::
    "bytes_ops \<Rightarrow> (u8 list \<Rightarrow> u32) \<Rightarrow> (file_system \<Rightarrow> u64 list) \<Rightarrow> (topic_partition \<Rightarrow> file_system) \<Rightarrow>
      (u64 \<Rightarrow> u64) \<Rightarrow> u32 \<Rightarrow> metadata_command \<Rightarrow> metadata_actor \<Rightarrow>
      (unit, metadata_actor \<times> create_topic_response) outcome option" where
  "metadata_handle B crc read_dir disk clock elapsed (CreateTopic req) m =
     metadata_create_topics B crc read_dir disk clock elapsed req m"
| "metadata_handle B crc read_dir disk clock elapsed AddPartition m = Some Panic"
| "metadata_handle B crc read_dir disk clock elapsed RegisterBroker m = Some Panic"

section \<open>Configuration\<close>

record topic_config =
  tg_partitions :: "partition_config list"

record broker_config =
  bc_node_id :: i32
  bc_host :: "u8 list"
  bc_port :: i32
  bc_topics :: "topic_config list"

definition broker_metadata_from :: "broker_config \<Rightarrow> broker_metadata" where
  "broker_metadata_from c = \<lparr>bm_node_id = bc_node_id c, bm_host = bc_host c, bm_port = bc_port c\<rparr>"

end
