(* ===== verification/Broker_Handlers.thy ===== *)
theory Broker_Handlers
  imports Broker_State Net_Types
begin

text \<open>
  The requests a broker answers (\<open>crates/broker/src/broker/mod.rs\<close>). What a request needs from
  outside is the environment: the crates, the clock, the directories, the order in which hash
  maps are iterated, and what happens until the reply to an append with \<open>acks = all\<close>.
\<close>

section \<open>The environment\<close>

record broker_env =
  en_bytes :: bytes_ops
  en_crc :: "u8 list \<Rightarrow> u32"
  en_read_dir :: "file_system \<Rightarrow> u64 list"
  en_disk :: "topic_partition \<Rightarrow> file_system"
  en_clock :: "u64 \<Rightarrow> u64"
  en_elapsed :: u32
  en_await :: "topic_partition \<Rightarrow> u64 \<Rightarrow> image \<Rightarrow> (image \<times> produce_partition_response) option"
  en_order :: "image \<Rightarrow> image"
  en_topic_order :: "(u8 list \<times> partition_metadata list) list \<Rightarrow> (u8 list \<times> partition_metadata list) list"

record broker =
  bk_meta :: metadata_actor
  bk_brokers :: "broker_config list"

definition bk_image :: "broker \<Rightarrow> image" where
  "bk_image br = ma_snapshot (bk_meta br)"

definition broker_set_image :: "broker \<Rightarrow> image \<Rightarrow> broker" where
  "broker_set_image br im = br\<lparr>bk_meta := (bk_meta br)\<lparr>ma_snapshot := im\<rparr>\<rparr>"

definition broker_partition :: "image \<Rightarrow> u8 list \<Rightarrow> u16 \<Rightarrow> partition_actor option" where
  "broker_partition im topic part = map_of im (topic, part)"

text \<open>A loop that threads a state and collects results.\<close>

fun thread ::
    "('a \<Rightarrow> 's \<Rightarrow> ('e, 's \<times> 'b) outcome option) \<Rightarrow> 'a list \<Rightarrow> 's \<Rightarrow> ('e, 's \<times> 'b list) outcome option" where
  "thread f [] s = Some (Ok (s, []))"
| "thread f (x # xs) s =
     Option.bind (f x s) (\<lambda>r.
       case r of
         Ok p \<Rightarrow> map_option (omap (\<lambda>q. (fst q, snd p # snd q))) (thread f xs (fst p))
       | Err e \<Rightarrow> Some (Err e)
       | Panic \<Rightarrow> Some Panic)"

section \<open>Fetch\<close>

text \<open>
  The requested partition is cast to the sixteen bits of an id. The command a replica's fetch
  sends is handled, and the replies it releases wake other tasks.
\<close>

definition fetch_from_partition ::
    "broker_env \<Rightarrow> i32 \<Rightarrow> u8 list \<Rightarrow> fetch_partition \<Rightarrow> image \<Rightarrow>
      (unit, image \<times> partition_response) outcome option" where
  "fetch_from_partition e replica_id topic p im =
     (let part = ucast (fp_partition p)
      in case broker_partition im topic part of
           Some a \<Rightarrow>
             map_option
               (\<lambda>r. obind r (\<lambda>(res, cmds).
                  omap (\<lambda>(a1, fx). (AList.update (topic, part) a1 im, res)) (actor_run (\<lambda>_. True) cmds a)))
               (handle_fetch (en_bytes e) (en_crc e) (ucast part) a p replica_id)
         | None \<Rightarrow> Some (Ok (im, partition_response_error (fp_partition p) UnknownTopicOrPartition)))"

definition fetch_from_topic ::
    "broker_env \<Rightarrow> i32 \<Rightarrow> fetch_topic \<Rightarrow> image \<Rightarrow> (unit, image \<times> topic_response) outcome option" where
  "fetch_from_topic e replica_id t im =
     map_option (omap (\<lambda>(im1, ps). (im1, \<lparr>tr_topic = ft_topic t, tr_partitions = ps\<rparr>)))
       (thread (fetch_from_partition e replica_id (ft_topic t)) (ft_partitions t) im)"

definition broker_handle_fetch ::
    "broker_env \<Rightarrow> request_header \<Rightarrow> net_fetch_request \<Rightarrow> image \<Rightarrow> (unit, image \<times> frame) outcome option" where
  "broker_handle_fetch e h req im =
     map_option (omap (\<lambda>(im1, ts).
         (let resp = \<lparr>nr_throttle_time_ms = en_elapsed e, nr_responses = ts\<rparr>
          in (im1, \<lparr>fm_size = fetch_response_get_size resp + request_header_get_size h,
                    fm_header = h, fm_body = FetchResponse resp\<rparr>))))
       (thread (fetch_from_topic e (nf_replica_id req)) (nf_topics req) im)"

section \<open>Produce\<close>

definition append_to_partition ::
    "broker_env \<Rightarrow> acks \<Rightarrow> u8 list \<Rightarrow> produce_partition \<Rightarrow> image \<Rightarrow>
      (unit, image \<times> produce_partition_response) outcome option" where
  "append_to_partition e acks topic p im =
     (case broker_partition im topic (qp_index p) of
        Some a \<Rightarrow>
          (case handle_append (qp_records p) acks a of
             Ok (a1, reply) \<Rightarrow>
               (let im1 = AList.update (topic, qp_index p) a1 im
                in case reply of
                     Some resp \<Rightarrow> Some (Ok (im1, resp))
                   | None \<Rightarrow> map_option Ok
                       (en_await e (topic, qp_index p) (ps_log_end_offset (pa_snapshot a)) im1))
           | Err er \<Rightarrow> Some (Err er)
           | Panic \<Rightarrow> Some Panic)
      | None \<Rightarrow> Some (Ok (im, produce_partition_response_error (ucast (qp_index p)) UnknownTopicOrPartition)))"

definition append_to_topic ::
    "broker_env \<Rightarrow> acks \<Rightarrow> produce_topic \<Rightarrow> image \<Rightarrow> (unit, image \<times> produce_topic_response) outcome option" where
  "append_to_topic e acks t im =
     map_option (omap (\<lambda>(im1, ps). (im1, \<lparr>ptr_topic = qt_topic t, ptr_partition_responses = ps\<rparr>)))
       (thread (append_to_partition e acks (qt_topic t)) (qt_partitions t) im)"

definition broker_handle_produce ::
    "broker_env \<Rightarrow> request_header \<Rightarrow> produce_request \<Rightarrow> image \<Rightarrow> (unit, image \<times> frame) outcome option" where
  "broker_handle_produce e h req im =
     map_option (omap (\<lambda>(im1, ts).
         (let resp = \<lparr>prs_throttle_time_ms = en_elapsed e, prs_responses = ts\<rparr>
          in (im1, \<lparr>fm_size = produce_response_get_size resp + request_header_get_size h,
                    fm_header = h, fm_body = ProduceResponse resp\<rparr>))))
       (thread (append_to_topic e (qr_acks req)) (qr_topics req) im)"

section \<open>Metadata\<close>

definition partition_metadata_of :: "topic_partition \<Rightarrow> partition_actor \<Rightarrow> partition_metadata" where
  "partition_metadata_of key a =
     (let replicas = ps_replicas (pa_snapshot a)
      in \<lparr>pm_error_code = NoError, pm_partition_index = ucast (snd key), pm_leader_id = 0,
          pm_replica_nodes = of_nat (length replicas),
          pm_isr_nodes = of_nat (length (filter rm_is_in_sync replicas)),
          pm_offline_replicas = of_nat (length (filter (\<lambda>r. \<not> rm_is_in_sync r) replicas))\<rparr>)"

text \<open>The partitions grouped by topic.\<close>

definition push_entry :: "'k \<Rightarrow> 'v \<Rightarrow> ('k \<times> 'v list) list \<Rightarrow> ('k \<times> 'v list) list" where
  "push_entry k v m = AList.update k ((case map_of m k of Some vs \<Rightarrow> vs | None \<Rightarrow> []) @ [v]) m"

fun group_partitions ::
    "image \<Rightarrow> (u8 list \<times> partition_metadata list) list \<Rightarrow> (u8 list \<times> partition_metadata list) list" where
  "group_partitions [] topics = topics"
| "group_partitions ((key, a) # rest) topics =
     group_partitions rest (push_entry (fst key) (partition_metadata_of key a) topics)"

definition metadata_topics :: "broker_env \<Rightarrow> image \<Rightarrow> topic_metadata list" where
  "metadata_topics e im =
     map (\<lambda>(k, v). \<lparr>tm_error_code = NoError, tm_name = k, tm_partitions = v\<rparr>)
       (en_topic_order e (group_partitions (en_order e im) []))"

definition broker_handle_metadata ::
    "broker_env \<Rightarrow> request_header \<Rightarrow> broker_config list \<Rightarrow> image \<Rightarrow> frame" where
  "broker_handle_metadata e h brokers im =
     (let res = \<lparr>mr_throttle_time_ms = en_elapsed e, mr_brokers = map broker_metadata_from brokers,
                 mr_controller_id = 0, mr_topics = metadata_topics e im, mr_error_code = NoError\<rparr>
      in \<lparr>fm_size = request_header_get_size h + metadata_response_get_size res,
          fm_header = h, fm_body = MetadataResponse res\<rparr>)"

section \<open>Creating topics and dispatch\<close>

text \<open>When the metadata actor panics, the answer never comes and the handler fails with an error.\<close>

definition broker_handle_create_topics ::
    "broker_env \<Rightarrow> request_header \<Rightarrow> create_topic_request \<Rightarrow> metadata_actor \<Rightarrow>
      (unit, metadata_actor \<times> frame) outcome option" where
  "broker_handle_create_topics e h req m =
     map_option
       (\<lambda>r. case r of
          Ok (m1, res) \<Rightarrow>
            Ok (m1, \<lparr>fm_size = request_header_get_size h + create_topic_response_get_size res,
                     fm_header = h, fm_body = TopicResponse res\<rparr>)
        | _ \<Rightarrow> Err ())
       (metadata_handle (en_bytes e) (en_crc e) (en_read_dir e) (en_disk e) (en_clock e)
          (en_elapsed e) (CreateTopic req) m)"

text \<open>A frame that is not a request is refused with an error.\<close>

definition broker_handle :: "broker_env \<Rightarrow> frame \<Rightarrow> broker \<Rightarrow> (unit, broker \<times> frame) outcome option" where
  "broker_handle e f br =
     (let h = fm_header f in
      case fm_body f of
        Fetch req \<Rightarrow>
          map_option (omap (\<lambda>(im, g). (broker_set_image br im, g))) (broker_handle_fetch e h req (bk_image br))
      | Produce req \<Rightarrow>
          map_option (omap (\<lambda>(im, g). (broker_set_image br im, g))) (broker_handle_produce e h req (bk_image br))
      | Metadata req \<Rightarrow> Some (Ok (br, broker_handle_metadata e h (bk_brokers br) (bk_image br)))
      | Topic req \<Rightarrow>
          map_option (omap (\<lambda>(m, g). (br\<lparr>bk_meta := m\<rparr>, g))) (broker_handle_create_topics e h req (bk_meta br))
      | _ \<Rightarrow> Some (Err ()))"

text \<open>A new broker.\<close>

definition broker_new ::
    "broker_env \<Rightarrow> ((topic_record \<times> partition_record list) list \<Rightarrow> (topic_record \<times> partition_record list) list) \<Rightarrow>
      file_system \<Rightarrow> broker_config list \<Rightarrow> (unit, broker) outcome option" where
  "broker_new e order fs brokers =
     map_option (omap (\<lambda>m. \<lparr>bk_meta = m, bk_brokers = brokers\<rparr>))
       (metadata_actor_new (en_bytes e) (en_read_dir e) (en_disk e) order fs)"

section \<open>Loops\<close>

lemma thread_induct:
  assumes "thread f xs s = Some (Ok (s', ys))" and "P s"
    and "\<And>x s s1 y. x \<in> set xs \<Longrightarrow> P s \<Longrightarrow> f x s = Some (Ok (s1, y)) \<Longrightarrow> P s1 \<and> R x y"
  shows "P s' \<and> list_all2 R xs ys"
  using assms
proof (induction xs arbitrary: s ys)
  case (Cons x xs)
  from Cons.prems(1) obtain s1 y where step: "f x s = Some (Ok (s1, y))"
    by (cases "f x s") (auto split: outcome.splits)
  from Cons.prems(1) step obtain ys' where rest: "thread f xs s1 = Some (Ok (s', ys'))" and ys: "ys = y # ys'"
    by (cases "thread f xs s1") (auto simp: omap_eq_Ok)
  from Cons.prems(3) [OF _ Cons.prems(2) step] have "P s1" "R x y"
    by simp_all
  moreover have "P s' \<and> list_all2 R xs ys'"
    by (rule Cons.IH [OF rest \<open>P s1\<close>]) (meson Cons.prems(3) list.set_intros(2))
  ultimately show ?case
    using ys by simp
qed simp

lemma thread_total:
  assumes "P s" and "\<And>x s. x \<in> set xs \<Longrightarrow> P s \<Longrightarrow> \<exists>s1 y. f x s = Some (Ok (s1, y)) \<and> P s1"
  shows "\<exists>s' ys. thread f xs s = Some (Ok (s', ys))"
  using assms
proof (induction xs arbitrary: s)
  case (Cons x xs)
  then obtain s1 y where "f x s = Some (Ok (s1, y))" and "P s1"
    by (meson list.set_intros(1))
  moreover obtain s' ys where "thread f xs s1 = Some (Ok (s', ys))"
    using Cons.IH [OF \<open>P s1\<close>] Cons.prems(2) by fastforce
  ultimately show ?case
    by simp
qed simp

end
