(* ===== verification/Broker_Answers.thy ===== *)
theory Broker_Answers
  imports Broker_Handlers
begin

text \<open>
  What a broker answers: every partition of a fetch or produce request gets one answer, in the
  order of the request, a partition that is not there an error; and the metadata response lists
  every partition once.
\<close>

section \<open>Answers to fetch requests\<close>

abbreviation image_keys :: "image \<Rightarrow> topic_partition set" where
  "image_keys im \<equiv> dom (map_of im)"

lemma image_keys_update [simp]: "image_keys (AList.update k a im) = insert k (image_keys im)"
  by (simp add: update_conv')

definition fetch_answer :: "topic_partition set \<Rightarrow> u8 list \<Rightarrow> fetch_partition \<Rightarrow> partition_response \<Rightarrow> bool" where
  "fetch_answer keys topic p q \<longleftrightarrow>
     (let part = ucast (fp_partition p) :: u16
      in if (topic, part) \<in> keys then pr_error_code q = NoError \<and> pr_partition_index q = ucast part
         else q = partition_response_error (fp_partition p) UnknownTopicOrPartition)"

lemma state_fetch_answer:
  "state_fetch B crc data s i req = Some (Ok res) \<Longrightarrow> pr_error_code res = NoError \<and> pr_partition_index res = i"
  by (auto simp: state_fetch_def Let_def omap_eq_Ok split: if_splits)

lemma handle_fetch_answer:
  assumes "handle_fetch B crc i a req replica_id = Some (Ok (res, cmds))"
  shows "pr_error_code res = NoError \<and> pr_partition_index res = i"
proof -
  have "\<exists>r. state_fetch B crc (fs_data (pa_fs a)) (pa_snapshot a) i req = Some r \<and> (\<exists>x. r = Ok x \<and> x = res)"
    using assms by (auto simp: handle_fetch_def omap_eq_Ok)
  then show ?thesis
    using state_fetch_answer by blast
qed

lemma fetch_from_partition_answer:
  assumes "image_keys im = K" and "fetch_from_partition e replica_id topic p im = Some (Ok (im1, q))"
  shows "image_keys im1 = K \<and> fetch_answer K topic p q"
proof (cases "map_of im (topic, ucast (fp_partition p))")
  case None
  with assms show ?thesis
    by (auto simp: fetch_from_partition_def broker_partition_def fetch_answer_def Let_def)
next
  case (Some a)
  let ?r = "handle_fetch (en_bytes e) (en_crc e) (ucast (ucast (fp_partition p) :: u16)) a p replica_id"
  from assms(2) Some obtain r where r: "?r = Some r"
    and "obind r (\<lambda>(res, cmds). omap (\<lambda>(a1, fx). (AList.update (topic, ucast (fp_partition p)) a1 im, res))
           (actor_run (\<lambda>_. True) cmds a)) = Ok (im1, q)"
    by (auto simp: fetch_from_partition_def broker_partition_def Let_def)
  then obtain cmds a1 where "?r = Some (Ok (q, cmds))"
    and im1: "im1 = AList.update (topic, ucast (fp_partition p)) a1 im"
    by (auto simp: obind_eq_Ok omap_eq_Ok)
  moreover have "(topic, ucast (fp_partition p)) \<in> K"
    using Some assms(1) by auto
  ultimately show ?thesis
    using handle_fetch_answer assms(1) by (auto simp: fetch_answer_def Let_def)
qed

lemma fetch_from_topic_answer:
  assumes "image_keys im = K" and "fetch_from_topic e replica_id t im = Some (Ok (im1, r))"
  shows "image_keys im1 = K \<and> tr_topic r = ft_topic t
    \<and> list_all2 (fetch_answer K (ft_topic t)) (ft_partitions t) (tr_partitions r)"
proof -
  obtain ps where loop: "thread (fetch_from_partition e replica_id (ft_topic t)) (ft_partitions t) im = Some (Ok (im1, ps))"
    and r: "r = \<lparr>tr_topic = ft_topic t, tr_partitions = ps\<rparr>"
    using assms(2) by (auto simp: fetch_from_topic_def omap_eq_Ok)
  have "image_keys im1 = K \<and> list_all2 (fetch_answer K (ft_topic t)) (ft_partitions t) ps"
    by (rule thread_induct [OF loop, where P = "\<lambda>im. image_keys im = K"])
      (use assms(1) fetch_from_partition_answer in blast)+
  with r show ?thesis
    by simp
qed

section \<open>Answers to produce requests\<close>

text \<open>The answer to an append: the offset the log ended at, or an error.\<close>

definition produce_answer :: "topic_partition set \<Rightarrow> u8 list \<Rightarrow> produce_partition \<Rightarrow> produce_partition_response \<Rightarrow> bool" where
  "produce_answer keys topic p q \<longleftrightarrow>
     (if (topic, qp_index p) \<in> keys then pp_error_code q = NoError \<and> pp_error_message q = []
      else q = produce_partition_response_error (ucast (qp_index p)) UnknownTopicOrPartition)"

lemma append_to_partition_answer:
  assumes "acks \<noteq> AcksAll" and "image_keys im = K"
  shows "\<exists>im1 q. append_to_partition e acks topic p im = Some (Ok (im1, q))
    \<and> image_keys im1 = K \<and> produce_answer K topic p q"
  using assms
  by (cases "map_of im (topic, qp_index p)")
    (auto simp: append_to_partition_def broker_partition_def handle_append_now Let_def produce_answer_def
      produced_def produce_partition_response_new_def)

lemma append_to_topic_answer:
  assumes "acks \<noteq> AcksAll" and "image_keys im = K"
  shows "\<exists>im1 r. append_to_topic e acks t im = Some (Ok (im1, r)) \<and> image_keys im1 = K
    \<and> ptr_topic r = qt_topic t
    \<and> list_all2 (produce_answer K (qt_topic t)) (qt_partitions t) (ptr_partition_responses r)"
proof -
  let ?f = "append_to_partition e acks (qt_topic t)"
  have step: "\<exists>im1 q. ?f p im = Some (Ok (im1, q)) \<and> image_keys im1 = K" if "image_keys im = K" for p im
    using append_to_partition_answer [OF assms(1) that] by blast
  obtain im1 ps where loop: "thread ?f (qt_partitions t) im = Some (Ok (im1, ps))"
    using thread_total [of "\<lambda>im. image_keys im = K" im "qt_partitions t" ?f] assms(2) step by blast
  have "image_keys im1 = K \<and> list_all2 (produce_answer K (qt_topic t)) (qt_partitions t) ps"
  proof (rule thread_induct [OF loop, where P = "\<lambda>im. image_keys im = K"])
    show "image_keys s1 = K \<and> produce_answer K (qt_topic t) p q"
      if "image_keys s = K" and "?f p s = Some (Ok (s1, q))" for p s s1 q
      using append_to_partition_answer [OF assms(1) that(1), of e "qt_topic t" p] that(2) by auto
  qed (rule assms(2))
  with loop show ?thesis
    by (auto simp: append_to_topic_def)
qed

lemma broker_answers_produce:
  assumes "fm_body f = Produce req" and "qr_acks req \<noteq> AcksAll"
  shows "\<exists>br' g resp. broker_handle e f br = Some (Ok (br', g))
    \<and> fm_body g = ProduceResponse resp \<and> fm_header g = fm_header f
    \<and> fm_size g = request_header_get_size (fm_header g) + frame_body_get_size (fm_body g)
    \<and> list_all2 (\<lambda>t r. ptr_topic r = qt_topic t
        \<and> list_all2 (produce_answer (image_keys (bk_image br)) (qt_topic t)) (qt_partitions t)
            (ptr_partition_responses r))
      (qr_topics req) (prs_responses resp)"
proof -
  let ?K = "image_keys (bk_image br)" and ?f = "append_to_topic e (qr_acks req)"
  have step: "\<exists>im1 r. ?f t im = Some (Ok (im1, r)) \<and> image_keys im1 = ?K" if "image_keys im = ?K" for t im
    using append_to_topic_answer [OF assms(2) that] by blast
  obtain im1 ts where loop: "thread ?f (qr_topics req) (bk_image br) = Some (Ok (im1, ts))"
    using thread_total [of "\<lambda>im. image_keys im = ?K" "bk_image br" "qr_topics req" ?f] step by blast
  have "image_keys im1 = ?K \<and> list_all2 (\<lambda>t r. ptr_topic r = qt_topic t
        \<and> list_all2 (produce_answer ?K (qt_topic t)) (qt_partitions t) (ptr_partition_responses r))
      (qr_topics req) ts"
  proof (rule thread_induct [OF loop, where P = "\<lambda>im. image_keys im = ?K"])
    show "image_keys s1 = ?K \<and> ptr_topic r = qt_topic t
        \<and> list_all2 (produce_answer ?K (qt_topic t)) (qt_partitions t) (ptr_partition_responses r)"
      if "image_keys s = ?K" and "?f t s = Some (Ok (s1, r))" for t s s1 r
      using append_to_topic_answer [OF assms(2) that(1), of e t] that(2) by auto
  qed simp
  with loop assms(1) show ?thesis
    by (auto simp: broker_handle_def broker_handle_produce_def Let_def)
qed

section \<open>Grouping the partitions\<close>

definition entries_of :: "('k \<times> 'v list) list \<Rightarrow> ('k \<times> 'v) list" where
  "entries_of m = concat (map (\<lambda>(k, vs). map (Pair k) vs) m)"

lemma entries_of_push: "mset (entries_of (push_entry k v m)) = add_mset (k, v) (mset (entries_of m))"
proof (induction m)
  case (Cons p m)
  then show ?case
    by (cases p) (auto simp: entries_of_def push_entry_def)
qed (simp add: entries_of_def push_entry_def)

lemma push_entry_distinct: "distinct (map fst m) \<Longrightarrow> distinct (map fst (push_entry k v m))"
  by (simp add: push_entry_def)

lemma group_partitions_entries:
  "mset (entries_of (group_partitions im topics)) =
     mset (map (\<lambda>(key, a). (fst key, partition_metadata_of key a)) im) + mset (entries_of topics)"
  by (induction im topics rule: group_partitions.induct) (simp_all add: entries_of_push)

lemma group_partitions_distinct:
  "distinct (map fst topics) \<Longrightarrow> distinct (map fst (group_partitions im topics))"
  by (induction im topics rule: group_partitions.induct) (simp_all add: push_entry_distinct)

lemma entries_of_perm: "mset xs = mset ys \<Longrightarrow> mset (entries_of xs) = mset (entries_of ys)"
  unfolding entries_of_def by (rule mset_concat_map_perm)

section \<open>A sample broker\<close>

definition sample_env :: broker_env where
  "sample_env =
     \<lparr>en_bytes = list_bytes, en_crc = (\<lambda>bs. 7),
      en_read_dir = (\<lambda>fs. if fs_names fs (LogFile, 0) = None then [] else [0]),
      en_disk = (\<lambda>key. fs_empty), en_clock = (\<lambda>offset. 1000 + offset), en_elapsed = 3,
      en_await = (\<lambda>key offset im. None), en_order = rev, en_topic_order = rev\<rparr>"

definition sample_broker :: "partition_actor \<Rightarrow> broker" where
  "sample_broker a = \<lparr>bk_meta = \<lparr>ma_handle = a, ma_snapshot = [(([116], 0), a)]\<rparr>, bk_brokers = []\<rparr>"

definition sample_frame :: "api_key \<Rightarrow> frame_body \<Rightarrow> frame" where
  "sample_frame key body = frame_new 42 key body"

lemma sample_frame_body [simp]: "fm_body (sample_frame key body) = body"
  by (simp add: sample_frame_def frame_new_def Let_def)

definition sample_fetch :: net_fetch_request where
  "sample_fetch =
     \<lparr>nf_replica_id = - 1, nf_max_bytes = 4096,
      nf_topics = [\<lparr>ft_topic = [116],
        ft_partitions = [(fetch_partition_from 1)\<lparr>fp_partition := 65536\<rparr>,
                         (fetch_partition_from 1)\<lparr>fp_partition := 1\<rparr>]\<rparr>]\<rparr>"

definition sample_produce_request :: produce_request where
  "sample_produce_request =
     \<lparr>qr_transactional_id = 0, qr_acks = AcksLeader, qr_timeout = 0,
      qr_topics = [\<lparr>qt_topic = [116],
        qt_partitions = [\<lparr>qp_index = 0, qp_records = sample_produce\<rparr>, \<lparr>qp_index = 1, qp_records = sample_produce\<rparr>]\<rparr>]\<rparr>"

lemma sample_image [simp]:
  "bk_image (sample_broker a) = [(([116], 0), a)]"
  "broker_partition [(([116], 0), a)] [116] 0 = Some a"
  "broker_partition [(([116], 0), a)] [116] 1 = None"
  by (simp_all add: sample_broker_def bk_image_def broker_partition_def)

lemma u16_wraps [simp]: "(65536 :: u16) = 0"
  by (simp add: word_unat_eq_iff)

text \<open>The fetch reads the partition 0, for which it asks by the number 65536, and misses the other.\<close>

lemma sample_fetch_runs:
  assumes log: "log_holds (\<lambda>bs. 7) a [batch_update_base_offset 0 sample_produce] [rebased sample_records]"
  shows "\<exists>br' g. broker_handle sample_env (sample_frame ApiFetch (Fetch sample_fetch)) (sample_broker a) = Some (Ok (br', g))"
proof -
  let ?p = "(fetch_partition_from 1)\<lparr>fp_partition := 65536\<rparr>"
  have "unat (fp_fetch_offset ?p) < length (concat [rebased sample_records])"
    by (simp add: fetch_partition_from_def length_sample_records)
  then obtain res where
    "state_fetch list_bytes (\<lambda>bs. 7) (fs_data (pa_fs a)) (pa_snapshot a) 0 ?p = Some (Ok res)"
    using list_bytes.state_fetch_holds [OF log, of ?p 0] by blast
  then have "handle_fetch list_bytes (\<lambda>bs. 7) 0 a ?p (- 1) = Some (Ok (res, []))"
    by (simp add: handle_fetch_def)
  then show ?thesis
    by (simp add: sample_frame_def frame_new_def sample_fetch_def broker_handle_def broker_handle_fetch_def
        fetch_from_topic_def fetch_from_partition_def sample_env_def Let_def)
qed

lemma sample_actor_exists:
  "\<exists>a. log_holds (\<lambda>bs. 7) a [batch_update_base_offset 0 sample_produce] [rebased sample_records]"
proof -
  let ?reqs = "[(sample_produce, 1 :: nat)]" and ?rs = "rebased sample_records"
  have holds: "batches_hold (map fst ?reqs) [?rs]"
    using sample_produce_stored by simp
  have ne: "\<forall>rs \<in> set [?rs]. rs \<noteq> []"
    by (auto simp: rebased_def sample_records_def)
  have crcs: "\<forall>(b, reply) \<in> set ?reqs. batch_checksum (\<lambda>bs. 7) b \<and> (\<lambda>reply. True) reply"
    using sample_produce_holds(2) by simp
  have bytes: "sum_list (map (\<lambda>b. 61 + length (rb_records b)) (map fst ?reqs)) < 2 ^ 64"
    using sample_produce_length by simp
  have cfg: "0 < pc_segment_bytes sample_config" and len: "length (concat [?rs]) < 2 ^ 64"
    and acks: "AcksLeader \<noteq> AcksAll"
    by (simp_all add: sample_config_def length_sample_records)
  show ?thesis
    by (rule appends_to_new [OF cfg acks holds ne crcs len bytes]) auto
qed

section \<open>Properties\<close>

text \<open>C22: when a fetch request is answered, the answer has its header and topics and, for every
  partition in order, the partition that its number cast to sixteen bits names, or the error for
  an unknown one; the declared size is that of the header and the body.\<close>

theorem fetch_answers_every_partition:
  assumes "fm_body f = Fetch req" and "broker_handle e f br = Some (Ok (br', g))"
  shows "\<exists>resp. fm_body g = FetchResponse resp \<and> fm_header g = fm_header f
    \<and> fm_size g = request_header_get_size (fm_header g) + frame_body_get_size (fm_body g)
    \<and> list_all2 (\<lambda>t r. tr_topic r = ft_topic t
        \<and> list_all2 (fetch_answer (image_keys (bk_image br)) (ft_topic t)) (ft_partitions t) (tr_partitions r))
      (nf_topics req) (nr_responses resp)"
proof -
  let ?K = "image_keys (bk_image br)"
  obtain im1 where "broker_handle_fetch e (fm_header f) req (bk_image br) = Some (Ok (im1, g))"
    using assms by (auto simp: broker_handle_def Let_def omap_eq_Ok)
  then obtain ts where loop: "thread (fetch_from_topic e (nf_replica_id req)) (nf_topics req) (bk_image br) = Some (Ok (im1, ts))"
    and g: "g = (let resp = \<lparr>nr_throttle_time_ms = en_elapsed e, nr_responses = ts\<rparr>
      in \<lparr>fm_size = fetch_response_get_size resp + request_header_get_size (fm_header f),
          fm_header = fm_header f, fm_body = FetchResponse resp\<rparr>)"
    by (auto simp: broker_handle_fetch_def omap_eq_Ok Let_def)
  have "image_keys im1 = ?K \<and> list_all2 (\<lambda>t r. tr_topic r = ft_topic t
        \<and> list_all2 (fetch_answer ?K (ft_topic t)) (ft_partitions t) (tr_partitions r)) (nf_topics req) ts"
    by (rule thread_induct [OF loop, where P = "\<lambda>im. image_keys im = ?K"])
      (use fetch_from_topic_answer in blast)+
  with g show ?thesis
    by (simp add: Let_def)
qed

lemma fetch_answers_every_partition_witness:
  "\<exists>a br' g resp. broker_handle sample_env (sample_frame ApiFetch (Fetch sample_fetch)) (sample_broker a) = Some (Ok (br', g))
    \<and> fm_body g = FetchResponse resp
    \<and> map (\<lambda>r. map (\<lambda>q. (pr_partition_index q, pr_error_code q)) (tr_partitions r)) (nr_responses resp) =
        [[(0, NoError), (1, UnknownTopicOrPartition)]]"
proof -
  obtain a where "log_holds (\<lambda>bs. 7) a [batch_update_base_offset 0 sample_produce] [rebased sample_records]"
    using sample_actor_exists by blast
  then obtain br' g where run:
    "broker_handle sample_env (sample_frame ApiFetch (Fetch sample_fetch)) (sample_broker a) = Some (Ok (br', g))"
    using sample_fetch_runs by blast
  have body: "fm_body (sample_frame ApiFetch (Fetch sample_fetch)) = Fetch sample_fetch"
    by simp
  obtain resp where resp: "fm_body g = FetchResponse resp" and
    "list_all2 (\<lambda>t r. tr_topic r = ft_topic t
        \<and> list_all2 (fetch_answer (image_keys (bk_image (sample_broker a))) (ft_topic t)) (ft_partitions t) (tr_partitions r))
      (nf_topics sample_fetch) (nr_responses resp)"
    using fetch_answers_every_partition [OF body run] by blast
  then have "map (\<lambda>r. map (\<lambda>q. (pr_partition_index q, pr_error_code q)) (tr_partitions r)) (nr_responses resp) =
        [[(0, NoError), (1, UnknownTopicOrPartition)]]"
    by (auto simp: sample_fetch_def list_all2_Cons1 fetch_answer_def partition_response_error_def)
  with run resp show ?thesis
    by (intro exI [of _ a] exI [of _ br'] exI [of _ g] exI [of _ resp] conjI)
qed

text \<open>C21: a produce request that does not ask for all replicas is always answered, with its header
  and topics and, for every partition in order, an acknowledgement or the error for an unknown
  one.\<close>

theorem produce_always_answered:
  assumes "fm_body f = Produce req" and "qr_acks req \<noteq> AcksAll"
  shows "\<exists>br' g resp. broker_handle e f br = Some (Ok (br', g))
    \<and> fm_body g = ProduceResponse resp \<and> fm_header g = fm_header f
    \<and> fm_size g = request_header_get_size (fm_header g) + frame_body_get_size (fm_body g)
    \<and> list_all2 (\<lambda>t r. ptr_topic r = qt_topic t
        \<and> list_all2 (produce_answer (image_keys (bk_image br)) (qt_topic t)) (qt_partitions t)
            (ptr_partition_responses r))
      (qr_topics req) (prs_responses resp)"
  by (rule broker_answers_produce [OF assms])

lemma produce_always_answered_witness:
  "\<forall>a. \<exists>br' g resp. broker_handle sample_env (sample_frame ApiProduce (Produce sample_produce_request)) (sample_broker a)
      = Some (Ok (br', g))
    \<and> fm_body g = ProduceResponse resp
    \<and> map (\<lambda>r. map pp_error_code (ptr_partition_responses r)) (prs_responses resp) =
        [[NoError, UnknownTopicOrPartition]]"
proof
  fix a
  have body: "fm_body (sample_frame ApiProduce (Produce sample_produce_request)) = Produce sample_produce_request"
    by simp
  have "qr_acks sample_produce_request \<noteq> AcksAll"
    by (simp add: sample_produce_request_def)
  from produce_always_answered [OF body this, of sample_env "sample_broker a"]
  obtain br' g resp where "broker_handle sample_env (sample_frame ApiProduce (Produce sample_produce_request)) (sample_broker a)
      = Some (Ok (br', g))" "fm_body g = ProduceResponse resp"
    "list_all2 (\<lambda>t r. ptr_topic r = qt_topic t
        \<and> list_all2 (produce_answer (image_keys (bk_image (sample_broker a))) (qt_topic t)) (qt_partitions t)
            (ptr_partition_responses r))
      (qr_topics sample_produce_request) (prs_responses resp)"
    by blast
  then show "\<exists>br' g resp. broker_handle sample_env (sample_frame ApiProduce (Produce sample_produce_request)) (sample_broker a)
      = Some (Ok (br', g))
    \<and> fm_body g = ProduceResponse resp
    \<and> map (\<lambda>r. map pp_error_code (ptr_partition_responses r)) (prs_responses resp) =
        [[NoError, UnknownTopicOrPartition]]"
    by (auto simp: sample_produce_request_def list_all2_Cons1 produce_answer_def
        produce_partition_response_error_def)
qed

text \<open>C23: whatever the order in which the maps are iterated, the metadata response lists every
  partition of the image once, under its topic, with the counts of its replicas in sync and not,
  and every topic once.\<close>

theorem metadata_lists_every_partition:
  assumes "fm_body f = Metadata req" and "mset (en_order e (bk_image br)) = mset (bk_image br)"
    and "\<And>ts. mset (en_topic_order e ts) = mset ts"
  shows "\<exists>g resp. broker_handle e f br = Some (Ok (br, g))
    \<and> fm_body g = MetadataResponse resp \<and> fm_header g = fm_header f
    \<and> fm_size g = request_header_get_size (fm_header g) + frame_body_get_size (fm_body g)
    \<and> distinct (map tm_name (mr_topics resp))
    \<and> mset (concat (map (\<lambda>t. map (Pair (tm_name t)) (tm_partitions t)) (mr_topics resp)))
        = mset (map (\<lambda>(key, a). (fst key, partition_metadata_of key a)) (bk_image br))"
proof -
  let ?g = "group_partitions (en_order e (bk_image br)) []"
  have "map tm_name (metadata_topics e (bk_image br)) = map fst (en_topic_order e ?g)"
    by (simp add: metadata_topics_def case_prod_unfold)
  moreover have "distinct (map fst (en_topic_order e ?g))"
    using distinct_perm [OF assms(3) [of ?g], of fst] group_partitions_distinct [of "[]"] by simp
  moreover have "map (\<lambda>t. map (Pair (tm_name t)) (tm_partitions t)) (metadata_topics e (bk_image br))
      = map (\<lambda>(k, vs). map (Pair k) vs) (en_topic_order e ?g)"
    by (simp add: metadata_topics_def case_prod_unfold)
  moreover have "mset (entries_of (en_topic_order e ?g))
      = mset (map (\<lambda>(key, a). (fst key, partition_metadata_of key a)) (bk_image br))"
    using entries_of_perm [OF assms(3) [of ?g]] assms(2)
    by (simp add: group_partitions_entries) (simp add: entries_of_def)
  ultimately show ?thesis
    using assms(1) by (simp add: broker_handle_def broker_handle_metadata_def Let_def entries_of_def)
qed

lemma metadata_lists_every_partition_witness:
  "\<forall>a. \<exists>g resp. broker_handle sample_env (sample_frame ApiMetadata (Metadata \<lparr>mq_topics = [], mq_allow_auto_topic_creation = True\<rparr>))
      (sample_broker a) = Some (Ok (sample_broker a, g))
    \<and> fm_body g = MetadataResponse resp \<and> distinct (map tm_name (mr_topics resp))
    \<and> mset (concat (map (\<lambda>t. map (Pair (tm_name t)) (tm_partitions t)) (mr_topics resp)))
        = {# ([116], partition_metadata_of ([116], 0) a) #}"
proof
  fix a
  let ?f = "sample_frame ApiMetadata (Metadata \<lparr>mq_topics = [], mq_allow_auto_topic_creation = True\<rparr>)"
  have body: "fm_body ?f = Metadata \<lparr>mq_topics = [], mq_allow_auto_topic_creation = True\<rparr>"
    by simp
  have "mset (en_order sample_env (bk_image (sample_broker a))) = mset (bk_image (sample_broker a))"
    and "mset (en_topic_order sample_env ts) = mset ts" for ts
    by (simp_all add: sample_env_def)
  from metadata_lists_every_partition [OF body this]
  show "\<exists>g resp. broker_handle sample_env ?f (sample_broker a) = Some (Ok (sample_broker a, g))
    \<and> fm_body g = MetadataResponse resp \<and> distinct (map tm_name (mr_topics resp))
    \<and> mset (concat (map (\<lambda>t. map (Pair (tm_name t)) (tm_partitions t)) (mr_topics resp)))
        = {# ([116], partition_metadata_of ([116], 0) a) #}"
    by simp blast
qed

end
