(* ===== verification/Net_Encode.thy ===== *)
theory Net_Encode
  imports Net_Types
begin

text \<open>
  Writing frames: \<open>Frame::encode\<close> (\<open>crates/network/src/protocol/mod.rs\<close>), one definition per
  body and per loop of the source, over the writers of the crate \<open>bytes\<close>.
\<close>

section \<open>Header\<close>

definition encode_client_id :: "bytes_ops \<Rightarrow> u8 list option \<Rightarrow> u8 list \<Rightarrow> u8 list" where
  "encode_client_id B client_id =
     (case client_id of
        Some c \<Rightarrow> emit [bo_put_i16 B (of_nat (length c)), bo_put_slice B c]
      | None \<Rightarrow> emit [bo_put_i16 B (- 1)])"

definition encode_request_header :: "bytes_ops \<Rightarrow> request_header \<Rightarrow> u8 list \<Rightarrow> u8 list" where
  "encode_request_header B h =
     emit [bo_put_u32 B (api_key_to_u32 (rq_api_key h)), bo_put_u32 B (rq_api_version h),
           bo_put_u32 B (rq_correlation_id h), encode_client_id B (rq_client_id h)]"

text \<open>A string with its length before it, in sixteen bits.\<close>

definition put_string :: "bytes_ops \<Rightarrow> u8 list \<Rightarrow> u8 list \<Rightarrow> u8 list" where
  "put_string B s = emit [bo_put_u16 B (of_nat (length s)), bo_put_slice B s]"

definition put_string_i16 :: "bytes_ops \<Rightarrow> u8 list \<Rightarrow> u8 list \<Rightarrow> u8 list" where
  "put_string_i16 B s = emit [bo_put_i16 B (of_nat (length s)), bo_put_slice B s]"

definition put_bool :: "bytes_ops \<Rightarrow> bool \<Rightarrow> u8 list \<Rightarrow> u8 list" where
  "put_bool B b = bo_put_u8 B (if b then 1 else 0)"

section \<open>Produce\<close>

definition encode_produce_partition :: "bytes_ops \<Rightarrow> produce_partition \<Rightarrow> u8 list \<Rightarrow> u8 list" where
  "encode_produce_partition B p =
     (let hdr = batch_encode_header (qp_records p);
          batch_len = of_nat (length hdr + length (rb_records (qp_records p)))
      in emit [bo_put_u16 B (qp_index p), bo_put_u32 B batch_len, bo_put_slice B hdr,
               bo_put_slice B (rb_records (qp_records p))])"

definition encode_produce_topic :: "bytes_ops \<Rightarrow> produce_topic \<Rightarrow> u8 list \<Rightarrow> u8 list" where
  "encode_produce_topic B t =
     emit [put_string B (qt_topic t), bo_put_u32 B (of_nat (length (qt_partitions t))),
           emit (map (encode_produce_partition B) (qt_partitions t))]"

definition encode_produce :: "bytes_ops \<Rightarrow> produce_request \<Rightarrow> u8 list \<Rightarrow> u8 list" where
  "encode_produce B req =
     emit [bo_put_u64 B (qr_transactional_id req), bo_put_u32 B (acks_to_u32 (qr_acks req)),
           bo_put_u64 B (of_nat (duration_as_millis (qr_timeout req))),
           bo_put_u16 B (of_nat (length (qr_topics req))),
           emit (map (encode_produce_topic B) (qr_topics req))]"

definition encode_current_leader :: "bytes_ops \<Rightarrow> current_leader option \<Rightarrow> u8 list \<Rightarrow> u8 list" where
  "encode_current_leader B l =
     (case l of
        Some leader \<Rightarrow> emit [bo_put_u8 B 1, bo_put_i32 B (cl_leader_id leader), bo_put_u32 B (cl_leader_epoch leader)]
      | None \<Rightarrow> bo_put_u8 B 0)"

definition encode_produce_partition_response ::
    "bytes_ops \<Rightarrow> produce_partition_response \<Rightarrow> u8 list \<Rightarrow> u8 list" where
  "encode_produce_partition_response B p =
     emit [bo_put_u32 B (pp_index p), bo_put_i16 B (error_code_to_i16 (pp_error_code p)),
           bo_put_u64 B (pp_base_offset p), bo_put_u64 B (pp_log_append_time_ms p),
           bo_put_u64 B (pp_log_start_offset p), put_string_i16 B (pp_error_message p),
           encode_current_leader B (pp_current_leader p)]"

definition encode_produce_topic_response ::
    "bytes_ops \<Rightarrow> produce_topic_response \<Rightarrow> u8 list \<Rightarrow> u8 list" where
  "encode_produce_topic_response B t =
     emit [put_string B (ptr_topic t), bo_put_u32 B (of_nat (length (ptr_partition_responses t))),
           emit (map (encode_produce_partition_response B) (ptr_partition_responses t))]"

definition encode_produce_response :: "bytes_ops \<Rightarrow> produce_response \<Rightarrow> u8 list \<Rightarrow> u8 list" where
  "encode_produce_response B resp =
     emit [bo_put_u32 B (prs_throttle_time_ms resp), bo_put_u32 B (of_nat (length (prs_responses resp))),
           emit (map (encode_produce_topic_response B) (prs_responses resp))]"

section \<open>Fetch\<close>

definition encode_fetch_partition :: "bytes_ops \<Rightarrow> fetch_partition \<Rightarrow> u8 list \<Rightarrow> u8 list" where
  "encode_fetch_partition B p =
     emit [bo_put_u32 B (fp_partition p), bo_put_u64 B (fp_fetch_offset p),
           bo_put_u32 B (fp_partition_max_bytes p), bo_put_u64 B (fp_high_watermark p)]"

definition encode_fetch_topic :: "bytes_ops \<Rightarrow> fetch_topic \<Rightarrow> u8 list \<Rightarrow> u8 list" where
  "encode_fetch_topic B t =
     emit [put_string B (ft_topic t), bo_put_u32 B (of_nat (length (ft_partitions t))),
           emit (map (encode_fetch_partition B) (ft_partitions t))]"

definition encode_fetch :: "bytes_ops \<Rightarrow> net_fetch_request \<Rightarrow> u8 list \<Rightarrow> u8 list" where
  "encode_fetch B req =
     emit [bo_put_i32 B (nf_replica_id req), bo_put_u32 B (nf_max_bytes req),
           bo_put_u32 B (of_nat (length (nf_topics req))),
           emit (map (encode_fetch_topic B) (nf_topics req))]"

definition encode_response_batch :: "bytes_ops \<Rightarrow> record_batch \<Rightarrow> u8 list \<Rightarrow> u8 list" where
  "encode_response_batch B b =
     emit [bo_put_slice B (batch_encode_header b), bo_put_slice B (rb_records b)]"

definition encode_partition_response :: "bytes_ops \<Rightarrow> partition_response \<Rightarrow> u8 list \<Rightarrow> u8 list" where
  "encode_partition_response B p =
     emit [bo_put_u32 B (pr_partition_index p), bo_put_i16 B (error_code_to_i16 (pr_error_code p)),
           bo_put_u64 B (pr_high_watermark p), bo_put_u64 B (pr_log_start_offset p),
           bo_put_u32 B (of_nat (length (pr_records p))),
           emit (map (encode_response_batch B) (pr_records p))]"

definition encode_topic_response :: "bytes_ops \<Rightarrow> topic_response \<Rightarrow> u8 list \<Rightarrow> u8 list" where
  "encode_topic_response B t =
     emit [put_string B (tr_topic t), bo_put_u32 B (of_nat (length (tr_partitions t))),
           emit (map (encode_partition_response B) (tr_partitions t))]"

definition encode_fetch_response :: "bytes_ops \<Rightarrow> net_fetch_response \<Rightarrow> u8 list \<Rightarrow> u8 list" where
  "encode_fetch_response B resp =
     emit [bo_put_u32 B (nr_throttle_time_ms resp), bo_put_u32 B (of_nat (length (nr_responses resp))),
           emit (map (encode_topic_response B) (nr_responses resp))]"

section \<open>Metadata and topics\<close>

definition encode_metadata :: "bytes_ops \<Rightarrow> metadata_request \<Rightarrow> u8 list \<Rightarrow> u8 list" where
  "encode_metadata B req =
     emit [bo_put_u32 B (of_nat (length (mq_topics req))),
           emit (map (put_string_i16 B) (mq_topics req)),
           put_bool B (mq_allow_auto_topic_creation req)]"

definition encode_broker_metadata :: "bytes_ops \<Rightarrow> broker_metadata \<Rightarrow> u8 list \<Rightarrow> u8 list" where
  "encode_broker_metadata B b =
     emit [bo_put_i32 B (bm_node_id b), put_string B (bm_host b), bo_put_i32 B (bm_port b)]"

definition encode_partition_metadata :: "bytes_ops \<Rightarrow> partition_metadata \<Rightarrow> u8 list \<Rightarrow> u8 list" where
  "encode_partition_metadata B p =
     emit [bo_put_i16 B (error_code_to_i16 (pm_error_code p)), bo_put_i32 B (pm_partition_index p),
           bo_put_i32 B (pm_leader_id p), bo_put_u32 B (pm_replica_nodes p),
           bo_put_u32 B (pm_isr_nodes p), bo_put_u32 B (pm_offline_replicas p)]"

definition encode_topic_metadata :: "bytes_ops \<Rightarrow> topic_metadata \<Rightarrow> u8 list \<Rightarrow> u8 list" where
  "encode_topic_metadata B t =
     emit [bo_put_i16 B (error_code_to_i16 (tm_error_code t)), put_string B (tm_name t),
           bo_put_u32 B (of_nat (length (tm_partitions t))),
           emit (map (encode_partition_metadata B) (tm_partitions t))]"

definition encode_metadata_response :: "bytes_ops \<Rightarrow> metadata_response \<Rightarrow> u8 list \<Rightarrow> u8 list" where
  "encode_metadata_response B res =
     emit [bo_put_u32 B (mr_throttle_time_ms res), bo_put_u32 B (of_nat (length (mr_brokers res))),
           emit (map (encode_broker_metadata B) (mr_brokers res)),
           bo_put_i32 B (mr_controller_id res), bo_put_u32 B (of_nat (length (mr_topics res))),
           emit (map (encode_topic_metadata B) (mr_topics res)),
           bo_put_i16 B (error_code_to_i16 (mr_error_code res))]"

definition encode_assignment :: "bytes_ops \<Rightarrow> topic_partition_assignment \<Rightarrow> u8 list \<Rightarrow> u8 list" where
  "encode_assignment B a =
     emit [bo_put_i32 B (ta_partition_index a), bo_put_i32 B (ta_broker_ids a)]"

definition encode_topic_request :: "bytes_ops \<Rightarrow> topic_request \<Rightarrow> u8 list \<Rightarrow> u8 list" where
  "encode_topic_request B t =
     emit [put_string B (tq_name t), bo_put_i32 B (tq_num_partitions t),
           bo_put_u16 B (tq_replication_factor t), bo_put_u16 B (of_nat (length (tq_assignments t))),
           emit (map (encode_assignment B) (tq_assignments t))]"

definition encode_create_topics :: "bytes_ops \<Rightarrow> create_topic_request \<Rightarrow> u8 list \<Rightarrow> u8 list" where
  "encode_create_topics B req =
     emit [bo_put_u16 B (of_nat (length (cq_topics req))),
           emit (map (encode_topic_request B) (cq_topics req)),
           bo_put_u32 B (cq_timeout_ms req), put_bool B (cq_validate_only req)]"

definition encode_create_topic_topic_response ::
    "bytes_ops \<Rightarrow> create_topic_topic_response \<Rightarrow> u8 list \<Rightarrow> u8 list" where
  "encode_create_topic_topic_response B t =
     emit [put_string B (ct_name t), bo_put_i16 B (error_code_to_i16 (ct_error_code t)),
           put_string B (ct_error_message t), bo_put_i32 B (ct_num_partitions t),
           bo_put_u16 B (ct_replication_factor t)]"

definition encode_create_topics_response :: "bytes_ops \<Rightarrow> create_topic_response \<Rightarrow> u8 list \<Rightarrow> u8 list" where
  "encode_create_topics_response B resp =
     emit [bo_put_u32 B (cr_throttle_time_ms resp), bo_put_u16 B (of_nat (length (cr_topics resp))),
           emit (map (encode_create_topic_topic_response B) (cr_topics resp))]"

section \<open>Frames\<close>

fun encode_body :: "bytes_ops \<Rightarrow> frame_body \<Rightarrow> u8 list \<Rightarrow> u8 list" where
  "encode_body B (Produce req) = encode_produce B req"
| "encode_body B (Fetch req) = encode_fetch B req"
| "encode_body B (FetchResponse resp) = encode_fetch_response B resp"
| "encode_body B (ProduceResponse resp) = encode_produce_response B resp"
| "encode_body B (Metadata req) = encode_metadata B req"
| "encode_body B (Topic req) = encode_create_topics B req"
| "encode_body B (TopicResponse resp) = encode_create_topics_response B resp"
| "encode_body B (MetadataResponse res) = encode_metadata_response B res"

text \<open>The first four bytes are written last, over the zero that holds their place.\<close>

definition frame_encode :: "bytes_ops \<Rightarrow> frame \<Rightarrow> u8 list" where
  "frame_encode B f =
     (let buf = emit [bo_put_u32 B 0, encode_request_header B (fm_header f), encode_body B (fm_body f)] [];
          sz = of_nat (length buf - 4)
      in be32 sz @ drop 4 buf)"

end
