(* ===== verification/Net_Decode.thy ===== *)
theory Net_Decode
  imports Net_Types
begin

text \<open>
  Reading frames: \<open>RequestDecoder\<close> and \<open>ResponseDecoder\<close>
  (\<open>crates/network/src/protocol/codec.rs\<close>), one definition per function and per loop body.
  A getter or \<open>split_to\<close> on a buffer that is too short panics.
\<close>

datatype parse_error = InvalidApiKey | InvalidAck | InvalidClientId | InvalidBatch proto_error

section \<open>Pieces\<close>

definition map_error :: "('e \<Rightarrow> 'f) \<Rightarrow> ('e, 'a) outcome \<Rightarrow> ('f, 'a) outcome" where
  "map_error f m = (case m of Ok a \<Rightarrow> Ok a | Err e \<Rightarrow> Err (f e) | Panic \<Rightarrow> Panic)"

text \<open>A computation that reads nothing.\<close>

definition rlift :: "('e, 'a) outcome \<Rightarrow> ('e, 'a) reader" where
  "rlift m bs = omap (\<lambda>a. (a, bs)) m"

text \<open>\<open>len as usize\<close> of a signed length: a negative one is a very large number.\<close>

definition i16_as_usize :: "i16 \<Rightarrow> nat" where
  "i16_as_usize n = unat (scast n :: u64)"

text \<open>A string after its length; the bytes are decoded lossily.\<close>

definition get_string :: "bytes_ops \<Rightarrow> ('e, u8 list) reader" where
  "get_string B =
     rbind (rget (bo_get_u16 B)) (\<lambda>len.
     rbind (rget (bo_split_to B (unat len))) (\<lambda>bytes.
     rret (from_utf8_lossy bytes)))"

definition get_error_code :: "bytes_ops \<Rightarrow> ('e, error_code) reader" where
  "get_error_code B =
     rbind (rget (bo_get_i16 B)) (\<lambda>v. rret (error_code_unwrap_or UnknownServerError v))"

definition get_bool :: "bytes_ops \<Rightarrow> ('e, bool) reader" where
  "get_bool B = rbind (rget (bo_get_u8 B)) (\<lambda>b. rret (b \<noteq> 0))"

definition get_client_id :: "bytes_ops \<Rightarrow> (parse_error, u8 list option) reader" where
  "get_client_id B =
     rbind (rget (bo_get_i16 B)) (\<lambda>client_id_len.
     if 0 \<le> sint client_id_len
     then rbind (rget (bo_split_to B (i16_as_usize client_id_len))) (\<lambda>bytes.
          case from_utf8 bytes of Some s \<Rightarrow> rret (Some s) | None \<Rightarrow> rfail InvalidClientId)
     else rret None)"

definition get_request_header :: "bytes_ops \<Rightarrow> (parse_error, request_header) reader" where
  "get_request_header B =
     rbind (rget (bo_get_u32 B)) (\<lambda>key.
     rbind (rget (bo_get_u32 B)) (\<lambda>api_version.
     rbind (rget (bo_get_u32 B)) (\<lambda>correlation_id.
     rbind (get_client_id B) (\<lambda>client_id.
     rbind (rlift (map_error (\<lambda>_. InvalidApiKey) (api_key_try_from key))) (\<lambda>api_key.
     rret \<lparr>rq_api_key = api_key, rq_api_version = api_version,
           rq_correlation_id = correlation_id, rq_client_id = client_id\<rparr>)))))"

section \<open>Requests\<close>

definition parse_produce_partition ::
    "bytes_ops \<Rightarrow> (u8 list \<Rightarrow> u32) \<Rightarrow> (parse_error, produce_partition) reader" where
  "parse_produce_partition B crc =
     rbind (rget (bo_get_u16 B)) (\<lambda>partition_id.
     rbind (rget (bo_get_u32 B)) (\<lambda>batch_len.
     rbind (rget (bo_split_to B (unat batch_len))) (\<lambda>batch_bytes.
     rbind (rlift (map_error InvalidBatch (batch_decode B crc batch_bytes))) (\<lambda>record_batch.
     rret \<lparr>qp_index = partition_id, qp_records = record_batch\<rparr>))))"

definition parse_produce_topic ::
    "bytes_ops \<Rightarrow> (u8 list \<Rightarrow> u32) \<Rightarrow> (parse_error, produce_topic) reader" where
  "parse_produce_topic B crc =
     rbind (get_string B) (\<lambda>topic.
     rbind (rget (bo_get_u32 B)) (\<lambda>partition_length.
     rbind (rrepeat (unat partition_length) (parse_produce_partition B crc)) (\<lambda>partitions.
     rret \<lparr>qt_topic = topic, qt_partitions = partitions\<rparr>)))"

definition parse_produce :: "bytes_ops \<Rightarrow> (u8 list \<Rightarrow> u32) \<Rightarrow> (parse_error, frame_body) reader" where
  "parse_produce B crc =
     rbind (rget (bo_get_u64 B)) (\<lambda>transactional_id.
     rbind (rget (bo_get_u32 B)) (\<lambda>v.
     rbind (rlift (map_error (\<lambda>_. InvalidAck) (acks_try_from v))) (\<lambda>acks.
     rbind (rget (bo_get_u64 B)) (\<lambda>millis.
     rbind (rget (bo_get_u16 B)) (\<lambda>topic_size.
     rbind (rrepeat (unat topic_size) (parse_produce_topic B crc)) (\<lambda>topics.
     rret (Produce \<lparr>qr_transactional_id = transactional_id, qr_acks = acks,
                    qr_timeout = duration_from_millis millis, qr_topics = topics\<rparr>)))))))"

definition parse_fetch_partition :: "bytes_ops \<Rightarrow> (parse_error, fetch_partition) reader" where
  "parse_fetch_partition B =
     rbind (rget (bo_get_u32 B)) (\<lambda>part.
     rbind (rget (bo_get_u64 B)) (\<lambda>fetch_offset.
     rbind (rget (bo_get_u32 B)) (\<lambda>partition_max_bytes.
     rbind (rget (bo_get_u64 B)) (\<lambda>high_watermark.
     rret \<lparr>fp_partition = part, fp_fetch_offset = fetch_offset,
           fp_partition_max_bytes = partition_max_bytes, fp_high_watermark = high_watermark\<rparr>))))"

definition parse_fetch_topic :: "bytes_ops \<Rightarrow> (parse_error, fetch_topic) reader" where
  "parse_fetch_topic B =
     rbind (get_string B) (\<lambda>topic.
     rbind (rget (bo_get_u32 B)) (\<lambda>partitions_len.
     rbind (rrepeat (unat partitions_len) (parse_fetch_partition B)) (\<lambda>partitions.
     rret \<lparr>ft_topic = topic, ft_partitions = partitions\<rparr>)))"

definition parse_fetch :: "bytes_ops \<Rightarrow> (parse_error, frame_body) reader" where
  "parse_fetch B =
     rbind (rget (bo_get_i32 B)) (\<lambda>replica_id.
     rbind (rget (bo_get_u32 B)) (\<lambda>max_bytes.
     rbind (rget (bo_get_u32 B)) (\<lambda>topics_len.
     rbind (rrepeat (unat topics_len) (parse_fetch_topic B)) (\<lambda>topics.
     rret (Fetch \<lparr>nf_replica_id = replica_id, nf_max_bytes = max_bytes, nf_topics = topics\<rparr>)))))"

definition parse_metadata_topic :: "bytes_ops \<Rightarrow> (parse_error, u8 list) reader" where
  "parse_metadata_topic B =
     rbind (rget (bo_get_i16 B)) (\<lambda>topic_name_len.
     rbind (rget (bo_split_to B (i16_as_usize topic_name_len))) (\<lambda>topic.
     rret (from_utf8_lossy topic)))"

definition parse_metadata :: "bytes_ops \<Rightarrow> (parse_error, frame_body) reader" where
  "parse_metadata B =
     rbind (rget (bo_get_u32 B)) (\<lambda>topic_len.
     rbind (rrepeat (unat topic_len) (parse_metadata_topic B)) (\<lambda>topics.
     rbind (get_bool B) (\<lambda>allow_auto_topic_creation.
     rret (Metadata \<lparr>mq_topics = topics,
                     mq_allow_auto_topic_creation = allow_auto_topic_creation\<rparr>))))"

definition parse_assignment :: "bytes_ops \<Rightarrow> (parse_error, topic_partition_assignment) reader" where
  "parse_assignment B =
     rbind (rget (bo_get_i32 B)) (\<lambda>partition_index.
     rbind (rget (bo_get_i32 B)) (\<lambda>broker_ids.
     rret \<lparr>ta_partition_index = partition_index, ta_broker_ids = broker_ids\<rparr>))"

definition parse_topic_request :: "bytes_ops \<Rightarrow> (parse_error, topic_request) reader" where
  "parse_topic_request B =
     rbind (get_string B) (\<lambda>name.
     rbind (rget (bo_get_i32 B)) (\<lambda>num_partitions.
     rbind (rget (bo_get_u16 B)) (\<lambda>replication_factor.
     rbind (rget (bo_get_u16 B)) (\<lambda>assignments_count.
     rbind (rrepeat (unat assignments_count) (parse_assignment B)) (\<lambda>assignments.
     rret \<lparr>tq_name = name, tq_num_partitions = num_partitions,
           tq_replication_factor = replication_factor, tq_assignments = assignments\<rparr>)))))"

definition parse_create_topics :: "bytes_ops \<Rightarrow> (parse_error, frame_body) reader" where
  "parse_create_topics B =
     rbind (rget (bo_get_u16 B)) (\<lambda>topics_count.
     rbind (rrepeat (unat topics_count) (parse_topic_request B)) (\<lambda>topics.
     rbind (rget (bo_get_u32 B)) (\<lambda>timeout_ms.
     rbind (get_bool B) (\<lambda>validate_only.
     rret (Topic \<lparr>cq_topics = topics, cq_timeout_ms = timeout_ms, cq_validate_only = validate_only\<rparr>)))))"

fun parse_request_body ::
    "bytes_ops \<Rightarrow> (u8 list \<Rightarrow> u32) \<Rightarrow> api_key \<Rightarrow> (parse_error, frame_body) reader" where
  "parse_request_body B crc ApiProduce = parse_produce B crc"
| "parse_request_body B crc ApiFetch = parse_fetch B"
| "parse_request_body B crc ApiMetadata = parse_metadata B"
| "parse_request_body B crc ApiCreateTopics = parse_create_topics B"

definition request_parse :: "bytes_ops \<Rightarrow> (u8 list \<Rightarrow> u32) \<Rightarrow> u32 \<Rightarrow> (parse_error, frame) reader" where
  "request_parse B crc sz =
     rbind (get_request_header B) (\<lambda>hdr.
     rbind (parse_request_body B crc (rq_api_key hdr)) (\<lambda>body.
     rret \<lparr>fm_size = sz, fm_header = hdr, fm_body = body\<rparr>))"

text \<open>The buffer is cloned, so what is left of it is dropped.\<close>

definition frame_decode ::
    "bytes_ops \<Rightarrow> (u8 list \<Rightarrow> u32) \<Rightarrow> u8 list \<Rightarrow> u32 \<Rightarrow> (parse_error, frame) outcome" where
  "frame_decode B crc buf sz = omap fst (request_parse B crc sz buf)"

section \<open>Responses\<close>

definition parse_broker_metadata :: "bytes_ops \<Rightarrow> (parse_error, broker_metadata) reader" where
  "parse_broker_metadata B =
     rbind (rget (bo_get_i32 B)) (\<lambda>node_id.
     rbind (get_string B) (\<lambda>host.
     rbind (rget (bo_get_i32 B)) (\<lambda>port.
     rret \<lparr>bm_node_id = node_id, bm_host = host, bm_port = port\<rparr>)))"

definition parse_partition_metadata :: "bytes_ops \<Rightarrow> (parse_error, partition_metadata) reader" where
  "parse_partition_metadata B =
     rbind (get_error_code B) (\<lambda>code.
     rbind (rget (bo_get_i32 B)) (\<lambda>partition_index.
     rbind (rget (bo_get_i32 B)) (\<lambda>leader_id.
     rbind (rget (bo_get_u32 B)) (\<lambda>replica_nodes.
     rbind (rget (bo_get_u32 B)) (\<lambda>isr_nodes.
     rbind (rget (bo_get_u32 B)) (\<lambda>offline_replicas.
     rret \<lparr>pm_error_code = code, pm_partition_index = partition_index, pm_leader_id = leader_id,
           pm_replica_nodes = replica_nodes, pm_isr_nodes = isr_nodes,
           pm_offline_replicas = offline_replicas\<rparr>))))))"

definition parse_topic_metadata :: "bytes_ops \<Rightarrow> (parse_error, topic_metadata) reader" where
  "parse_topic_metadata B =
     rbind (get_error_code B) (\<lambda>code.
     rbind (get_string B) (\<lambda>name.
     rbind (rget (bo_get_u32 B)) (\<lambda>partitions_count.
     rbind (rrepeat (unat partitions_count) (parse_partition_metadata B)) (\<lambda>partitions.
     rret \<lparr>tm_error_code = code, tm_name = name, tm_partitions = partitions\<rparr>))))"

definition parse_metadata_response :: "bytes_ops \<Rightarrow> (parse_error, frame_body) reader" where
  "parse_metadata_response B =
     rbind (rget (bo_get_u32 B)) (\<lambda>throttle_time_ms.
     rbind (rget (bo_get_u32 B)) (\<lambda>brokers_count.
     rbind (rrepeat (unat brokers_count) (parse_broker_metadata B)) (\<lambda>brokers.
     rbind (rget (bo_get_i32 B)) (\<lambda>controller_id.
     rbind (rget (bo_get_u32 B)) (\<lambda>topics_count.
     rbind (rrepeat (unat topics_count) (parse_topic_metadata B)) (\<lambda>topics.
     rbind (get_error_code B) (\<lambda>code.
     rret (MetadataResponse
       \<lparr>mr_throttle_time_ms = throttle_time_ms, mr_brokers = brokers,
        mr_controller_id = controller_id, mr_topics = topics, mr_error_code = code\<rparr>))))))))"

definition get_error_message :: "bytes_ops \<Rightarrow> (parse_error, u8 list) reader" where
  "get_error_message B =
     rbind (rget (bo_get_i16 B)) (\<lambda>error_message_len.
     if 0 < sint error_message_len
     then rbind (rget (bo_split_to B (i16_as_usize error_message_len))) (\<lambda>bytes. rret (from_utf8_lossy bytes))
     else rret [])"

definition get_current_leader :: "bytes_ops \<Rightarrow> (parse_error, current_leader option) reader" where
  "get_current_leader B =
     rbind (get_bool B) (\<lambda>has_leader.
     if has_leader
     then rbind (rget (bo_get_i32 B)) (\<lambda>leader_id.
          rbind (rget (bo_get_u32 B)) (\<lambda>leader_epoch.
          rret (Some \<lparr>cl_leader_id = leader_id, cl_leader_epoch = leader_epoch\<rparr>)))
     else rret None)"

definition parse_produce_partition_response ::
    "bytes_ops \<Rightarrow> (parse_error, produce_partition_response) reader" where
  "parse_produce_partition_response B =
     rbind (rget (bo_get_u32 B)) (\<lambda>index.
     rbind (get_error_code B) (\<lambda>code.
     rbind (rget (bo_get_u64 B)) (\<lambda>base_offset.
     rbind (rget (bo_get_u64 B)) (\<lambda>log_append_time_ms.
     rbind (rget (bo_get_u64 B)) (\<lambda>log_start_offset.
     rbind (get_error_message B) (\<lambda>error_message.
     rbind (get_current_leader B) (\<lambda>current_leader.
     rret \<lparr>pp_index = index, pp_error_code = code, pp_base_offset = base_offset,
           pp_log_append_time_ms = log_append_time_ms, pp_log_start_offset = log_start_offset,
           pp_error_message = error_message, pp_current_leader = current_leader\<rparr>)))))))"

definition parse_produce_topic_response :: "bytes_ops \<Rightarrow> (parse_error, produce_topic_response) reader" where
  "parse_produce_topic_response B =
     rbind (get_string B) (\<lambda>topic.
     rbind (rget (bo_get_u32 B)) (\<lambda>partition_count.
     rbind (rrepeat (unat partition_count) (parse_produce_partition_response B)) (\<lambda>partition_responses.
     rret \<lparr>ptr_topic = topic, ptr_partition_responses = partition_responses\<rparr>)))"

definition parse_produce_response :: "bytes_ops \<Rightarrow> (parse_error, frame_body) reader" where
  "parse_produce_response B =
     rbind (rget (bo_get_u32 B)) (\<lambda>throttle_time_ms.
     rbind (rget (bo_get_u32 B)) (\<lambda>responses_count.
     rbind (rrepeat (unat responses_count) (parse_produce_topic_response B)) (\<lambda>responses.
     rret (ProduceResponse \<lparr>prs_throttle_time_ms = throttle_time_ms, prs_responses = responses\<rparr>))))"

definition parse_response_batch :: "bytes_ops \<Rightarrow> (u8 list \<Rightarrow> u32) \<Rightarrow> (parse_error, record_batch) reader" where
  "parse_response_batch B crc =
     rbind (rget (bo_get_u64 B)) (\<lambda>base_offset.
     rbind (rget (bo_get_u32 B)) (\<lambda>batch_length.
     rbind (rget (bo_split_to B (unat batch_length))) (\<lambda>payload.
     let combined = be64 base_offset @ be32 batch_length @ payload
     in rlift (map_error InvalidBatch (batch_decode B crc combined)))))"

definition parse_partition_response ::
    "bytes_ops \<Rightarrow> (u8 list \<Rightarrow> u32) \<Rightarrow> (parse_error, partition_response) reader" where
  "parse_partition_response B crc =
     rbind (rget (bo_get_u32 B)) (\<lambda>partition_index.
     rbind (get_error_code B) (\<lambda>code.
     rbind (rget (bo_get_u64 B)) (\<lambda>high_watermark.
     rbind (rget (bo_get_u64 B)) (\<lambda>log_start_offset.
     rbind (rget (bo_get_u32 B)) (\<lambda>records_count.
     rbind (rrepeat (unat records_count) (parse_response_batch B crc)) (\<lambda>records.
     rret \<lparr>pr_partition_index = partition_index, pr_error_code = code,
           pr_high_watermark = high_watermark, pr_log_start_offset = log_start_offset,
           pr_records = records\<rparr>))))))"

definition parse_topic_response ::
    "bytes_ops \<Rightarrow> (u8 list \<Rightarrow> u32) \<Rightarrow> (parse_error, topic_response) reader" where
  "parse_topic_response B crc =
     rbind (get_string B) (\<lambda>topic.
     rbind (rget (bo_get_u32 B)) (\<lambda>partitions_count.
     rbind (rrepeat (unat partitions_count) (parse_partition_response B crc)) (\<lambda>partitions.
     rret \<lparr>tr_topic = topic, tr_partitions = partitions\<rparr>)))"

definition parse_fetch_response ::
    "bytes_ops \<Rightarrow> (u8 list \<Rightarrow> u32) \<Rightarrow> (parse_error, frame_body) reader" where
  "parse_fetch_response B crc =
     rbind (rget (bo_get_u32 B)) (\<lambda>throttle_time_ms.
     rbind (rget (bo_get_u32 B)) (\<lambda>responses_count.
     rbind (rrepeat (unat responses_count) (parse_topic_response B crc)) (\<lambda>responses.
     rret (FetchResponse \<lparr>nr_throttle_time_ms = throttle_time_ms, nr_responses = responses\<rparr>))))"

definition parse_create_topic_topic_response ::
    "bytes_ops \<Rightarrow> (parse_error, create_topic_topic_response) reader" where
  "parse_create_topic_topic_response B =
     rbind (get_string B) (\<lambda>name.
     rbind (get_error_code B) (\<lambda>code.
     rbind (get_string B) (\<lambda>error_message.
     rbind (rget (bo_get_i32 B)) (\<lambda>num_partitions.
     rbind (rget (bo_get_u16 B)) (\<lambda>replication_factor.
     rret \<lparr>ct_name = name, ct_error_code = code, ct_error_message = error_message,
           ct_num_partitions = num_partitions, ct_replication_factor = replication_factor\<rparr>)))))"

definition parse_create_topics_response :: "bytes_ops \<Rightarrow> (parse_error, frame_body) reader" where
  "parse_create_topics_response B =
     rbind (rget (bo_get_u32 B)) (\<lambda>throttle_time_ms.
     rbind (rget (bo_get_u16 B)) (\<lambda>topics_count.
     rbind (rrepeat (unat topics_count) (parse_create_topic_topic_response B)) (\<lambda>topics.
     rret (TopicResponse \<lparr>cr_throttle_time_ms = throttle_time_ms, cr_topics = topics\<rparr>))))"

fun parse_response_body ::
    "bytes_ops \<Rightarrow> (u8 list \<Rightarrow> u32) \<Rightarrow> api_key \<Rightarrow> (parse_error, frame_body) reader" where
  "parse_response_body B crc ApiMetadata = parse_metadata_response B"
| "parse_response_body B crc ApiProduce = parse_produce_response B"
| "parse_response_body B crc ApiFetch = parse_fetch_response B crc"
| "parse_response_body B crc ApiCreateTopics = parse_create_topics_response B"

definition response_parse :: "bytes_ops \<Rightarrow> (u8 list \<Rightarrow> u32) \<Rightarrow> u32 \<Rightarrow> (parse_error, frame) reader" where
  "response_parse B crc sz =
     rbind (get_request_header B) (\<lambda>hdr.
     rbind (parse_response_body B crc (rq_api_key hdr)) (\<lambda>body.
     rret \<lparr>fm_size = sz, fm_header = hdr, fm_body = body\<rparr>))"

definition frame_decode_response ::
    "bytes_ops \<Rightarrow> (u8 list \<Rightarrow> u32) \<Rightarrow> u8 list \<Rightarrow> u32 \<Rightarrow> (parse_error, frame) outcome" where
  "frame_decode_response B crc buf sz = omap fst (response_parse B crc sz buf)"

end
