(* ===== verification/Net_Codec.thy ===== *)
theory Net_Codec
  imports Net_Encode Net_Decode
begin

text \<open>
  What a writer and a reader have to do with each other. \<open>codec w p x n\<close> says that the writer
  appends bytes of its own to the buffer, that the reader turns them back into \<open>x\<close> and leaves
  what follows them, that it panics when it gets only a part of them, and that \<open>n\<close> is their
  number, in the thirty-two bits the sizes are computed in. The rules below build the codec of a
  message from those of its fields in the order of the source; the sizes the messages declare
  come out of the same rules.
\<close>

section \<open>Rules\<close>

definition codec :: "(u8 list \<Rightarrow> u8 list) \<Rightarrow> ('e, 'a) reader \<Rightarrow> 'a \<Rightarrow> u32 \<Rightarrow> bool" where
  "codec w p x n \<longleftrightarrow>
     (\<exists>s. (\<forall>buf. w buf = buf @ s) \<and> (\<forall>rest. p (s @ rest) = Ok (x, rest))
        \<and> (\<forall>k < length s. p (take k s) = Panic) \<and> of_nat (length s) = n)"

lemma codecI:
  assumes "\<And>buf. w buf = buf @ s" and "\<And>rest. p (s @ rest) = Ok (x, rest)"
    and "\<And>k. k < length s \<Longrightarrow> p (take k s) = Panic" and "of_nat (length s) = n"
  shows "codec w p x n"
  unfolding codec_def using assms by blast

lemma codec_size: "codec w p x n \<Longrightarrow> n = k \<Longrightarrow> codec w p x k"
  by simp

lemma codec_done: "x = y \<Longrightarrow> codec (emit []) (rret x) y 0"
  by (rule codecI [of _ "[]"]) simp_all

lemma codec_seq:
  assumes "codec w p x n" and "codec (emit ws) (f x) y m"
  shows "codec (emit (w # ws)) (rbind p f) y (n + m)"
proof -
  obtain s where s: "\<forall>buf. w buf = buf @ s" "\<forall>rest. p (s @ rest) = Ok (x, rest)"
    "\<forall>k < length s. p (take k s) = Panic" "of_nat (length s) = n"
    using assms(1) unfolding codec_def by blast
  obtain t where t: "\<forall>buf. emit ws buf = buf @ t" "\<forall>rest. f x (t @ rest) = Ok (y, rest)"
    "\<forall>k < length t. f x (take k t) = Panic" "of_nat (length t) = m"
    using assms(2) unfolding codec_def by blast
  show ?thesis
  proof (rule codecI [of _ "s @ t"])
    show "rbind p f (take k (s @ t)) = Panic" if "k < length (s @ t)" for k
      using that s(2,3) t(3) by (cases "k < length s") (simp_all add: rbind_def)
  qed (use s t in \<open>simp_all add: rbind_def\<close>)
qed

lemma codec_lift:
  assumes "m = Ok a" and "codec w (f a) y n"
  shows "codec w (rbind (rlift m) f) y n"
  using assms by (simp add: codec_def rbind_def rlift_def)

lemma codec_lift_done: "m = Ok x \<Longrightarrow> codec (emit []) (rlift m) x 0"
  by (rule codecI [of _ "[]"]) (simp_all add: rlift_def)

lemma codec_last:
  assumes "codec w p x n" and "g x = y"
  shows "codec w (rbind p (\<lambda>a. rret (g a))) y n"
proof -
  have "codec (emit [w]) (rbind p (\<lambda>a. rret (g a))) y (n + 0)"
    using assms(1) by (rule codec_seq) (rule codec_done [OF assms(2)])
  then show ?thesis
    by (simp add: codec_def)
qed

lemma codec_list:
  assumes "k = length xs" and "\<And>x. x \<in> set xs \<Longrightarrow> codec (e x) p x (sz x)"
  shows "codec (emit (map e xs)) (rrepeat k p) xs (sum_list (map sz xs))"
proof -
  have "codec (emit (map e xs)) (rrepeat (length xs) p) xs (sum_list (map sz xs))"
    using assms(2)
  proof (induction xs)
    case Nil
    show ?case
      by (simp add: codec_def)
  next
    case (Cons x xs)
    then have "codec (e x) p x (sz x)" by simp
    moreover have "codec (emit (map e xs)) (rbind (rrepeat (length xs) p) (\<lambda>ys. rret (x # ys))) (x # xs)
        (sum_list (map sz xs))"
      using Cons by (intro codec_last) auto
    ultimately show ?case
      unfolding list.map list.size add_Suc_right add_0_right rrepeat.simps sum_list_simps
      by (rule codec_seq)
  qed
  with assms(1) show ?thesis by simp
qed

section \<open>Fields\<close>

text \<open>The strings a length field of \<open>k\<close> bits can announce.\<close>

definition string_fits :: "nat \<Rightarrow> u8 list \<Rightarrow> bool" where
  "string_fits k s \<longleftrightarrow> utf8_valid s \<and> length s < 2 ^ k"

lemma i16_as_usize_of_nat:
  assumes "n < 2 ^ 15"
  shows "i16_as_usize (of_nat n) = n" and "0 \<le> sint (of_nat n :: i16)"
    and "0 < sint (of_nat n :: i16) \<longleftrightarrow> 0 < n"
proof -
  have s: "sint (of_nat n :: i16) = int n"
    using assms by (simp add: signed_of_nat signed_take_bit_int_eq_self)
  then show "0 \<le> sint (of_nat n :: i16)" and "0 < sint (of_nat n :: i16) \<longleftrightarrow> 0 < n"
    by simp_all
  have "(scast (of_nat n :: i16) :: u64) = of_nat n"
    by (metis s of_int_of_nat_eq of_int_sint)
  then show "i16_as_usize (of_nat n) = n"
    using assms by (simp add: i16_as_usize_def)
qed

context bytes_crate
begin

lemma get_front_short:
  "length bs < 1 \<Longrightarrow> rget (bo_get_u8 B) bs = Panic"
  "length bs < 2 \<Longrightarrow> rget (bo_get_u16 B) bs = Panic"
  "length bs < 4 \<Longrightarrow> rget (bo_get_u32 B) bs = Panic"
  "length bs < 8 \<Longrightarrow> rget (bo_get_u64 B) bs = Panic"
  "length bs < 2 \<Longrightarrow> rget (bo_get_i16 B) bs = Panic"
  "length bs < 4 \<Longrightarrow> rget (bo_get_i32 B) bs = Panic"
  "length bs < n \<Longrightarrow> rget (bo_split_to B n) bs = Panic"
  by (simp_all add: rget_def get_u8 get_u16 get_u32 get_u64 get_i16 get_i32 split_to
      get_front_def take_front_def)

lemma codec_u8: "codec (bo_put_u8 B w) (rget (bo_get_u8 B)) w 1"
  by (rule codecI [of _ "[w]"]) (simp_all add: puts gets get_front_short)

lemma codec_u16: "codec (bo_put_u16 B w) (rget (bo_get_u16 B)) w 2"
  by (rule codecI [of _ "be16 w"]) (simp_all add: puts gets get_front_short)

lemma codec_u32: "codec (bo_put_u32 B w) (rget (bo_get_u32 B)) w 4"
  by (rule codecI [of _ "be32 w"]) (simp_all add: puts gets get_front_short)

lemma codec_u64: "codec (bo_put_u64 B w) (rget (bo_get_u64 B)) w 8"
  by (rule codecI [of _ "be64 w"]) (simp_all add: puts gets get_front_short)

lemma codec_i16: "codec (bo_put_i16 B w) (rget (bo_get_i16 B)) w 2"
  by (rule codecI [of _ "be16 w"]) (simp_all add: puts gets get_front_short)

lemma codec_i32: "codec (bo_put_i32 B w) (rget (bo_get_i32 B)) w 4"
  by (rule codecI [of _ "be32 w"]) (simp_all add: puts gets get_front_short)

lemma codec_slice:
  "k = length s \<Longrightarrow> codec (bo_put_slice B s) (rget (bo_split_to B k)) s (of_nat (length s))"
  by (rule codecI [of _ s]) (simp_all add: puts gets get_front_short)

lemma codec_string:
  assumes "string_fits 16 s"
  shows "codec (put_string B s) (get_string B) s (2 + of_nat (length s))"
  unfolding put_string_def get_string_def
  using assms
  by - (rule codec_size, (rule codec_seq codec_u16 codec_slice codec_done
    | simp add: string_fits_def from_utf8_lossy_valid)+)

lemma codec_string_i16:
  assumes "string_fits 15 s"
  shows "codec (put_string_i16 B s) (parse_metadata_topic B) s (2 + of_nat (length s))"
  unfolding put_string_i16_def parse_metadata_topic_def
  using assms
  by - (rule codec_size, (rule codec_seq codec_i16 codec_slice codec_done
    | simp add: string_fits_def from_utf8_lossy_valid i16_as_usize_of_nat)+)

lemma codec_bool: "codec (put_bool B b) (get_bool B) b 1"
  unfolding put_bool_def get_bool_def by (rule codec_last, rule codec_u8) simp

lemma codec_error_code:
  "codec (bo_put_i16 B (error_code_to_i16 e)) (get_error_code B) e 2"
  unfolding get_error_code_def by (rule codec_last, rule codec_i16) simp

lemma codec_client_id:
  assumes "\<forall>s. c = Some s \<longrightarrow> string_fits 15 s"
  shows "codec (encode_client_id B c) (get_client_id B) c
    (2 + of_nat (case c of Some s \<Rightarrow> length s | None \<Rightarrow> 0))"
proof (cases c)
  case None
  then show ?thesis
    unfolding encode_client_id_def get_client_id_def
    by (simp only: option.case) (rule codec_size, (rule codec_seq codec_i16 codec_done | simp)+)
next
  case (Some s)
  with assms have "string_fits 15 s" by simp
  with Some show ?thesis
    unfolding encode_client_id_def get_client_id_def
    by (simp only: option.case)
      (rule codec_size, (rule codec_seq codec_i16 codec_slice codec_done
        | simp add: string_fits_def i16_as_usize_of_nat from_utf8_def)+)
qed

lemmas codec_fields =
  codec_seq codec_done codec_u8 codec_u16 codec_u32 codec_u64 codec_i32
  codec_string codec_bool codec_error_code

end

end
