(* ===== verification/Net_Bodies.thy ===== *)
theory Net_Bodies
  imports Net_Codec
begin

text \<open>
  The codec of every message: what the encoder writes for it the decoder of its kind reads back,
  and the size the message declares is the number of its bytes. The predicates \<open>fits\<close> say when:
  the strings are UTF-8, every length can be announced in the width of its field, and the batches
  are whole.
\<close>

section \<open>What fits on the wire\<close>

definition batch_fits :: "(u8 list \<Rightarrow> u32) \<Rightarrow> record_batch \<Rightarrow> bool" where
  "batch_fits crc b \<longleftrightarrow>
     batch_sized b \<and> length (batch_layout b) < 2 ^ 32 \<and> batch_checksum crc b"

definition produce_topic_fits :: "(u8 list \<Rightarrow> u32) \<Rightarrow> produce_topic \<Rightarrow> bool" where
  "produce_topic_fits crc t \<longleftrightarrow>
     string_fits 16 (qt_topic t) \<and> length (qt_partitions t) < 2 ^ 32
     \<and> (\<forall>p \<in> set (qt_partitions t). batch_fits crc (qp_records p))"

text \<open>A timeout is sent in milliseconds.\<close>

definition duration_fits :: "duration \<Rightarrow> bool" where
  "duration_fits d \<longleftrightarrow> 1000000 dvd d \<and> duration_as_millis d < 2 ^ 64"

definition produce_partition_response_fits :: "produce_partition_response \<Rightarrow> bool" where
  "produce_partition_response_fits p \<longleftrightarrow> string_fits 15 (pp_error_message p)"

definition produce_topic_response_fits :: "produce_topic_response \<Rightarrow> bool" where
  "produce_topic_response_fits t \<longleftrightarrow>
     string_fits 16 (ptr_topic t) \<and> length (ptr_partition_responses t) < 2 ^ 32
     \<and> (\<forall>p \<in> set (ptr_partition_responses t). produce_partition_response_fits p)"

definition fetch_topic_fits :: "fetch_topic \<Rightarrow> bool" where
  "fetch_topic_fits t \<longleftrightarrow> string_fits 16 (ft_topic t) \<and> length (ft_partitions t) < 2 ^ 32"

definition partition_response_fits :: "(u8 list \<Rightarrow> u32) \<Rightarrow> partition_response \<Rightarrow> bool" where
  "partition_response_fits crc p \<longleftrightarrow>
     length (pr_records p) < 2 ^ 32 \<and> (\<forall>b \<in> set (pr_records p). batch_fits crc b)"

definition topic_response_fits :: "(u8 list \<Rightarrow> u32) \<Rightarrow> topic_response \<Rightarrow> bool" where
  "topic_response_fits crc t \<longleftrightarrow>
     string_fits 16 (tr_topic t) \<and> length (tr_partitions t) < 2 ^ 32
     \<and> (\<forall>p \<in> set (tr_partitions t). partition_response_fits crc p)"

definition topic_metadata_fits :: "topic_metadata \<Rightarrow> bool" where
  "topic_metadata_fits t \<longleftrightarrow> string_fits 16 (tm_name t) \<and> length (tm_partitions t) < 2 ^ 32"

definition topic_request_fits :: "topic_request \<Rightarrow> bool" where
  "topic_request_fits t \<longleftrightarrow> string_fits 16 (tq_name t) \<and> length (tq_assignments t) < 2 ^ 16"

definition create_topic_topic_response_fits :: "create_topic_topic_response \<Rightarrow> bool" where
  "create_topic_topic_response_fits t \<longleftrightarrow> string_fits 16 (ct_name t) \<and> string_fits 16 (ct_error_message t)"

fun body_fits :: "(u8 list \<Rightarrow> u32) \<Rightarrow> frame_body \<Rightarrow> bool" where
  "body_fits crc (Produce req) \<longleftrightarrow>
     duration_fits (qr_timeout req) \<and> length (qr_topics req) < 2 ^ 16
     \<and> (\<forall>t \<in> set (qr_topics req). produce_topic_fits crc t)"
| "body_fits crc (ProduceResponse resp) \<longleftrightarrow>
     length (prs_responses resp) < 2 ^ 32 \<and> (\<forall>t \<in> set (prs_responses resp). produce_topic_response_fits t)"
| "body_fits crc (Fetch req) \<longleftrightarrow>
     length (nf_topics req) < 2 ^ 32 \<and> (\<forall>t \<in> set (nf_topics req). fetch_topic_fits t)"
| "body_fits crc (FetchResponse resp) \<longleftrightarrow>
     length (nr_responses resp) < 2 ^ 32 \<and> (\<forall>t \<in> set (nr_responses resp). topic_response_fits crc t)"
| "body_fits crc (Metadata req) \<longleftrightarrow>
     length (mq_topics req) < 2 ^ 32 \<and> (\<forall>t \<in> set (mq_topics req). string_fits 15 t)"
| "body_fits crc (MetadataResponse resp) \<longleftrightarrow>
     length (mr_brokers resp) < 2 ^ 32 \<and> length (mr_topics resp) < 2 ^ 32
     \<and> (\<forall>b \<in> set (mr_brokers resp). string_fits 16 (bm_host b))
     \<and> (\<forall>t \<in> set (mr_topics resp). topic_metadata_fits t)"
| "body_fits crc (Topic req) \<longleftrightarrow>
     length (cq_topics req) < 2 ^ 16 \<and> (\<forall>t \<in> set (cq_topics req). topic_request_fits t)"
| "body_fits crc (TopicResponse resp) \<longleftrightarrow>
     length (cr_topics resp) < 2 ^ 16 \<and> (\<forall>t \<in> set (cr_topics resp). create_topic_topic_response_fits t)"

definition header_fits_wire :: "request_header \<Rightarrow> bool" where
  "header_fits_wire h \<longleftrightarrow> (\<forall>s. rq_client_id h = Some s \<longrightarrow> string_fits 15 s)"

definition frame_fits :: "(u8 list \<Rightarrow> u32) \<Rightarrow> frame \<Rightarrow> bool" where
  "frame_fits crc f \<longleftrightarrow> header_fits_wire (fm_header f) \<and> body_fits crc (fm_body f)"

lemma duration_fits_eq:
  assumes "duration_fits d"
  shows "duration_from_millis (of_nat (duration_as_millis d)) = d"
  using assms by (simp add: duration_fits_def duration_from_millis_def duration_as_millis_def)

section \<open>Requests\<close>

context bytes_crate
begin

lemma codec_header:
  assumes "header_fits_wire h"
  shows "codec (encode_request_header B h) (get_request_header B) h (request_header_get_size h)"
  using assms
  by (cases h)
    (simp only: encode_request_header_def get_request_header_def request_header_get_size_def Let_def
        header_fits_wire_def,
      rule codec_size, (rule codec_fields codec_lift codec_client_id | simp add: map_error_def)+)

lemma codec_produce_partition:
  assumes "batch_fits crc (qp_records p)"
  shows "codec (encode_produce_partition B p) (parse_produce_partition B crc) p
    (2 + 4 + batch_get_size (qp_records p))"
proof -
  let ?b = "qp_records p"
  have b: "batch_sized ?b" "length (batch_layout ?b) < 2 ^ 32" "batch_checksum crc ?b"
    using assms by (simp_all add: batch_fits_def)
  have "encode_produce_partition B p =
      emit [bo_put_u16 B (qp_index p), bo_put_u32 B (of_nat (length (batch_layout ?b))), bo_put_slice B (batch_layout ?b)]"
    by (simp add: encode_produce_partition_def Let_def fun_eq_iff puts batch_layout_def)
  then show ?thesis
    using b unfolding parse_produce_partition_def
    by - (simp only:, rule codec_size, (rule codec_fields codec_slice codec_lift
      | simp add: batch_decode_layout map_error_def batch_get_size_layout)+)
qed

lemma codec_produce_topic:
  assumes "produce_topic_fits crc t"
  shows "codec (encode_produce_topic B t) (parse_produce_topic B crc) t
    (2 + of_nat (length (qt_topic t)) + 4
     + sum_list (map (\<lambda>p. 2 + 4 + batch_get_size (qp_records p)) (qt_partitions t)))"
  using assms unfolding encode_produce_topic_def parse_produce_topic_def produce_topic_fits_def
  by - (rule codec_size, (rule codec_fields codec_list codec_produce_partition | simp)+)

lemma codec_produce:
  assumes "body_fits crc (Produce req)"
  shows "codec (encode_produce B req) (parse_produce B crc) (Produce req) (produce_request_get_size req)"
  using assms unfolding encode_produce_def parse_produce_def produce_request_get_size_def Let_def
  by - (rule codec_size, (rule codec_fields codec_lift codec_list codec_produce_topic
    | simp add: map_error_def duration_fits_eq)+)

lemma codec_fetch_partition:
  "codec (encode_fetch_partition B p) (parse_fetch_partition B) p 24"
  unfolding encode_fetch_partition_def parse_fetch_partition_def
  by (rule codec_size, (rule codec_fields | simp)+)

lemma codec_fetch_topic:
  assumes "fetch_topic_fits t"
  shows "codec (encode_fetch_topic B t) (parse_fetch_topic B) t
    (2 + of_nat (length (ft_topic t)) + 4 + of_nat (length (ft_partitions t)) * 24)"
  using assms unfolding encode_fetch_topic_def parse_fetch_topic_def fetch_topic_fits_def
  by - (rule codec_size, (rule codec_fields codec_list codec_fetch_partition
    | simp add: sum_list_triv)+)

lemma codec_fetch:
  assumes "body_fits crc (Fetch req)"
  shows "codec (encode_fetch B req) (parse_fetch B) (Fetch req) (fetch_request_get_size req)"
  using assms unfolding encode_fetch_def parse_fetch_def fetch_request_get_size_def Let_def
  by - (rule codec_size, (rule codec_fields codec_list codec_fetch_topic | simp)+)

lemma codec_metadata:
  assumes "body_fits crc (Metadata req)"
  shows "codec (encode_metadata B req) (parse_metadata B) (Metadata req) (metadata_request_get_size req)"
  using assms unfolding encode_metadata_def parse_metadata_def metadata_request_get_size_def
  by - (rule codec_size, (rule codec_fields codec_list codec_string_i16 | simp)+)

lemma codec_assignment: "codec (encode_assignment B a) (parse_assignment B) a (assignment_get_size a)"
  unfolding encode_assignment_def parse_assignment_def assignment_get_size_def
  by (rule codec_size, (rule codec_fields | simp)+)

lemma codec_topic_request:
  assumes "topic_request_fits t"
  shows "codec (encode_topic_request B t) (parse_topic_request B) t (topic_request_get_size t)"
  using assms unfolding encode_topic_request_def parse_topic_request_def topic_request_get_size_def
    topic_request_fits_def
  by - (rule codec_size, (rule codec_fields codec_list codec_assignment | simp)+)

lemma codec_create_topics:
  assumes "body_fits crc (Topic req)"
  shows "codec (encode_create_topics B req) (parse_create_topics B) (Topic req) (create_topic_request_get_size req)"
  using assms unfolding encode_create_topics_def parse_create_topics_def create_topic_request_get_size_def
  by - (rule codec_size, (rule codec_fields codec_list codec_topic_request | simp)+)

section \<open>Responses\<close>

lemma codec_flag:
  "codec (bo_put_u8 B 1) (get_bool B) True 1" "codec (bo_put_u8 B 0) (get_bool B) False 1"
  using codec_bool [of True] codec_bool [of False] by (simp_all add: put_bool_def)

lemma codec_current_leader:
  "codec (encode_current_leader B l) (get_current_leader B) l (if l \<noteq> None then 1 + 8 else 1)"
proof (cases l)
  case None
  have "codec (emit [bo_put_u8 B 0]) (get_current_leader B) l 1"
    unfolding get_current_leader_def
    by (rule codec_size, (rule codec_seq codec_flag codec_done | simp add: None)+)
  with None show ?thesis
    by (simp add: encode_current_leader_def codec_def)
next
  case (Some c)
  then show ?thesis
    unfolding get_current_leader_def encode_current_leader_def
    by (simp only: option.case)
      (rule codec_size, (rule codec_seq codec_flag codec_i32 codec_u32 codec_done | simp)+)
qed

lemma codec_error_message:
  assumes "string_fits 15 s"
  shows "codec (put_string_i16 B s) (get_error_message B) s (2 + of_nat (length s))"
proof (cases "s = []")
  case True
  have "codec (emit [bo_put_i16 B 0]) (get_error_message B) s 2"
    unfolding get_error_message_def
    by (rule codec_size, (rule codec_seq codec_i16 codec_done | simp add: True)+)
  with True show ?thesis
    by (simp add: put_string_i16_def puts codec_def)
next
  case False
  with assms show ?thesis
    unfolding put_string_i16_def get_error_message_def
    by - (rule codec_size, (rule codec_seq codec_i16 codec_slice codec_done
      | simp add: string_fits_def i16_as_usize_of_nat from_utf8_lossy_valid)+)
qed

lemma codec_produce_partition_response:
  assumes "produce_partition_response_fits p"
  shows "codec (encode_produce_partition_response B p) (parse_produce_partition_response B) p
    (produce_partition_response_get_size p)"
  using assms unfolding encode_produce_partition_response_def parse_produce_partition_response_def
    produce_partition_response_get_size_def produce_partition_response_fits_def Let_def
  by - (rule codec_size, (rule codec_fields codec_error_message codec_current_leader | simp)+)

lemma codec_produce_topic_response:
  assumes "produce_topic_response_fits t"
  shows "codec (encode_produce_topic_response B t) (parse_produce_topic_response B) t
    (produce_topic_response_get_size t)"
  using assms unfolding encode_produce_topic_response_def parse_produce_topic_response_def
    produce_topic_response_get_size_def produce_topic_response_fits_def
  by - (rule codec_size, (rule codec_fields codec_list codec_produce_partition_response | simp)+)

lemma codec_produce_response:
  assumes "body_fits crc (ProduceResponse resp)"
  shows "codec (encode_produce_response B resp) (parse_produce_response B) (ProduceResponse resp)
    (produce_response_get_size resp)"
  using assms unfolding encode_produce_response_def parse_produce_response_def produce_response_get_size_def
  by - (rule codec_size, (rule codec_fields codec_list codec_produce_topic_response | simp)+)

lemma codec_response_batch:
  assumes "batch_fits crc b"
  shows "codec (encode_response_batch B b) (parse_response_batch B crc) b (batch_get_size b)"
proof -
  have b: "batch_sized b" "batch_checksum crc b"
    using assms by (simp_all add: batch_fits_def)
  have "encode_response_batch B b =
      emit [bo_put_u64 B (rb_base_offset b), bo_put_u32 B (rb_batch_length b), bo_put_slice B (batch_payload b)]"
    by (simp add: encode_response_batch_def fun_eq_iff puts flip: batch_layout_payload)
      (simp add: batch_layout_def)
  moreover have "batch_decode B crc (be64 (rb_base_offset b) @ be32 (rb_batch_length b) @ batch_payload b) = Ok b"
    using b by (simp add: batch_decode_layout flip: batch_layout_payload)
  moreover have len: "length (batch_payload b) = unat (rb_batch_length b)"
    using b by (simp add: batch_sized_def)
  ultimately show ?thesis
    unfolding parse_response_batch_def Let_def
    by - (simp only:, rule codec_size, (rule codec_seq codec_u64 codec_u32 codec_slice codec_lift_done
      | simp add: map_error_def len batch_get_size_def del: length_batch_payload)+)
qed

lemma codec_partition_response:
  assumes "partition_response_fits crc p"
  shows "codec (encode_partition_response B p) (parse_partition_response B crc) p (partition_response_get_size p)"
  using assms unfolding encode_partition_response_def parse_partition_response_def
    partition_response_get_size_def partition_response_fits_def
  by - (rule codec_size, (rule codec_fields codec_list codec_response_batch | simp)+)

lemma codec_topic_response:
  assumes "topic_response_fits crc t"
  shows "codec (encode_topic_response B t) (parse_topic_response B crc) t (topic_response_get_size t)"
  using assms unfolding encode_topic_response_def parse_topic_response_def
    topic_response_get_size_def topic_response_fits_def
  by - (rule codec_size, (rule codec_fields codec_list codec_partition_response | simp)+)

lemma codec_fetch_response:
  assumes "body_fits crc (FetchResponse resp)"
  shows "codec (encode_fetch_response B resp) (parse_fetch_response B crc) (FetchResponse resp)
    (fetch_response_get_size resp)"
  using assms unfolding encode_fetch_response_def parse_fetch_response_def fetch_response_get_size_def
  by - (rule codec_size, (rule codec_fields codec_list codec_topic_response | simp)+)

lemma codec_broker_metadata:
  assumes "string_fits 16 (bm_host b)"
  shows "codec (encode_broker_metadata B b) (parse_broker_metadata B) b (broker_metadata_get_size b)"
  using assms unfolding encode_broker_metadata_def parse_broker_metadata_def broker_metadata_get_size_def
  by - (rule codec_size, (rule codec_fields | simp)+)

lemma codec_partition_metadata:
  "codec (encode_partition_metadata B p) (parse_partition_metadata B) p (partition_metadata_get_size p)"
  unfolding encode_partition_metadata_def parse_partition_metadata_def partition_metadata_get_size_def
  by (rule codec_size, (rule codec_fields | simp)+)

lemma codec_topic_metadata:
  assumes "topic_metadata_fits t"
  shows "codec (encode_topic_metadata B t) (parse_topic_metadata B) t (topic_metadata_get_size t)"
  using assms unfolding encode_topic_metadata_def parse_topic_metadata_def topic_metadata_get_size_def
    topic_metadata_fits_def
  by - (rule codec_size, (rule codec_fields codec_list codec_partition_metadata | simp)+)

lemma codec_metadata_response:
  assumes "body_fits crc (MetadataResponse resp)"
  shows "codec (encode_metadata_response B resp) (parse_metadata_response B) (MetadataResponse resp)
    (metadata_response_get_size resp)"
  using assms unfolding encode_metadata_response_def parse_metadata_response_def metadata_response_get_size_def
  by - (rule codec_size, (rule codec_fields codec_list codec_broker_metadata codec_topic_metadata | simp)+)

lemma codec_create_topic_topic_response:
  assumes "create_topic_topic_response_fits t"
  shows "codec (encode_create_topic_topic_response B t) (parse_create_topic_topic_response B) t
    (create_topic_topic_response_get_size t)"
  using assms unfolding encode_create_topic_topic_response_def parse_create_topic_topic_response_def
    create_topic_topic_response_get_size_def create_topic_topic_response_fits_def
  by - (rule codec_size, (rule codec_fields | simp)+)

lemma codec_create_topics_response:
  assumes "body_fits crc (TopicResponse resp)"
  shows "codec (encode_create_topics_response B resp) (parse_create_topics_response B) (TopicResponse resp)
    (create_topic_response_get_size resp)"
  using assms unfolding encode_create_topics_response_def parse_create_topics_response_def
    create_topic_response_get_size_def
  by - (rule codec_size, (rule codec_fields codec_list codec_create_topic_topic_response | simp)+)

end

end
