(* ===== verification/Net_Frame.thy ===== *)
theory Net_Frame
  imports Net_Bodies
begin

text \<open>
  Frames: the encoder and the two decoders fit together, the size a frame is sent with is its
  length, and a frame that arrives cut off makes the decoder panic.
\<close>

section \<open>The codec of a frame\<close>

text \<open>The key a request and a response are sent under.\<close>

fun request_key :: "frame_body \<Rightarrow> api_key option" where
  "request_key (Produce _) = Some ApiProduce"
| "request_key (Fetch _) = Some ApiFetch"
| "request_key (Metadata _) = Some ApiMetadata"
| "request_key (Topic _) = Some ApiCreateTopics"
| "request_key _ = None"

fun response_key :: "frame_body \<Rightarrow> api_key option" where
  "response_key (ProduceResponse _) = Some ApiProduce"
| "response_key (FetchResponse _) = Some ApiFetch"
| "response_key (MetadataResponse _) = Some ApiMetadata"
| "response_key (TopicResponse _) = Some ApiCreateTopics"
| "response_key _ = None"

definition frame_get_size :: "frame \<Rightarrow> u32" where
  "frame_get_size f = request_header_get_size (fm_header f) + frame_body_get_size (fm_body f)"

context bytes_crate
begin

lemma codec_request_body:
  assumes "body_fits crc body" and "request_key body = Some key"
  shows "codec (encode_body B body) (parse_request_body B crc key) body (frame_body_get_size body)"
  using assms codec_produce [of crc] codec_fetch [of crc] codec_metadata [of crc] codec_create_topics [of crc]
  by (cases body) (auto simp del: body_fits.simps)

lemma codec_response_body:
  assumes "body_fits crc body" and "response_key body = Some key"
  shows "codec (encode_body B body) (parse_response_body B crc key) body (frame_body_get_size body)"
  using assms codec_produce_response [of crc] codec_fetch_response [of crc]
    codec_metadata_response [of crc] codec_create_topics_response [of crc]
  by (cases body) (auto simp del: body_fits.simps)

lemma codec_request:
  assumes "frame_fits crc f" and "request_key (fm_body f) = Some (rq_api_key (fm_header f))"
  shows "codec (emit [encode_request_header B (fm_header f), encode_body B (fm_body f)])
    (request_parse B crc sz) (f\<lparr>fm_size := sz\<rparr>) (frame_get_size f)"
  using assms unfolding request_parse_def frame_get_size_def frame_fits_def
  by - (rule codec_size, (rule codec_seq codec_header codec_request_body codec_done | simp)+)

lemma codec_response:
  assumes "frame_fits crc f" and "response_key (fm_body f) = Some (rq_api_key (fm_header f))"
  shows "codec (emit [encode_request_header B (fm_header f), encode_body B (fm_body f)])
    (response_parse B crc sz) (f\<lparr>fm_size := sz\<rparr>) (frame_get_size f)"
  using assms unfolding response_parse_def frame_get_size_def frame_fits_def
  by - (rule codec_size, (rule codec_seq codec_header codec_response_body codec_done | simp)+)

lemma frame_encode_codec:
  assumes "codec (emit [encode_request_header B (fm_header f), encode_body B (fm_body f)]) p x n"
  obtains s where "frame_encode B f = be32 n @ s" and "n = of_nat (length s)"
    and "p s = Ok (x, [])" and "\<forall>k < length s. p (take k s) = Panic"
proof -
  obtain s where s: "\<forall>buf. emit [encode_request_header B (fm_header f), encode_body B (fm_body f)] buf = buf @ s"
    "\<forall>rest. p (s @ rest) = Ok (x, rest)" "\<forall>k < length s. p (take k s) = Panic" "of_nat (length s) = n"
    using assms unfolding codec_def by blast
  have "emit [bo_put_u32 B 0, encode_request_header B (fm_header f), encode_body B (fm_body f)] []
      = be32 0 @ s"
    using s(1) by (simp add: put_u32)
  then have "frame_encode B f = be32 n @ s"
    using s(4) by (simp add: frame_encode_def Let_def)
  moreover have "p s = Ok (x, [])"
    using s(2) [rule_format, of "[]"] by simp
  ultimately show thesis
    using that s(3,4) by blast
qed

end

section \<open>Sample frames\<close>

definition sample_header :: "api_key \<Rightarrow> request_header" where
  "sample_header key =
     \<lparr>rq_api_key = key, rq_api_version = 0, rq_correlation_id = 42, rq_client_id = Some [109, 117]\<rparr>"

definition sample_request :: frame where
  "sample_request =
     \<lparr>fm_size = 0, fm_header = sample_header ApiProduce,
      fm_body = Produce
        \<lparr>qr_transactional_id = 0, qr_acks = AcksAll, qr_timeout = 10000000000,
         qr_topics = [\<lparr>qt_topic = [116, 195, 164], qt_partitions = [\<lparr>qp_index = 3, qp_records = sample_batch\<rparr>]\<rparr>]\<rparr>\<rparr>"

definition sample_response :: frame where
  "sample_response =
     \<lparr>fm_size = 0, fm_header = sample_header ApiFetch,
      fm_body = FetchResponse
        \<lparr>nr_throttle_time_ms = 5,
         nr_responses = [\<lparr>tr_topic = [116],
           tr_partitions = [\<lparr>pr_partition_index = 3, pr_error_code = NoError, pr_high_watermark = 11,
             pr_log_start_offset = 0, pr_records = [sample_batch, sample_batch]\<rparr>]\<rparr>]\<rparr>\<rparr>"

lemma sample_batch_fits: "batch_fits (\<lambda>bs. 7) sample_batch"
proof -
  have "batch_sized sample_batch"
    using sample_batch_length by (simp add: batch_sized_def)
  moreover have "length (batch_layout sample_batch) < 2 ^ 32"
    by (simp add: length_batch_layout sample_batch_def batch_from_compact_def record_new_def
        length_record_layout Let_def)
  ultimately show ?thesis
    by (simp add: batch_fits_def batch_checksum_def sample_batch_def batch_from_compact_def)
qed

lemma sample_strings [simp]:
  "string_fits 15 [109, 117]" "string_fits 16 [116]" "string_fits 16 [116, 195, 164]"
  by (simp_all add: string_fits_def utf8_valid.simps utf8_cont_def)

lemma sample_frames_fit:
  "frame_fits (\<lambda>bs. 7) sample_request" "frame_fits (\<lambda>bs. 7) sample_response"
  using sample_batch_fits
  by (simp_all add: frame_fits_def sample_request_def sample_response_def sample_header_def
      header_fits_wire_def duration_fits_def duration_as_millis_def produce_topic_fits_def
      topic_response_fits_def partition_response_fits_def)

lemma sample_keys:
  "request_key (fm_body sample_request) = Some (rq_api_key (fm_header sample_request))"
  "response_key (fm_body sample_response) = Some (rq_api_key (fm_header sample_response))"
  by (simp_all add: sample_request_def sample_response_def sample_header_def)

lemma sample_request_length: "20 < length (frame_encode list_bytes sample_request) - 4"
  by (simp add: frame_encode_def Let_def sample_request_def sample_header_def encode_request_header_def
      encode_client_id_def list_bytes.puts encode_produce_def encode_produce_topic_def
      encode_produce_partition_def put_string_def)

section \<open>Properties\<close>

text \<open>A request whose lengths fit their fields is decoded as it was encoded, apart from the
  size, which is the one the reader was given; the four bytes at the front announce how many
  follow, and that is what the sizes of the header and of the body say.\<close>

lemma request_frame_roundtrip:
  assumes "bytes_crate B" and "frame_fits crc f"
    and "request_key (fm_body f) = Some (rq_api_key (fm_header f))"
  shows "frame_decode B crc (drop 4 (frame_encode B f)) sz = Ok (f\<lparr>fm_size := sz\<rparr>)
    \<and> take 4 (frame_encode B f) = be32 (of_nat (length (frame_encode B f) - 4))
    \<and> of_nat (length (frame_encode B f) - 4)
        = request_header_get_size (fm_header f) + frame_body_get_size (fm_body f)"
proof -
  obtain s where "frame_encode B f = be32 (frame_get_size f) @ s" and "frame_get_size f = of_nat (length s)"
    and "request_parse B crc sz s = Ok (f\<lparr>fm_size := sz\<rparr>, [])"
    using bytes_crate.frame_encode_codec [OF assms(1) bytes_crate.codec_request [OF assms]] by blast
  then show ?thesis
    by (simp add: frame_decode_def frame_get_size_def)
qed

lemma response_frame_roundtrip:
  assumes "bytes_crate B" and "frame_fits crc f"
    and "response_key (fm_body f) = Some (rq_api_key (fm_header f))"
  shows "frame_decode_response B crc (drop 4 (frame_encode B f)) sz = Ok (f\<lparr>fm_size := sz\<rparr>)
    \<and> take 4 (frame_encode B f) = be32 (of_nat (length (frame_encode B f) - 4))
    \<and> of_nat (length (frame_encode B f) - 4)
        = request_header_get_size (fm_header f) + frame_body_get_size (fm_body f)"
proof -
  obtain s where "frame_encode B f = be32 (frame_get_size f) @ s" and "frame_get_size f = of_nat (length s)"
    and "response_parse B crc sz s = Ok (f\<lparr>fm_size := sz\<rparr>, [])"
    using bytes_crate.frame_encode_codec [OF assms(1) bytes_crate.codec_response [OF assms]] by blast
  then show ?thesis
    by (simp add: frame_decode_response_def frame_get_size_def)
qed

text \<open>C19: a frame whose lengths fit their fields is decoded as it was encoded, a request by the
  broker's decoder and a response by the client's, and the four bytes at the front announce how
  many follow, which is the size the header and the body declare.\<close>

theorem frame_roundtrip:
  assumes "bytes_crate B" and "frame_fits crc f"
    and "key = Some (rq_api_key (fm_header f))" and "request_key (fm_body f) = key \<or> response_key (fm_body f) = key"
  shows "(request_key (fm_body f) = key \<longrightarrow> frame_decode B crc (drop 4 (frame_encode B f)) sz = Ok (f\<lparr>fm_size := sz\<rparr>))
    \<and> (response_key (fm_body f) = key \<longrightarrow>
        frame_decode_response B crc (drop 4 (frame_encode B f)) sz = Ok (f\<lparr>fm_size := sz\<rparr>))
    \<and> take 4 (frame_encode B f) = be32 (of_nat (length (frame_encode B f) - 4))
    \<and> of_nat (length (frame_encode B f) - 4)
        = request_header_get_size (fm_header f) + frame_body_get_size (fm_body f)"
  using request_frame_roundtrip [OF assms(1,2)] response_frame_roundtrip [OF assms(1,2)] assms(3,4) by blast

lemma frame_roundtrip_witness:
  "frame_decode list_bytes (\<lambda>bs. 7) (drop 4 (frame_encode list_bytes sample_request)) 9
     = Ok (sample_request\<lparr>fm_size := 9\<rparr>)
   \<and> frame_decode_response list_bytes (\<lambda>bs. 7) (drop 4 (frame_encode list_bytes sample_response)) 9
     = Ok (sample_response\<lparr>fm_size := 9\<rparr>)"
  using frame_roundtrip [OF list_bytes.bytes_crate_axioms sample_frames_fit(1) refl disjI1 [OF sample_keys(1)]]
    frame_roundtrip [OF list_bytes.bytes_crate_axioms sample_frames_fit(2) refl disjI2 [OF sample_keys(2)]]
    sample_keys
  by blast

text \<open>C29: a request that ends early makes the decoder panic, wherever it is cut.\<close>

theorem truncated_request_panics:
  assumes "bytes_crate B" and "frame_fits crc f"
    and "request_key (fm_body f) = Some (rq_api_key (fm_header f))"
    and "k < length (frame_encode B f) - 4"
  shows "frame_decode B crc (take k (drop 4 (frame_encode B f))) sz = Panic"
proof -
  obtain s where "frame_encode B f = be32 (frame_get_size f) @ s"
    and "\<forall>k < length s. request_parse B crc sz (take k s) = Panic"
    using bytes_crate.frame_encode_codec [OF assms(1) bytes_crate.codec_request [OF assms(1-3)]] by blast
  with assms(4) show ?thesis
    by (simp add: frame_decode_def)
qed

lemma truncated_request_panics_witness:
  "frame_decode list_bytes (\<lambda>bs. 7) (take 20 (drop 4 (frame_encode list_bytes sample_request))) 20 = Panic"
  using truncated_request_panics [OF list_bytes.bytes_crate_axioms sample_frames_fit(1) sample_keys(1)
      sample_request_length] .

end
