(* ===== verification/Net_Connection.thy ===== *)
theory Net_Connection
  imports Broker_Answers Net_Frame
begin

text \<open>
  A connection of a broker (\<open>crates/broker/src/network/connection.rs\<close>). The bytes that arrive
  until the peer closes are a list. The stream is the crate \<open>tokio\<close>'s: its reads are the record
  \<open>stream_ops\<close>, which give \<open>None\<close> at the end of the stream, and \<open>writable\<close> says which
  responses can be written. The requests of a connection are numbered, each has its own
  environment.
\<close>

section \<open>The stream\<close>

record stream_ops =
  so_read_u32 :: "u8 list \<Rightarrow> (u32 \<times> u8 list) option"
  so_read_exact :: "nat \<Rightarrow> u8 list \<Rightarrow> (u8 list \<times> u8 list) option"

definition stream_law :: "stream_ops \<Rightarrow> bool" where
  "stream_law T \<longleftrightarrow>
     (\<forall>bs. so_read_u32 T bs = get_front 4 from_be32 bs) \<and> (\<forall>n bs. so_read_exact T n bs = take_front n bs)"

datatype connection_error = Io | Protocol parse_error

definition read_frame ::
    "stream_ops \<Rightarrow> bytes_ops \<Rightarrow> (u8 list \<Rightarrow> u32) \<Rightarrow> u8 list \<Rightarrow> (connection_error, frame \<times> u8 list) outcome" where
  "read_frame T B crc incoming =
     (case so_read_u32 T incoming of
        None \<Rightarrow> Err Io
      | Some (sz, rest) \<Rightarrow>
          (case so_read_exact T (unat sz) rest of
             None \<Rightarrow> Err Io
           | Some (buf, rest) \<Rightarrow>
               omap (\<lambda>f. (f, rest)) (map_error Protocol (frame_decode B crc buf sz))))"

section \<open>The loop\<close>

text \<open>
  How a connection ends: closed, with the broker and what was written, or by a panic of its
  task. \<open>None\<close> is a connection that does not end.
\<close>

datatype connection_end = Closed broker "u8 list" | Panicked "u8 list"

fun prepend_written :: "u8 list \<Rightarrow> connection_end \<Rightarrow> connection_end" where
  "prepend_written bs (Closed br out) = Closed br (bs @ out)"
| "prepend_written bs (Panicked out) = Panicked (bs @ out)"

partial_function (option) connection_handle ::
    "stream_ops \<Rightarrow> (nat \<Rightarrow> broker_env) \<Rightarrow> (nat \<Rightarrow> bool) \<Rightarrow> nat \<Rightarrow> u8 list \<Rightarrow> broker \<Rightarrow> connection_end option" where
  "connection_handle T env writable n incoming br =
     (case read_frame T (en_bytes (env n)) (en_crc (env n)) incoming of
        Err e \<Rightarrow> Some (Closed br [])
      | Panic \<Rightarrow> Some (Panicked [])
      | Ok (request, rest) \<Rightarrow>
          Option.bind (broker_handle (env n) request br) (\<lambda>r.
          case r of
            Ok (br1, response) \<Rightarrow>
              (if writable n
               then Option.bind (connection_handle T env writable (Suc n) rest br1) (\<lambda>e.
                      Some (prepend_written (frame_encode (en_bytes (env n)) response) e))
               else Some (Closed br1 []))
          | _ \<Rightarrow> Some (Panicked [])))"

text \<open>The requests one after the other, without the network.\<close>

fun serve_all :: "(nat \<Rightarrow> broker_env) \<Rightarrow> nat \<Rightarrow> frame list \<Rightarrow> broker \<Rightarrow> (unit, broker \<times> frame list) outcome option" where
  "serve_all env n [] br = Some (Ok (br, []))"
| "serve_all env n (f # fs) br =
     Option.bind (broker_handle (env n) f br) (\<lambda>r.
     case r of
       Ok (br1, g) \<Rightarrow> map_option (omap (\<lambda>(br2, gs). (br2, g # gs))) (serve_all env (Suc n) fs br1)
     | Err e \<Rightarrow> Some (Err e)
     | Panic \<Rightarrow> Some Panic)"

section \<open>Reading frames\<close>

lemma broker_handle_size: "broker_handle e (f\<lparr>fm_size := s\<rparr>) br = broker_handle e f br"
  by (simp add: broker_handle_def)

text \<open>A request that can be sent.\<close>

definition sendable :: "bytes_ops \<Rightarrow> (u8 list \<Rightarrow> u32) \<Rightarrow> frame \<Rightarrow> bool" where
  "sendable B crc f \<longleftrightarrow>
     frame_fits crc f \<and> request_key (fm_body f) = Some (rq_api_key (fm_header f))
     \<and> length (frame_encode B f) - 4 < 2 ^ 32"

lemma read_frame_encoded:
  assumes "stream_law T" and "bytes_crate B" and "sendable B crc f"
  shows "read_frame T B crc (frame_encode B f @ rest) = Ok (f\<lparr>fm_size := frame_get_size f\<rparr>, rest)"
proof -
  have f: "frame_fits crc f" "request_key (fm_body f) = Some (rq_api_key (fm_header f))"
    and len: "length (frame_encode B f) - 4 < 2 ^ 32"
    using assms(3) by (simp_all add: sendable_def)
  let ?n = "frame_get_size f"
  obtain s where s: "frame_encode B f = be32 ?n @ s" "?n = of_nat (length s)"
    "request_parse B crc ?n s = Ok (f\<lparr>fm_size := ?n\<rparr>, [])"
    using bytes_crate.frame_encode_codec [OF assms(2) bytes_crate.codec_request [OF assms(2) f]] by blast
  have "length s < 2 ^ 32"
    using len s(1) by simp
  then have "unat ?n = length s"
    by (subst s(2)) (rule unat_of_nat_id, simp)
  then have "so_read_u32 T (frame_encode B f @ rest) = Some (?n, s @ rest)"
    and "so_read_exact T (unat ?n) (s @ rest) = Some (s, rest)"
    using assms(1) s(1) by (simp_all add: stream_law_def get_front_def take_front_def)
  then show ?thesis
    using s(3) by (simp add: read_frame_def frame_decode_def map_error_def)
qed

section \<open>Properties\<close>

text \<open>Requests that arrive one after the other on a connection are answered in their order: the
  bytes written are the responses the broker gives to them in turn, and when the peer closes
  after the last one, or in the middle of the size of another, the connection is closed.\<close>

theorem connection_serves_in_order:
  assumes "stream_law T" and "bytes_crate B" and "\<And>k. en_bytes (env k) = B \<and> en_crc (env k) = crc"
    and "\<forall>f \<in> set fs. sendable B crc f" and "\<And>k. writable k"
    and "serve_all env n fs br = Some (Ok (br', gs))" and "length tail < 4"
  shows "connection_handle T env writable n (concat (map (frame_encode B) fs) @ tail) br =
    Some (Closed br' (concat (map (frame_encode B) gs)))"
  using assms(4,6)
proof (induction fs arbitrary: n br gs)
  case Nil
  have "so_read_u32 T tail = None"
    using assms(1,7) by (simp add: stream_law_def get_front_def take_front_def)
  with Nil show ?case
    by (subst connection_handle.simps) (simp add: read_frame_def)
next
  case (Cons f fs)
  from Cons.prems(2) obtain br1 g where g: "broker_handle (env n) f br = Some (Ok (br1, g))"
    by (cases "broker_handle (env n) f br") (auto split: outcome.splits)
  with Cons.prems(2) obtain gs' where gs: "gs = g # gs'" "serve_all env (Suc n) fs br1 = Some (Ok (br', gs'))"
    by (cases "serve_all env (Suc n) fs br1") (auto simp: omap_eq_Ok)
  have "read_frame T B crc (frame_encode B f @ concat (map (frame_encode B) fs) @ tail) =
      Ok (f\<lparr>fm_size := frame_get_size f\<rparr>, concat (map (frame_encode B) fs) @ tail)"
    using read_frame_encoded [OF assms(1,2)] Cons.prems(1) by simp
  moreover have "connection_handle T env writable (Suc n) (concat (map (frame_encode B) fs) @ tail) br1 =
      Some (Closed br' (concat (map (frame_encode B) gs')))"
    using Cons.IH [OF _ gs(2)] Cons.prems(1) by simp
  ultimately show ?case
    using assms(3) [of n] assms(5) g gs(1)
    by (subst connection_handle.simps) (simp add: broker_handle_size)
qed

definition list_stream :: stream_ops where
  "list_stream = \<lparr>so_read_u32 = get_front 4 from_be32, so_read_exact = take_front\<rparr>"

lemma list_stream_law: "stream_law list_stream"
  by (simp add: stream_law_def list_stream_def)

definition sample_metadata_frame :: frame where
  "sample_metadata_frame =
     sample_frame ApiMetadata (Metadata \<lparr>mq_topics = [[116]], mq_allow_auto_topic_creation = True\<rparr>)"

lemma sample_metadata_sendable: "sendable list_bytes (\<lambda>bs. 7) sample_metadata_frame"
proof -
  have "length (frame_encode list_bytes sample_metadata_frame) - 4 < 2 ^ 32"
    by (simp add: frame_encode_def Let_def sample_metadata_frame_def sample_frame_def frame_new_def
        encode_request_header_def encode_client_id_def encode_metadata_def put_string_i16_def
        put_bool_def list_bytes.puts)
  then show ?thesis
    by (simp add: sendable_def sample_metadata_frame_def sample_frame_def frame_new_def frame_fits_def
        header_fits_wire_def string_fits_def utf8_valid.simps Let_def)
qed

lemma connection_serves_in_order_witness:
  "\<forall>a. \<exists>g. broker_handle sample_env sample_metadata_frame (sample_broker a) = Some (Ok (sample_broker a, g))
    \<and> connection_handle list_stream (\<lambda>k. sample_env) (\<lambda>k. True) 0
        (frame_encode list_bytes sample_metadata_frame @ frame_encode list_bytes sample_metadata_frame @ [0, 0])
        (sample_broker a)
      = Some (Closed (sample_broker a) (frame_encode list_bytes g @ frame_encode list_bytes g))"
proof
  fix a
  obtain g where g: "broker_handle sample_env sample_metadata_frame (sample_broker a) = Some (Ok (sample_broker a, g))"
    by (simp add: sample_metadata_frame_def broker_handle_def)
  then have run: "serve_all (\<lambda>k. sample_env) 0 [sample_metadata_frame, sample_metadata_frame] (sample_broker a)
      = Some (Ok (sample_broker a, [g, g]))"
    by simp
  have fs: "\<forall>f \<in> set [sample_metadata_frame, sample_metadata_frame]. sendable list_bytes (\<lambda>bs. 7) f"
    using sample_metadata_sendable by simp
  have env: "en_bytes sample_env = list_bytes \<and> en_crc sample_env = (\<lambda>bs. 7)"
    by (simp add: sample_env_def)
  from connection_serves_in_order [OF list_stream_law list_bytes.bytes_crate_axioms env fs _ run, of "\<lambda>k. True" "[0, 0]"] g
  show "\<exists>g. broker_handle sample_env sample_metadata_frame (sample_broker a) = Some (Ok (sample_broker a, g))
    \<and> connection_handle list_stream (\<lambda>k. sample_env) (\<lambda>k. True) 0
        (frame_encode list_bytes sample_metadata_frame @ frame_encode list_bytes sample_metadata_frame @ [0, 0])
        (sample_broker a)
      = Some (Closed (sample_broker a) (frame_encode list_bytes g @ frame_encode list_bytes g))"
    by simp
qed

end
