(* ===== verification/Client_Requests.thy ===== *)
theory Client_Requests
  imports Net_Connection
begin

text \<open>
  Requests of a client (\<open>crates/network/src/requests/mod.rs\<close>, and the same exchange in the
  producer): a frame is written, a size and that many bytes are read, and the response is
  decoded. The other end of the connection is \<open>peer\<close>: what it does with the bytes that are
  written and what it sends back, or \<open>None\<close> when they cannot be written. The bytes received and
  not read yet stay with the client.
\<close>

section \<open>An exchange\<close>

datatype request_error = IoErr | ParseErr | FormatErr

type_synonym 's peer = "'s \<Rightarrow> u8 list \<Rightarrow> ('s \<times> u8 list) option"

definition exchange ::
    "stream_ops \<Rightarrow> bytes_ops \<Rightarrow> (u8 list \<Rightarrow> u32) \<Rightarrow> 's peer \<Rightarrow> frame \<Rightarrow> 's \<times> u8 list \<Rightarrow>
      ('s \<times> u8 list) \<times> (request_error, frame) outcome" where
  "exchange T B crc peer f = (\<lambda>(s, pending).
     (case peer s (frame_encode B f) of
        None \<Rightarrow> ((s, pending), Err IoErr)
      | Some (s1, answer) \<Rightarrow>
          (case so_read_u32 T (pending @ answer) of
             None \<Rightarrow> ((s1, []), Err IoErr)
           | Some (sz, rest) \<Rightarrow>
               (case so_read_exact T (unat sz) rest of
                  None \<Rightarrow> ((s1, []), Err IoErr)
                | Some (buf, rest) \<Rightarrow>
                    ((s1, rest), map_error (\<lambda>_. ParseErr) (frame_decode_response B crc buf sz))))))"

fun metadata_response_try_from :: "frame_body \<Rightarrow> (frame_body, metadata_response) outcome" where
  "metadata_response_try_from (MetadataResponse metadata) = Ok metadata"
| "metadata_response_try_from other = Err other"

definition request_metadata ::
    "stream_ops \<Rightarrow> bytes_ops \<Rightarrow> (u8 list \<Rightarrow> u32) \<Rightarrow> 's peer \<Rightarrow> u32 \<Rightarrow> 's \<times> u8 list \<Rightarrow>
      ('s \<times> u8 list) \<times> (request_error, metadata_response) outcome" where
  "request_metadata T B crc peer correlation_id s =
     (let body = \<lparr>mq_topics = [], mq_allow_auto_topic_creation = True\<rparr>;
          (s1, r) = exchange T B crc peer (frame_new correlation_id ApiMetadata (Metadata body)) s
      in (s1, obind r (\<lambda>f. map_error (\<lambda>_. FormatErr) (metadata_response_try_from (fm_body f)))))"

definition fetch_request_for :: "u8 list \<Rightarrow> (u16 \<times> u64) list \<Rightarrow> net_fetch_request" where
  "fetch_request_for topic partitions =
     \<lparr>nf_replica_id = - 1, nf_max_bytes = 4096,
      nf_topics = [\<lparr>ft_topic = topic,
        ft_partitions = map (\<lambda>(p, fetch_offset).
          \<lparr>fp_partition = ucast p, fp_fetch_offset = fetch_offset,
           fp_partition_max_bytes = 4096, fp_high_watermark = 0\<rparr>) partitions\<rparr>]\<rparr>"

definition request_fetch ::
    "stream_ops \<Rightarrow> bytes_ops \<Rightarrow> (u8 list \<Rightarrow> u32) \<Rightarrow> 's peer \<Rightarrow> u32 \<Rightarrow> u8 list \<Rightarrow> (u16 \<times> u64) list \<Rightarrow>
      's \<times> u8 list \<Rightarrow> ('s \<times> u8 list) \<times> (request_error, net_fetch_response) outcome" where
  "request_fetch T B crc peer correlation_id topic partitions s =
     (let (s1, r) = exchange T B crc peer
            (frame_new correlation_id ApiFetch (Fetch (fetch_request_for topic partitions))) s
      in (s1, obind r (\<lambda>f. case fm_body f of FetchResponse response \<Rightarrow> Ok response | _ \<Rightarrow> Panic)))"

section \<open>A broker at the other end\<close>

text \<open>One request to a broker: its connection reads what was written and answers.\<close>

definition broker_peer :: "stream_ops \<Rightarrow> broker_env \<Rightarrow> broker peer" where
  "broker_peer T e br bytes =
     (case connection_handle T (\<lambda>_. e) (\<lambda>_. True) 0 bytes br of
        Some (Closed br1 out) \<Rightarrow> Some (br1, out)
      | _ \<Rightarrow> None)"

definition answerable :: "bytes_ops \<Rightarrow> (u8 list \<Rightarrow> u32) \<Rightarrow> frame \<Rightarrow> bool" where
  "answerable B crc g \<longleftrightarrow>
     frame_fits crc g \<and> response_key (fm_body g) = Some (rq_api_key (fm_header g))
     \<and> length (frame_encode B g) - 4 < 2 ^ 32"

lemma broker_peer_answers:
  assumes "stream_law T" and "bytes_crate (en_bytes e)" and "sendable (en_bytes e) (en_crc e) f"
    and "broker_handle e f br = Some (Ok (br1, g))"
  shows "broker_peer T e br (frame_encode (en_bytes e) f) = Some (br1, frame_encode (en_bytes e) g)"
proof -
  let ?B = "en_bytes e" and ?c = "en_crc e"
  have "connection_handle T (\<lambda>_. e) (\<lambda>_. True) 1 [] br1 = Some (Closed br1 [])"
    using assms(1)
    by (subst connection_handle.simps) (simp add: read_frame_def stream_law_def get_front_def take_front_def)
  moreover have "read_frame T ?B ?c (frame_encode ?B f) = Ok (f\<lparr>fm_size := frame_get_size f\<rparr>, [])"
    using read_frame_encoded [OF assms(1-3), of "[]"] by simp
  ultimately have "connection_handle T (\<lambda>_. e) (\<lambda>_. True) 0 (frame_encode ?B f) br =
      Some (Closed br1 (frame_encode ?B g))"
    using assms(4) by (subst connection_handle.simps) (simp add: broker_handle_size)
  then show ?thesis
    by (simp add: broker_peer_def)
qed

lemma exchange_reads:
  assumes "stream_law T" and "bytes_crate B" and "answerable B crc g"
    and "peer s (frame_encode B f) = Some (s1, frame_encode B g)"
  shows "exchange T B crc peer f (s, []) = ((s1, []), Ok (g\<lparr>fm_size := frame_get_size g\<rparr>))"
proof -
  have g: "frame_fits crc g" "response_key (fm_body g) = Some (rq_api_key (fm_header g))"
    and len: "length (frame_encode B g) - 4 < 2 ^ 32"
    using assms(3) by (simp_all add: answerable_def)
  let ?n = "frame_get_size g"
  obtain t where t: "frame_encode B g = be32 ?n @ t" "?n = of_nat (length t)"
    "response_parse B crc ?n t = Ok (g\<lparr>fm_size := ?n\<rparr>, [])"
    using bytes_crate.frame_encode_codec [OF assms(2) bytes_crate.codec_response [OF assms(2) g]] by blast
  have "length t < 2 ^ 32"
    using len t(1) by simp
  then have "unat ?n = length t"
    by (subst t(2)) (rule unat_of_nat_id, simp)
  then have "so_read_u32 T (frame_encode B g) = Some (?n, t)" and "so_read_exact T (unat ?n) t = Some (t, [])"
    using assms(1) t(1) by (simp_all add: stream_law_def get_front_def take_front_def)
  then show ?thesis
    using assms(4) t(3) by (simp add: exchange_def frame_decode_response_def map_error_def)
qed

lemma exchange_with_broker:
  assumes "stream_law T" and "bytes_crate (en_bytes e)" and "sendable (en_bytes e) (en_crc e) f"
    and "broker_handle e f br = Some (Ok (br1, g))" and "answerable (en_bytes e) (en_crc e) g"
  shows "exchange T (en_bytes e) (en_crc e) (broker_peer T e) f (br, []) =
    ((br1, []), Ok (g\<lparr>fm_size := frame_get_size g\<rparr>))"
  by (rule exchange_reads [where peer = "broker_peer T e", OF assms(1,2,5) broker_peer_answers [OF assms(1-4)]])

end
