(* ===== verification/Broker_Restart.thy ===== *)
theory Broker_Restart
  imports Broker_Handlers
begin

text \<open>
  Topics survive a restart: what the metadata actor wrote for the topics it created is what it
  reads when it starts again, as long as the metadata log is one segment, for only the first is
  read.
\<close>

section \<open>A metadata batch\<close>

lemma metadata_record_size:
  "metadata_record_fits r \<Longrightarrow> length (metadata_record_encode r) < 2 ^ 19"
  by (auto simp: metadata_record_fits_def length_metadata_record_encode split: metadata_record.splits)

context bytes_crate
begin

lemma metadata_batch_holds:
  assumes "metadata_record_fits r"
  shows "\<exists>m. batch_holds (metadata_batch B crc now r e) [m] \<and> rc_value m = metadata_record_encode r
    \<and> rc_offset_delta m = 0 \<and> batch_checksum crc (metadata_batch B crc now r e)"
proof -
  let ?m = "record_new now 0 [] (metadata_record_encode r)"
  let ?b = "batch_from_records B crc [?m]"
  have "record_sized ?m"
    using metadata_record_size [OF assms] by (intro record_new_sized) simp
  moreover from this have "length (records_layout [?m]) + 49 < 2 ^ 32"
    using metadata_record_size [OF assms]
    by (simp add: records_layout_def length_record_layout record_new_def Let_def)
  ultimately have "batch_holds ?b (rebased [?m])" and "batch_checksum crc ?b"
    using batch_from_records_holds [of "[?m]" crc] by simp_all
  moreover have "rebased [?m] = [rebase_record (batch_min_timestamp [?m]) (0, ?m)]"
    by (simp add: rebased_def)
  moreover have "rc_value (rebase_record t (0, ?m)) = metadata_record_encode r" for t
    by (simp add: rebase_record_def record_new_def Let_def)
  moreover have "rc_offset_delta (rebase_record t (0, ?m)) = 0" for t
    by (simp add: rebase_record_def)
  ultimately show ?thesis
    by (intro exI [of _ "rebase_record (batch_min_timestamp [?m]) (0, ?m)"])
      (simp add: metadata_batch_def batch_holds_def batch_sized_def batch_checksum_def)
qed

lemma metadata_batch_length:
  "length (batch_layout (metadata_batch B crc now r e)) = 94 + length (metadata_record_encode r)"
  by (simp add: metadata_batch_def length_batch_layout batch_from_records_records records_layout_def
      length_record_layout rebase_record_def record_new_def Let_def)

text \<open>Reading such batches back.\<close>

lemma replay_metadata:
  assumes "list_all2 (\<lambda>b r. metadata_record_fits r
      \<and> (\<exists>m. rb_records b = records_layout [m] \<and> record_fits m \<and> rc_value m = metadata_record_encode r)) bs rs"
  shows "replay_batches B bs topics = Ok (fold replay_record rs topics)"
  using assms
proof (induction bs arbitrary: rs topics)
  case (Cons b bs)
  then obtain r rs' m where rs: "rs = r # rs'" and r: "metadata_record_fits r"
    and m: "rb_records b = records_layout [m]" "record_fits m" "rc_value m = metadata_record_encode r"
    by (auto simp: list_all2_Cons1)
  have "record_decode B (rb_records b) = Ok (m, [])"
    using record_decode_layout [OF m(2), of "[]"] m(1) by (simp add: records_layout_def)
  moreover have "metadata_record_decode (rc_value m) = Ok r"
    using metadata_record_decode_append [OF r, of "[]"] m(3) by simp
  ultimately show ?case
    using Cons rs by simp
qed simp

end

section \<open>The topics that are replayed\<close>

lemma replay_partitions:
  "map_of topics name = Some (t, ps) \<Longrightarrow> \<forall>q \<in> set qs. pt_topic_id q = name \<Longrightarrow>
     fold replay_record (map PartitionRecord qs) topics = AList.update name (t, ps @ qs) topics"
proof (induction qs arbitrary: topics ps)
  case Nil
  then show ?case
    by (induction topics) auto
next
  case (Cons q qs)
  let ?topics = "AList.update name (t, ps @ [q]) topics"
  have "fold replay_record (map PartitionRecord qs) ?topics
      = AList.update name (t, (ps @ [q]) @ qs) ?topics"
    using Cons.prems by (intro Cons.IH) (simp_all add: update_conv')
  moreover have "AList.update name x (AList.update name y topics) = AList.update name x topics" for x y
    by (induction topics) auto
  moreover have "replay_record (PartitionRecord q) topics = ?topics"
    using Cons.prems by (simp add: replay_record_def)
  ultimately show ?case
    by simp
qed

lemma alist_update_new: "k \<notin> fst ` set m \<Longrightarrow> AList.update k v m = m @ [(k, v)]"
  by (induction m) auto

lemma replay_topic:
  assumes "tq_name t \<notin> fst ` set topics"
  shows "fold replay_record (topic_records t) topics =
    topics @ [(tq_name t, \<lparr>tc_name = tq_name t\<rparr>, topic_partitions t)]"
proof -
  let ?new = "topics @ [(tq_name t, (\<lparr>tc_name = tq_name t\<rparr>, []))]"
  have none: "map_of topics (tq_name t) = None"
    using assms by (simp add: map_of_eq_None_iff)
  then have "fold replay_record (map PartitionRecord (topic_partitions t)) ?new
      = AList.update (tq_name t) (\<lparr>tc_name = tq_name t\<rparr>, [] @ topic_partitions t) ?new"
    by (intro replay_partitions) (auto simp: map_add_def topic_partitions_def)
  moreover have "AList.update (tq_name t) v ?new = topics @ [(tq_name t, v)]" for v
    using assms by (induction topics) auto
  ultimately show ?thesis
    using none assms by (simp add: topic_records_def replay_record_def alist_update_new)
qed

lemma replay_topics:
  "distinct (map tq_name ts) \<Longrightarrow> tq_name ` set ts \<inter> fst ` set topics = {} \<Longrightarrow>
     fold replay_record (concat (map topic_records ts)) topics =
       topics @ map (\<lambda>t. (tq_name t, \<lparr>tc_name = tq_name t\<rparr>, topic_partitions t)) ts"
  by (induction ts arbitrary: topics) (simp_all add: replay_topic)

section \<open>Creating topics\<close>

text \<open>What every directory that is not open needs: an actor can be started on it.\<close>

definition can_open :: "(file_system \<Rightarrow> u64 list) \<Rightarrow> (topic_partition \<Rightarrow> file_system) \<Rightarrow> bool" where
  "can_open read_dir disk \<longleftrightarrow>
     (\<forall>key cfg. 0 < pc_segment_bytes cfg \<longrightarrow> (\<exists>a. handle_spawn read_dir cfg (disk key) = Some (Ok a)))"

definition record_keys :: "topic_record \<times> partition_record list \<Rightarrow> topic_partition list" where
  "record_keys = (\<lambda>(t, ps). map (\<lambda>p. (tc_name t, pt_partition_id p)) ps)"

lemma create_topic_opens:
  assumes "can_open read_dir disk" and "distinct (record_keys (t, ps))"
    and "set (record_keys (t, ps)) \<inter> fst ` set im = {}"
  shows "\<exists>im'. image_create_topic read_dir disk t ps im = Some (Ok im')
    \<and> map fst im' = map fst im @ record_keys (t, ps)"
  using assms(2,3)
proof (induction ps arbitrary: im)
  case (Cons p ps)
  let ?key = "(tc_name t, pt_partition_id p)"
  have new: "?key \<notin> fst ` set im"
    using Cons.prems(2) by (auto simp: record_keys_def)
  then have "map_of im ?key = None"
    by (simp only: map_of_eq_None_iff) simp
  then have "directory disk im ?key = disk ?key"
    by (simp add: directory_def)
  then obtain a where a: "handle_spawn read_dir (default_partition_config (pt_partition_id p) (ucast (pt_leader p)))
      (directory disk im ?key) = Some (Ok a)"
    using assms(1) unfolding can_open_def by (fastforce simp: default_partition_config_def)
  have "\<exists>im'. image_create_topic read_dir disk t ps (im @ [(?key, a)]) = Some (Ok im')
      \<and> map fst im' = map fst (im @ [(?key, a)]) @ record_keys (t, ps)"
    using Cons.prems by (intro Cons.IH) (auto simp: record_keys_def)
  with a new show ?case
    by (simp add: alist_update_new Let_def record_keys_def)
qed (simp add: record_keys_def)

lemma create_topics_open:
  assumes "can_open read_dir disk" and "distinct (concat (map record_keys tps))"
    and "set (concat (map record_keys tps)) \<inter> fst ` set im = {}"
  shows "\<exists>im'. image_create_topics read_dir disk tps im = Some (Ok im')
    \<and> map fst im' = map fst im @ concat (map record_keys tps)"
  using assms(2,3)
proof (induction tps arbitrary: im)
  case (Cons tp tps)
  obtain t ps where tp: "tp = (t, ps)"
    by fastforce
  have split: "distinct (record_keys (t, ps))" "set (record_keys (t, ps)) \<inter> fst ` set im = {}"
    "distinct (concat (map record_keys tps))" "set (concat (map record_keys tps)) \<inter> fst ` set im = {}"
    "set (record_keys (t, ps)) \<inter> set (concat (map record_keys tps)) = {}"
    using Cons.prems unfolding tp list.map concat.simps distinct_append set_append by (simp_all only:) blast+
  obtain im1 where im1: "image_create_topic read_dir disk t ps im = Some (Ok im1)"
    "map fst im1 = map fst im @ record_keys (t, ps)"
    using create_topic_opens [OF assms(1) split(1,2)] by blast
  have "fst ` set im1 = fst ` set im \<union> set (record_keys (t, ps))"
    using arg_cong [OF im1(2), of set] by simp
  then have "set (concat (map record_keys tps)) \<inter> fst ` set im1 = {}"
    using split(4,5) by blast
  then obtain im' where "image_create_topics read_dir disk tps im1 = Some (Ok im')"
    and "map fst im' = map fst im1 @ concat (map record_keys tps)"
    using Cons.IH [OF split(3)] by blast
  with im1 tp show ?case
    by simp
qed simp

text \<open>The keys of the topics of a request are distinct when no id wraps around.\<close>

lemma topic_keys_distinct:
  assumes "distinct (map tq_name ts)" and "\<forall>t \<in> set ts. sint (tq_num_partitions t) \<le> 2 ^ 16"
  shows "distinct (concat (map (\<lambda>t. record_keys (\<lparr>tc_name = tq_name t\<rparr>, topic_partitions t)) ts))"
  using assms
proof (induction ts)
  case (Cons t ts)
  have "inj_on (of_nat :: nat \<Rightarrow> u16) {0..<nat (sint (tq_num_partitions t))}"
    using Cons.prems(2) by (intro inj_onI) (auto dest!: arg_cong [of _ _ unat])
  then have "distinct (record_keys (\<lparr>tc_name = tq_name t\<rparr>, topic_partitions t))"
    by (auto simp: record_keys_def topic_partitions_def comp_def distinct_map inj_on_def)
  moreover have "set (record_keys (\<lparr>tc_name = tq_name t\<rparr>, topic_partitions t))
      \<inter> set (concat (map (\<lambda>t. record_keys (\<lparr>tc_name = tq_name t\<rparr>, topic_partitions t)) ts)) = {}"
    using Cons.prems(1) by (auto simp: record_keys_def)
  ultimately show ?case
    using Cons by simp
qed simp

section \<open>The metadata log\<close>

text \<open>The stored batches, all in the first segment, and the records they carry.\<close>

definition meta_log :: "(u8 list \<Rightarrow> u32) \<Rightarrow> partition_actor \<Rightarrow> record_batch list \<Rightarrow> metadata_record list \<Rightarrow> bool" where
  "meta_log crc a bs rs \<longleftrightarrow>
     partition_holds a 0 [] bs \<and> pa_segment_bytes a = 2 ^ 20
     \<and> unat (ps_log_end_offset (pa_snapshot a)) = length bs
     \<and> length (batches_layout bs) = (\<Sum>r\<leftarrow>rs. 94 + length (metadata_record_encode r))
     \<and> list_all2 (\<lambda>b r. metadata_record_fits r
         \<and> (\<exists>m. rb_records b = records_layout [m] \<and> record_fits m \<and> rc_value m = metadata_record_encode r)) bs rs"

lemma older_hold_length: "older_hold data n vs bss \<Longrightarrow> length vs = length bss"
  by (induction data n vs bss rule: older_hold.induct) auto

lemma partition_holds_segments:
  "partition_holds a n bss bs \<Longrightarrow> length (ps_segments (pa_snapshot a)) = Suc (length bss)"
  by (auto simp: partition_holds_def dest: older_hold_length)

lemma partition_holds_size:
  "partition_holds a n bss bs \<Longrightarrow> ls_size (pa_active a) = length (batches_layout bs)"
  by (auto simp: partition_holds_def segment_holds_def)

text \<open>An append that leaves room in the active segment opens no other.\<close>

lemma actor_append_same_segment:
  assumes "ls_size (pa_active a) + (12 + unat (rb_batch_length b)) < pa_segment_bytes a"
    and "ps_segments (pa_snapshot a) \<noteq> []"
  shows "length (ps_segments (pa_snapshot (actor_append b a))) = length (ps_segments (pa_snapshot a))"
proof -
  let ?b = "batch_update_base_offset (ps_log_end_offset (pa_snapshot a)) b"
  obtain fs1 seg1 where app: "segment_append_batch ?b (pa_fs a, pa_active a) = (fs1, seg1)"
    by fastforce
  obtain seg2 v where pub: "segment_publish seg1 = (seg2, v)"
    by fastforce
  have "ls_size seg2 < pa_segment_bytes a"
    using assms(1) segment_append_frame(7) [OF app] segment_publish_sel [OF pub]
    by (simp add: batch_update_base_offset_def)
  with app pub assms(2) show ?thesis
    by (simp add: actor_append_def Let_def)
qed

lemma actor_append_segment_bytes: "pa_segment_bytes (actor_append b a) = pa_segment_bytes a"
  by (simp add: actor_append_def Let_def case_prod_unfold)

lemma batches_layout_min: "61 * length bs \<le> length (batches_layout bs)"
  by (induction bs) (simp_all add: length_batch_layout)

lemma meta_log_append:
  assumes "bytes_crate B" and log: "meta_log crc a bs rs" and r: "metadata_record_fits r"
    and room: "(\<Sum>r\<leftarrow>rs @ [r]. 94 + length (metadata_record_encode r)) < 2 ^ 20"
  shows "\<exists>a' bs'. append_metadata B crc clock r a = Ok a' \<and> meta_log crc a' bs' (rs @ [r])"
proof -
  let ?b = "metadata_batch B crc (clock (ps_log_end_offset (pa_snapshot a))) r 0"
  let ?a = "actor_append ?b a" and ?leo = "ps_log_end_offset (pa_snapshot a)"
  let ?s = "batch_update_base_offset ?leo ?b"
  obtain m where m: "batch_holds ?b [m]" "rc_value m = metadata_record_encode r"
    using bytes_crate.metadata_batch_holds [OF assms(1) r] by blast
  have ph: "partition_holds a 0 [] bs" and sz: "pa_segment_bytes a = 2 ^ 20"
    and leo: "unat ?leo = length bs"
    and bytes: "length (batches_layout bs) = (\<Sum>r\<leftarrow>rs. 94 + length (metadata_record_encode r))"
    using log by (simp_all add: meta_log_def)
  have len: "length (batch_layout ?b) = 94 + length (metadata_record_encode r)"
    by (rule bytes_crate.metadata_batch_length [OF assms(1)])
  have count: "unat (rb_records_count ?b) = 1" and sized: "batch_sized ?b"
    using m(1) by (simp_all add: batch_holds_def)
  have small: "length (batches_layout bs) + length (batch_layout ?b) < 2 ^ 20"
    using room bytes len by simp
  have "append_fits a bs ?b"
    using small count sized leo batches_layout_min [of bs] by (simp add: append_fits_def)
  note next_log = actor_append_holds [OF ph this]
  have "ls_size (pa_active a) + (12 + unat (rb_batch_length ?b)) < pa_segment_bytes a"
    using small sz partition_holds_size [OF ph] batch_sized_layout [OF sized] by simp
  then have "length (ps_segments (pa_snapshot ?a)) = 1"
    using actor_append_same_segment [of a ?b] partition_holds_segments [OF ph] by force
  then have "partition_holds ?a 0 [] (bs @ [?s])"
    using next_log(1) by (auto dest: partition_holds_segments)
  moreover have "unat (ps_log_end_offset (pa_snapshot ?a)) = Suc (length bs)"
    using next_log(2) leo count by simp
  moreover have "record_fits m"
    using m(1) by (simp add: batch_holds_def record_sized_def)
  ultimately have "meta_log crc ?a (bs @ [?s]) (rs @ [r])"
    using log m r len sz bytes
    by (auto simp: meta_log_def actor_append_segment_bytes batch_holds_def intro!: list_all2_appendI)
  then show ?thesis
    by (auto simp: append_metadata_def handle_append_now)
qed

lemma meta_log_append_all:
  assumes "bytes_crate B" and "meta_log crc a bs rs" and "\<forall>r \<in> set qs. metadata_record_fits r"
    and "(\<Sum>r\<leftarrow>rs @ qs. 94 + length (metadata_record_encode r)) < 2 ^ 20"
  shows "\<exists>a' bs'. append_all_metadata B crc clock qs a = Ok a' \<and> meta_log crc a' bs' (rs @ qs)"
  using assms(2-4)
proof (induction qs arbitrary: a bs rs)
  case (Cons q qs)
  obtain a1 bs1 where "append_metadata B crc clock q a = Ok a1" and "meta_log crc a1 bs1 (rs @ [q])"
    using meta_log_append [OF assms(1) Cons.prems(1), of q clock] Cons.prems(2,3) by auto
  with Cons.IH [of a1 bs1 "rs @ [q]"] Cons.prems(2,3) show ?case
    by simp
qed auto

lemma log_topics_append_all:
  "log_topics B crc clock ts a = append_all_metadata B crc clock (concat (map topic_records ts)) a"
proof -
  have app: "append_all_metadata B crc clock (qs @ rs) a =
      obind (append_all_metadata B crc clock qs a) (append_all_metadata B crc clock rs)" for qs rs a
  proof (induction qs arbitrary: a)
    case (Cons q qs)
    then show ?case
      by (cases "append_metadata B crc clock q a") simp_all
  qed simp
  show ?thesis
  proof (induction ts arbitrary: a)
    case (Cons t ts)
    then show ?case
      by (simp add: app) (cases "append_all_metadata B crc clock (topic_records t) a"; simp)
  qed simp
qed

section \<open>Starting again\<close>

text \<open>What reading a directory yields.\<close>

definition read_dir_law :: "(file_system \<Rightarrow> u64 list) \<Rightarrow> bool" where
  "read_dir_law read_dir \<longleftrightarrow>
     (\<forall>fs. finite {base. fs_names fs (LogFile, base) \<noteq> None} \<longrightarrow>
        distinct (read_dir fs) \<and> set (read_dir fs) = {base. fs_names fs (LogFile, base) \<noteq> None})"

lemma list_for_total: "\<exists>t. list_for (\<lambda>total b. Continue (f total b)) s bs = Ok t"
  by (induction bs arbitrary: s) simp_all

lemma distinct_single:
  assumes "distinct xs \<and> set xs = {x}"
  shows "xs = [x]"
proof (cases xs)
  case (Cons y ys)
  then show ?thesis
    using assms by (cases ys) auto
qed (use assms in simp)

lemma actor_new_reads_first:
  assumes ok: "fs_ok fs" and names: "fs_names fs (LogFile, 0) = Some i" "read_dir fs = [0]"
    and data: "fs_data fs i = batches_layout bs" "bs \<noteq> []" "\<forall>b \<in> set bs. batch_sized b"
    and small: "length (batches_layout bs) < pc_segment_bytes cfg" "length (batches_layout bs) < 2 ^ 64"
  shows "\<exists>a v. handle_spawn read_dir cfg fs = Some (Ok a) \<and> ps_segments (pa_snapshot a) = [v]
    \<and> view_fetch_all (fs_data (pa_fs a)) v = Some (Ok bs)"
proof -
  let ?opts = "build_segment_config 0 (pc_segment_bytes cfg)"
  obtain fs1 seg where op: "segment_open ?opts fs = (fs1, seg)"
    by fastforce
  obtain seg1 v where pub: "segment_publish seg = (seg1, v)"
    by fastforce
  have ne: "batches_layout bs \<noteq> []"
    using data(2) batches_layout_min [of bs] by (cases bs) auto
  have log: "fs_names fs (LogFile, sg_base_offset ?opts) = Some i"
    using names(1) by (simp add: build_segment_config_def)
  have existing: "ls_log seg = i \<and> ls_log_cursor seg = 0 \<and> ls_size seg = length (fs_data fs i)
    \<and> fs_data fs1 i = fs_data fs i"
    using segment_open_existing [OF ok log _ op] data(1) ne by simp
  have view: "sv_log (ls_segment seg) = ls_log seg"
    using op by (auto simp: segment_open_def Let_def segment_view_new_def split: prod.splits)
  have v: "sv_log v = i" "sv_size v = length (batches_layout bs)"
    using pub existing view data(1)
    by (auto simp: segment_publish_def view_with_metadata_def Let_def)
  have "\<exists>t. segment_records_count (fs_data fs1) seg = Some (Ok t)"
    unfolding segment_records_count_def
    by (subst batch_for_layout [of bs _ "[]" "[]"])
      (use existing data small(2) list_for_total in \<open>auto simp: unat_of_nat_id\<close>)
  then obtain t where count: "segment_records_count (fs_data fs1) seg = Some (Ok t)"
    by blast
  have "ls_size seg1 < pc_segment_bytes cfg"
    using segment_publish_sel [OF pub] existing data(1) small(1) by simp
  then have init: "actor_initialize (pc_segment_bytes cfg) [0] fs = Some (Ok (fs1, seg1, [v], 0 + t))"
    using op pub count by (simp add: actor_initialize_def Let_def)
  have "view_fetch_all (fs_data fs1) v = Some (Ok bs)"
    using v existing data small(2) by (intro view_fetch_all_layout [of _ _ _ "[]"]) simp_all
  with init names(2) show ?thesis
    by (simp add: handle_spawn_def actor_new_def state_consume_def Let_def)
qed

lemma meta_log_restarts:
  assumes "bytes_crate B" and log: "meta_log crc a bs rs" and "rs \<noteq> []" and "read_dir_law read_dir"
    and "(\<Sum>r\<leftarrow>rs. 94 + length (metadata_record_encode r)) < 2 ^ 20"
  shows "metadata_actor_new B read_dir disk order (pa_fs a) =
      Option.bind (handle_spawn read_dir (default_partition_config 0 0) (pa_fs a)) (\<lambda>r.
        case r of
          Ok a' \<Rightarrow> map_option (omap (\<lambda>im. \<lparr>ma_handle = a', ma_snapshot = im\<rparr>))
            (image_create_topics read_dir disk (order (map snd (fold replay_record rs []))) image_empty)
        | Err e \<Rightarrow> Some (Err e) | Panic \<Rightarrow> Some Panic)
    \<and> (\<exists>a'. handle_spawn read_dir (default_partition_config 0 0) (pa_fs a) = Some (Ok a'))"
proof -
  have ph: "partition_holds a 0 [] bs"
    and bytes: "length (batches_layout bs) = (\<Sum>r\<leftarrow>rs. 94 + length (metadata_record_encode r))"
    and recs: "list_all2 (\<lambda>b r. metadata_record_fits r
         \<and> (\<exists>m. rb_records b = records_layout [m] \<and> record_fits m \<and> rc_value m = metadata_record_encode r)) bs rs"
    using log by (simp_all add: meta_log_def)
  have "bs \<noteq> []"
    using recs assms(3) by (auto dest: list_all2_lengthD)
  obtain v es where base: "unat (sv_base_offset v) = 0" and seg: "segment_holds (pa_fs a) (pa_active a) bs es"
    and v: "ls_segment (pa_active a) = v" and nm: "names_hold (pa_fs a) [v] (pa_active a)"
    and chain: "batch_chain (unat (sv_base_offset v)) bs"
    using ph by (auto simp: partition_holds_def view_holds_def dest!: older_hold_length)
  have v0: "sv_base_offset v = 0"
    using base by (simp add: unat_eq_0)
  have "{base. fs_names (pa_fs a) (LogFile, base) \<noteq> None} = {0}"
    using nm v0 by (auto simp: names_hold_def)
  then have "distinct (read_dir (pa_fs a)) \<and> set (read_dir (pa_fs a)) = {0}"
    using assms(4) unfolding read_dir_law_def by (metis finite.emptyI finite_insert)
  then have dirs: "read_dir (pa_fs a) = [0]"
    by (rule distinct_single)
  have "\<exists>a' v. handle_spawn read_dir (default_partition_config 0 0) (pa_fs a) = Some (Ok a')
      \<and> ps_segments (pa_snapshot a') = [v] \<and> view_fetch_all (fs_data (pa_fs a')) v = Some (Ok bs)"
    by (rule actor_new_reads_first [of _ "sv_log v"])
      (use nm v0 seg v dirs \<open>bs \<noteq> []\<close> batch_chain_sized [OF chain] bytes assms(5)
        in \<open>auto simp: names_hold_def segment_holds_def default_partition_config_def\<close>)
  then show ?thesis
    using bytes_crate.replay_metadata [OF assms(1) recs, of "[]"]
    by (auto simp: metadata_actor_new_def)
qed

section \<open>The first start\<close>

lemma read_dir_empty: "read_dir_law read_dir \<Longrightarrow> read_dir fs_empty = []"
  unfolding read_dir_law_def by (drule spec [of _ fs_empty]) (simp add: fs_empty_def)

lemma older_hold_nothing: "older_hold data n vs bss \<Longrightarrow> \<forall>bs \<in> set bss. bs = [] \<Longrightarrow> bss = []"
  by (cases vs; cases bss) auto

lemma metadata_actor_starts_empty:
  assumes "read_dir_law read_dir" and "\<And>xs. mset (order xs) = mset xs"
  shows "\<exists>m. metadata_actor_new B read_dir disk order fs_empty = Some (Ok m)
    \<and> meta_log crc (ma_handle m) [] [] \<and> ma_snapshot m = []"
proof -
  obtain a where new: "actor_new (default_partition_config 0 0) [] fs_empty = Some (Ok a)"
    and log: "log_holds crc a [] []"
    using actor_new_empty [of "default_partition_config 0 0" crc] by (auto simp: default_partition_config_def)
  obtain bss where empty: "concat bss = []" and ph: "partition_holds a 0 bss []"
    using log by (auto simp: log_holds_def)
  then have "bss = []"
    by (auto simp: partition_holds_def dest: older_hold_nothing)
  with ph have ph0: "partition_holds a 0 [] []"
    by simp
  then obtain v es where v: "ps_segments (pa_snapshot a) = [v]" "view_holds (fs_data (pa_fs a)) v [] es"
    by (auto simp: partition_holds_def dest!: older_hold_length)
  have "view_fetch_all (fs_data (pa_fs a)) v = Some (Ok [])"
    by (rule view_fetch_all_correct [OF v(2)])
  moreover have "order [] = []"
    using assms(2) [of "[]"] by simp
  ultimately have "metadata_actor_new B read_dir disk order fs_empty = Some (Ok \<lparr>ma_handle = a, ma_snapshot = []\<rparr>)"
    using new v(1) read_dir_empty [OF assms(1)]
    by (simp add: metadata_actor_new_def handle_spawn_def image_empty_def)
  moreover have "meta_log crc a [] []"
    using ph0 log_end_offset_holds [OF log] actor_new_segment_bytes [OF new]
    by (simp add: meta_log_def default_partition_config_def)
  ultimately show ?thesis
    by auto
qed

section \<open>Topics that fit\<close>

text \<open>What a request needs: names that are distinct strings and no id that wraps around.\<close>

definition topics_fit :: "topic_request list \<Rightarrow> bool" where
  "topics_fit ts \<longleftrightarrow> distinct (map tq_name ts)
     \<and> (\<forall>t \<in> set ts. utf8_valid (tq_name t) \<and> length (tq_name t) < 2 ^ 16 \<and> sint (tq_num_partitions t) \<le> 2 ^ 16)
     \<and> (\<Sum>r\<leftarrow>concat (map topic_records ts). 94 + length (metadata_record_encode r)) < 2 ^ 20"

definition topic_image :: "topic_request \<Rightarrow> topic_record \<times> partition_record list" where
  "topic_image t = (\<lparr>tc_name = tq_name t\<rparr>, topic_partitions t)"

lemma topics_fit_records: "topics_fit ts \<Longrightarrow> \<forall>r \<in> set (concat (map topic_records ts)). metadata_record_fits r"
  by (auto simp: topics_fit_def topic_records_def metadata_record_fits_def topic_partitions_def)

lemma topic_image_keys:
  "set (record_keys (topic_image t)) = {(tq_name t, of_nat p) |p. int p < sint (tq_num_partitions t)}"
  by (auto simp: topic_image_def record_keys_def topic_partitions_def zless_nat_eq_int_zless)

text \<open>The start on a log that holds the records of some topics.\<close>

lemma topic_log_restarts:
  assumes "bytes_crate B" and log: "meta_log crc a bs (concat (map topic_records ts))"
    and ts: "ts \<noteq> []" "topics_fit ts" and dir: "read_dir_law read_dir" "can_open read_dir disk"
    and order: "\<And>xs. mset (order xs) = mset xs"
    and keys: "distinct (concat (map record_keys (map topic_image ts)))"
  shows "\<exists>a2 im2. metadata_actor_new B read_dir disk order (pa_fs a) =
      Some (Ok \<lparr>ma_handle = a2, ma_snapshot = im2\<rparr>)
    \<and> mset (map fst im2) = mset (concat (map record_keys (map topic_image ts)))"
proof -
  let ?rs = "concat (map topic_records ts)" and ?tps = "map topic_image ts"
  have names: "distinct (map tq_name ts)" and room: "(\<Sum>r\<leftarrow>?rs. 94 + length (metadata_record_encode r)) < 2 ^ 20"
    using ts(2) by (simp_all add: topics_fit_def)
  have replay: "map snd (fold replay_record ?rs []) = ?tps"
    using replay_topics [OF names, of "[]"] by (simp add: topic_image_def [abs_def] comp_def)
  have perm: "mset (concat (map record_keys (order ?tps))) = mset (concat (map record_keys ?tps))"
    by (rule mset_concat_map_perm [OF order])
  then have "distinct (concat (map record_keys (order ?tps)))"
    using keys mset_eq_imp_distinct_iff by blast
  then obtain im2 where im2: "image_create_topics read_dir disk (order ?tps) [] = Some (Ok im2)"
    "map fst im2 = concat (map record_keys (order ?tps))"
    using create_topics_open [OF dir(2), of "order ?tps" "[]"] by auto
  have "?rs \<noteq> []"
    using ts(1) by (cases ts) (simp_all add: topic_records_def)
  from meta_log_restarts [OF assms(1) log this dir(1) room, of disk order]
  obtain a2 where "metadata_actor_new B read_dir disk order (pa_fs a) = Some (Ok \<lparr>ma_handle = a2, ma_snapshot = im2\<rparr>)"
    using im2(1) by (auto simp: replay image_empty_def)
  moreover have "mset (map fst im2) = mset (concat (map record_keys ?tps))"
    unfolding im2(2) by (rule perm)
  ultimately show ?thesis
    by blast
qed

section \<open>Requests one after the other\<close>

definition created_topics :: "create_topic_request list \<Rightarrow> topic_request list" where
  "created_topics reqs = concat (map cq_topics reqs)"

lemma created_topics_simps [simp]:
  "created_topics [] = []" "created_topics (req # reqs) = cq_topics req @ created_topics reqs"
  by (simp_all add: created_topics_def)

text \<open>The metadata actor after the topics \<open>ts\<close> were created: their records are its log, their
  partitions its image.\<close>

definition topics_logged :: "(u8 list \<Rightarrow> u32) \<Rightarrow> topic_request list \<Rightarrow> metadata_actor \<Rightarrow> bool" where
  "topics_logged crc ts m \<longleftrightarrow>
     (\<exists>bs. meta_log crc (ma_handle m) bs (concat (map topic_records ts)))
     \<and> map fst (ma_snapshot m) = concat (map record_keys (map topic_image ts))"

lemma topics_fit_keys: "topics_fit ts \<Longrightarrow> distinct (concat (map record_keys (map topic_image ts)))"
  using topic_keys_distinct [of ts] by (simp add: topics_fit_def topic_image_def comp_def)

lemma topics_fit_prefix: "topics_fit (ts @ ts') \<Longrightarrow> topics_fit ts"
  by (simp add: topics_fit_def)

lemma create_logs_topics:
  assumes "bytes_crate B" and "can_open read_dir disk" and log: "topics_logged crc ts m"
    and fit: "topics_fit (ts @ cq_topics req)"
  shows "\<exists>m1 resp. metadata_create_topics B crc read_dir disk clock elapsed req m = Some (Ok (m1, resp))
    \<and> topics_logged crc (ts @ cq_topics req) m1 \<and> cr_topics resp = map created_response (cq_topics req)"
proof -
  let ?new = "cq_topics req"
  obtain bs where bs: "meta_log crc (ma_handle m) bs (concat (map topic_records ts))"
    and im: "map fst (ma_snapshot m) = concat (map record_keys (map topic_image ts))"
    using log by (auto simp: topics_logged_def)
  have fits: "\<forall>r \<in> set (concat (map topic_records ?new)). metadata_record_fits r"
    using topics_fit_records [OF fit] by auto
  have room: "(\<Sum>r\<leftarrow>concat (map topic_records ts) @ concat (map topic_records ?new). 94 + length (metadata_record_encode r)) < 2 ^ 20"
    using fit by (simp add: topics_fit_def)
  obtain a bs' where a: "log_topics B crc clock ?new (ma_handle m) = Ok a"
    "meta_log crc a bs' (concat (map topic_records (ts @ ?new)))"
    using meta_log_append_all [OF assms(1) bs fits room, of clock] unfolding log_topics_append_all by auto
  have keys: "distinct (concat (map record_keys (map topic_image ?new)))"
    "set (concat (map record_keys (map topic_image ?new))) \<inter> fst ` set (ma_snapshot m) = {}"
    using topics_fit_keys [OF fit] im by (auto simp flip: set_map)
  obtain im1 where "image_create_topics read_dir disk (map topic_image ?new) (ma_snapshot m) = Some (Ok im1)"
    "map fst im1 = concat (map record_keys (map topic_image (ts @ ?new)))"
    using create_topics_open [OF assms(2) keys] im by auto
  with a show ?thesis
    by (intro exI [of _ "\<lparr>ma_handle = a, ma_snapshot = im1\<rparr>"]
        exI [of _ "\<lparr>cr_throttle_time_ms = elapsed, cr_topics = map created_response ?new\<rparr>"])
      (auto simp: metadata_create_topics_def topics_logged_def topic_image_def [abs_def])
qed

lemma creates_log_topics:
  assumes "bytes_crate B" and "can_open read_dir disk" and "topics_logged crc ts m"
    and "topics_fit (ts @ created_topics reqs)"
  shows "\<exists>m1 resps. thread (metadata_create_topics B crc read_dir disk clock elapsed) reqs m = Some (Ok (m1, resps))
    \<and> topics_logged crc (ts @ created_topics reqs) m1
    \<and> map cr_topics resps = map (\<lambda>req. map created_response (cq_topics req)) reqs"
  using assms(3,4)
proof (induction reqs arbitrary: ts m)
  case (Cons req reqs)
  obtain m1 resp where 1: "metadata_create_topics B crc read_dir disk clock elapsed req m = Some (Ok (m1, resp))"
    "topics_logged crc (ts @ cq_topics req) m1" "cr_topics resp = map created_response (cq_topics req)"
    using create_logs_topics [OF assms(1,2) Cons.prems(1), of req clock elapsed] topics_fit_prefix [of "ts @ cq_topics req"] Cons.prems(2)
    by auto
  moreover obtain m2 resps where "thread (metadata_create_topics B crc read_dir disk clock elapsed) reqs m1 = Some (Ok (m2, resps))"
    "topics_logged crc (ts @ created_topics (req # reqs)) m2"
    "map cr_topics resps = map (\<lambda>req. map created_response (cq_topics req)) reqs"
    using Cons.IH [OF 1(2)] Cons.prems(2) unfolding created_topics_simps append_assoc by blast
  ultimately show ?case
    by simp
qed simp

section \<open>Properties\<close>

text \<open>C8: the topics created on a new broker are there after its first restart. The requests come
  one after the other to a metadata actor that started on an empty directory; their topics have
  distinct names and their records fit one segment of the metadata log. Then every request is
  answered, the partitions are those the requests asked for, and the metadata actor that starts on
  the files left has the same partitions, whatever the order in which the maps are iterated.\<close>

theorem topics_survive_restart:
  assumes "bytes_crate B" and dir: "read_dir_law read_dir"
    and dirs: "can_open read_dir disk" "can_open read_dir disk'"
    and order: "\<And>xs. mset (order xs) = mset xs"
    and ts: "created_topics reqs \<noteq> []" "topics_fit (created_topics reqs)"
  shows "\<exists>m m1 m2 resps. metadata_actor_new B read_dir disk order fs_empty = Some (Ok m)
    \<and> thread (metadata_create_topics B crc read_dir disk clock elapsed) reqs m = Some (Ok (m1, resps))
    \<and> map cr_topics resps = map (\<lambda>req. map created_response (cq_topics req)) reqs
    \<and> metadata_actor_new B read_dir disk' order (pa_fs (ma_handle m1)) = Some (Ok m2)
    \<and> fst ` set (ma_snapshot m2) = fst ` set (ma_snapshot m1)
    \<and> fst ` set (ma_snapshot m1) =
        {(tq_name t, of_nat p) |t p. t \<in> set (created_topics reqs) \<and> int p < sint (tq_num_partitions t)}"
proof -
  let ?ts = "created_topics reqs"
  let ?keys = "concat (map record_keys (map topic_image ?ts))"
  obtain m where m: "metadata_actor_new B read_dir disk order fs_empty = Some (Ok m)"
    "meta_log crc (ma_handle m) [] []" "ma_snapshot m = []"
    using metadata_actor_starts_empty [OF dir order] by blast
  then have "topics_logged crc [] m"
    by (auto simp: topics_logged_def)
  then obtain m1 resps where run: "thread (metadata_create_topics B crc read_dir disk clock elapsed) reqs m = Some (Ok (m1, resps))"
    and log: "topics_logged crc ?ts m1" and resps: "map cr_topics resps = map (\<lambda>req. map created_response (cq_topics req)) reqs"
    using creates_log_topics [OF assms(1) dirs(1), of crc "[]" m reqs clock elapsed] ts(2) by auto
  obtain bs where bs: "meta_log crc (ma_handle m1) bs (concat (map topic_records ?ts))" and im1: "map fst (ma_snapshot m1) = ?keys"
    using log by (auto simp: topics_logged_def)
  obtain a2 im2 where new: "metadata_actor_new B read_dir disk' order (pa_fs (ma_handle m1)) = Some (Ok \<lparr>ma_handle = a2, ma_snapshot = im2\<rparr>)"
    and im2: "mset (map fst im2) = mset ?keys"
    using topic_log_restarts [OF assms(1) bs ts dir dirs(2) order topics_fit_keys [OF ts(2)]] by blast
  have im1: "fst ` set (ma_snapshot m1) = set ?keys"
    using arg_cong [OF im1, of set] by simp
  have "fst ` set (ma_snapshot m1) = {(tq_name t, of_nat p) |t p. t \<in> set ?ts \<and> int p < sint (tq_num_partitions t)}"
    unfolding im1 by (auto simp: topic_image_keys)
  moreover have "fst ` set im2 = fst ` set (ma_snapshot m1)"
    using mset_eq_setD [OF im2] im1 by simp
  ultimately show ?thesis
    using m(1) run resps new
    by (intro exI [of _ m] exI [of _ m1] exI [of _ "\<lparr>ma_handle = a2, ma_snapshot = im2\<rparr>"] exI [of _ resps] conjI) simp_all
qed

definition sample_read_dir :: "file_system \<Rightarrow> u64 list" where
  "sample_read_dir fs = sorted_list_of_set {base. fs_names fs (LogFile, base) \<noteq> None}"

lemma sample_read_dir_law: "read_dir_law sample_read_dir"
  by (simp add: read_dir_law_def sample_read_dir_def)

lemma empty_can_open: "read_dir_law read_dir \<Longrightarrow> can_open read_dir (\<lambda>key. fs_empty)"
  using actor_new_empty [of _ "\<lambda>bs. 0"] unfolding can_open_def handle_spawn_def
  by (simp add: read_dir_empty) (metis option.simps(9) unwrap.simps(1))

definition sample_topics :: create_topic_request where
  "sample_topics =
     \<lparr>cq_topics = [\<lparr>tq_name = [116], tq_num_partitions = 2, tq_replication_factor = 1, tq_assignments = []\<rparr>,
                   \<lparr>tq_name = [117], tq_num_partitions = - 1, tq_replication_factor = 1, tq_assignments = []\<rparr>],
      cq_timeout_ms = 0, cq_validate_only = False\<rparr>"

definition sample_requests :: "create_topic_request list" where
  "sample_requests =
     [sample_topics,
      \<lparr>cq_topics = [\<lparr>tq_name = [118], tq_num_partitions = 1, tq_replication_factor = 1, tq_assignments = []\<rparr>],
       cq_timeout_ms = 0, cq_validate_only = False\<rparr>]"

lemma sample_requests_fit: "created_topics sample_requests \<noteq> [] \<and> topics_fit (created_topics sample_requests)"
proof -
  have "[0..<2] = [0, 1 :: nat]"
    by (simp add: upt_rec)
  moreover have "utf8_valid [116]" "utf8_valid [117]" "utf8_valid [118]"
    by (simp_all add: utf8_valid.simps)
  ultimately show ?thesis
    by (simp add: sample_topics_def sample_requests_def topics_fit_def topic_records_def topic_partitions_def
        length_metadata_record_encode del: metadata_record_encode.simps)
qed

lemma sample_request_keys:
  "{(tq_name t, of_nat p :: u16) |t p. t \<in> set (created_topics sample_requests) \<and> int p < sint (tq_num_partitions t)}
     = {([116], 0), ([116], 1), ([118], 0)}"
proof -
  have split: "{(tq_name t, of_nat p :: u16) |t p. t \<in> set ts \<and> int p < sint (tq_num_partitions t)}
      = (\<Union>t \<in> set ts. (\<lambda>p. (tq_name t, of_nat p)) ` {p. int p < sint (tq_num_partitions t)})" for ts
    by auto
  have "{p. int p < 2} = {0, 1}" "{p. int p < 1} = {0}" "{p. int p < - 1} = {}"
    by auto
  then show ?thesis
    unfolding split by (simp add: sample_requests_def sample_topics_def insert_commute)
qed

lemma topics_survive_restart_witness:
  "\<exists>m m1 m2 resps. metadata_actor_new list_bytes sample_read_dir (\<lambda>key. fs_empty) rev fs_empty = Some (Ok m)
    \<and> thread (metadata_create_topics list_bytes (\<lambda>bs. 7) sample_read_dir (\<lambda>key. fs_empty) (\<lambda>offset. 1000) 3)
        sample_requests m = Some (Ok (m1, resps))
    \<and> metadata_actor_new list_bytes sample_read_dir (\<lambda>key. fs_empty) rev (pa_fs (ma_handle m1)) = Some (Ok m2)
    \<and> fst ` set (ma_snapshot m2) = fst ` set (ma_snapshot m1)
    \<and> fst ` set (ma_snapshot m1) = {([116], 0), ([116], 1), ([118], 0)}"
  using topics_survive_restart [OF list_bytes.bytes_crate_axioms sample_read_dir_law
      empty_can_open [OF sample_read_dir_law] empty_can_open [OF sample_read_dir_law], of rev sample_requests
      "\<lambda>bs. 7" "\<lambda>offset. 1000" 3] sample_requests_fit
  unfolding sample_request_keys by (metis (no_types, lifting) mset_rev)

end
