(* ===== verification/Storage_Tail.thy ===== *)
theory Storage_Tail
  imports Storage_Log
begin

text \<open>
  What a fetch returns at any offset, within the log, at its end or beyond it: the records from
  there on, at least one if there is one.
\<close>

section \<open>Batches and the records they hold\<close>

definition batches_carry :: "record_batch list \<Rightarrow> msg_record list list \<Rightarrow> bool" where
  "batches_carry bs rss \<longleftrightarrow> list_all2 batch_holds bs rss"

lemma batches_hold_carry: "batches_hold bs rss \<Longrightarrow> batches_carry bs rss"
  by (auto simp: batches_hold_def batches_carry_def elim: list_all2_mono)

lemma batch_holds_length: "batch_holds b rs \<Longrightarrow> length (batch_layout b) = 61 + length (records_layout rs)"
  by (simp add: batch_holds_def length_batch_layout)

text \<open>The bytes that batches of records take on disk and on the wire.\<close>

definition log_size :: "msg_record list list \<Rightarrow> nat" where
  "log_size rss = sum_list (map (\<lambda>rs. 61 + length (records_layout rs)) rss)"

lemma log_size_simps [simp]:
  "log_size [] = 0" "log_size (rs # rss) = 61 + length (records_layout rs) + log_size rss"
  "log_size (rss @ sss) = log_size rss + log_size sss"
  by (simp_all add: log_size_def)

lemma log_size_split: "log_size rss = log_size (take m rss) + log_size (drop m rss)"
  by (metis append_take_drop_id log_size_simps(3))

lemma batches_carry_length: "batches_carry bs rss \<Longrightarrow> length (batches_layout bs) = log_size rss"
  unfolding batches_carry_def by (induction rule: list_all2_induct) (simp_all add: batch_holds_length)

lemma records_layout_drop: "length (records_layout (drop j rs)) \<le> length (records_layout rs)"
  by (metis append_take_drop_id le_add2 length_append records_layout_simps(3))

lemma partition_point_all: "\<forall>x \<in> set xs. P x \<Longrightarrow> partition_point P xs = length xs"
  by (simp add: partition_point_def takeWhile_eq_all_conv [THEN iffD2])

lemma older_hold_bases:
  "older_hold data n vs bss \<Longrightarrow> v \<in> set vs \<Longrightarrow> unat (sv_base_offset v) \<le> chain_end n (concat bss)"
proof (induction data n vs bss rule: older_hold.induct)
  case (2 data n u vs bs bss)
  then show ?case
    using chain_end_le [of n "bs @ concat bss"] by (auto simp: chain_end_append)
qed simp_all

context bytes_crate
begin

lemma view_fetch_nothing:
  assumes "view_holds data v bs es" and "chain_end (unat (sv_base_offset v)) bs \<le> unat (fp_fetch_offset req)"
  shows "view_fetch B crc data v req = Some (Ok [])"
proof (cases "bs = []")
  case True
  with assms(1) have "sv_size v = 0" "sv_index_count v = 0"
    by (cases es; auto simp: view_holds_def index_ok_def)+
  then show ?thesis
    by (simp add: view_fetch_def batch_iter_from_def find_physical_position_def batch_iter_next_def
        batch_iter_empty_def)
qed (rule view_fetch_end [OF assms(1) _ assms(2)])

lemma state_fetch_end:
  assumes log: "log_holds crc a stored rss" and n: "length (concat rss) \<le> unat (fp_fetch_offset req)"
  shows "state_fetch B crc (fs_data (pa_fs a)) (pa_snapshot a) i req =
    Some (Ok \<lparr>pr_partition_index = i, pr_error_code = NoError,
              pr_high_watermark = ps_high_watermark (pa_snapshot a),
              pr_log_start_offset = ps_log_end_offset (pa_snapshot a), pr_records = []\<rparr>)"
proof -
  obtain bss bs where stored: "stored = concat bss @ bs" and ph: "partition_holds a 0 bss bs"
    and holds: "batches_hold stored rss"
    using log by (auto simp: log_holds_def)
  obtain vs v es where vs: "ps_segments (pa_snapshot a) = vs @ [v]"
    and older: "older_hold (fs_data (pa_fs a)) 0 vs bss" and base: "unat (sv_base_offset v) = chain_end 0 (concat bss)"
    and view: "view_holds (fs_data (pa_fs a)) v bs es"
    using ph by (auto simp: partition_holds_def)
  have last: "chain_end (unat (sv_base_offset v)) bs = length (concat rss)"
    using chain_end_records [OF holds, of 0] stored base by (simp add: chain_end_append)
  have "unat (sv_base_offset u) \<le> chain_end 0 (concat bss)" if "u \<in> set (vs @ [v])" for u
    using that older_hold_bases [OF older] base by auto
  moreover have "chain_end 0 (concat bss) \<le> unat (fp_fetch_offset req)"
    using base last n chain_end_le [of "unat (sv_base_offset v)" bs] by simp
  ultimately have "unat (sv_base_offset u) \<le> unat (fp_fetch_offset req)" if "u \<in> set (vs @ [v])" for u
    using that order_trans by blast
  then have "partition_point (\<lambda>u. sv_base_offset u \<le> fp_fetch_offset req) (vs @ [v]) = Suc (length vs)"
    by (simp add: partition_point_all word_le_nat_alt)
  then show ?thesis
    using view_fetch_nothing [OF view, of req crc] last n by (simp add: state_fetch_def vs)
qed

text \<open>A fetch anywhere in the log returns the records from there on, at least one if there is one.\<close>

lemma state_fetch_records:
  assumes log: "log_holds crc a stored rss"
  shows "\<exists>bs sss k. state_fetch B crc (fs_data (pa_fs a)) (pa_snapshot a) i req =
      Some (Ok \<lparr>pr_partition_index = i, pr_error_code = NoError,
                pr_high_watermark = ps_high_watermark (pa_snapshot a),
                pr_log_start_offset = ps_log_end_offset (pa_snapshot a), pr_records = bs\<rparr>)
    \<and> batches_carry bs sss \<and> concat sss = take k (drop (unat (fp_fetch_offset req)) (concat rss))
    \<and> k \<le> length (concat rss) - unat (fp_fetch_offset req)
    \<and> (unat (fp_fetch_offset req) < length (concat rss) \<longrightarrow> 0 < k)
    \<and> (\<forall>b \<in> set bs. batch_checksum crc b) \<and> length (batches_layout bs) \<le> length (batches_layout stored)"
proof (cases "length (concat rss) \<le> unat (fp_fetch_offset req)")
  case True
  show ?thesis
    using state_fetch_end [OF log True, of i]
    by (intro exI [of _ "[]"] exI [of _ "[]"] exI [of _ 0]) (use True in \<open>simp add: batches_carry_def\<close>)
next
  case False
  let ?n = "unat (fp_fetch_offset req)"
  obtain k j c rest m where k: "k < length rss" "j < length (rss ! k)" "?n = length (concat (take k rss)) + j"
    and fetch: "state_fetch B crc (fs_data (pa_fs a)) (pa_snapshot a) i req =
      Some (Ok \<lparr>pr_partition_index = i, pr_error_code = NoError,
                pr_high_watermark = ps_high_watermark (pa_snapshot a),
                pr_log_start_offset = ps_log_end_offset (pa_snapshot a), pr_records = c # rest\<rparr>)"
    and c: "batch_holds c (drop j (rss ! k))" "batch_checksum crc c"
    and rest: "rest = take m (drop (Suc k) stored)"
    using state_fetch_holds [OF log, of req i] False by force
  have holds: "batches_carry stored rss" and crcs: "\<forall>b \<in> set stored. batch_checksum crc b"
    using log batches_hold_carry by (auto simp: log_holds_def)
  let ?sss = "drop j (rss ! k) # take m (drop (Suc k) rss)"
  have carry: "batches_carry (c # rest) ?sss"
    using holds c(1) by (simp add: batches_carry_def rest list_all2_dropI list_all2_takeI)
  have after: "drop ?n (concat rss) = drop j (rss ! k) @ concat (drop (Suc k) rss)"
    using concat_split [OF k(1)] k(2,3) by simp
  have "concat (drop (Suc k) rss) = concat (take m (drop (Suc k) rss)) @ concat (drop m (drop (Suc k) rss))"
    by (metis append_take_drop_id concat_append)
  then have part: "concat ?sss = take (length (concat ?sss)) (drop ?n (concat rss))"
    by (simp add: after)
  have le: "length (concat ?sss) \<le> length (concat rss) - ?n"
    using arg_cong [OF part, of length] by (simp only: length_take length_drop)
  have pos: "0 < length (concat ?sss)"
    using k(2) by simp
  have len: "length (batches_layout (c # rest)) \<le> length (batches_layout stored)"
  proof -
    have "log_size ?sss \<le> log_size [rss ! k] + log_size (take m (drop (Suc k) rss))"
      using records_layout_drop [of j "rss ! k"] by simp
    also have "\<dots> \<le> log_size [rss ! k] + log_size (drop (Suc k) rss)"
      using log_size_split [of "drop (Suc k) rss" m] by linarith
    also have "\<dots> = log_size (drop k rss)"
      by (simp flip: Cons_nth_drop_Suc [OF k(1)])
    also have "\<dots> \<le> log_size rss"
      using log_size_split [of rss k] by linarith
    finally show ?thesis
      using batches_carry_length [OF carry] batches_carry_length [OF holds] by simp
  qed
  have crc: "\<forall>b \<in> set (c # rest). batch_checksum crc b"
    using crcs c(2) rest by (auto dest: in_set_takeD in_set_dropD)
  show ?thesis
    by (rule exI [of _ "c # rest"], rule exI [of _ ?sss], rule exI [of _ "length (concat ?sss)"], intro conjI impI)
      (rule fetch carry part le pos crc len)+
qed

end

end
