(* ===== verification/Broker_Logs.thy ===== *)
theory Broker_Logs
  imports Broker_Answers Broker_Restart Storage_Tail
begin

text \<open>
  What a broker is for its clients: a map from topics and partitions to logs, a log being the
  batches of records appended to it. The steps of this abstract broker, and the proof that the
  requests of the concrete one implement them.
\<close>

section \<open>The abstract broker\<close>

text \<open>A topic and a partition are one key here.\<close>

declare split_paired_All [simp del] split_paired_Ex [simp del]

type_synonym logs = "topic_partition \<rightharpoonup> msg_record list list"

fun append_logs :: "(topic_partition \<times> msg_record list) list \<Rightarrow> logs \<Rightarrow> logs" where
  "append_logs [] L = L"
| "append_logs ((k, rs) # es) L =
     append_logs es (case L k of None \<Rightarrow> L | Some rss \<Rightarrow> L(k \<mapsto> rss @ [rs]))"

text \<open>The batches a request carries, by topic and partition.\<close>

definition request_entries :: "produce_request \<Rightarrow> (topic_partition \<times> record_batch) list" where
  "request_entries req =
     concat (map (\<lambda>t. map (\<lambda>p. ((qt_topic t, qp_index p), qp_records p)) (qt_partitions t)) (qr_topics req))"

text \<open>A batch as a producer makes it, and the records it holds.\<close>

definition entry_holds ::
    "(u8 list \<Rightarrow> u32) \<Rightarrow> topic_partition \<times> record_batch \<Rightarrow> topic_partition \<times> msg_record list \<Rightarrow> bool" where
  "entry_holds crc = (\<lambda>(k, b) (k', rs). k = k' \<and> batches_hold [b] [rs] \<and> rs \<noteq> [] \<and> batch_checksum crc b)"

definition created_keys :: "create_topic_request \<Rightarrow> topic_partition list" where
  "created_keys req =
     concat (map (\<lambda>t. map (\<lambda>p. (tq_name t, pt_partition_id p)) (topic_partitions t)) (cq_topics req))"

inductive logs_step :: "(u8 list \<Rightarrow> u32) \<Rightarrow> frame_body \<Rightarrow> logs \<Rightarrow> logs \<Rightarrow> bool" for crc where
  step_fetch: "logs_step crc (Fetch req) L L"
| step_metadata: "logs_step crc (Metadata req) L L"
| step_produce: "qr_acks req \<noteq> AcksAll \<Longrightarrow> list_all2 (entry_holds crc) (request_entries req) es \<Longrightarrow>
    logs_step crc (Produce req) L (append_logs es L)"
| step_create: "distinct (created_keys req) \<Longrightarrow> \<forall>k \<in> set (created_keys req). L k = None \<Longrightarrow>
    logs_step crc (Topic req) L (\<lambda>k. if k \<in> set (created_keys req) then Some [] else L k)"

inductive_cases logs_step_FetchE: "logs_step crc (Fetch req) L L'"
inductive_cases logs_step_MetadataE: "logs_step crc (Metadata req) L L'"
inductive_cases logs_step_ProduceE: "logs_step crc (Produce req) L L'"
inductive_cases logs_step_TopicE: "logs_step crc (Topic req) L L'"

text \<open>Logs only grow.\<close>

definition logs_extend :: "logs \<Rightarrow> logs \<Rightarrow> bool" where
  "logs_extend L L' \<longleftrightarrow> (\<forall>k rss. L k = Some rss \<longrightarrow> (\<exists>sss. L' k = Some (rss @ sss)))"

lemma logs_extend_refl [simp]: "logs_extend L L"
  by (auto simp: logs_extend_def)

lemma logs_extend_trans: "logs_extend L L1 \<Longrightarrow> logs_extend L1 L2 \<Longrightarrow> logs_extend L L2"
  unfolding logs_extend_def by (metis append_assoc)

lemma append_logs_extend: "logs_extend L (append_logs es L)"
proof (induction es L rule: append_logs.induct)
  case (2 k rs es L)
  have "logs_extend L (case L k of None \<Rightarrow> L | Some rss \<Rightarrow> L(k \<mapsto> rss @ [rs]))"
    by (auto simp: logs_extend_def split: option.splits)
  with 2 show ?case
    using logs_extend_trans by fastforce
qed simp

lemma append_logs_append: "append_logs (es @ es') L = append_logs es' (append_logs es L)"
  by (induction es L rule: append_logs.induct) simp_all

lemma dom_append_logs [simp]: "dom (append_logs es L) = dom L"
  by (induction es L rule: append_logs.induct) (auto split: option.splits)

lemma logs_step_extend: "logs_step crc body L L' \<Longrightarrow> logs_extend L L'"
  by (induction rule: logs_step.induct) (auto simp: append_logs_extend, auto simp: logs_extend_def)

text \<open>Offsets and files stay within their sixty-four bits.\<close>

definition logs_room :: "logs \<Rightarrow> bool" where
  "logs_room L \<longleftrightarrow> (\<forall>k rss. L k = Some rss \<longrightarrow> length (concat rss) < 2 ^ 64 \<and> log_size rss < 2 ^ 64)"

lemma logs_room_extend:
  assumes "logs_extend L L'" and "logs_room L'"
  shows "logs_room L"
  unfolding logs_room_def
proof (intro allI impI)
  fix k rss
  assume "L k = Some rss"
  then obtain sss where "L' k = Some (rss @ sss)"
    using assms(1) by (auto simp: logs_extend_def)
  then have "length (concat (rss @ sss)) < 2 ^ 64 \<and> log_size (rss @ sss) < 2 ^ 64"
    using assms(2) unfolding logs_room_def by blast
  then show "length (concat rss) < 2 ^ 64 \<and> log_size rss < 2 ^ 64"
    by simp
qed

section \<open>Images that hold logs\<close>

definition image_holds :: "(u8 list \<Rightarrow> u32) \<Rightarrow> image \<Rightarrow> logs \<Rightarrow> bool" where
  "image_holds crc im L \<longleftrightarrow>
     (\<forall>k. rel_option (\<lambda>a rss. \<exists>stored. log_holds crc a stored rss) (map_of im k) (L k))"

lemma image_holds_Some:
  "image_holds crc im L \<Longrightarrow> map_of im k = Some a \<Longrightarrow>
    \<exists>stored rss. L k = Some rss \<and> log_holds crc a stored rss"
  unfolding image_holds_def by (drule spec [of _ k]) (auto simp: option_rel_Some1)

lemma image_holds_None: "image_holds crc im L \<Longrightarrow> map_of im k = None \<longleftrightarrow> L k = None"
  unfolding image_holds_def by (drule spec [of _ k], cases "map_of im k"; cases "L k"; simp)

lemma image_holds_update:
  assumes "image_holds crc im L" and "log_holds crc a stored rss"
  shows "image_holds crc (AList.update k a im) (L(k \<mapsto> rss))"
  using assms by (auto simp: image_holds_def update_conv')

lemma image_holds_keys: "image_holds crc im L \<Longrightarrow> image_keys im = dom L"
  by (simp add: dom_def image_holds_None)

lemma image_holds_empty [simp]: "image_holds crc [] Map.empty"
  by (simp add: image_holds_def)

lemma log_holds_stored:
  "log_holds crc a stored rss \<Longrightarrow> length (batches_layout stored) = log_size rss"
  using batches_carry_length batches_hold_carry by (auto simp: log_holds_def)

text \<open>The acknowledgements and the replicas are not part of the log.\<close>

lemma log_holds_cong:
  "pa_fs a' = pa_fs a \<Longrightarrow> pa_active a' = pa_active a \<Longrightarrow>
    ps_segments (pa_snapshot a') = ps_segments (pa_snapshot a) \<Longrightarrow>
    ps_log_end_offset (pa_snapshot a') = ps_log_end_offset (pa_snapshot a) \<Longrightarrow>
    log_holds crc a' stored rss = log_holds crc a stored rss"
  by (simp add: log_holds_def partition_holds_def)

lemma release_acks_alive: "\<exists>p. release_acks (\<lambda>_. True) a hw acks = Ok p"
  by (induction acks) auto

lemma update_replica_holds:
  assumes "log_holds crc a stored rss"
  shows "\<exists>a' fx. actor_run (\<lambda>_. True) [UpdateReplicaLeo replica_id leo] a = Ok (a', fx)
    \<and> log_holds crc a' stored rss"
proof -
  let ?next = "state_ack_replica replica_id leo (pa_snapshot a)"
  obtain pending fx where "release_acks (\<lambda>_. True) a (ps_high_watermark ?next) (pa_acks_pending a) = Ok (pending, fx)"
    using release_acks_alive by fastforce
  moreover have "log_holds crc (a\<lparr>pa_acks_pending := pending, pa_snapshot := ?next\<rparr>) stored rss"
    using assms by (subst log_holds_cong [of _ a]) (simp_all add: state_ack_replica_def Let_def)
  ultimately show ?thesis
    by (simp add: Let_def)
qed

section \<open>Fetch\<close>

text \<open>What a fetch returns of a partition that is there.\<close>

definition fetched :: "(u8 list \<Rightarrow> u32) \<Rightarrow> logs \<Rightarrow> u8 list \<Rightarrow> fetch_partition \<Rightarrow> partition_response \<Rightarrow> bool" where
  "fetched crc L topic p q \<longleftrightarrow>
     (case L (topic, ucast (fp_partition p)) of
        None \<Rightarrow> q = partition_response_error (fp_partition p) UnknownTopicOrPartition
      | Some rss \<Rightarrow>
          pr_partition_index q = ucast (ucast (fp_partition p) :: u16)
          \<and> (\<forall>b \<in> set (pr_records q). batch_checksum crc b)
          \<and> (\<exists>sss k. pr_error_code q = NoError \<and> batches_carry (pr_records q) sss \<and> log_size sss \<le> log_size rss
             \<and> concat sss = take k (drop (unat (fp_fetch_offset p)) (concat rss))
             \<and> k \<le> length (concat rss) - unat (fp_fetch_offset p)
             \<and> (unat (fp_fetch_offset p) < length (concat rss) \<longrightarrow> 0 < k)))"

lemma handle_fetch_logs:
  assumes B: "bytes_crate (en_bytes e)" and im: "image_holds (en_crc e) im L"
    and a: "map_of im (topic, ucast (fp_partition p)) = Some a"
  shows "\<exists>res cmds. handle_fetch (en_bytes e) (en_crc e) (ucast (ucast (fp_partition p) :: u16)) a p replica_id = Some (Ok (res, cmds))
    \<and> fetched (en_crc e) L topic p res \<and> (cmds = [] \<or> (\<exists>leo. cmds = [UpdateReplicaLeo replica_id leo]))"
proof -
  let ?part = "ucast (fp_partition p) :: u16"
  obtain stored rss where L: "L (topic, ?part) = Some rss" and log: "log_holds (en_crc e) a stored rss"
    using image_holds_Some [OF im a] by blast
  let ?res = "\<lambda>bs. \<lparr>pr_partition_index = ucast ?part, pr_error_code = NoError,
    pr_high_watermark = ps_high_watermark (pa_snapshot a),
    pr_log_start_offset = ps_log_end_offset (pa_snapshot a), pr_records = bs\<rparr>"
  obtain bs sss k where fetch: "state_fetch (en_bytes e) (en_crc e) (fs_data (pa_fs a)) (pa_snapshot a) (ucast ?part) p
      = Some (Ok (?res bs))"
    and got: "batches_carry bs sss" "\<forall>b \<in> set bs. batch_checksum (en_crc e) b"
      "length (batches_layout bs) \<le> length (batches_layout stored)" "concat sss = take k (drop (unat (fp_fetch_offset p)) (concat rss))"
      "k \<le> length (concat rss) - unat (fp_fetch_offset p)"
      "unat (fp_fetch_offset p) < length (concat rss) \<longrightarrow> 0 < k"
    using bytes_crate.state_fetch_records [OF B log, where req = p and i = "ucast ?part"] by blast
  have "fetched (en_crc e) L topic p (?res bs)"
    using got L log_holds_stored [OF log] batches_carry_length [OF got(1)] unfolding fetched_def by auto
  with fetch show ?thesis
    by (auto simp: handle_fetch_def)
qed

lemma fetch_from_partition_logs:
  assumes B: "bytes_crate (en_bytes e)" and im: "image_holds (en_crc e) im L"
  shows "\<exists>im1 q. fetch_from_partition e replica_id topic p im = Some (Ok (im1, q))
    \<and> image_holds (en_crc e) im1 L \<and> fetched (en_crc e) L topic p q"
proof -
  let ?part = "ucast (fp_partition p) :: u16"
  show ?thesis
  proof (cases "map_of im (topic, ?part)")
    case None
    then show ?thesis
      using im image_holds_None [OF im, of "(topic, ?part)"]
      by (simp add: fetch_from_partition_def broker_partition_def Let_def fetched_def)
  next
    case (Some a)
    then obtain stored rss where L: "L (topic, ?part) = Some rss" and log: "log_holds (en_crc e) a stored rss"
      using image_holds_Some [OF im] by blast
    obtain res cmds where cmds: "handle_fetch (en_bytes e) (en_crc e) (ucast ?part) a p replica_id = Some (Ok (res, cmds))"
      and fetched: "fetched (en_crc e) L topic p res" and which: "cmds = [] \<or> (\<exists>leo. cmds = [UpdateReplicaLeo replica_id leo])"
      using handle_fetch_logs [OF B im Some] by blast
    have "\<exists>a' fx. actor_run (\<lambda>_. True) cmds a = Ok (a', fx) \<and> log_holds (en_crc e) a' stored rss"
      using which log update_replica_holds [OF log] by auto
    then obtain a' fx where run: "actor_run (\<lambda>_. True) cmds a = Ok (a', fx)" "log_holds (en_crc e) a' stored rss"
      by blast
    have "image_holds (en_crc e) (AList.update (topic, ?part) a' im) L"
      using image_holds_update [OF im run(2), of "(topic, ?part)"] L by (simp add: fun_upd_idem)
    with Some cmds run(1) fetched show ?thesis
      by (simp add: fetch_from_partition_def broker_partition_def Let_def)
  qed
qed

text \<open>A loop whose steps keep an invariant runs to its end, and its results satisfy what each step shows.\<close>

lemma thread_runs:
  assumes "P s" and "\<And>x s. x \<in> set xs \<Longrightarrow> P s \<Longrightarrow> \<exists>s1 y. f x s = Some (Ok (s1, y)) \<and> P s1 \<and> R x y"
  shows "\<exists>s' ys. thread f xs s = Some (Ok (s', ys)) \<and> P s' \<and> list_all2 R xs ys"
  using assms
proof (induction xs arbitrary: s)
  case (Cons x xs)
  obtain s1 y where "f x s = Some (Ok (s1, y))" "P s1" "R x y"
    using Cons.prems by (meson list.set_intros(1))
  moreover obtain s' ys where "thread f xs s1 = Some (Ok (s', ys))" "P s'" "list_all2 R xs ys"
    using Cons.IH [OF \<open>P s1\<close>] Cons.prems(2) by (meson list.set_intros(2))
  ultimately show ?case
    by simp
qed simp

definition all_fetched :: "(u8 list \<Rightarrow> u32) \<Rightarrow> logs \<Rightarrow> fetch_topic \<Rightarrow> topic_response \<Rightarrow> bool" where
  "all_fetched crc L t r \<longleftrightarrow> tr_topic r = ft_topic t \<and> list_all2 (fetched crc L (ft_topic t)) (ft_partitions t) (tr_partitions r)"

lemma fetch_from_topic_logs:
  assumes "bytes_crate (en_bytes e)" and "image_holds (en_crc e) im L"
  shows "\<exists>im1 r. fetch_from_topic e replica_id t im = Some (Ok (im1, r)) \<and> image_holds (en_crc e) im1 L
    \<and> all_fetched (en_crc e) L t r"
proof -
  obtain im1 ps where "thread (fetch_from_partition e replica_id (ft_topic t)) (ft_partitions t) im = Some (Ok (im1, ps))"
    "image_holds (en_crc e) im1 L" "list_all2 (fetched (en_crc e) L (ft_topic t)) (ft_partitions t) ps"
    using thread_runs [of "\<lambda>im. image_holds (en_crc e) im L" im "ft_partitions t"
        "fetch_from_partition e replica_id (ft_topic t)" "fetched (en_crc e) L (ft_topic t)"]
      fetch_from_partition_logs [OF assms(1)] assms(2) by blast
  then show ?thesis
    by (simp add: fetch_from_topic_def all_fetched_def)
qed

lemma broker_handle_fetch_logs:
  assumes "bytes_crate (en_bytes e)" and "image_holds (en_crc e) im L"
  shows "\<exists>im1 ts. broker_handle_fetch e h req im =
      Some (Ok (im1, (let resp = \<lparr>nr_throttle_time_ms = en_elapsed e, nr_responses = ts\<rparr>
        in \<lparr>fm_size = fetch_response_get_size resp + request_header_get_size h, fm_header = h,
            fm_body = FetchResponse resp\<rparr>)))
    \<and> image_holds (en_crc e) im1 L \<and> list_all2 (all_fetched (en_crc e) L) (nf_topics req) ts"
proof -
  obtain im1 ts where "thread (fetch_from_topic e (nf_replica_id req)) (nf_topics req) im = Some (Ok (im1, ts))"
    "image_holds (en_crc e) im1 L" "list_all2 (all_fetched (en_crc e) L) (nf_topics req) ts"
    using thread_runs [of "\<lambda>im. image_holds (en_crc e) im L" im "nf_topics req"
        "fetch_from_topic e (nf_replica_id req)" "all_fetched (en_crc e) L"]
      fetch_from_topic_logs [OF assms(1)] assms(2) by blast
  then show ?thesis
    by (auto simp: broker_handle_fetch_def Let_def)
qed

section \<open>Produce\<close>

lemma append_to_partition_logs:
  assumes acks: "acks \<noteq> AcksAll" and im: "image_holds crc im L"
    and entry: "entry_holds crc ((topic, qp_index p), qp_records p) en" and room: "logs_room (append_logs [en] L)"
  shows "\<exists>im1 q. append_to_partition e acks topic p im = Some (Ok (im1, q)) \<and> image_holds crc im1 (append_logs [en] L)"
proof -
  let ?k = "(topic, qp_index p)" and ?b = "qp_records p"
  obtain rs where en: "en = (?k, rs)" and b: "batches_hold [?b] [rs]" "rs \<noteq> []" "batch_checksum crc ?b"
    using entry by (cases en) (auto simp: entry_holds_def)
  show ?thesis
  proof (cases "map_of im ?k")
    case None
    then show ?thesis
      using im image_holds_None [OF im, of ?k] by (simp add: append_to_partition_def broker_partition_def en)
  next
    case (Some a)
    then obtain stored rss where L: "L ?k = Some rss" and log: "log_holds crc a stored rss"
      using image_holds_Some [OF im] by blast
    have "batch_holds ?b rs"
      using b(1) by (simp add: batches_hold_def)
    then have "length (batch_layout ?b) = 61 + length (records_layout rs)"
      by (rule batch_holds_length)
    moreover have "length (concat (rss @ [rs])) < 2 ^ 64 \<and> log_size (rss @ [rs]) < 2 ^ 64"
      using room L unfolding logs_room_def en by (metis append_logs.simps fun_upd_same option.simps(5))
    ultimately have "\<exists>stored'. log_holds crc (actor_append ?b a) stored' (rss @ [rs])"
      using log_holds_append [OF log b] log_holds_stored [OF log] by auto
    then have "image_holds crc (AList.update ?k (actor_append ?b a) im) (L(?k \<mapsto> rss @ [rs]))"
      using image_holds_update [OF im] by blast
    with Some L show ?thesis
      using acks by (simp add: append_to_partition_def broker_partition_def handle_append_now en)
  qed
qed

lemma append_partitions_logs:
  assumes "acks \<noteq> AcksAll" and "image_holds crc im L"
    and "list_all2 (entry_holds crc) (map (\<lambda>p. ((topic, qp_index p), qp_records p)) ps) es"
    and "logs_room (append_logs es L)"
  shows "\<exists>im1 qs. thread (append_to_partition e acks topic) ps im = Some (Ok (im1, qs))
    \<and> image_holds crc im1 (append_logs es L)"
  using assms(2-4)
proof (induction ps arbitrary: im L es)
  case (Cons p ps)
  from Cons.prems(2) obtain en es' where es: "es = en # es'" "entry_holds crc ((topic, qp_index p), qp_records p) en"
    "list_all2 (entry_holds crc) (map (\<lambda>p. ((topic, qp_index p), qp_records p)) ps) es'"
    by (auto simp: list_all2_Cons1)
  have split: "append_logs es L = append_logs es' (append_logs [en] L)"
    using append_logs_append [of "[en]" es' L] es(1) by simp
  then have room: "logs_room (append_logs [en] L)"
    using Cons.prems(3) append_logs_extend logs_room_extend by metis
  obtain im1 q where "append_to_partition e acks topic p im = Some (Ok (im1, q))" "image_holds crc im1 (append_logs [en] L)"
    using append_to_partition_logs [OF assms(1) Cons.prems(1) es(2) room] by blast
  with Cons.IH [of im1 "append_logs [en] L" es'] es(3) Cons.prems(3) split show ?case
    by auto
qed auto

lemma append_to_topics_logs:
  assumes "acks \<noteq> AcksAll" and "image_holds crc im L"
    and "list_all2 (entry_holds crc)
      (concat (map (\<lambda>t. map (\<lambda>p. ((qt_topic t, qp_index p), qp_records p)) (qt_partitions t)) ts)) es"
    and "logs_room (append_logs es L)"
  shows "\<exists>im1 rs. thread (append_to_topic e acks) ts im = Some (Ok (im1, rs))
    \<and> image_holds crc im1 (append_logs es L)"
  using assms(2-4)
proof (induction ts arbitrary: im L es)
  case (Cons t ts)
  from Cons.prems(2) obtain es1 es2 where es: "es = es1 @ es2"
    "list_all2 (entry_holds crc) (map (\<lambda>p. ((qt_topic t, qp_index p), qp_records p)) (qt_partitions t)) es1"
    "list_all2 (entry_holds crc)
      (concat (map (\<lambda>t. map (\<lambda>p. ((qt_topic t, qp_index p), qp_records p)) (qt_partitions t)) ts)) es2"
    by (auto simp: list_all2_append1)
  have split: "append_logs es L = append_logs es2 (append_logs es1 L)"
    by (simp add: es(1) append_logs_append)
  then have room: "logs_room (append_logs es1 L)"
    using Cons.prems(3) append_logs_extend logs_room_extend by metis
  obtain im1 qs where "thread (append_to_partition e acks (qt_topic t)) (qt_partitions t) im = Some (Ok (im1, qs))"
    "image_holds crc im1 (append_logs es1 L)"
    using append_partitions_logs [OF assms(1) Cons.prems(1) es(2) room] by blast
  then have "\<exists>r. append_to_topic e acks t im = Some (Ok (im1, r))"
    by (simp add: append_to_topic_def)
  with \<open>image_holds crc im1 (append_logs es1 L)\<close> Cons.IH [of im1 "append_logs es1 L" es2] es(3) Cons.prems(3) split
  show ?case
    by auto
qed auto

section \<open>Creating topics\<close>

text \<open>An environment whose directories for new partitions are empty.\<close>

definition env_ok :: "(u8 list \<Rightarrow> u32) \<Rightarrow> broker_env \<Rightarrow> bool" where
  "env_ok crc e \<longleftrightarrow> bytes_crate (en_bytes e) \<and> en_crc e = crc \<and> read_dir_law (en_read_dir e)
     \<and> (\<forall>k. en_disk e k = fs_empty)"

lemma append_all_metadata_total: "\<exists>a'. append_all_metadata B crc clock rs a = Ok a'"
  by (induction rs arbitrary: a) (simp_all add: append_metadata_def handle_append_now)

lemma log_topics_total: "\<exists>a'. log_topics B crc clock ts a = Ok a'"
proof (induction ts arbitrary: a)
  case (Cons t ts)
  then show ?case
    using append_all_metadata_total [of B crc clock "topic_records t" a] by auto
qed simp

lemma spawn_empty:
  assumes "read_dir_law read_dir" and "0 < pc_segment_bytes cfg"
  shows "\<exists>a. handle_spawn read_dir cfg fs_empty = Some (Ok a) \<and> log_holds crc a [] []"
  using actor_new_empty [OF assms(2), of crc] read_dir_empty [OF assms(1)] by (auto simp: handle_spawn_def)

lemma create_topic_logs:
  assumes "read_dir_law read_dir" and "\<forall>k. disk k = fs_empty" and "image_holds crc im L"
    and "distinct (record_keys (t, ps))" and "\<forall>k \<in> set (record_keys (t, ps)). L k = None"
  shows "\<exists>im'. image_create_topic read_dir disk t ps im = Some (Ok im')
    \<and> image_holds crc im' (\<lambda>k. if k \<in> set (record_keys (t, ps)) then Some [] else L k)"
  using assms(3-5)
proof (induction ps arbitrary: im L)
  case (Cons p ps)
  let ?key = "(tc_name t, pt_partition_id p)" and ?cfg = "default_partition_config (pt_partition_id p) (ucast (pt_leader p))"
  let ?L = "L(?key \<mapsto> [])"
  have keys: "record_keys (t, p # ps) = ?key # record_keys (t, ps)"
    by (simp add: record_keys_def)
  have "map_of im ?key = None"
    using Cons.prems(1,3) keys by (simp add: image_holds_None)
  then have "directory disk im ?key = fs_empty"
    using assms(2) by (simp add: directory_def)
  moreover obtain a where a: "handle_spawn read_dir ?cfg fs_empty = Some (Ok a)" "log_holds crc a [] []"
    using spawn_empty [OF assms(1), of ?cfg] by (auto simp: default_partition_config_def)
  moreover have "distinct (record_keys (t, ps))" and "\<forall>k \<in> set (record_keys (t, ps)). ?L k = None"
    using Cons.prems(2,3) keys by auto
  then obtain im' where "image_create_topic read_dir disk t ps (AList.update ?key a im) = Some (Ok im')"
    "image_holds crc im' (\<lambda>k. if k \<in> set (record_keys (t, ps)) then Some [] else ?L k)"
    using Cons.IH [OF image_holds_update [OF Cons.prems(1) a(2)]] by blast
  moreover have "(\<lambda>k. if k \<in> set (record_keys (t, ps)) then Some [] else ?L k)
      = (\<lambda>k. if k \<in> set (record_keys (t, p # ps)) then Some [] else L k)"
    using keys by (auto simp: fun_eq_iff)
  ultimately show ?case
    by (simp add: Let_def)
qed (simp add: record_keys_def)

lemma create_topics_logs:
  assumes "read_dir_law read_dir" and "\<forall>k. disk k = fs_empty" and "image_holds crc im L"
    and "distinct (concat (map record_keys tps))" and "\<forall>k \<in> set (concat (map record_keys tps)). L k = None"
  shows "\<exists>im'. image_create_topics read_dir disk tps im = Some (Ok im')
    \<and> image_holds crc im' (\<lambda>k. if k \<in> set (concat (map record_keys tps)) then Some [] else L k)"
  using assms(3-5)
proof (induction tps arbitrary: im L)
  case (Cons tp tps)
  obtain t ps where tp: "tp = (t, ps)"
    by fastforce
  let ?L = "\<lambda>k. if k \<in> set (record_keys (t, ps)) then Some [] else L k"
  obtain im1 where im1: "image_create_topic read_dir disk t ps im = Some (Ok im1)" "image_holds crc im1 ?L"
    using create_topic_logs [OF assms(1,2) Cons.prems(1), of t ps] Cons.prems(2,3) by (auto simp: tp)
  have "\<forall>k \<in> set (concat (map record_keys tps)). ?L k = None"
    using Cons.prems(2,3) by (auto simp: tp)
  then obtain im' where "image_create_topics read_dir disk tps im1 = Some (Ok im')"
    "image_holds crc im' (\<lambda>k. if k \<in> set (concat (map record_keys tps)) then Some [] else ?L k)"
    using Cons.IH [OF im1(2)] Cons.prems(2) by auto
  moreover have "(\<lambda>k. if k \<in> set (concat (map record_keys tps)) then Some [] else ?L k)
      = (\<lambda>k. if k \<in> set (concat (map record_keys (tp # tps))) then Some [] else L k)"
    by (auto simp: tp fun_eq_iff)
  ultimately show ?case
    using im1(1) by (simp add: tp)
qed simp

lemma created_record_keys:
  "concat (map record_keys (map (\<lambda>t. (\<lparr>tc_name = tq_name t\<rparr>, topic_partitions t)) (cq_topics req))) = created_keys req"
  by (simp add: created_keys_def record_keys_def comp_def)

section \<open>Every request\<close>

lemma bk_image_set [simp]: "bk_image (broker_set_image br im) = im"
  by (simp add: bk_image_def broker_set_image_def)

lemma broker_create_logs:
  assumes "env_ok crc e" and "image_holds crc (bk_image br) L"
    and "distinct (created_keys req)" and "\<forall>k \<in> set (created_keys req). L k = None" and "fm_body f = Topic req"
  shows "\<exists>br' g. broker_handle e f br = Some (Ok (br', g)) \<and> fm_header g = fm_header f
    \<and> image_holds crc (bk_image br') (\<lambda>k. if k \<in> set (created_keys req) then Some [] else L k)"
proof -
  obtain a' where log: "log_topics (en_bytes e) (en_crc e) (en_clock e) (cq_topics req) (ma_handle (bk_meta br)) = Ok a'"
    using log_topics_total by blast
  let ?tps = "map (\<lambda>t. (\<lparr>tc_name = tq_name t\<rparr>, topic_partitions t)) (cq_topics req)"
  have "\<exists>im'. image_create_topics (en_read_dir e) (en_disk e) ?tps (bk_image br) = Some (Ok im')
      \<and> image_holds crc im' (\<lambda>k. if k \<in> set (concat (map record_keys ?tps)) then Some [] else L k)"
    by (rule create_topics_logs)
      (use assms in \<open>simp_all only: created_record_keys env_ok_def not_False_eq_True simp_thms\<close>)
  then obtain im' where "image_create_topics (en_read_dir e) (en_disk e) ?tps (ma_snapshot (bk_meta br)) = Some (Ok im')"
    "image_holds crc im' (\<lambda>k. if k \<in> set (created_keys req) then Some [] else L k)"
    unfolding created_record_keys bk_image_def by blast
  with log show ?thesis
    using assms(5)
    by (simp add: broker_handle_def broker_handle_create_topics_def metadata_create_topics_def bk_image_def Let_def)
qed

lemma broker_produce_logs:
  assumes "image_holds crc (bk_image br) L" and "qr_acks req \<noteq> AcksAll"
    and "list_all2 (entry_holds crc) (request_entries req) es" and "logs_room (append_logs es L)"
    and "fm_body f = Produce req"
  shows "\<exists>br' g. broker_handle e f br = Some (Ok (br', g)) \<and> fm_header g = fm_header f
    \<and> image_holds crc (bk_image br') (append_logs es L)"
  using append_to_topics_logs [OF assms(2,1) assms(3) [unfolded request_entries_def] assms(4), of e] assms(5)
  by (auto simp: broker_handle_def broker_handle_produce_def Let_def)

section \<open>Properties\<close>

text \<open>C3: a broker implements the abstract one on the requests the latter takes: fetches, metadata
  requests, produce requests that do not wait for all replicas and whose batches are well formed,
  not empty and have their checksum, and requests for topics whose partitions are distinct and do
  not exist yet, on empty directories. When its partitions hold the logs and these have room, such
  a request is answered, the partitions then hold the logs after the abstract step, and a fetch is
  answered with the records of the logs from the offsets it asks for on. Creating a topic that
  exists is not among the steps: the broker then opens its files a second time.\<close>

theorem broker_refines_logs:
  assumes "env_ok crc e" and "image_holds crc (bk_image br) L"
    and "logs_step crc (fm_body f) L L'" and "logs_room L'"
  shows "\<exists>br' g. broker_handle e f br = Some (Ok (br', g)) \<and> fm_header g = fm_header f
    \<and> image_holds crc (bk_image br') L'
    \<and> (\<forall>req. fm_body f = Fetch req \<longrightarrow>
         (\<exists>resp. fm_body g = FetchResponse resp \<and> list_all2 (all_fetched crc L) (nf_topics req) (nr_responses resp)))"
  using assms(3)
proof cases
  case (step_fetch req)
  have e: "bytes_crate (en_bytes e)" "image_holds (en_crc e) (bk_image br) L"
    using assms(1,2) by (simp_all add: env_ok_def)
  show ?thesis
    using broker_handle_fetch_logs [OF e, of "fm_header f" req] step_fetch assms(1)
    by (auto simp: broker_handle_def Let_def env_ok_def)
next
  case (step_metadata req)
  then show ?thesis
    using assms(2) by (simp add: broker_handle_def broker_handle_metadata_def Let_def)
next
  case (step_produce req es)
  then show ?thesis
    using broker_produce_logs [OF assms(2) step_produce(3,4) _ step_produce(1), of e] assms(4) by auto
next
  case (step_create req)
  then show ?thesis
    using broker_create_logs [OF assms(1,2) step_create(3,4,1)] by auto
qed

definition sample_logs_env :: broker_env where
  "sample_logs_env = sample_env\<lparr>en_read_dir := sample_read_dir\<rparr>"

lemma sample_logs_env_ok: "env_ok (\<lambda>bs. 7) sample_logs_env"
  using sample_read_dir_law list_bytes.bytes_crate_axioms
  by (simp add: env_ok_def sample_logs_env_def sample_env_def)

lemma sample_image_holds:
  "log_holds crc a stored rss \<Longrightarrow> image_holds crc (bk_image (sample_broker a)) [([116], 0) \<mapsto> rss]"
  by (auto simp: image_holds_def)

lemma broker_refines_logs_witness:
  "\<exists>a br' g. image_holds (\<lambda>bs. 7) (bk_image (sample_broker a)) [([116], 0) \<mapsto> [rebased sample_records]]
    \<and> broker_handle sample_logs_env (sample_frame ApiProduce (Produce sample_produce_request)) (sample_broker a) = Some (Ok (br', g))
    \<and> image_holds (\<lambda>bs. 7) (bk_image br') [([116], 0) \<mapsto> [rebased sample_records, rebased sample_records]]"
proof -
  obtain a where log: "log_holds (\<lambda>bs. 7) a [batch_update_base_offset 0 sample_produce] [rebased sample_records]"
    using sample_actor_exists by blast
  let ?L = "[([116], 0) \<mapsto> [rebased sample_records]] :: logs"
  let ?es = "[(([116], 0), rebased sample_records), (([116], 1), rebased sample_records)] :: (topic_partition \<times> msg_record list) list"
  have im: "image_holds (\<lambda>bs. 7) (bk_image (sample_broker a)) ?L"
    by (rule sample_image_holds [OF log])
  have "length (rebased sample_records) \<noteq> 0"
    unfolding length_rebased length_sample_records by simp
  then have ne: "rebased sample_records \<noteq> []"
    unfolding length_0_conv .
  have entry: "entry_holds (\<lambda>bs. 7) (k, sample_produce) (k, rebased sample_records)" for k
    using sample_produce_stored sample_produce_holds(2) ne by (simp add: entry_holds_def)
  have logs: "append_logs ?es ?L = [([116], 0) \<mapsto> [rebased sample_records, rebased sample_records]]"
    by simp
  have "list_all2 (entry_holds (\<lambda>bs. 7)) (request_entries sample_produce_request) ?es"
    using entry by (simp add: request_entries_def sample_produce_request_def)
  then have step: "logs_step (\<lambda>bs. 7) (fm_body (sample_frame ApiProduce (Produce sample_produce_request))) ?L (append_logs ?es ?L)"
    unfolding sample_frame_body by (rule step_produce [rotated]) (simp add: sample_produce_request_def)
  have "logs_room (append_logs ?es ?L)"
    unfolding logs using sample_records_layout_small
    by (auto simp: logs_room_def length_sample_records length_records_layout_rebased)
  with broker_refines_logs [OF sample_logs_env_ok im step] im show ?thesis
    unfolding logs by blast
qed

end
