(* ===== verification/Client_Producer.thy ===== *)
theory Client_Producer
  imports Client_Requests Broker_Logs
begin

text \<open>
  The producer (\<open>crates/producer/src\<close>): payloads and commands, the choice of a partition, the
  exchange with the broker and the loop that gathers records into batches (\<open>actor.rs\<close>), and the
  conversion of a batch into a request (\<open>network/src/protocol/produce/request\<close>).

  What a step needs from outside is its environment: the clock, the random numbers, and the order
  in which hash maps are iterated. The hash \<open>murmur2\<close> is the function \<open>hash\<close>. A hash map is an
  association list.
\<close>

section \<open>Payloads and commands\<close>

record publish_payload =
  py_topic :: "u8 list"
  py_key :: "u8 list option"
  py_value :: "u8 list"

definition payload_into_record :: "u64 \<Rightarrow> publish_payload \<Rightarrow> msg_record" where
  "payload_into_record now p =
     (let key = (case py_key p of Some k \<Rightarrow> k | None \<Rightarrow> []) in record_new now 0 key (py_value p))"

datatype producer_command = Sync publish_payload | Async publish_payload | Shutdown

record producer_config =
  pg_ms_wait :: u64
  pg_max_bytes :: u32

datatype producer_error =
  ConnErr | IoErr | ParseErr | FormatErr | ClientErr | UnknownTopicErr | ChanClosed | UnknownErr

section \<open>Requests\<close>

type_synonym producer_batch = "(u8 list \<times> (u16 \<times> msg_record list) list) list"

record producer_env =
  pe_now :: u64
  pe_random :: "nat \<Rightarrow> nat"
  pe_correlation_id :: u32
  pe_topics :: "producer_batch \<Rightarrow> producer_batch"
  pe_partitions :: "(u16 \<times> msg_record list) list \<Rightarrow> (u16 \<times> msg_record list) list"

definition duration_from_secs :: "u64 \<Rightarrow> duration" where
  "duration_from_secs s = unat s * 1000000000"

definition produce_request_from ::
    "bytes_ops \<Rightarrow> (u8 list \<Rightarrow> u32) \<Rightarrow> producer_env \<Rightarrow> producer_batch \<Rightarrow> produce_request" where
  "produce_request_from B crc e m =
     \<lparr>qr_transactional_id = 0, qr_acks = AcksLeader, qr_timeout = duration_from_secs 10,
      qr_topics = map (\<lambda>(topic, partitions).
        \<lparr>qt_topic = topic,
         qt_partitions = map (\<lambda>(index, records).
           \<lparr>qp_index = index, qp_records = batch_from_records B crc records\<rparr>) (pe_partitions e partitions)\<rparr>)
        (pe_topics e m)\<rparr>"

definition frame_from_produce :: "u32 \<Rightarrow> produce_request \<Rightarrow> frame" where
  "frame_from_produce correlation_id req = frame_new correlation_id ApiProduce (Produce req)"

section \<open>The actor\<close>

record producer_actor =
  pd_hash :: "u8 list \<Rightarrow> u32 \<Rightarrow> u32"
  pd_metadata_image :: metadata_response
  pd_config :: producer_config

definition murmur2_seed :: u32 where
  "murmur2_seed = 0x9747b28c"

definition calculate_index ::
    "producer_actor \<Rightarrow> producer_env \<Rightarrow> publish_payload \<Rightarrow> (producer_error, u16) outcome" where
  "calculate_index a e p =
     (case find (\<lambda>t. tm_name t = py_topic p) (mr_topics (pd_metadata_image a)) of
        None \<Rightarrow> Err UnknownTopicErr
      | Some t \<Rightarrow>
          (let n = length (tm_partitions t)
           in if n = 0 then Panic
              else Ok (of_nat (case py_key p of
                     Some key \<Rightarrow> unat (pd_hash a key murmur2_seed) mod n
                   | None \<Rightarrow> pe_random e n))))"

fun producer_error_from :: "request_error \<Rightarrow> producer_error" where
  "producer_error_from request_error.IoErr = IoErr"
| "producer_error_from request_error.ParseErr = ParseErr"
| "producer_error_from request_error.FormatErr = FormatErr"

definition publish_raw ::
    "stream_ops \<Rightarrow> bytes_ops \<Rightarrow> (u8 list \<Rightarrow> u32) \<Rightarrow> 's peer \<Rightarrow> frame \<Rightarrow> 's \<times> u8 list \<Rightarrow>
      ('s \<times> u8 list) \<times> (producer_error, unit) outcome" where
  "publish_raw T B crc peer f s =
     (let (s1, r) = exchange T B crc peer f s
      in (s1, obind (map_error producer_error_from r) (\<lambda>g.
           case fm_body g of ProduceResponse response \<Rightarrow> Ok () | _ \<Rightarrow> Panic)))"

definition publish ::
    "stream_ops \<Rightarrow> bytes_ops \<Rightarrow> (u8 list \<Rightarrow> u32) \<Rightarrow> 's peer \<Rightarrow> producer_env \<Rightarrow> producer_batch \<Rightarrow> 's \<times> u8 list \<Rightarrow>
      ('s \<times> u8 list) \<times> (producer_error, unit) outcome" where
  "publish T B crc peer e m s =
     publish_raw T B crc peer (frame_from_produce (pe_correlation_id e) (produce_request_from B crc e m)) s"

definition publish_once ::
    "stream_ops \<Rightarrow> bytes_ops \<Rightarrow> (u8 list \<Rightarrow> u32) \<Rightarrow> 's peer \<Rightarrow> producer_actor \<Rightarrow> producer_env \<Rightarrow>
      publish_payload \<Rightarrow> 's \<times> u8 list \<Rightarrow> ('s \<times> u8 list) \<times> (producer_error, unit) outcome" where
  "publish_once T B crc peer a e p s =
     (case calculate_index a e p of
        Ok idx \<Rightarrow> publish T B crc peer e [(py_topic p, [(idx, [payload_into_record (pe_now e) p])])] s
      | Err er \<Rightarrow> (s, Err er)
      | Panic \<Rightarrow> (s, Panic))"

section \<open>The loop\<close>

text \<open>
  The loop waits for a command or for the timer, whichever comes first. The timer is only waited
  for while it is active and there is something to send: at other times it does nothing.
\<close>

datatype producer_event = Received producer_command | TimerFired

record 's batcher =
  bt_batch :: producer_batch
  bt_timer_active :: bool
  bt_stream :: "'s \<times> u8 list"

definition batcher_new :: "'s \<times> u8 list \<Rightarrow> 's batcher" where
  "batcher_new s = \<lparr>bt_batch = [], bt_timer_active = False, bt_stream = s\<rparr>"

definition batch_push :: "u8 list \<Rightarrow> u16 \<Rightarrow> msg_record \<Rightarrow> producer_batch \<Rightarrow> producer_batch" where
  "batch_push topic idx r m =
     AList.update topic (push_entry idx r (case map_of m topic of Some ps \<Rightarrow> ps | None \<Rightarrow> [])) m"

text \<open>A step returns the new state, and whether the loop goes on.\<close>

definition batcher_sync ::
    "stream_ops \<Rightarrow> bytes_ops \<Rightarrow> (u8 list \<Rightarrow> u32) \<Rightarrow> 's peer \<Rightarrow> producer_actor \<Rightarrow> producer_env \<Rightarrow>
      publish_payload \<Rightarrow> 's batcher \<Rightarrow> (unit, 's batcher \<times> bool) outcome" where
  "batcher_sync T B crc peer a e p b =
     (let (s1, r) = publish_once T B crc peer a e p (bt_stream b)
      in omap (\<lambda>_. (b\<lparr>bt_stream := s1\<rparr>, True)) (unwrap r))"

definition batcher_async ::
    "stream_ops \<Rightarrow> bytes_ops \<Rightarrow> (u8 list \<Rightarrow> u32) \<Rightarrow> 's peer \<Rightarrow> producer_actor \<Rightarrow> producer_env \<Rightarrow>
      publish_payload \<Rightarrow> 's batcher \<Rightarrow> (unit, 's batcher \<times> bool) outcome" where
  "batcher_async T B crc peer a e p b =
     obind (unwrap (calculate_index a e p)) (\<lambda>idx.
       let m = batch_push (py_topic p) idx (payload_into_record (pe_now e) p) (bt_batch b);
           f = frame_from_produce (pe_correlation_id e) (produce_request_from B crc e m)
       in if pg_max_bytes (pd_config a) \<le> fm_size f
          then let (s1, r) = publish_raw T B crc peer f (bt_stream b)
               in omap (\<lambda>_. (\<lparr>bt_batch = [], bt_timer_active = False, bt_stream = s1\<rparr>, True)) (unwrap r)
          else Ok (b\<lparr>bt_batch := m, bt_timer_active := True\<rparr>, True))"

definition batcher_shutdown ::
    "stream_ops \<Rightarrow> bytes_ops \<Rightarrow> (u8 list \<Rightarrow> u32) \<Rightarrow> 's peer \<Rightarrow> producer_env \<Rightarrow> 's batcher \<Rightarrow>
      (unit, 's batcher \<times> bool) outcome" where
  "batcher_shutdown T B crc peer e b =
     (if bt_batch b = [] then Ok (b, False)
      else let (s1, r) = publish T B crc peer e (bt_batch b) (bt_stream b)
           in omap (\<lambda>_. (b\<lparr>bt_batch := [], bt_stream := s1\<rparr>, False)) (unwrap r))"

definition batcher_timer ::
    "stream_ops \<Rightarrow> bytes_ops \<Rightarrow> (u8 list \<Rightarrow> u32) \<Rightarrow> 's peer \<Rightarrow> producer_env \<Rightarrow> 's batcher \<Rightarrow>
      (unit, 's batcher \<times> bool) outcome" where
  "batcher_timer T B crc peer e b =
     (if \<not> bt_timer_active b \<or> bt_batch b = [] then Ok (b, True)
      else let (s1, r) = publish T B crc peer e (bt_batch b) (bt_stream b)
           in omap (\<lambda>_. (\<lparr>bt_batch = [], bt_timer_active = False, bt_stream = s1\<rparr>, True)) (unwrap r))"

fun batcher_step ::
    "stream_ops \<Rightarrow> bytes_ops \<Rightarrow> (u8 list \<Rightarrow> u32) \<Rightarrow> 's peer \<Rightarrow> producer_actor \<Rightarrow> producer_env \<Rightarrow>
      producer_event \<Rightarrow> 's batcher \<Rightarrow> (unit, 's batcher \<times> bool) outcome" where
  "batcher_step T B crc peer a e (Received (Sync p)) b = batcher_sync T B crc peer a e p b"
| "batcher_step T B crc peer a e (Received (Async p)) b = batcher_async T B crc peer a e p b"
| "batcher_step T B crc peer a e (Received Shutdown) b = batcher_shutdown T B crc peer e b"
| "batcher_step T B crc peer a e TimerFired b = batcher_timer T B crc peer e b"

fun batcher_run ::
    "stream_ops \<Rightarrow> bytes_ops \<Rightarrow> (u8 list \<Rightarrow> u32) \<Rightarrow> 's peer \<Rightarrow> producer_actor \<Rightarrow>
      (producer_env \<times> producer_event) list \<Rightarrow> 's batcher \<Rightarrow> (unit, 's batcher) outcome" where
  "batcher_run T B crc peer a [] b = Ok b"
| "batcher_run T B crc peer a ((e, ev) # events) b =
     obind (batcher_step T B crc peer a e ev b) (\<lambda>(b1, continue).
       if continue then batcher_run T B crc peer a events b1 else Ok b1)"

section \<open>Starting\<close>

text \<open>The metadata is asked for first; a connection that is closed before the answer is a panic.\<close>

definition producer_new ::
    "stream_ops \<Rightarrow> bytes_ops \<Rightarrow> (u8 list \<Rightarrow> u32) \<Rightarrow> 's peer \<Rightarrow> u32 \<Rightarrow> (u8 list \<Rightarrow> u32 \<Rightarrow> u32) \<Rightarrow>
      producer_config \<Rightarrow> 's \<times> u8 list \<Rightarrow> ('s \<times> u8 list) \<times> (producer_error, producer_actor) outcome" where
  "producer_new T B crc peer correlation_id hash cfg = (\<lambda>(s, pending).
     (let body = \<lparr>mq_topics = [], mq_allow_auto_topic_creation = True\<rparr>
      in case peer s (frame_encode B (frame_new correlation_id ApiMetadata (Metadata body))) of
           None \<Rightarrow> ((s, pending), Err IoErr)
         | Some (s1, answer) \<Rightarrow>
             (case so_read_u32 T (pending @ answer) of
                None \<Rightarrow> ((s1, []), Panic)
              | Some (sz, rest) \<Rightarrow>
                  (case so_read_exact T (unat sz) rest of
                     None \<Rightarrow> ((s1, []), Err IoErr)
                   | Some (buf, rest) \<Rightarrow>
                       ((s1, rest),
                        obind (map_error (\<lambda>_. ParseErr) (frame_decode_response B crc buf sz)) (\<lambda>f.
                        omap (\<lambda>metadata. \<lparr>pd_hash = hash, pd_metadata_image = metadata, pd_config = cfg\<rparr>)
                          (map_error (\<lambda>_. FormatErr) (metadata_response_try_from (fm_body f)))))))))"

section \<open>What a batch holds\<close>

definition records_at :: "producer_batch \<Rightarrow> u8 list \<times> u16 \<Rightarrow> msg_record list" where
  "records_at m k =
     (case map_of m (fst k) of
        None \<Rightarrow> []
      | Some ps \<Rightarrow> (case map_of ps (snd k) of None \<Rightarrow> [] | Some rs \<Rightarrow> rs))"

definition batch_entries :: "producer_batch \<Rightarrow> ((u8 list \<times> u16) \<times> msg_record list) list" where
  "batch_entries m = concat (map (\<lambda>(t, ps). map (\<lambda>(i, rs). ((t, i), rs)) ps) m)"

text \<open>The keys of the maps are distinct.\<close>

definition batch_wf :: "producer_batch \<Rightarrow> bool" where
  "batch_wf m \<longleftrightarrow> distinct (map fst m) \<and> (\<forall>(t, ps) \<in> set m. distinct (map fst ps))"

lemma records_at_push:
  "records_at (batch_push topic idx r m) k = records_at m k @ (if k = (topic, idx) then [r] else [])"
  by (cases k) (auto simp: records_at_def batch_push_def push_entry_def update_conv' split: option.splits)

lemma batch_wf_push:
  assumes "batch_wf m"
  shows "batch_wf (batch_push topic idx r m)"
proof -
  have "distinct (map fst (case map_of m topic of Some ps \<Rightarrow> ps | None \<Rightarrow> []))"
    using assms by (auto simp: batch_wf_def dest!: map_of_SomeD split: option.splits)
  then have "distinct (map fst (push_entry idx r (case map_of m topic of Some ps \<Rightarrow> ps | None \<Rightarrow> [])))"
    by (rule push_entry_distinct)
  then show ?thesis
    using assms by (auto simp: batch_wf_def batch_push_def dest!: alist_update_valueD)
qed

definition env_orders :: "producer_env \<Rightarrow> bool" where
  "env_orders e \<longleftrightarrow> (\<forall>m. mset (pe_topics e m) = mset m) \<and> (\<forall>ps. mset (pe_partitions e ps) = mset ps)"

lemma mset_concat_map_cong:
  "(\<And>x. x \<in> set xs \<Longrightarrow> mset (f x) = mset (g x)) \<Longrightarrow> mset (concat (map f xs)) = mset (concat (map g xs))"
  by (induction xs) auto

text \<open>The entries of a batch in the order they are sent.\<close>

definition sent_entries :: "producer_env \<Rightarrow> producer_batch \<Rightarrow> ((u8 list \<times> u16) \<times> msg_record list) list" where
  "sent_entries e m =
     concat (map (\<lambda>(t, ps). map (\<lambda>(i, rs). ((t, i), rs)) (pe_partitions e ps)) (pe_topics e m))"

lemma sent_entries_perm:
  assumes "env_orders e"
  shows "mset (sent_entries e m) = mset (batch_entries m)"
proof -
  let ?row = "\<lambda>(t, ps). map (\<lambda>(i, rs). ((t, i), rs)) ps"
  let ?sent = "\<lambda>(t, ps). map (\<lambda>(i, rs). ((t, i), rs)) (pe_partitions e ps)"
  have "mset (concat (map ?sent (pe_topics e m))) = mset (concat (map ?sent m))"
    by (rule mset_concat_map_perm) (use assms in \<open>simp add: env_orders_def\<close>)
  moreover have "mset (concat (map ?sent m)) = mset (concat (map ?row m))"
    by (rule mset_concat_map_cong) (use assms in \<open>auto simp: env_orders_def\<close>)
  ultimately show ?thesis
    by (simp add: sent_entries_def batch_entries_def)
qed

lemma request_entries_sent:
  "request_entries (produce_request_from B crc e m) = map (\<lambda>(k, rs). (k, batch_from_records B crc rs)) (sent_entries e m)"
  by (simp add: request_entries_def produce_request_from_def sent_entries_def map_concat comp_def case_prod_unfold)

lemma produce_request_entries:
  assumes "env_orders e"
  shows "mset (request_entries (produce_request_from B crc e m)) =
    mset (map (\<lambda>(k, rs). (k, batch_from_records B crc rs)) (batch_entries m))"
  by (simp add: request_entries_sent sent_entries_perm [OF assms])

section \<open>Publications\<close>

text \<open>
  A publication: whether it came from \<open>Sync\<close>, its frame and the map of records it was made of.
\<close>

type_synonym publication = "bool \<times> frame \<times> producer_batch"

definition publication_ok :: "bytes_ops \<Rightarrow> (u8 list \<Rightarrow> u32) \<Rightarrow> publication \<Rightarrow> bool" where
  "publication_ok B crc = (\<lambda>(sync, f, m).
     batch_wf m \<and> (\<exists>correlation_id req. f = frame_from_produce correlation_id req \<and> qr_acks req = AcksLeader
       \<and> mset (request_entries req) = mset (map (\<lambda>(k, rs). (k, batch_from_records B crc rs)) (batch_entries m))))"

fun peer_run :: "'s peer \<Rightarrow> 's \<Rightarrow> u8 list list \<Rightarrow> 's option" where
  "peer_run peer s [] = Some s"
| "peer_run peer s (bs # bss) = (case peer s bs of Some (s1, _) \<Rightarrow> peer_run peer s1 bss | None \<Rightarrow> None)"

definition published :: "bool \<Rightarrow> publication list \<Rightarrow> u8 list \<times> u16 \<Rightarrow> msg_record list" where
  "published sync pubs k = concat (map (\<lambda>(_, _, m). records_at m k) (filter (\<lambda>(s, _). s = sync) pubs))"

lemma published_simps [simp]:
  "published sync [] k = []"
  "published sync ((s, f, m) # pubs) k = (if s = sync then records_at m k else []) @ published sync pubs k"
  "published sync (pubs @ pubs2) k = published sync pubs k @ published sync pubs2 k"
  by (simp_all add: published_def)

declare split_paired_All [simp del]

text \<open>The records that the commands ask to send, up to a shutdown.\<close>

fun accepted :: "bool \<Rightarrow> producer_actor \<Rightarrow> (producer_env \<times> producer_event) list \<Rightarrow> ((u8 list \<times> u16) \<times> msg_record) list" where
  "accepted sync a [] = []"
| "accepted sync a ((e, Received (Sync p)) # events) =
     (case calculate_index a e p of
        Ok idx \<Rightarrow> if sync then [((py_topic p, idx), payload_into_record (pe_now e) p)] else []
      | _ \<Rightarrow> []) @ accepted sync a events"
| "accepted sync a ((e, Received (Async p)) # events) =
     (case calculate_index a e p of
        Ok idx \<Rightarrow> if sync then [] else [((py_topic p, idx), payload_into_record (pe_now e) p)]
      | _ \<Rightarrow> []) @ accepted sync a events"
| "accepted sync a ((e, Received Shutdown) # events) = []"
| "accepted sync a ((e, TimerFired) # events) = accepted sync a events"

definition accepted_at ::
    "bool \<Rightarrow> producer_actor \<Rightarrow> (producer_env \<times> producer_event) list \<Rightarrow> u8 list \<times> u16 \<Rightarrow> msg_record list" where
  "accepted_at sync a events k = map snd (filter (\<lambda>(k', _). k' = k) (accepted sync a events))"

lemma publish_raw_writes:
  assumes "publish_raw T B crc peer f s = (s1, Ok ())"
  shows "peer_run peer (fst s) [frame_encode B f] = Some (fst s1)"
  using assms
  by (cases s) (auto simp: publish_raw_def exchange_def Let_def map_error_def split: option.splits prod.splits)

lemma records_at_Nil [simp]: "records_at [] k = []"
  by (simp add: records_at_def)

lemma batch_wf_Nil [simp]: "batch_wf []"
  by (simp add: batch_wf_def)

lemma records_at_single [simp]: "records_at [(t, [(i, rs)])] k = (if (t, i) = k then rs else [])"
  by (cases k) (auto simp: records_at_def)

lemma batch_wf_single [simp]: "batch_wf [(t, [(i, rs)])]"
  by (simp add: batch_wf_def)

section \<open>The decision of a step\<close>

text \<open>
  What a step decides before it uses the stream: the batch it publishes, if any, the batch and the
  timer after it, and whether the loop goes on. Every step is such a decision and one exchange.
\<close>

type_synonym batcher_decision = "(bool \<times> producer_batch) option \<times> producer_batch \<times> bool \<times> bool"

fun batcher_plan ::
    "bytes_ops \<Rightarrow> (u8 list \<Rightarrow> u32) \<Rightarrow> producer_actor \<Rightarrow> producer_env \<Rightarrow> producer_event \<Rightarrow> producer_batch \<Rightarrow> bool \<Rightarrow>
      (unit, batcher_decision) outcome" where
  "batcher_plan B crc a e (Received (Sync p)) m timer =
     omap (\<lambda>idx. (Some (True, [(py_topic p, [(idx, [payload_into_record (pe_now e) p])])]), m, timer, True))
       (unwrap (calculate_index a e p))"
| "batcher_plan B crc a e (Received (Async p)) m timer =
     omap (\<lambda>idx.
         let m1 = batch_push (py_topic p) idx (payload_into_record (pe_now e) p) m
         in if pg_max_bytes (pd_config a) \<le> fm_size (frame_from_produce (pe_correlation_id e) (produce_request_from B crc e m1))
            then (Some (False, m1), [], False, True) else (None, m1, True, True))
       (unwrap (calculate_index a e p))"
| "batcher_plan B crc a e (Received Shutdown) m timer =
     Ok (if m = [] then (None, m, timer, False) else (Some (False, m), [], timer, False))"
| "batcher_plan B crc a e TimerFired m timer =
     Ok (if \<not> timer \<or> m = [] then (None, m, timer, True) else (Some (False, m), [], False, True))"

abbreviation batch_frame :: "bytes_ops \<Rightarrow> (u8 list \<Rightarrow> u32) \<Rightarrow> producer_env \<Rightarrow> producer_batch \<Rightarrow> frame" where
  "batch_frame B crc e m \<equiv> frame_from_produce (pe_correlation_id e) (produce_request_from B crc e m)"

lemma batcher_step_plan:
  "batcher_step T B crc peer a e ev b =
     obind (batcher_plan B crc a e ev (bt_batch b) (bt_timer_active b)) (\<lambda>(pub, m, timer, continue).
       case pub of
         None \<Rightarrow> Ok (b\<lparr>bt_batch := m, bt_timer_active := timer\<rparr>, continue)
       | Some (sync, p) \<Rightarrow>
           (let (s1, r) = publish_raw T B crc peer (batch_frame B crc e p) (bt_stream b)
            in omap (\<lambda>_. (\<lparr>bt_batch = m, bt_timer_active = timer, bt_stream = s1\<rparr>, continue)) (unwrap r)))"
proof (cases "(B, crc, a, e, ev, bt_batch b, bt_timer_active b)" rule: batcher_plan.cases)
  case (1 _ _ _ _ p)
  then show ?thesis
    by (cases b; cases "calculate_index a e p") (auto simp: batcher_sync_def publish_once_def publish_def split: prod.splits)
next
  case (2 _ _ _ _ p)
  then show ?thesis
    by (cases b; cases "calculate_index a e p") (auto simp: batcher_async_def Let_def split: prod.splits)
qed (cases b; auto simp: batcher_shutdown_def batcher_timer_def publish_def split: prod.splits)+

fun plan_pubs :: "bytes_ops \<Rightarrow> (u8 list \<Rightarrow> u32) \<Rightarrow> producer_env \<Rightarrow> (bool \<times> producer_batch) option \<Rightarrow> publication list" where
  "plan_pubs B crc e None = []"
| "plan_pubs B crc e (Some (sync, m)) = [(sync, batch_frame B crc e m, m)]"

lemma publication_from:
  "env_orders e \<Longrightarrow> batch_wf m \<Longrightarrow> publication_ok B crc (sync, batch_frame B crc e m, m)"
  unfolding publication_ok_def
  by (auto simp: produce_request_entries produce_request_from_def [THEN arg_cong, of qr_acks]
      intro!: exI [of _ "pe_correlation_id e"] exI [of _ "produce_request_from B crc e m"])

text \<open>A decision keeps the records: they are published or stay in the batch.\<close>

definition plan_conserves ::
    "bytes_ops \<Rightarrow> (u8 list \<Rightarrow> u32) \<Rightarrow> producer_actor \<Rightarrow> producer_env \<times> producer_event \<Rightarrow>
      producer_batch \<Rightarrow> producer_batch \<Rightarrow> publication list \<Rightarrow> bool" where
  "plan_conserves B crc a ev m m1 pubs \<longleftrightarrow>
     batch_wf m1 \<and> (\<forall>p \<in> set pubs. publication_ok B crc p)
     \<and> (\<forall>k. published False pubs k @ records_at m1 k = records_at m k @ accepted_at False a [ev] k)
     \<and> (\<forall>k. published True pubs k = accepted_at True a [ev] k)"

lemma batcher_plan_conserves:
  assumes "batcher_plan B crc a e ev m timer = Ok (pub, m1, timer1, continue)" and "env_orders e" and "batch_wf m"
  shows "plan_conserves B crc a (e, ev) m m1 (plan_pubs B crc e pub)"
    and "continue \<longleftrightarrow> ev \<noteq> Received Shutdown" and "ev = Received Shutdown \<Longrightarrow> m1 = []"
proof -
  have "plan_conserves B crc a (e, ev) m m1 (plan_pubs B crc e pub) \<and> (continue \<longleftrightarrow> ev \<noteq> Received Shutdown)
    \<and> (ev = Received Shutdown \<longrightarrow> m1 = [])"
  proof (cases "(B, crc, a, e, ev, m, timer)" rule: batcher_plan.cases)
    case (1 _ _ _ _ p)
    then show ?thesis
      using assms by (cases "calculate_index a e p") (auto simp: plan_conserves_def accepted_at_def publication_from split: if_splits)
  next
    case (2 _ _ _ _ p)
    then show ?thesis
      using assms
      by (cases "calculate_index a e p")
        (auto simp: plan_conserves_def accepted_at_def publication_from batch_wf_push records_at_push Let_def split: if_splits)
  qed (use assms in \<open>auto simp: plan_conserves_def accepted_at_def publication_from split: if_splits\<close>)
  then show "plan_conserves B crc a (e, ev) m m1 (plan_pubs B crc e pub)"
    and "continue \<longleftrightarrow> ev \<noteq> Received Shutdown" and "ev = Received Shutdown \<Longrightarrow> m1 = []"
    by blast+
qed

text \<open>What one step publishes is written to the peer.\<close>

definition step_conserves ::
    "bytes_ops \<Rightarrow> (u8 list \<Rightarrow> u32) \<Rightarrow> 's peer \<Rightarrow> producer_actor \<Rightarrow> producer_env \<times> producer_event \<Rightarrow>
      's batcher \<Rightarrow> 's batcher \<Rightarrow> publication list \<Rightarrow> bool" where
  "step_conserves B crc peer a ev b b1 pubs \<longleftrightarrow>
     plan_conserves B crc a ev (bt_batch b) (bt_batch b1) pubs
     \<and> peer_run peer (fst (bt_stream b)) (map (\<lambda>(_, f, _). frame_encode B f) pubs) = Some (fst (bt_stream b1))"

lemma batcher_step_decides:
  assumes "batcher_step T B crc peer a e ev b = Ok (b1, continue)"
  shows "\<exists>pub timer. batcher_plan B crc a e ev (bt_batch b) (bt_timer_active b) = Ok (pub, bt_batch b1, timer, continue)
    \<and> peer_run peer (fst (bt_stream b)) (map (\<lambda>(_, f, _). frame_encode B f) (plan_pubs B crc e pub)) = Some (fst (bt_stream b1))"
proof (cases "batcher_plan B crc a e ev (bt_batch b) (bt_timer_active b)")
  case (Ok d)
  obtain pub m timer continue1 where d: "d = (pub, m, timer, continue1)"
    by (metis surj_pair)
  show ?thesis
  proof (cases pub)
    case None
    then show ?thesis
      using assms Ok d by (auto simp: batcher_step_plan)
  next
    case (Some p)
    obtain s1 where raw: "publish_raw T B crc peer (batch_frame B crc e (snd p)) (bt_stream b) = (s1, Ok ())"
      and "b1 = \<lparr>bt_batch = m, bt_timer_active = timer, bt_stream = s1\<rparr>" "continue1 = continue"
      using assms Ok d Some by (auto simp: batcher_step_plan omap_eq_Ok split: prod.splits)
    with publish_raw_writes [OF raw] show ?thesis
      using Ok d Some by (cases p) simp
  qed
qed (use assms in \<open>simp_all add: batcher_step_plan\<close>)

lemma batcher_step_conserves:
  assumes "batcher_step T B crc peer a e ev b = Ok (b1, continue)" and "env_orders e" and "batch_wf (bt_batch b)"
  shows "\<exists>pubs. step_conserves B crc peer a (e, ev) b b1 pubs"
    and "continue \<longleftrightarrow> ev \<noteq> Received Shutdown" and "ev = Received Shutdown \<Longrightarrow> bt_batch b1 = []"
proof -
  obtain pub timer where
    plan: "batcher_plan B crc a e ev (bt_batch b) (bt_timer_active b) = Ok (pub, bt_batch b1, timer, continue)"
    and peer: "peer_run peer (fst (bt_stream b)) (map (\<lambda>(_, f, _). frame_encode B f) (plan_pubs B crc e pub)) =
      Some (fst (bt_stream b1))"
    using batcher_step_decides [OF assms(1)] by blast
  note plan' = batcher_plan_conserves [OF plan assms(2,3)]
  show "\<exists>pubs. step_conserves B crc peer a (e, ev) b b1 pubs"
    using plan'(1) peer unfolding step_conserves_def by blast
  show "continue \<longleftrightarrow> ev \<noteq> Received Shutdown" and "ev = Received Shutdown \<Longrightarrow> bt_batch b1 = []"
    using plan'(2,3) by simp_all
qed

section \<open>A whole run\<close>

lemma accepted_Cons:
  "accepted sync a ((e, ev) # events) =
     accepted sync a [(e, ev)] @ (if ev = Received Shutdown then [] else accepted sync a events)"
  by (cases ev; cases "case ev of Received c \<Rightarrow> c | TimerFired \<Rightarrow> Shutdown") auto

lemma accepted_at_Cons:
  "accepted_at sync a ((e, ev) # events) k =
     accepted_at sync a [(e, ev)] k @ (if ev = Received Shutdown then [] else accepted_at sync a events k)"
  by (simp add: accepted_at_def accepted_Cons [of sync a e ev events])

lemma accepted_at_shutdown [simp]: "accepted_at sync a ((e, Received Shutdown) # events) k = []"
  by (simp add: accepted_at_def)

lemma peer_run_append:
  "peer_run peer s bss = Some s1 \<Longrightarrow> peer_run peer s (bss @ bss2) = peer_run peer s1 bss2"
  by (induction bss arbitrary: s) (auto split: option.splits)

lemma append_balance:
  "p1 @ r2 = r0 @ a1 \<Longrightarrow> p2 @ r1 = r2 @ a2 \<Longrightarrow> (p1 @ p2) @ r1 = r0 @ a1 @ a2"
  by (metis append_assoc)

definition run_conserves ::
    "bytes_ops \<Rightarrow> (u8 list \<Rightarrow> u32) \<Rightarrow> 's peer \<Rightarrow> producer_actor \<Rightarrow> (producer_env \<times> producer_event) list \<Rightarrow>
      's batcher \<Rightarrow> 's batcher \<Rightarrow> publication list \<Rightarrow> bool" where
  "run_conserves B crc peer a events b b1 pubs \<longleftrightarrow>
     (\<forall>p \<in> set pubs. publication_ok B crc p)
     \<and> peer_run peer (fst (bt_stream b)) (map (\<lambda>(_, f, _). frame_encode B f) pubs) = Some (fst (bt_stream b1))
     \<and> (\<forall>k. published False pubs k @ records_at (bt_batch b1) k = records_at (bt_batch b) k @ accepted_at False a events k)
     \<and> (\<forall>k. published True pubs k = accepted_at True a events k)
     \<and> (Received Shutdown \<in> snd ` set events \<longrightarrow> bt_batch b1 = [])"

lemma batcher_run_conserves:
  assumes "\<forall>(e, ev) \<in> set events. env_orders e" and "batch_wf (bt_batch b)"
    and "batcher_run T B crc peer a events b = Ok b1"
  shows "\<exists>pubs. run_conserves B crc peer a events b b1 pubs"
  using assms
proof (induction events arbitrary: b)
  case Nil
  then show ?case
    by (intro exI [of _ "[]"]) (simp add: run_conserves_def accepted_at_def)
next
  case (Cons x events)
  obtain e ev where x: "x = (e, ev)"
    by fastforce
  from Cons.prems(3) obtain b2 continue where step: "batcher_step T B crc peer a e ev b = Ok (b2, continue)"
    and rest: "if continue then batcher_run T B crc peer a events b2 = Ok b1 else b1 = b2"
    by (auto simp: x obind_eq_Ok split: if_splits)
  obtain pubs where pubs: "step_conserves B crc peer a (e, ev) b b2 pubs"
    using batcher_step_conserves(1) [OF step _ Cons.prems(2)] Cons.prems(1) x by auto
  have "env_orders e"
    using Cons.prems(1) x by simp
  note continue = batcher_step_conserves(2,3) [OF step this Cons.prems(2)]
  show ?case
  proof (cases continue)
    case True
    then obtain pubs2 where pubs2: "run_conserves B crc peer a events b2 b1 pubs2"
      using Cons.IH [of b2] Cons.prems(1) rest pubs by (auto simp: step_conserves_def plan_conserves_def)
    have "peer_run peer (fst (bt_stream b)) (map (\<lambda>(_, f, _). frame_encode B f) (pubs @ pubs2)) = Some (fst (bt_stream b1))"
      using pubs pubs2 by (simp add: step_conserves_def plan_conserves_def run_conserves_def peer_run_append)
    moreover have "published False (pubs @ pubs2) k @ records_at (bt_batch b1) k
        = records_at (bt_batch b) k @ accepted_at False a (x # events) k" for k
    proof -
      have "published False pubs k @ records_at (bt_batch b2) k = records_at (bt_batch b) k @ accepted_at False a [(e, ev)] k"
        and "published False pubs2 k @ records_at (bt_batch b1) k = records_at (bt_batch b2) k @ accepted_at False a events k"
        using pubs pubs2 by (simp_all add: step_conserves_def plan_conserves_def run_conserves_def)
      from append_balance [OF this] show ?thesis
        using True continue by (simp add: x accepted_at_Cons [of _ a e ev events])
    qed
    moreover have "published True (pubs @ pubs2) k = accepted_at True a (x # events) k" for k
      using pubs pubs2 True continue
      by (simp add: x accepted_at_Cons [of _ a e ev events] step_conserves_def plan_conserves_def run_conserves_def)
    ultimately show ?thesis
      using pubs pubs2 True continue
      by (intro exI [of _ "pubs @ pubs2"]) (auto simp: run_conserves_def step_conserves_def plan_conserves_def x)
  next
    case False
    then have "bt_batch b1 = []"
      using rest continue by simp
    then show ?thesis
      using pubs False continue rest
      by (intro exI [of _ pubs]) (auto simp: run_conserves_def step_conserves_def plan_conserves_def x)
  qed
qed

text \<open>A run does not fail when the topics are known and the peer answers.\<close>

definition payload_known :: "producer_actor \<Rightarrow> publish_payload \<Rightarrow> bool" where
  "payload_known a p \<longleftrightarrow>
     (\<exists>t. find (\<lambda>t. tm_name t = py_topic p) (mr_topics (pd_metadata_image a)) = Some t \<and> tm_partitions t \<noteq> [])"

fun event_known :: "producer_actor \<Rightarrow> producer_event \<Rightarrow> bool" where
  "event_known a (Received (Sync p)) = payload_known a p"
| "event_known a (Received (Async p)) = payload_known a p"
| "event_known a ev = True"

definition peer_answers :: "stream_ops \<Rightarrow> bytes_ops \<Rightarrow> (u8 list \<Rightarrow> u32) \<Rightarrow> 's peer \<Rightarrow> bool" where
  "peer_answers T B crc peer \<longleftrightarrow>
     (\<forall>s f. \<exists>s1 g resp. exchange T B crc peer f (s, []) = ((s1, []), Ok g) \<and> fm_body g = ProduceResponse resp)"

lemma publish_raw_answered:
  assumes "peer_answers T B crc peer" and "snd s = []"
  obtains s1 where "publish_raw T B crc peer f s = ((s1, []), Ok ())"
proof -
  obtain s1 g resp where "exchange T B crc peer f (fst s, []) = ((s1, []), Ok g)" "fm_body g = ProduceResponse resp"
    using assms(1) unfolding peer_answers_def by blast
  with assms(2) show thesis
    by (intro that [of s1]) (cases s, simp add: publish_raw_def map_error_def)
qed

lemma calculate_index_known: "payload_known a p \<Longrightarrow> \<exists>idx. calculate_index a e p = Ok idx"
  by (auto simp: payload_known_def calculate_index_def Let_def)

lemma batcher_plan_total:
  assumes "event_known a ev"
  shows "\<exists>d. batcher_plan B crc a e ev m timer = Ok d"
  using assms calculate_index_known [of a _ e]
  by (cases "(B, crc, a, e, ev, m, timer)" rule: batcher_plan.cases) fastforce+

lemma batcher_step_total:
  assumes "peer_answers T B crc peer" and "event_known a ev" and "snd (bt_stream b) = []"
  shows "\<exists>b1 continue. batcher_step T B crc peer a e ev b = Ok (b1, continue) \<and> snd (bt_stream b1) = []"
proof -
  obtain pub m timer continue where
    plan: "batcher_plan B crc a e ev (bt_batch b) (bt_timer_active b) = Ok (pub, m, timer, continue)"
    using batcher_plan_total [OF assms(2)] by (metis surj_pair)
  show ?thesis
  proof (cases pub)
    case (Some p)
    obtain s1 where "publish_raw T B crc peer (batch_frame B crc e (snd p)) (bt_stream b) = ((s1, []), Ok ())"
      using publish_raw_answered [OF assms(1,3)] by blast
    with plan Some show ?thesis
      by (simp add: batcher_step_plan case_prod_unfold)
  qed (use plan assms(3) in \<open>simp add: batcher_step_plan\<close>)
qed

lemma batcher_run_total:
  assumes "peer_answers T B crc peer" and "\<forall>(e, ev) \<in> set events. event_known a ev" and "snd (bt_stream b) = []"
  shows "\<exists>b1. batcher_run T B crc peer a events b = Ok b1"
  using assms(2,3)
proof (induction events arbitrary: b)
  case (Cons x events)
  obtain e ev where x: "x = (e, ev)"
    by fastforce
  obtain b1 continue where "batcher_step T B crc peer a e ev b = Ok (b1, continue)" "snd (bt_stream b1) = []"
    using batcher_step_total [OF assms(1) _ Cons.prems(2)] Cons.prems(1) x by fastforce
  with Cons.IH [of b1] Cons.prems(1) show ?case
    by (simp add: x)
qed simp

section \<open>Properties\<close>

text \<open>C9: no record is lost, sent twice or moved: in a run of the loop, the frames written hold, for
  every topic and partition, exactly the records of the synchronous commands in order and those
  of the others in order, up to the ones still in the batch, of which a shutdown leaves none. And
  a run does not fail when the topics of all payloads are known and have partitions and the peer
  answers every request.\<close>

theorem producer_conserves_records:
  assumes "\<forall>(e, ev) \<in> set events. env_orders e"
  shows "(\<forall>b. batcher_run T B crc peer a events (batcher_new (s, [])) = Ok b \<longrightarrow>
      (\<exists>pubs. (\<forall>p \<in> set pubs. publication_ok B crc p)
        \<and> peer_run peer s (map (\<lambda>(_, f, _). frame_encode B f) pubs) = Some (fst (bt_stream b))
        \<and> (\<forall>k. published False pubs k @ records_at (bt_batch b) k = accepted_at False a events k)
        \<and> (\<forall>k. published True pubs k = accepted_at True a events k)
        \<and> (Received Shutdown \<in> snd ` set events \<longrightarrow> bt_batch b = [])))
    \<and> (peer_answers T B crc peer \<and> (\<forall>(e, ev) \<in> set events. event_known a ev) \<longrightarrow>
        (\<exists>b. batcher_run T B crc peer a events (batcher_new (s, [])) = Ok b))"
  using batcher_run_conserves [OF assms, of "batcher_new (s, [])" T B crc peer a]
    batcher_run_total [of T B crc peer events a "batcher_new (s, [])"]
  by (simp add: run_conserves_def batcher_new_def)

definition sample_producer :: producer_actor where
  "sample_producer =
     \<lparr>pd_hash = (\<lambda>key seed. 5),
      pd_metadata_image =
        \<lparr>mr_throttle_time_ms = 0, mr_brokers = [], mr_controller_id = 0,
         mr_topics = [\<lparr>tm_error_code = NoError, tm_name = [116],
           tm_partitions = map (\<lambda>i. \<lparr>pm_error_code = NoError, pm_partition_index = i, pm_leader_id = 0,
             pm_replica_nodes = 0, pm_isr_nodes = 0, pm_offline_replicas = 0\<rparr>) [0, 1]\<rparr>],
         mr_error_code = NoError\<rparr>,
      pd_config = \<lparr>pg_ms_wait = 5000, pg_max_bytes = 4096\<rparr>\<rparr>"

definition sample_producer_env :: "u64 \<Rightarrow> producer_env" where
  "sample_producer_env now =
     \<lparr>pe_now = now, pe_random = (\<lambda>n. 0), pe_correlation_id = 9, pe_topics = rev, pe_partitions = rev\<rparr>"

definition sample_payload :: "u8 list option \<Rightarrow> publish_payload" where
  "sample_payload key = \<lparr>py_topic = [116], py_key = key, py_value = [118]\<rparr>"

definition sample_events :: "(producer_env \<times> producer_event) list" where
  "sample_events =
     [(sample_producer_env 1, Received (Async (sample_payload (Some [107])))),
      (sample_producer_env 2, Received (Sync (sample_payload (Some [108])))),
      (sample_producer_env 3, Received (Async (sample_payload None))),
      (sample_producer_env 4, TimerFired),
      (sample_producer_env 5, Received (Async (sample_payload (Some [109])))),
      (sample_producer_env 6, Received Shutdown)]"

text \<open>A peer that keeps what it is sent.\<close>

definition sample_answer :: frame where
  "sample_answer = frame_new 9 ApiProduce (ProduceResponse \<lparr>prs_throttle_time_ms = 0, prs_responses = []\<rparr>)"

definition sample_peer :: "u8 list list peer" where
  "sample_peer s bytes = Some (s @ [bytes], frame_encode list_bytes sample_answer)"

lemma sample_answerable: "answerable list_bytes (\<lambda>bs. 7) sample_answer"
proof -
  have "length (frame_encode list_bytes sample_answer) - 4 < 2 ^ 32"
    by (simp add: frame_encode_def Let_def sample_answer_def frame_new_def encode_request_header_def
        encode_client_id_def encode_produce_response_def list_bytes.puts)
  then show ?thesis
    by (simp add: answerable_def sample_answer_def frame_new_def frame_fits_def header_fits_wire_def Let_def)
qed

lemma sample_peer_answers: "peer_answers list_stream list_bytes (\<lambda>bs. 7) sample_peer"
proof -
  have body: "fm_body sample_answer = ProduceResponse \<lparr>prs_throttle_time_ms = 0, prs_responses = []\<rparr>"
    by (simp add: sample_answer_def frame_new_def Let_def)
  show ?thesis
    unfolding peer_answers_def
    using exchange_reads [where peer = sample_peer, OF list_stream_law list_bytes.bytes_crate_axioms sample_answerable]
    by (auto simp: sample_peer_def body)
qed

lemma producer_conserves_records_witness:
  "\<exists>b pubs. batcher_run list_stream list_bytes (\<lambda>bs. 7) sample_peer sample_producer sample_events
        (batcher_new ([], [])) = Ok b
    \<and> bt_batch b = []
    \<and> peer_run sample_peer [] (map (\<lambda>(_, f, _). frame_encode list_bytes f) pubs) = Some (fst (bt_stream b))
    \<and> published False pubs ([116], 1) = [record_new 1 0 [107] [118], record_new 5 0 [109] [118]]
    \<and> published False pubs ([116], 0) = [record_new 3 0 [] [118]]
    \<and> published True pubs ([116], 1) = [record_new 2 0 [108] [118]]"
proof -
  have orders: "\<forall>(e, ev) \<in> set sample_events. env_orders e"
    by (simp add: sample_events_def sample_producer_env_def env_orders_def)
  note conserves = producer_conserves_records [OF orders, where T = list_stream and B = list_bytes
      and crc = "\<lambda>bs. 7" and peer = sample_peer and a = sample_producer and s = "[]"]
  have "\<forall>(e, ev) \<in> set sample_events. event_known sample_producer ev"
    by (simp add: sample_events_def payload_known_def sample_payload_def sample_producer_def)
  then obtain b where b: "batcher_run list_stream list_bytes (\<lambda>bs. 7) sample_peer sample_producer sample_events
      (batcher_new ([], [])) = Ok b"
    using conserves sample_peer_answers by blast
  obtain pubs where pubs:
    "peer_run sample_peer [] (map (\<lambda>(_, f, _). frame_encode list_bytes f) pubs) = Some (fst (bt_stream b))"
    "\<forall>k. published False pubs k @ records_at (bt_batch b) k = accepted_at False sample_producer sample_events k"
    "\<forall>k. published True pubs k = accepted_at True sample_producer sample_events k"
    "Received Shutdown \<in> snd ` set sample_events \<longrightarrow> bt_batch b = []"
    using conserves b by blast
  have "bt_batch b = []"
    using pubs(4) by (simp add: sample_events_def)
  moreover have index: "calculate_index sample_producer e (sample_payload (Some key)) = Ok 1"
      "calculate_index sample_producer (sample_producer_env now) (sample_payload None) = Ok 0" for e now key
    by (simp_all add: calculate_index_def sample_producer_def sample_payload_def sample_producer_env_def Let_def
        flip: numeral_2_eq_2)
  moreover have "accepted_at False sample_producer sample_events ([116], 1)
      = [record_new 1 0 [107] [118], record_new 5 0 [109] [118]]"
    "accepted_at False sample_producer sample_events ([116], 0) = [record_new 3 0 [] [118]]"
    "accepted_at True sample_producer sample_events ([116], 1) = [record_new 2 0 [108] [118]]"
    using index by (simp_all add: accepted_at_def sample_events_def)
      (simp_all add: sample_payload_def sample_producer_env_def payload_into_record_def)
  ultimately show ?thesis
    using b pubs(1-3) by (intro exI [of _ b] exI [of _ pubs]) (metis append_Nil2 records_at_Nil)
qed

end
