(* ===== verification/Broker_Catalogue.thy ===== *)
theory Broker_Catalogue
  imports Broker_Logs Net_Bodies
begin

text \<open>
  What a broker lists: the topics and partitions it has and the brokers it knows of. Fetches and
  appends that do not wait for replicas keep the list as it is.
\<close>

declare split_paired_All [simp del] split_paired_Ex [simp del]

definition catalogue :: "broker \<Rightarrow> topic_partition list \<times> broker_config list" where
  "catalogue br = (map fst (bk_image br), bk_brokers br)"

lemma keys_update_there:
  assumes "map_of im k = Some a"
  shows "map fst (AList.update k a1 im) = map fst im"
proof -
  have "k \<in> fst ` set im"
    using map_of_SomeD [OF assms] by (rule rev_image_eqI) simp
  then show ?thesis
    by (simp add: update_keys)
qed

lemma thread_keys:
  assumes "thread f xs im = Some (Ok (im1, ys))"
    and "\<And>x im im1 y. f x im = Some (Ok (im1, y)) \<Longrightarrow> map fst im1 = map fst im"
  shows "map fst im1 = map fst im"
proof -
  have "map fst im1 = map fst im \<and> list_all2 (\<lambda>_ _. True) xs ys"
    by (rule thread_induct [OF assms(1), where P = "\<lambda>im'. map fst im' = map fst im"]) (auto dest: assms(2))
  then show ?thesis ..
qed

lemma fetch_from_partition_keys:
  assumes "fetch_from_partition e replica_id topic p im = Some (Ok (im1, q))"
  shows "map fst im1 = map fst im"
  using assms keys_update_there
  by (auto simp: fetch_from_partition_def broker_partition_def Let_def obind_eq_Ok omap_eq_Ok split: option.splits)

lemma fetch_from_topic_keys:
  assumes "fetch_from_topic e replica_id t im = Some (Ok (im1, r))"
  shows "map fst im1 = map fst im"
  using assms by (auto simp: fetch_from_topic_def omap_eq_Ok intro: thread_keys fetch_from_partition_keys)

lemma append_to_partition_keys:
  assumes "append_to_partition e acks topic p im = Some (Ok (im1, q))" and "acks \<noteq> AcksAll"
  shows "map fst im1 = map fst im"
proof (cases "map_of im (topic, qp_index p)")
  case None
  with assms(1) show ?thesis
    by (simp add: append_to_partition_def broker_partition_def)
next
  case (Some a)
  with assms keys_update_there [OF Some] show ?thesis
    by (auto simp: append_to_partition_def broker_partition_def handle_append_now Let_def)
qed

lemma append_to_topic_keys:
  assumes "append_to_topic e acks t im = Some (Ok (im1, r))" and "acks \<noteq> AcksAll"
  shows "map fst im1 = map fst im"
  using assms by (auto simp: append_to_topic_def omap_eq_Ok intro: thread_keys append_to_partition_keys)

lemma set_image_catalogue: "map fst im = map fst (bk_image br) \<Longrightarrow> catalogue (broker_set_image br im) = catalogue br"
  by (simp add: catalogue_def) (simp add: broker_set_image_def)

lemma fetch_keeps_catalogue:
  assumes "broker_handle e f br = Some (Ok (br1, g))" and "fm_body f = Fetch req"
  shows "catalogue br1 = catalogue br"
proof -
  obtain im1 ts where loop: "thread (fetch_from_topic e (nf_replica_id req)) (nf_topics req) (bk_image br) = Some (Ok (im1, ts))"
    and br1: "br1 = broker_set_image br im1"
    using assms by (auto simp: broker_handle_def broker_handle_fetch_def Let_def omap_eq_Ok)
  show ?thesis
    unfolding br1 by (rule set_image_catalogue, rule thread_keys [OF loop]) (rule fetch_from_topic_keys)
qed

lemma produce_keeps_catalogue:
  assumes "broker_handle e f br = Some (Ok (br1, g))" and "fm_body f = Produce req" and "qr_acks req \<noteq> AcksAll"
  shows "catalogue br1 = catalogue br"
proof -
  obtain im1 ts where loop: "thread (append_to_topic e (qr_acks req)) (qr_topics req) (bk_image br) = Some (Ok (im1, ts))"
    and br1: "br1 = broker_set_image br im1"
    using assms by (auto simp: broker_handle_def broker_handle_produce_def Let_def omap_eq_Ok)
  show ?thesis
    unfolding br1 by (rule set_image_catalogue, rule thread_keys [OF loop]) (rule append_to_topic_keys [OF _ assms(3)])
qed

section \<open>The size of its list\<close>

text \<open>What the topics of an answer to a metadata request take, and a bound on it.\<close>

definition topics_size :: "topic_metadata list \<Rightarrow> nat" where
  "topics_size ts = (\<Sum>t\<leftarrow>ts. 8 + length (tm_name t) + 22 * length (tm_partitions t))"

definition catalogue_small :: "topic_partition list \<times> broker_config list \<Rightarrow> bool" where
  "catalogue_small = (\<lambda>(keys, brokers).
     (\<forall>k \<in> set keys. string_fits 16 (fst k)) \<and> (\<forall>b \<in> set brokers. string_fits 16 (bc_host b))
     \<and> (\<Sum>k\<leftarrow>keys. 30 + length (fst k)) + (\<Sum>b\<leftarrow>brokers. 10 + length (bc_host b)) < 2 ^ 31)"

lemma group_partitions_nonempty:
  "\<forall>(t, ps) \<in> set topics. ps \<noteq> [] \<Longrightarrow> \<forall>(t, ps) \<in> set (group_partitions im topics). ps \<noteq> []"
proof (induction im topics rule: group_partitions.induct)
  case (2 key a rest topics)
  have "ps \<noteq> []" if "(t, ps) \<in> set (push_entry (fst key) (partition_metadata_of key a) topics)" for t ps
  proof -
    have "(t, ps) \<in> set topics \<or> ps = (case map_of topics (fst key) of Some vs \<Rightarrow> vs | None \<Rightarrow> []) @ [partition_metadata_of key a]"
      using that unfolding push_entry_def by (induction topics) (auto split: if_splits)
    then show ?thesis
      using 2(2) by auto
  qed
  then show ?case
    using 2(1) by auto
qed simp

lemma grouped_size:
  "\<forall>(t, ps) \<in> set m. ps \<noteq> [] \<Longrightarrow>
    (\<Sum>(t, ps)\<leftarrow>m. 8 + length t + 22 * length ps) \<le> (\<Sum>(t, p)\<leftarrow>entries_of m. 30 + length t)"
proof (induction m)
  case (Cons q m)
  obtain t ps where q: "q = (t, ps)"
    by fastforce
  then obtain p ps' where ps: "ps = p # ps'"
    using Cons.prems by (cases ps) auto
  have "(\<Sum>(t, p)\<leftarrow>map (Pair t) ps. 30 + length t) = length ps * (30 + length t)"
    by (simp add: comp_def sum_list_triv)
  moreover have "8 + length t + 22 * length ps \<le> length ps * (30 + length t)"
    by (simp add: ps algebra_simps)
  ultimately show ?case
    using Cons by (simp add: q entries_of_def)
qed (simp add: entries_of_def)

text \<open>Hash maps are iterated in some order.\<close>

definition env_iterates :: "broker_env \<Rightarrow> bool" where
  "env_iterates e \<longleftrightarrow> (\<forall>im. mset (en_order e im) = mset im) \<and> (\<forall>ts. mset (en_topic_order e ts) = mset ts)"

lemma metadata_topics_size:
  assumes "env_iterates e"
  shows "topics_size (metadata_topics e im) \<le> (\<Sum>k\<leftarrow>map fst im. 30 + length (fst k))"
    and "\<forall>t \<in> set (metadata_topics e im). tm_partitions t \<noteq> [] \<and> tm_name t \<in> fst ` set (map fst im)"
proof -
  let ?g = "group_partitions (en_order e im) []"
  let ?m = "en_topic_order e ?g"
  have entries: "mset (entries_of ?m) = mset (map (\<lambda>(key, a). (fst key, partition_metadata_of key a)) im)"
    using entries_of_perm [of ?m ?g] assms unfolding env_iterates_def
    by (simp add: group_partitions_entries) (simp add: entries_of_def)
  have full: "\<forall>(t, ps) \<in> set ?m. ps \<noteq> []"
    using group_partitions_nonempty [of "[]" "en_order e im"] mset_eq_setD [of ?m ?g] assms by (simp add: env_iterates_def)
  have "topics_size (metadata_topics e im) = (\<Sum>(t, ps)\<leftarrow>?m. 8 + length t + 22 * length ps)"
    by (simp add: topics_size_def metadata_topics_def comp_def case_prod_unfold)
  also have "\<dots> \<le> (\<Sum>(t, p)\<leftarrow>entries_of ?m. 30 + length t)"
    by (rule grouped_size [OF full])
  also have "\<dots> = (\<Sum>(t, p)\<leftarrow>map (\<lambda>(key, a). (fst key, partition_metadata_of key a)) im. 30 + length t)"
    by (rule sum_list_perm [OF entries])
  also have "\<dots> = (\<Sum>k\<leftarrow>map fst im. 30 + length (fst k))"
    by (simp add: comp_def case_prod_unfold)
  finally show "topics_size (metadata_topics e im) \<le> (\<Sum>k\<leftarrow>map fst im. 30 + length (fst k))" .
  show "\<forall>t \<in> set (metadata_topics e im). tm_partitions t \<noteq> [] \<and> tm_name t \<in> fst ` set (map fst im)"
  proof
    fix t
    assume "t \<in> set (metadata_topics e im)"
    then obtain k ps where t: "tm_name t = k" "tm_partitions t = ps" "(k, ps) \<in> set ?m"
      by (auto simp: metadata_topics_def)
    then obtain p ps' where ps: "ps = p # ps'"
      using full by (cases ps) auto
    then have "(k, p) \<in> set (entries_of ?m)"
      using t(3) by (force simp: entries_of_def)
    then have "(k, p) \<in> set (map (\<lambda>(key, a). (fst key, partition_metadata_of key a)) im)"
      by (simp only: mset_eq_setD [OF entries])
    then show "tm_partitions t \<noteq> [] \<and> tm_name t \<in> fst ` set (map fst im)"
      using t ps by force
  qed
qed

end
