(* ===== verification/Client_Publish.thy ===== *)
theory Client_Publish
  imports Client_Producer Broker_Catalogue
begin

text \<open>
  What a publication does to the logs of a broker: a batch that fits a frame is appended, partition
  by partition, and the producer reads the answer. The weights bound the bytes of a frame.
\<close>

section \<open>Weights\<close>

definition records_weight :: "msg_record list \<Rightarrow> nat" where
  "records_weight rs = 100 + length (records_layout rs)"

definition partitions_weight :: "(u16 \<times> msg_record list) list \<Rightarrow> nat" where
  "partitions_weight ps = (\<Sum>(i, rs)\<leftarrow>ps. records_weight rs)"

definition batch_weight :: "producer_batch \<Rightarrow> nat" where
  "batch_weight m = (\<Sum>(t, ps)\<leftarrow>m. 100 + length t + partitions_weight ps)"

lemma weight_simps [simp]:
  "partitions_weight [] = 0" "partitions_weight ((i, rs) # ps) = records_weight rs + partitions_weight ps"
  "batch_weight [] = 0" "batch_weight ((t, ps) # m) = 100 + length t + partitions_weight ps + batch_weight m"
  by (simp_all add: partitions_weight_def batch_weight_def)

lemma records_weight_snoc [simp]: "records_weight (rs @ [r]) = records_weight rs + length (record_layout r)"
  by (simp add: records_weight_def)

lemma partitions_weight_push: "partitions_weight (push_entry i r ps) \<le> partitions_weight ps + 100 + length (record_layout r)"
proof (induction ps)
  case (Cons p ps)
  then show ?case
    by (cases p) (simp add: push_entry_def split: option.splits)
qed (simp add: push_entry_def records_weight_def)

lemma batch_weight_update:
  "distinct (map fst m) \<Longrightarrow>
    batch_weight (AList.update t ps' m) + (case map_of m t of None \<Rightarrow> 0 | Some ps \<Rightarrow> 100 + length t + partitions_weight ps)
      = batch_weight m + 100 + length t + partitions_weight ps'"
proof (induction m)
  case (Cons p m)
  then show ?case
    by (cases p) (auto split: option.splits)
qed simp

lemma batch_weight_push:
  assumes "batch_wf m"
  shows "batch_weight (batch_push t i r m) \<le> batch_weight m + 200 + length t + length (record_layout r)"
proof (cases "map_of m t")
  case None
  then show ?thesis
    using batch_weight_update [of m t "push_entry i r []"] partitions_weight_push [of i r "[]"] assms
    by (simp add: batch_push_def batch_wf_def)
next
  case (Some ps)
  then show ?thesis
    using batch_weight_update [of m t "push_entry i r ps"] partitions_weight_push [of i r ps] assms
    by (simp add: batch_push_def batch_wf_def)
qed

text \<open>What an event may add.\<close>

fun event_weight :: "producer_env \<times> producer_event \<Rightarrow> nat" where
  "event_weight (e, Received (Sync p)) = 200 + length (py_topic p) + length (record_layout (payload_into_record (pe_now e) p))"
| "event_weight (e, Received (Async p)) = 200 + length (py_topic p) + length (record_layout (payload_into_record (pe_now e) p))"
| "event_weight _ = 0"

section \<open>Batches that can be sent\<close>

definition topic_names :: "producer_actor \<Rightarrow> u8 list set" where
  "topic_names a = tm_name ` set (mr_topics (pd_metadata_image a))"

definition records_ok :: "msg_record list \<Rightarrow> bool" where
  "records_ok rs \<longleftrightarrow> rs \<noteq> [] \<and> (\<forall>r \<in> set rs. record_sized r)"

definition batch_ok :: "producer_actor \<Rightarrow> producer_batch \<Rightarrow> bool" where
  "batch_ok a m \<longleftrightarrow>
     batch_wf m \<and> fst ` set m \<subseteq> topic_names a \<and> (\<forall>(t, ps) \<in> set m. \<forall>(i, rs) \<in> set ps. records_ok rs)"

text \<open>A producer whose metadata was sent on the wire.\<close>

definition metadata_ok :: "producer_actor \<Rightarrow> bool" where
  "metadata_ok a \<longleftrightarrow>
     length (mr_topics (pd_metadata_image a)) < 2 ^ 16 \<and> (\<forall>t \<in> topic_names a. string_fits 16 t)"

lemma batch_ok_Nil [simp]: "batch_ok a []"
  by (simp add: batch_ok_def)

lemma calculate_index_topic: "calculate_index a e p = Ok idx \<Longrightarrow> py_topic p \<in> topic_names a"
proof -
  assume "calculate_index a e p = Ok idx"
  then obtain t where "find (\<lambda>t. tm_name t = py_topic p) (mr_topics (pd_metadata_image a)) = Some t"
    by (auto simp: calculate_index_def split: option.splits)
  from find_SomeD [OF this] show ?thesis
    by (auto simp: topic_names_def intro: rev_image_eqI [OF _ sym])
qed

lemma payload_record_sized:
  assumes "length (record_layout (payload_into_record now p)) < 2 ^ 32"
  shows "record_sized (payload_into_record now p)"
proof -
  let ?key = "case py_key p of Some k \<Rightarrow> k | None \<Rightarrow> []"
  have "length (record_layout (payload_into_record now p)) = 33 + length ?key + length (py_value p)"
    by (simp add: payload_into_record_def record_new_def Let_def length_record_layout)
  then show ?thesis
    using assms record_new_sized [of ?key "py_value p" now 0] by (simp add: payload_into_record_def)
qed

lemma alist_update_mem: "x \<in> set (AList.update k v m) \<Longrightarrow> x = (k, v) \<or> x \<in> set m"
  by (induction m) (auto split: if_splits)

lemma push_entry_ok:
  assumes "record_sized r" and "\<forall>(i, rs) \<in> set ps. records_ok rs"
  shows "\<forall>(i, rs) \<in> set (push_entry idx r ps). records_ok rs"
proof -
  have "records_ok ((case map_of ps idx of Some rs \<Rightarrow> rs | None \<Rightarrow> []) @ [r])"
  proof (cases "map_of ps idx")
    case (Some rs)
    then have "records_ok rs"
      using assms(2) map_of_SomeD [OF Some] by blast
    then show ?thesis
      using Some assms(1) by (simp add: records_ok_def)
  qed (use assms(1) in \<open>simp add: records_ok_def\<close>)
  then show ?thesis
    using assms(2) by (auto simp: push_entry_def dest!: alist_update_mem)
qed

lemma batch_ok_push:
  assumes "batch_ok a m" and "t \<in> topic_names a" and "record_sized r"
  shows "batch_ok a (batch_push t idx r m)"
proof -
  let ?ps = "case map_of m t of Some ps \<Rightarrow> ps | None \<Rightarrow> []"
  have "\<forall>(i, rs) \<in> set ?ps. records_ok rs"
  proof (cases "map_of m t")
    case (Some ps)
    then show ?thesis
      using assms(1) map_of_SomeD [OF Some] unfolding batch_ok_def by auto
  qed simp
  then have "\<forall>(i, rs) \<in> set (push_entry idx r ?ps). records_ok rs"
    by (rule push_entry_ok [OF assms(3)])
  then show ?thesis
    using assms(1,2) batch_wf_push [of m t idx r]
    by (auto simp: batch_ok_def batch_push_def dest!: alist_update_mem)
qed

text \<open>The decision of a step keeps batches that can be sent, and does not gain weight.\<close>

definition pub_weight :: "(bool \<times> producer_batch) option \<Rightarrow> nat" where
  "pub_weight pub = (case pub of None \<Rightarrow> 0 | Some (sync, p) \<Rightarrow> batch_weight p)"

lemma batcher_plan_ok:
  assumes "batcher_plan B crc a e ev m timer = Ok (pub, m1, timer1, continue)" and "batch_ok a m"
    and "event_weight (e, ev) < 2 ^ 32"
  shows "batch_ok a m1 \<and> (\<forall>sync p. pub = Some (sync, p) \<longrightarrow> batch_ok a p)
    \<and> pub_weight pub + batch_weight m1 \<le> batch_weight m + event_weight (e, ev)"
proof (cases "(B, crc, a, e, ev, m, timer)" rule: batcher_plan.cases)
  case (1 _ _ _ _ p)
  then obtain idx where "calculate_index a e p = Ok idx" and
    d: "pub = Some (True, [(py_topic p, [(idx, [payload_into_record (pe_now e) p])])])" "m1 = m"
    using assms(1) by (cases "calculate_index a e p") auto
  then show ?thesis
    using 1 assms(2,3) calculate_index_topic [of a e p idx] payload_record_sized [of "pe_now e" p]
    by (simp add: pub_weight_def batch_ok_def records_ok_def records_weight_def)
next
  case (2 _ _ _ _ p)
  then obtain idx where idx: "calculate_index a e p = Ok idx"
    using assms(1) by (cases "calculate_index a e p") auto
  let ?m = "batch_push (py_topic p) idx (payload_into_record (pe_now e) p) m"
  have "batch_ok a ?m"
    using 2 assms(2,3) calculate_index_topic [OF idx] payload_record_sized [of "pe_now e" p] by (auto intro: batch_ok_push)
  moreover have "batch_weight ?m \<le> batch_weight m + event_weight (e, ev)"
    using 2 assms(2) batch_weight_push [of m "py_topic p" idx "payload_into_record (pe_now e) p"]
    by (simp add: batch_ok_def)
  ultimately show ?thesis
    using 2 assms(1) idx by (auto simp: pub_weight_def Let_def split: if_splits)
qed (use assms in \<open>auto simp: pub_weight_def split: if_splits\<close>)

section \<open>The frame of a batch\<close>

lemma records_weight_le: "(i, rs) \<in> set ps \<Longrightarrow> records_weight rs \<le> partitions_weight ps"
  by (induction ps) auto

lemma partitions_weight_le: "(t, ps) \<in> set m \<Longrightarrow> 100 + length t + partitions_weight ps \<le> batch_weight m"
  by (induction m) auto

lemma length_le_weight: "length ps \<le> partitions_weight ps"
  by (induction ps) (auto simp: records_weight_def)

lemma partitions_weight_min: "41 * length ps \<le> partitions_weight ps"
  by (induction ps) (auto simp: records_weight_def)

lemma length_le_batch_weight: "length m \<le> batch_weight m"
  by (induction m) auto

lemma length_rb_records [simp]: "length (rb_records (batch_from_records B crc rs)) = length (records_layout rs)"
  if "bytes_crate B" for B
  using length_records_layout_rebased [of rs] bytes_crate.batch_from_records_records [OF that, of crc rs]
  by (simp add: rebased_def)

context bytes_crate
begin

lemma encode_produce_partitions_length:
  "length (emit (map (encode_produce_partition B) qs) buf) =
     length buf + (\<Sum>q\<leftarrow>qs. 67 + length (rb_records (qp_records q)))"
  by (induction qs arbitrary: buf) (simp_all add: encode_produce_partition_def puts Let_def)

lemma encode_produce_topics_length:
  "length (emit (map (encode_produce_topic B) ts) buf) =
     length buf + (\<Sum>t\<leftarrow>ts. 6 + length (qt_topic t) + (\<Sum>q\<leftarrow>qt_partitions t. 67 + length (rb_records (qp_records q))))"
  by (induction ts arbitrary: buf)
    (simp_all add: encode_produce_topic_def put_string_def puts encode_produce_partitions_length)

lemma encode_produce_answers_length:
  "\<forall>q \<in> set qs. pp_error_message q = [] \<Longrightarrow>
     length (emit (map (encode_produce_partition_response B) qs) buf) \<le> length buf + 41 * length qs"
proof (induction qs arbitrary: buf)
  case (Cons q qs)
  have "length (encode_produce_partition_response B q buf) \<le> length buf + 41"
    using Cons.prems
    by (simp add: encode_produce_partition_response_def encode_current_leader_def put_string_i16_def puts split: option.split)
  with Cons show ?case
    by (fastforce intro: order_trans [OF Cons.IH])
qed simp

lemma encode_produce_topic_answers_length:
  "\<forall>r \<in> set rs. \<forall>q \<in> set (ptr_partition_responses r). pp_error_message q = [] \<Longrightarrow>
     length (emit (map (encode_produce_topic_response B) rs) buf) \<le>
       length buf + (\<Sum>r\<leftarrow>rs. 6 + length (ptr_topic r) + 41 * length (ptr_partition_responses r))"
proof (induction rs arbitrary: buf)
  case (Cons r rs)
  have "length (encode_produce_topic_response B r buf) \<le> length buf + 6 + length (ptr_topic r) + 41 * length (ptr_partition_responses r)"
    using Cons.prems encode_produce_answers_length [of "ptr_partition_responses r" "buf @
        be16 (of_nat (length (ptr_topic r))) @ ptr_topic r @ be32 (of_nat (length (ptr_partition_responses r)))"]
    by (simp add: encode_produce_topic_response_def put_string_def puts)
  with Cons show ?case
    by (fastforce intro: order_trans [OF Cons.IH])
qed simp

end

lemma batch_frame_length:
  assumes B: "bytes_crate B" and "env_orders e"
  shows "length (frame_encode B (batch_frame B crc e m)) \<le> 100 + batch_weight m"
proof -
  let ?size = "\<lambda>(t, ps). 6 + length t + (\<Sum>(i, rs)\<leftarrow>pe_partitions e ps. 67 + length (records_layout rs))"
  have each: "?size (t, ps) \<le> 100 + length t + partitions_weight ps" for t ps
  proof -
    have "(\<Sum>(i, rs)\<leftarrow>pe_partitions e ps. 67 + length (records_layout rs)) = (\<Sum>(i, rs)\<leftarrow>ps. 67 + length (records_layout rs))"
      by (rule sum_list_perm) (use assms(2) in \<open>simp add: env_orders_def\<close>)
    also have "\<dots> \<le> partitions_weight ps"
      unfolding partitions_weight_def records_weight_def by (rule sum_list_mono) auto
    finally show ?thesis
      by simp
  qed
  have "(\<Sum>x\<leftarrow>pe_topics e m. ?size x) = (\<Sum>x\<leftarrow>m. ?size x)"
    by (rule sum_list_perm) (use assms(2) in \<open>simp add: env_orders_def\<close>)
  also have "\<dots> \<le> batch_weight m"
    unfolding batch_weight_def by (rule sum_list_mono) (use each in auto)
  finally have sum: "(\<Sum>x\<leftarrow>pe_topics e m. ?size x) \<le> batch_weight m" .
  define req where "req = produce_request_from B crc e m"
  have "(\<Sum>t\<leftarrow>qr_topics req. 6 + length (qt_topic t) + (\<Sum>q\<leftarrow>qt_partitions t. 67 + length (rb_records (qp_records q))))
      = (\<Sum>x\<leftarrow>pe_topics e m. ?size x)"
    using B by (simp add: req_def produce_request_from_def comp_def case_prod_unfold)
  moreover have "length (frame_encode B (frame_from_produce (pe_correlation_id e) req)) = 40 +
      (\<Sum>t\<leftarrow>qr_topics req. 6 + length (qt_topic t) + (\<Sum>q\<leftarrow>qt_partitions t. 67 + length (rb_records (qp_records q))))"
    by (simp add: frame_encode_def frame_from_produce_def frame_new_def Let_def encode_request_header_def encode_client_id_def
        encode_produce_def bytes_crate.puts [OF B] bytes_crate.encode_produce_topics_length [OF B])
  ultimately show ?thesis
    using sum by (simp add: req_def)
qed

lemma batch_topics_few:
  assumes "metadata_ok a" and "batch_ok a m"
  shows "length m < 2 ^ 16"
proof -
  have "length m = card (set (map fst m))"
    using assms(2) distinct_card [of "map fst m"] by (simp add: batch_ok_def batch_wf_def)
  also have "\<dots> \<le> card (topic_names a)"
    using assms(2) by (intro card_mono) (auto simp: batch_ok_def topic_names_def)
  also have "\<dots> \<le> length (mr_topics (pd_metadata_image a))"
    unfolding topic_names_def by (metis card_length length_map list.set_map)
  finally show ?thesis
    using assms(1) by (simp add: metadata_ok_def)
qed

lemma sent_batch_fits:
  assumes "bytes_crate B" and "records_ok rs" and "records_weight rs < 2 ^ 31"
  shows "batch_fits crc (batch_from_records B crc rs)"
proof -
  have "\<forall>r \<in> set rs. record_sized r" and "length (records_layout rs) + 49 < 2 ^ 32"
    using assms(2,3) by (simp_all add: records_ok_def records_weight_def)
  from bytes_crate.batch_from_records_holds [OF assms(1) this, of crc] show ?thesis
    using assms(1,3) by (simp add: batch_fits_def batch_holds_def length_batch_layout records_weight_def
        length_records_layout_rebased)
qed

lemma env_orders_sets:
  assumes "env_orders e"
  shows "set (pe_topics e m) = set m" and "length (pe_topics e m) = length m"
    and "set (pe_partitions e ps) = set ps" and "length (pe_partitions e ps) = length ps"
proof -
  have "mset (pe_topics e m) = mset m" and "mset (pe_partitions e ps) = mset ps"
    using assms by (simp_all add: env_orders_def)
  then show "set (pe_topics e m) = set m" and "length (pe_topics e m) = length m"
    and "set (pe_partitions e ps) = set ps" and "length (pe_partitions e ps) = length ps"
    using mset_eq_setD mset_eq_length by blast+
qed

lemma batch_frame_sendable:
  assumes B: "bytes_crate B" and orders: "env_orders e" and a: "metadata_ok a" and m: "batch_ok a m"
    and small: "batch_weight m < 2 ^ 31"
  shows "sendable B crc (batch_frame B crc e m)"
proof -
  note sets = env_orders_sets [OF orders]
  have "produce_topic_fits crc \<lparr>qt_topic = t, qt_partitions = map (\<lambda>(index, records).
      \<lparr>qp_index = index, qp_records = batch_from_records B crc records\<rparr>) (pe_partitions e ps)\<rparr>" if "(t, ps) \<in> set m" for t ps
  proof -
    have "partitions_weight ps < 2 ^ 31"
      using partitions_weight_le [OF that] small by simp
    moreover from this have "batch_fits crc (batch_from_records B crc rs)" if "(i, rs) \<in> set ps" for i rs
      using records_weight_le [OF that] m \<open>(t, ps) \<in> set m\<close> that by (intro sent_batch_fits [OF B]) (auto simp: batch_ok_def)
    moreover have "string_fits 16 t"
      using a m that by (auto simp: metadata_ok_def batch_ok_def)
    ultimately show ?thesis
      using length_le_weight [of ps] by (auto simp: produce_topic_fits_def sets)
  qed
  moreover have "duration_fits (duration_from_secs 10)"
    by (simp add: duration_fits_def duration_from_secs_def duration_as_millis_def)
  ultimately have "body_fits crc (Produce (produce_request_from B crc e m))"
    using batch_topics_few [OF a m] by (auto simp: produce_request_from_def sets)
  moreover have "length (frame_encode B (batch_frame B crc e m)) - 4 < 2 ^ 32"
    using batch_frame_length [OF B orders, of crc m] small by simp
  ultimately show ?thesis
    by (simp add: sendable_def frame_from_produce_def frame_new_def frame_fits_def header_fits_wire_def Let_def)
qed

section \<open>The answer\<close>

lemma produce_answers_answerable:
  assumes B: "bytes_crate B" and h: "rq_client_id h = None" "rq_api_key h = ApiProduce"
    and fits: "\<forall>t \<in> set ts. string_fits 16 (qt_topic t) \<and> length (qt_partitions t) < 2 ^ 31" and few: "length ts < 2 ^ 16"
    and answers: "list_all2 (\<lambda>t r. ptr_topic r = qt_topic t
        \<and> list_all2 (produce_answer K (qt_topic t)) (qt_partitions t) (ptr_partition_responses r)) ts rs"
    and small: "(\<Sum>t\<leftarrow>ts. 6 + length (qt_topic t) + 41 * length (qt_partitions t)) < 2 ^ 31"
  shows "answerable B crc \<lparr>fm_size = sz, fm_header = h,
    fm_body = ProduceResponse \<lparr>prs_throttle_time_ms = elapsed, prs_responses = rs\<rparr>\<rparr>"
proof -
  have silent: "pp_error_message q = []" if "produce_answer K t p q" for t p q
    using that by (auto simp: produce_answer_def produce_partition_response_error_def split: if_splits)
  have rs: "produce_topic_response_fits r \<and> (\<forall>q \<in> set (ptr_partition_responses r). pp_error_message q = [])" if "r \<in> set rs" for r
  proof -
    obtain t where t: "t \<in> set ts" "ptr_topic r = qt_topic t"
      and qs: "list_all2 (produce_answer K (qt_topic t)) (qt_partitions t) (ptr_partition_responses r)"
      using list_all2_right [OF answers \<open>r \<in> set rs\<close>] by blast
    have "\<forall>q \<in> set (ptr_partition_responses r). pp_error_message q = []"
      using list_all2_right [OF qs] silent by blast
    then show ?thesis
      using fits t list_all2_lengthD [OF qs]
      by (auto simp: produce_topic_response_fits_def produce_partition_response_fits_def string_fits_def)
  qed
  have sum: "(\<Sum>r\<leftarrow>rs. 6 + length (ptr_topic r) + 41 * length (ptr_partition_responses r)) =
      (\<Sum>t\<leftarrow>ts. 6 + length (qt_topic t) + 41 * length (qt_partitions t))"
    using answers by (induction rule: list_all2_induct) (auto dest: list_all2_lengthD)
  have le: "length (emit (map (encode_produce_topic_response B) rs) buf) \<le>
      length buf + (\<Sum>r\<leftarrow>rs. 6 + length (ptr_topic r) + 41 * length (ptr_partition_responses r))" for buf
    by (rule bytes_crate.encode_produce_topic_answers_length [OF B]) (use rs in blast)
  have len: "length (emit (map (encode_produce_topic_response B) rs) buf) < length buf + 2 ^ 31" for buf
    using le [of buf] small unfolding sum by simp
  have "length (frame_encode B \<lparr>fm_size = sz, fm_header = h,
      fm_body = ProduceResponse \<lparr>prs_throttle_time_ms = elapsed, prs_responses = rs\<rparr>\<rparr>) - 4 < 2 ^ 32"
    using len [of "be32 0 @ encode_request_header B h [] @ be32 elapsed @ be32 (of_nat (length rs))"] h(1)
    by (simp add: frame_encode_def Let_def encode_request_header_def encode_client_id_def encode_produce_response_def
        bytes_crate.puts [OF B])
  then show ?thesis
    using h rs few list_all2_lengthD [OF answers]
    by (simp add: answerable_def frame_fits_def header_fits_wire_def)
qed

section \<open>The logs after a publication\<close>

definition published_logs :: "producer_batch \<Rightarrow> logs \<Rightarrow> logs" where
  "published_logs m L = (\<lambda>k. map_option (\<lambda>rss. rss @ (if records_at m k = [] then [] else [rebased (records_at m k)])) (L k))"

lemma append_logs_at:
  "append_logs es L k = map_option (\<lambda>rss. rss @ map snd (filter (\<lambda>(k', _). k' = k) es)) (L k)"
  by (induction es L rule: append_logs.induct) (auto simp: map_option.compositionality comp_def option.map_ident split: option.splits)

declare split_paired_All [simp del]

lemma filter_partitions:
  "distinct (map fst ps) \<Longrightarrow>
    filter (\<lambda>(k', _). k' = (t, i)) (map (\<lambda>(i, rs). ((t, i), rs)) ps) =
      (case map_of ps i of None \<Rightarrow> [] | Some rs \<Rightarrow> [((t, i), rs)])"
proof (induction ps)
  case (Cons p ps)
  then show ?case
    by (cases p; cases "fst p = i") (simp_all add: map_of_eq_None_iff [THEN iffD2])
qed simp

lemma filter_other_topic:
  "t' \<noteq> fst k \<Longrightarrow> filter (\<lambda>(k', _). k' = k) (map (\<lambda>(i, rs). ((t', i), rs)) ps) = []"
  by (auto simp: filter_empty_conv)

lemma filter_batch_entries:
  assumes "batch_wf m" and "\<forall>(t, ps) \<in> set m. \<forall>(i, rs) \<in> set ps. records_ok rs"
  shows "filter (\<lambda>(k', _). k' = k) (batch_entries m) = (if records_at m k = [] then [] else [(k, records_at m k)])"
  using assms
proof (induction m)
  case (Cons p m)
  obtain t ps where p: "p = (t, ps)"
    by fastforce
  have wf: "batch_wf m" and ps: "distinct (map fst ps)" and new: "t \<notin> fst ` set m"
    using Cons.prems(1) by (auto simp: batch_wf_def p)
  have split: "batch_entries (p # m) = map (\<lambda>(i, rs). ((t, i), rs)) ps @ batch_entries m"
    by (simp add: batch_entries_def p)
  show ?case
  proof (cases "t = fst k")
    case True
    have "map_of m t = None"
      using new by (simp add: map_of_eq_None_iff)
    then have "records_at m k = []"
      using True by (simp add: records_at_def)
    then have "filter (\<lambda>(k', _). k' = k) (batch_entries m) = []"
      using Cons.IH [OF wf] Cons.prems(2) by simp
    moreover have "rs \<noteq> []" if "map_of ps i = Some rs" for i rs
      using map_of_SomeD [OF that] Cons.prems(2) by (auto simp: p records_ok_def)
    ultimately show ?thesis
      using filter_partitions [OF ps, of t "snd k"] True
      by (cases k) (auto simp: split [unfolded p] records_at_def p split: option.splits)
  next
    case False
    then have "records_at (p # m) k = records_at m k"
      by (simp add: records_at_def p)
    then show ?thesis
      using filter_other_topic [OF False, of ps] Cons.IH [OF wf] Cons.prems(2) by (simp add: split [unfolded p] p)
  qed
qed (simp add: batch_entries_def)

lemma mset_eq_short: "mset xs = mset ys \<Longrightarrow> length ys \<le> 1 \<Longrightarrow> xs = ys"
  by (cases ys) auto

lemma append_logs_sent:
  assumes "env_orders e" and "batch_ok a m"
  shows "append_logs (map (\<lambda>(k, rs). (k, rebased rs)) (sent_entries e m)) L = published_logs m L"
proof
  fix k
  have "filter (\<lambda>(k', _). k' = k) (batch_entries m) = (if records_at m k = [] then [] else [(k, records_at m k)])"
    by (rule filter_batch_entries) (use assms(2) in \<open>unfold batch_ok_def, blast+\<close>)
  moreover have "mset (filter (\<lambda>(k', _). k' = k) (sent_entries e m)) = mset (filter (\<lambda>(k', _). k' = k) (batch_entries m))"
    by (simp only: mset_filter sent_entries_perm [OF assms(1)])
  ultimately have "filter (\<lambda>(k', _). k' = k) (sent_entries e m) = (if records_at m k = [] then [] else [(k, records_at m k)])"
    by (intro mset_eq_short) simp_all
  moreover have "map snd (filter (\<lambda>(k', _). k' = k) (map (\<lambda>(k, rs). (k, rebased rs)) es)) =
      map rebased (map snd (filter (\<lambda>(k', _). k' = k) es))" for es
    by (induction es) auto
  ultimately show "append_logs (map (\<lambda>(k, rs). (k, rebased rs)) (sent_entries e m)) L k = published_logs m L k"
    by (simp add: append_logs_at published_logs_def)
qed

section \<open>A publication to a broker\<close>

lemma sent_entries_mem:
  assumes "env_orders e" and "batch_ok a m" and "(k, rs) \<in> set (sent_entries e m)"
  shows "records_ok rs \<and> records_weight rs \<le> batch_weight m"
proof -
  have "(k, rs) \<in> set (batch_entries m)"
    using assms(3) mset_eq_setD [OF sent_entries_perm [OF assms(1), of m]] by simp
  then obtain t ps i where "(t, ps) \<in> set m" "(i, rs) \<in> set ps"
    by (auto simp: batch_entries_def)
  then show ?thesis
    using assms(2) records_weight_le [of i rs ps] partitions_weight_le [of t ps m] by (auto simp: batch_ok_def)
qed

lemma request_entries_hold:
  assumes B: "bytes_crate B" and "env_orders e" and "batch_ok a m" and "batch_weight m < 2 ^ 31"
  shows "list_all2 (entry_holds crc) (request_entries (produce_request_from B crc e m))
    (map (\<lambda>(k, rs). (k, rebased rs)) (sent_entries e m))"
proof -
  have "entry_holds crc (k, batch_from_records B crc rs) (k, rebased rs)" if "(k, rs) \<in> set (sent_entries e m)" for k rs
  proof -
    have rs: "rs \<noteq> []" "\<forall>r \<in> set rs. record_sized r" "length (records_layout rs) + 49 < 2 ^ 32"
      using sent_entries_mem [OF assms(2,3) that] assms(4) by (simp_all add: records_ok_def records_weight_def)
    have "rebased rs \<noteq> []"
      using rs(1) by (metis length_0_conv length_rebased)
    then show ?thesis
      using bytes_crate.batch_from_records_holds [OF B rs(2,3), of crc] rebased_offset
      by (auto simp: entry_holds_def batches_hold_def)
  qed
  then show ?thesis
    unfolding request_entries_sent list_all2_map1 list_all2_map2 by (intro list.rel_refl_strong) auto
qed

lemma request_topics:
  fixes B :: bytes_ops and crc :: "u8 list \<Rightarrow> u32"
  assumes orders: "env_orders e" and a: "metadata_ok a" and m: "batch_ok a m" and small: "batch_weight m < 2 ^ 31"
  defines "ts \<equiv> qr_topics (produce_request_from B crc e m)"
  shows "\<forall>t \<in> set ts. string_fits 16 (qt_topic t) \<and> length (qt_partitions t) < 2 ^ 31" and "length ts < 2 ^ 16"
    and "(\<Sum>t\<leftarrow>ts. 6 + length (qt_topic t) + 41 * length (qt_partitions t)) < 2 ^ 31"
proof -
  note sets = env_orders_sets [OF orders]
  show "length ts < 2 ^ 16"
    using batch_topics_few [OF a m] by (simp add: ts_def produce_request_from_def sets)
  have "string_fits 16 t \<and> length ps < 2 ^ 31" if "(t, ps) \<in> set m" for t ps
    using that a m partitions_weight_le [OF that] length_le_weight [of ps] small by (auto simp: metadata_ok_def batch_ok_def)
  then show "\<forall>t \<in> set ts. string_fits 16 (qt_topic t) \<and> length (qt_partitions t) < 2 ^ 31"
    by (auto simp: ts_def produce_request_from_def sets)
  have "(\<Sum>t\<leftarrow>ts. 6 + length (qt_topic t) + 41 * length (qt_partitions t)) =
      (\<Sum>(t, ps)\<leftarrow>pe_topics e m. 6 + length t + 41 * length ps)"
    by (simp add: ts_def produce_request_from_def comp_def case_prod_unfold sets)
  also have "\<dots> = (\<Sum>(t, ps)\<leftarrow>m. 6 + length t + 41 * length ps)"
    by (rule sum_list_perm) (use orders in \<open>simp add: env_orders_def\<close>)
  also have "\<dots> \<le> batch_weight m"
    unfolding batch_weight_def by (rule sum_list_mono) (clarsimp, rule trans_le_add2, rule partitions_weight_min)
  finally show "(\<Sum>t\<leftarrow>ts. 6 + length (qt_topic t) + 41 * length (qt_partitions t)) < 2 ^ 31"
    using small by simp
qed

lemma publish_to_broker:
  assumes T: "stream_law T" and e: "env_ok crc e" and orders: "env_orders pe"
    and a: "metadata_ok a" and m: "batch_ok a m" and small: "batch_weight m < 2 ^ 31"
    and im: "image_holds crc (bk_image br) L" and room: "logs_room (published_logs m L)"
  shows "\<exists>br1. publish_raw T (en_bytes e) crc (broker_peer T e) (batch_frame (en_bytes e) crc pe m) (br, []) = ((br1, []), Ok ())
    \<and> image_holds crc (bk_image br1) (published_logs m L) \<and> catalogue br1 = catalogue br"
proof -
  let ?B = "en_bytes e"
  let ?req = "produce_request_from ?B crc pe m"
  let ?f = "batch_frame ?B crc pe m"
  have B: "bytes_crate ?B" and crc: "en_crc e = crc"
    using e by (simp_all add: env_ok_def)
  have f: "fm_body ?f = Produce ?req" "qr_acks ?req \<noteq> AcksAll" "rq_client_id (fm_header ?f) = None" "rq_api_key (fm_header ?f) = ApiProduce"
    by (simp_all add: frame_from_produce_def frame_new_def produce_request_from_def Let_def)
  have es: "append_logs (map (\<lambda>(k, rs). (k, rebased rs)) (sent_entries pe m)) L = published_logs m L"
    by (rule append_logs_sent [OF orders m])
  obtain br1 g where handled: "broker_handle e ?f br = Some (Ok (br1, g))" and im1: "image_holds crc (bk_image br1) (published_logs m L)"
    using broker_produce_logs [OF im f(2) request_entries_hold [OF B orders m small] _ f(1), of e] room unfolding es by blast
  obtain resp where g: "fm_body g = ProduceResponse resp" "fm_header g = fm_header ?f"
    and answers: "list_all2 (\<lambda>t r. ptr_topic r = qt_topic t
        \<and> list_all2 (produce_answer (image_keys (bk_image br)) (qt_topic t)) (qt_partitions t) (ptr_partition_responses r))
      (qr_topics ?req) (prs_responses resp)"
    using broker_answers_produce [OF f(1,2), of e br] handled by auto
  have "answerable ?B crc g"
  proof -
    have "g = \<lparr>fm_size = fm_size g, fm_header = fm_header ?f, fm_body = ProduceResponse
        \<lparr>prs_throttle_time_ms = prs_throttle_time_ms resp, prs_responses = prs_responses resp\<rparr>\<rparr>"
      using g by simp
    with produce_answers_answerable [OF B f(3,4) request_topics(1,2) [OF orders a m small] answers request_topics(3) [OF orders a m small]]
    show ?thesis
      by metis
  qed
  moreover have "sendable ?B crc ?f"
    by (rule batch_frame_sendable [OF B orders a m small])
  ultimately have "exchange T ?B crc (broker_peer T e) ?f (br, []) = ((br1, []), Ok (g\<lparr>fm_size := frame_get_size g\<rparr>))"
    using exchange_with_broker [OF T B _ handled] crc by simp
  then show ?thesis
    using g(1) im1 produce_keeps_catalogue [OF handled f(1,2)] by (simp add: publish_raw_def map_error_def)
qed

end
