(* ===== verification/Client_Consumer.thy ===== *)
theory Client_Consumer
  imports Client_Requests
begin

text \<open>
  The consumer (\<open>crates/consumer/src/lib.rs\<close>). Two tasks share its stream, one that fetches and
  one that refreshes the metadata; each holds the stream for one exchange at a time, and sleeps
  in between. A run is the list of these exchanges. The records sent to the receiver are
  collected in a list. The order in which the map of partitions is iterated is an argument.
\<close>

section \<open>State\<close>

datatype consumer_error = ConnErr | ReqErr request_error | TopicNotFound

record consumer_record =
  cs_topic :: "u8 list"
  cs_partition :: u16
  cs_inner :: msg_record

record consumer_partition_state =
  cp_high_watermark :: u64
  cp_commit_offset :: u64

definition consumer_partition_default :: consumer_partition_state where
  "consumer_partition_default = \<lparr>cp_high_watermark = 0, cp_commit_offset = 0\<rparr>"

definition consumer_partition_from_offset :: "u64 \<Rightarrow> consumer_partition_state" where
  "consumer_partition_from_offset fetch_offset =
     \<lparr>cp_high_watermark = 0, cp_commit_offset = fetch_offset\<rparr>"

type_synonym consumer_partitions = "(u16 \<times> consumer_partition_state) list"

record consumer_config =
  cc_topic :: "u8 list"
  cc_partition :: "u16 option"
  cc_base_offset :: u64

definition batch_into_consumer_records ::
    "bytes_ops \<Rightarrow> u8 list \<Rightarrow> u16 \<Rightarrow> record_batch \<Rightarrow> (unit, consumer_record list) outcome" where
  "batch_into_consumer_records B topic part b =
     omap (map (\<lambda>r. \<lparr>cs_topic = topic, cs_partition = part, cs_inner = r\<rparr>)) (batch_into_records B b)"

section \<open>Starting\<close>

definition do_request_metadata ::
    "stream_ops \<Rightarrow> bytes_ops \<Rightarrow> (u8 list \<Rightarrow> u32) \<Rightarrow> 's peer \<Rightarrow> u32 \<Rightarrow> u8 list \<Rightarrow> 's \<times> u8 list \<Rightarrow>
      ('s \<times> u8 list) \<times> (consumer_error, partition_metadata list) outcome" where
  "do_request_metadata T B crc peer correlation_id topic s =
     (let (s1, r) = request_metadata T B crc peer correlation_id s
      in (s1, obind (map_error ReqErr r) (\<lambda>metadata.
           case find (\<lambda>t. tm_name t = topic) (mr_topics metadata) of
             Some t \<Rightarrow> Ok (tm_partitions t)
           | None \<Rightarrow> Err TopicNotFound)))"

definition consumer_actor_new ::
    "stream_ops \<Rightarrow> bytes_ops \<Rightarrow> (u8 list \<Rightarrow> u32) \<Rightarrow> 's peer \<Rightarrow> u32 \<Rightarrow> consumer_config \<Rightarrow> 's \<times> u8 list \<Rightarrow>
      ('s \<times> u8 list) \<times> (consumer_error, consumer_partitions) outcome" where
  "consumer_actor_new T B crc peer correlation_id cfg s =
     (case cc_partition cfg of
        Some part \<Rightarrow> (s, Ok [(part, consumer_partition_from_offset (cc_base_offset cfg))])
      | None \<Rightarrow>
          (let (s1, r) = do_request_metadata T B crc peer correlation_id (cc_topic cfg) s
           in (s1, omap (\<lambda>ps. fold (\<lambda>p m. AList.update (ucast (pm_partition_index p)) consumer_partition_default m) ps [])
                r)))"

definition single_request_metadata ::
    "stream_ops \<Rightarrow> bytes_ops \<Rightarrow> (u8 list \<Rightarrow> u32) \<Rightarrow> 's peer \<Rightarrow> u32 \<Rightarrow> u8 list \<Rightarrow> 's \<times> u8 list \<Rightarrow>
      ('s \<times> u8 list) \<times> (unit, unit) outcome" where
  "single_request_metadata T B crc peer correlation_id topic s =
     (let (s1, r) = do_request_metadata T B crc peer correlation_id topic s
      in (s1, case r of Panic \<Rightarrow> Panic | _ \<Rightarrow> Ok ()))"

section \<open>Polling\<close>

fun consume_batches ::
    "bytes_ops \<Rightarrow> u8 list \<Rightarrow> u16 \<Rightarrow> record_batch list \<Rightarrow> (unit, consumer_record list) outcome" where
  "consume_batches B topic part [] = Ok []"
| "consume_batches B topic part (b # bs) =
     obind (batch_into_consumer_records B topic part b) (\<lambda>rs.
     omap (\<lambda>qs. rs @ qs) (consume_batches B topic part bs))"

definition consume_partition ::
    "bytes_ops \<Rightarrow> u8 list \<Rightarrow> partition_response \<Rightarrow> consumer_partitions \<times> consumer_record list \<Rightarrow>
      (unit, consumer_partitions \<times> consumer_record list) outcome" where
  "consume_partition B topic p = (\<lambda>(partitions, sent).
     (let key = ucast (pr_partition_index p)
      in case map_of partitions key of
           None \<Rightarrow> Panic
         | Some state \<Rightarrow>
             (let state1 = (if cp_high_watermark state < pr_high_watermark p
                            then state\<lparr>cp_high_watermark := pr_high_watermark p\<rparr> else state)
              in omap (\<lambda>rs.
                   (AList.update key (state1\<lparr>cp_commit_offset := cp_commit_offset state1 + of_nat (length rs)\<rparr>) partitions,
                    sent @ rs))
                 (consume_batches B topic key (pr_records p)))))"

fun consume_partitions ::
    "bytes_ops \<Rightarrow> u8 list \<Rightarrow> partition_response list \<Rightarrow> consumer_partitions \<times> consumer_record list \<Rightarrow>
      (unit, consumer_partitions \<times> consumer_record list) outcome" where
  "consume_partitions B topic [] s = Ok s"
| "consume_partitions B topic (p # ps) s = obind (consume_partition B topic p s) (consume_partitions B topic ps)"

fun consume_topics ::
    "bytes_ops \<Rightarrow> topic_response list \<Rightarrow> consumer_partitions \<times> consumer_record list \<Rightarrow>
      (unit, consumer_partitions \<times> consumer_record list) outcome" where
  "consume_topics B [] s = Ok s"
| "consume_topics B (t # ts) s =
     obind (consume_partitions B (tr_topic t) (tr_partitions t) s) (consume_topics B ts)"

definition consumer_poll ::
    "stream_ops \<Rightarrow> bytes_ops \<Rightarrow> (u8 list \<Rightarrow> u32) \<Rightarrow> 's peer \<Rightarrow> (consumer_partitions \<Rightarrow> consumer_partitions) \<Rightarrow>
      u32 \<Rightarrow> u8 list \<Rightarrow> consumer_partitions \<Rightarrow> 's \<times> u8 list \<Rightarrow>
      ('s \<times> u8 list) \<times> (unit, consumer_partitions \<times> consumer_record list) outcome" where
  "consumer_poll T B crc peer order correlation_id topic partitions s =
     (let (s1, r) = request_fetch T B crc peer correlation_id topic
            (map (\<lambda>(key, state). (key, cp_commit_offset state)) (order partitions)) s
      in (s1,
          case r of
            Ok response \<Rightarrow> consume_topics B (nr_responses response) (partitions, [])
          | Err e \<Rightarrow> Ok (partitions, [])
          | Panic \<Rightarrow> Panic))"

text \<open>
  A run: a broker answers each exchange, and what it does in between is not the consumer's. The
  bytes of an answer that were not read stay in the stream. A panic of one task is not seen by
  the other: the model stops there.
\<close>

datatype consumer_event = OffsetSync broker_env u32 broker | MetadataRefresh broker_env u32 broker

fun consumer_run ::
    "stream_ops \<Rightarrow> (consumer_partitions \<Rightarrow> consumer_partitions) \<Rightarrow> u8 list \<Rightarrow> consumer_event list \<Rightarrow>
      consumer_partitions \<Rightarrow> u8 list \<Rightarrow> (unit, consumer_partitions \<times> consumer_record list) outcome" where
  "consumer_run T order topic [] partitions pending = Ok (partitions, [])"
| "consumer_run T order topic (OffsetSync e correlation_id br # events) partitions pending =
     (let (s1, r) = consumer_poll T (en_bytes e) (en_crc e) (broker_peer T e) order correlation_id topic
            partitions (br, pending)
      in obind r (\<lambda>(partitions1, rs).
           omap (\<lambda>(partitions2, rest). (partitions2, rs @ rest))
             (consumer_run T order topic events partitions1 (snd s1))))"
| "consumer_run T order topic (MetadataRefresh e correlation_id br # events) partitions pending =
     (let (s1, r) = single_request_metadata T (en_bytes e) (en_crc e) (broker_peer T e) correlation_id topic
            (br, pending)
      in obind r (\<lambda>_. consumer_run T order topic events partitions (snd s1)))"

end
