(* ===== verification/Client_Poll.thy ===== *)
theory Client_Poll
  imports Client_Consumer Broker_Catalogue "HOL-Library.Sublist"
begin

text \<open>
  What a consumer receives of the logs of its broker: a poll moves each partition by the records
  the answer carries, a refresh of the metadata leaves the stream in step, and a run that
  interleaves them reads every log from the offset it starts at on.
\<close>

section \<open>What a poll sends and receives\<close>

lemma consume_batches_carry:
  assumes "bytes_crate B" and "batches_carry bs rss"
  shows "consume_batches B topic part bs =
    Ok (map (\<lambda>r. \<lparr>cs_topic = topic, cs_partition = part, cs_inner = r\<rparr>) (concat rss))"
  using assms(2)
proof (induction bs arbitrary: rss)
  case Nil
  then show ?case
    by (simp add: batches_carry_def)
next
  case (Cons b bs)
  then obtain rs qss where rss: "rss = rs # qss" "batch_holds b rs" "batches_carry bs qss"
    by (auto simp: batches_carry_def list_all2_Cons1)
  then show ?case
    using Cons.IH [OF rss(3)] bytes_crate.batch_into_records_holds [OF assms(1) rss(2)]
    by (simp add: batch_into_consumer_records_def)
qed

context bytes_crate
begin

lemma encode_batches:
  "emit (map (encode_response_batch B) bs) buf = buf @ batches_layout bs"
  by (induction bs arbitrary: buf) (simp_all add: encode_response_batch_def puts batch_layout_def)

lemma encode_fetch_partitions_length:
  "length (emit (map (encode_fetch_partition B) ps) buf) = length buf + 24 * length ps"
  by (induction ps arbitrary: buf) (simp_all add: encode_fetch_partition_def puts)

lemma encode_partition_responses_length:
  "length (emit (map (encode_partition_response B) qs) buf) =
     length buf + (\<Sum>q\<leftarrow>qs. 26 + length (batches_layout (pr_records q)))"
  by (induction qs arbitrary: buf) (simp_all add: encode_partition_response_def puts encode_batches)

end

text \<open>A consumer has no more partitions than there are numbers for them.\<close>

lemma distinct_u16_length:
  fixes ks :: "u16 list"
  assumes "distinct ks"
  shows "length ks \<le> 2 ^ 16"
proof -
  have "length ks = card (set ks)"
    using distinct_card [OF assms] by simp
  also have "\<dots> \<le> card (UNIV :: u16 set)"
    by (rule card_mono) simp_all
  finally show ?thesis
    by (simp add: card_word)
qed

lemma fetch_request_sendable:
  assumes "bytes_crate B" and "string_fits 16 topic" and "length ps \<le> 2 ^ 16"
  shows "sendable B crc (frame_new correlation_id ApiFetch (Fetch (fetch_request_for topic ps)))"
proof -
  have "length topic < 2 ^ 16"
    using assms(2) by (simp add: string_fits_def)
  then have "length (frame_encode B (frame_new correlation_id ApiFetch (Fetch (fetch_request_for topic ps)))) - 4 < 2 ^ 32"
    using assms(3)
    by (simp add: frame_encode_def frame_new_def Let_def encode_request_header_def encode_client_id_def
        encode_fetch_def encode_fetch_topic_def fetch_request_for_def put_string_def
        bytes_crate.puts [OF assms(1)] bytes_crate.encode_fetch_partitions_length [OF assms(1)]
        del: map_map)
  then show ?thesis
    using assms(2,3)
    by (simp add: sendable_def frame_new_def Let_def frame_fits_def header_fits_wire_def
        fetch_request_for_def fetch_topic_fits_def)
qed

text \<open>A response whose batches fit one frame.\<close>

lemma fetch_answer_answerable:
  assumes B: "bytes_crate B" and topic: "string_fits 16 topic"
    and h: "rq_client_id h = None" "rq_api_key h = ApiFetch" and qs: "length qs \<le> 2 ^ 16"
    and batches: "\<forall>q \<in> set qs. \<forall>b \<in> set (pr_records q). batch_sized b \<and> batch_checksum crc b"
    and small: "(\<Sum>q\<leftarrow>qs. length (batches_layout (pr_records q))) < 2 ^ 31"
  shows "answerable B crc \<lparr>fm_size = sz, fm_header = h,
    fm_body = FetchResponse \<lparr>nr_throttle_time_ms = elapsed, nr_responses = [\<lparr>tr_topic = topic, tr_partitions = qs\<rparr>]\<rparr>\<rparr>"
proof -
  have len: "length topic < 2 ^ 16"
    using topic by (simp add: string_fits_def)
  have each: "length (batches_layout (pr_records q)) < 2 ^ 31" if "q \<in> set qs" for q
    using member_le_sum_list [of "length (batches_layout (pr_records q))" "map (\<lambda>q. length (batches_layout (pr_records q))) qs"]
      that small by simp
  have inside: "length (batch_layout b) \<le> length (batches_layout bs)" if "b \<in> set bs" for b bs
    using that by (induction bs) auto
  have count: "length bs \<le> length (batches_layout bs)" for bs
    by (induction bs) (simp_all add: length_batch_layout)
  have fits: "\<forall>q \<in> set qs. partition_response_fits crc q"
  proof
    fix q
    assume q: "q \<in> set qs"
    have "length (batch_layout b) < 2 ^ 32" if "b \<in> set (pr_records q)" for b
      using inside [OF that] each [OF q] by simp
    then show "partition_response_fits crc q"
      using batches q count [of "pr_records q"] each [OF q]
      by (simp add: partition_response_fits_def batch_fits_def)
  qed
  have "(\<Sum>q\<leftarrow>qs. 26 + length (batches_layout (pr_records q))) = 26 * length qs + (\<Sum>q\<leftarrow>qs. length (batches_layout (pr_records q)))"
    by (simp add: sum_list_addf sum_list_triv)
  then have "length (frame_encode B \<lparr>fm_size = sz, fm_header = h,
    fm_body = FetchResponse \<lparr>nr_throttle_time_ms = elapsed, nr_responses = [\<lparr>tr_topic = topic, tr_partitions = qs\<rparr>]\<rparr>\<rparr>) - 4
      < 2 ^ 32"
    using len small qs h(1)
    by (simp add: frame_encode_def Let_def encode_request_header_def
        encode_client_id_def encode_fetch_response_def encode_topic_response_def put_string_def
        bytes_crate.puts [OF B] bytes_crate.encode_partition_responses_length [OF B])
  then show ?thesis
    using topic h fits qs
    by (simp add: answerable_def frame_fits_def header_fits_wire_def topic_response_fits_def)
qed

section \<open>One partition\<close>

abbreviation sent_as :: "u8 list \<Rightarrow> u16 \<Rightarrow> msg_record \<Rightarrow> consumer_record" where
  "sent_as topic part r \<equiv> \<lparr>cs_topic = topic, cs_partition = part, cs_inner = r\<rparr>"

text \<open>The records received of a partition.\<close>

definition received :: "u16 \<Rightarrow> consumer_record list \<Rightarrow> msg_record list" where
  "received part out = map cs_inner (filter (\<lambda>r. cs_partition r = part) out)"

lemma received_simps [simp]:
  "received part [] = []" "received part (out @ out') = received part out @ received part out'"
  "received part (map (sent_as topic part') rs) = (if part' = part then rs else [])"
  by (simp_all add: received_def filter_map comp_def)

text \<open>How a poll moves the state of a partition whose log holds the records \<open>rs\<close>.\<close>

definition moved :: "msg_record list \<Rightarrow> consumer_partition_state \<Rightarrow> msg_record list \<Rightarrow> consumer_partition_state \<Rightarrow> bool" where
  "moved rs state got state' \<longleftrightarrow>
     (\<exists>k. got = take k (drop (unat (cp_commit_offset state)) rs)
        \<and> unat (cp_commit_offset state') = unat (cp_commit_offset state) + k
        \<and> k \<le> length rs - unat (cp_commit_offset state)
        \<and> (unat (cp_commit_offset state) < length rs \<longrightarrow> 0 < k))"

definition poll_partition :: "u16 \<Rightarrow> u64 \<Rightarrow> fetch_partition" where
  "poll_partition part fetch_offset =
     \<lparr>fp_partition = ucast part, fp_fetch_offset = fetch_offset, fp_partition_max_bytes = 4096, fp_high_watermark = 0\<rparr>"

lemma ucast_part [simp]: "ucast (ucast (part :: u16) :: u32) = part"
  by (rule bit_word_eqI) (simp add: bit_unsigned_iff)

lemma consume_partition_moves:
  assumes B: "bytes_crate B" and state: "map_of m part = Some state" and L: "L (topic, part) = Some rss"
    and room: "length (concat rss) < 2 ^ 64"
    and q: "fetched crc L topic (poll_partition part (cp_commit_offset state)) q"
  shows "\<exists>state' rs. consume_partition B topic q (m, sent) =
      Ok (AList.update part state' m, sent @ map (sent_as topic part) rs)
    \<and> moved (concat rss) state rs state'"
proof -
  let ?n = "unat (cp_commit_offset state)"
  obtain sss k where carry: "batches_carry (pr_records q) sss" and sss: "concat sss = take k (drop ?n (concat rss))"
    and k: "k \<le> length (concat rss) - ?n" "?n < length (concat rss) \<longrightarrow> 0 < k"
    and index: "ucast (pr_partition_index q) = part"
    using q L by (auto simp: fetched_def poll_partition_def)
  have length: "length (concat sss) = k"
    using sss k(1) by simp
  let ?state = "if cp_high_watermark state < pr_high_watermark q
    then state\<lparr>cp_high_watermark := pr_high_watermark q\<rparr> else state"
  let ?state' = "?state\<lparr>cp_commit_offset := cp_commit_offset ?state + of_nat k\<rparr>"
  have "?n + k < 2 ^ 64"
    using k(1) room unat_bound [of "cp_commit_offset state"] by (cases "?n \<le> length (concat rss)") auto
  then have "unat (cp_commit_offset state + of_nat k) = ?n + k"
    by (simp add: unat_word_ariths unat_of_nat take_bit_eq_mod)
  then have "unat (cp_commit_offset ?state') = ?n + k"
    by (simp del: unat_of_nat)
  then have "moved (concat rss) state (concat sss) ?state'"
    using sss k by (auto simp: moved_def)
  moreover have "consume_partition B topic q (m, sent) =
      Ok (AList.update part ?state' m, sent @ map (sent_as topic part) (concat sss))"
    using consume_batches_carry [OF B carry, of topic part] index state length
    by (simp add: consume_partition_def Let_def)
  ultimately show ?thesis
    by blast
qed

section \<open>A poll\<close>

text \<open>Every partition of the consumer moves, and the records received are those of its moves.\<close>

definition poll_moves ::
    "logs \<Rightarrow> u8 list \<Rightarrow> consumer_partitions \<Rightarrow> consumer_partitions \<Rightarrow> consumer_partitions \<Rightarrow> consumer_record list \<Rightarrow> bool" where
  "poll_moves L topic ps m m' out \<longleftrightarrow>
     map fst m' = map fst m \<and> (\<forall>r \<in> set out. cs_topic r = topic \<and> cs_partition r \<in> fst ` set ps)
     \<and> (\<forall>part. part \<notin> fst ` set ps \<longrightarrow> map_of m' part = map_of m part)
     \<and> (\<forall>(part, state) \<in> set ps. \<exists>rss state'. L (topic, part) = Some rss \<and> map_of m' part = Some state'
          \<and> moved (concat rss) state (received part out) state')"

lemma received_none: "\<forall>r \<in> set out. cs_partition r \<noteq> part \<Longrightarrow> received part out = []"
  by (simp add: received_def filter_empty_conv)

lemma consume_partitions_move:
  assumes "bytes_crate B" and "logs_room L"
    and "distinct (map fst ps)" and "\<forall>(part, state) \<in> set ps. map_of m part = Some state \<and> L (topic, part) \<noteq> None"
    and "list_all2 (fetched crc L topic) (map (\<lambda>(part, state). poll_partition part (cp_commit_offset state)) ps) qs"
  shows "\<exists>m' out. consume_partitions B topic qs (m, sent) = Ok (m', sent @ out) \<and> poll_moves L topic ps m m' out"
  using assms(3-5)
proof (induction ps arbitrary: m sent qs)
  case Nil
  then show ?case
    by (auto simp: poll_moves_def)
next
  case (Cons p ps)
  obtain part state where p: "p = (part, state)"
    by fastforce
  from Cons.prems(3) obtain q qs' where qs: "qs = q # qs'" "fetched crc L topic (poll_partition part (cp_commit_offset state)) q"
    "list_all2 (fetched crc L topic) (map (\<lambda>(part, state). poll_partition part (cp_commit_offset state)) ps) qs'"
    by (auto simp: p list_all2_Cons1)
  have m: "map_of m part = Some state" and new: "part \<notin> fst ` set ps"
    using Cons.prems(1,2) by (auto simp: p)
  obtain rss where rss: "L (topic, part) = Some rss"
    using Cons.prems(2) by (auto simp: p)
  then have "length (concat rss) < 2 ^ 64"
    using assms(2) unfolding logs_room_def by blast
  then obtain state' rs where step: "consume_partition B topic q (m, sent) =
      Ok (AList.update part state' m, sent @ map (sent_as topic part) rs)" "moved (concat rss) state rs state'"
    using consume_partition_moves [OF assms(1) m rss _ qs(2)] by blast
  let ?m = "AList.update part state' m"
  have states: "\<forall>(part, state) \<in> set ps. map_of ?m part = Some state \<and> L (topic, part) \<noteq> None"
    using Cons.prems(2) new by (force simp: update_conv')
  obtain m' out where rest: "consume_partitions B topic qs' (?m, sent @ map (sent_as topic part) rs) =
      Ok (m', (sent @ map (sent_as topic part) rs) @ out)" and moves: "poll_moves L topic ps ?m m' out"
    using Cons.IH [OF _ states qs(3), of "sent @ map (sent_as topic part) rs"] Cons.prems(1) by auto
  have keys: "map fst ?m = map fst m"
    using m by (auto simp: update_keys dest: map_of_SomeD intro: rev_image_eqI)
  have none: "received part out = []"
    by (rule received_none) (use moves new in \<open>auto simp: poll_moves_def\<close>)
  have "map_of m' part = Some state'"
    using moves new by (auto simp: poll_moves_def update_conv')
  moreover have "received part' (map (sent_as topic part) rs) = []" if "part' \<in> fst ` set ps" for part'
    using that new by auto
  ultimately have "poll_moves L topic (p # ps) m m' (map (sent_as topic part) rs @ out)"
    using moves keys none step(2) rss unfolding poll_moves_def p by (force simp: update_conv')
  with step(1) rest show ?case
    by (auto simp: qs(1))
qed

text \<open>A broker that can answer the consumer: its partitions hold the logs, or what it lists fits a frame.\<close>

fun serves :: "u8 list \<Rightarrow> u16 list \<Rightarrow> consumer_event \<Rightarrow> logs \<Rightarrow> bool" where
  "serves topic keys (OffsetSync e correlation_id br) L \<longleftrightarrow>
     bytes_crate (en_bytes e) \<and> image_holds (en_crc e) (bk_image br) L \<and> logs_room L
     \<and> string_fits 16 topic \<and> (\<forall>part \<in> set keys. L (topic, part) \<noteq> None)
     \<and> (\<Sum>part\<leftarrow>keys. log_size (the (L (topic, part)))) < 2 ^ 31"
| "serves topic keys (MetadataRefresh e correlation_id br) L \<longleftrightarrow>
     bytes_crate (en_bytes e) \<and> env_iterates e \<and> catalogue_small (catalogue br)"

lemma all_fetched_eq:
  "all_fetched crc L t r \<longleftrightarrow> (\<exists>qs. r = \<lparr>tr_topic = ft_topic t, tr_partitions = qs\<rparr>
    \<and> list_all2 (fetched crc L (ft_topic t)) (ft_partitions t) qs)"
  by (cases r) (auto simp: all_fetched_def)

lemma fetch_request_for_eq:
  "fetch_request_for topic (map (\<lambda>(key, state). (key, cp_commit_offset state)) ps) =
     \<lparr>nf_replica_id = - 1, nf_max_bytes = 4096,
      nf_topics = [\<lparr>ft_topic = topic,
        ft_partitions = map (\<lambda>(part, state). poll_partition part (cp_commit_offset state)) ps\<rparr>]\<rparr>"
  by (simp add: fetch_request_for_def poll_partition_def comp_def case_prod_unfold)

text \<open>What the batches of a response take is bounded by the logs they come from.\<close>

lemma fetched_size:
  assumes "list_all2 (fetched crc L topic) (map (\<lambda>(part, state). poll_partition part (cp_commit_offset state)) ps) qs"
    and "\<forall>part \<in> fst ` set ps. L (topic, part) \<noteq> None"
  shows "(\<Sum>q\<leftarrow>qs. length (batches_layout (pr_records q))) \<le> (\<Sum>part\<leftarrow>map fst ps. log_size (the (L (topic, part))))
    \<and> (\<forall>q \<in> set qs. \<forall>b \<in> set (pr_records q). batch_sized b \<and> batch_checksum crc b)"
  using assms
proof (induction ps arbitrary: qs)
  case (Cons p ps)
  obtain part state where p: "p = (part, state)"
    by fastforce
  from Cons.prems(1) obtain q qs' where qs: "qs = q # qs'" "fetched crc L topic (poll_partition part (cp_commit_offset state)) q"
    "list_all2 (fetched crc L topic) (map (\<lambda>(part, state). poll_partition part (cp_commit_offset state)) ps) qs'"
    by (auto simp: p list_all2_Cons1)
  obtain rss where "L (topic, part) = Some rss"
    using Cons.prems(2) by (auto simp: p)
  with qs(2) obtain sss where q: "batches_carry (pr_records q) sss" "log_size sss \<le> log_size rss"
    "\<forall>b \<in> set (pr_records q). batch_checksum crc b" and rss: "L (topic, part) = Some rss"
    by (auto simp: fetched_def poll_partition_def)
  have "\<forall>b \<in> set (pr_records q). batch_sized b"
    using q(1) by (auto simp: batches_carry_def batch_holds_def in_set_conv_nth list_all2_conv_all_nth)
  moreover have "length (batches_layout (pr_records q)) \<le> log_size (the (L (topic, part)))"
    using batches_carry_length [OF q(1)] q(2) rss by simp
  ultimately show ?case
    using Cons.IH [OF qs(3)] Cons.prems(2) q(3) by (auto simp: p qs(1))
qed simp

lemma poll_moves_partitions:
  assumes T: "stream_law T" and order: "\<And>m. mset (order m) = mset m"
    and serves: "serves topic (map fst m) (OffsetSync e c br) L" and m: "distinct (map fst m)"
  shows "\<exists>br' m' out. consumer_poll T (en_bytes e) (en_crc e) (broker_peer T e) order c topic m (br, []) =
      ((br', []), Ok (m', out))
    \<and> image_holds (en_crc e) (bk_image br') L \<and> catalogue br' = catalogue br \<and> poll_moves L topic m m m' out"
proof -
  let ?B = "en_bytes e" and ?c = "en_crc e" and ?ps = "order m"
  let ?polled = "map (\<lambda>(part, state). poll_partition part (cp_commit_offset state)) ?ps"
  have B: "bytes_crate ?B" and im: "image_holds ?c (bk_image br) L" and room: "logs_room L"
    and topic: "string_fits 16 topic" and there: "\<forall>part \<in> set (map fst m). L (topic, part) \<noteq> None"
    and small: "(\<Sum>part\<leftarrow>map fst m. log_size (the (L (topic, part)))) < 2 ^ 31"
    using serves by simp_all
  have same: "set ?ps = set m" "distinct (map fst ?ps)"
    using mset_eq_setD [OF order] distinct_perm [OF order, of fst] m by simp_all
  have few: "length ?ps \<le> 2 ^ 16"
    using distinct_u16_length [OF same(2)] by simp
  define f where "f = frame_new c ApiFetch (Fetch (fetch_request_for topic (map (\<lambda>(key, state). (key, cp_commit_offset state)) ?ps)))"
  have f: "fm_body f = Fetch \<lparr>nf_replica_id = - 1, nf_max_bytes = 4096,
      nf_topics = [\<lparr>ft_topic = topic, ft_partitions = ?polled\<rparr>]\<rparr>"
    "rq_client_id (fm_header f) = None" "rq_api_key (fm_header f) = ApiFetch"
    by (simp_all add: f_def fetch_request_for_eq frame_new_def Let_def)
  obtain im1 qs where fetch: "broker_handle_fetch e (fm_header f) \<lparr>nf_replica_id = - 1, nf_max_bytes = 4096,
        nf_topics = [\<lparr>ft_topic = topic, ft_partitions = ?polled\<rparr>]\<rparr> (bk_image br) =
      Some (Ok (im1, (let resp = \<lparr>nr_throttle_time_ms = en_elapsed e, nr_responses = [\<lparr>tr_topic = topic, tr_partitions = qs\<rparr>]\<rparr>
        in \<lparr>fm_size = fetch_response_get_size resp + request_header_get_size (fm_header f), fm_header = fm_header f,
            fm_body = FetchResponse resp\<rparr>)))"
    and im1: "image_holds ?c im1 L" and qs: "list_all2 (fetched ?c L topic) ?polled qs"
  proof -
    obtain im1 ts where "broker_handle_fetch e (fm_header f) \<lparr>nf_replica_id = - 1, nf_max_bytes = 4096,
        nf_topics = [\<lparr>ft_topic = topic, ft_partitions = ?polled\<rparr>]\<rparr> (bk_image br) =
      Some (Ok (im1, (let resp = \<lparr>nr_throttle_time_ms = en_elapsed e, nr_responses = ts\<rparr>
        in \<lparr>fm_size = fetch_response_get_size resp + request_header_get_size (fm_header f), fm_header = fm_header f,
            fm_body = FetchResponse resp\<rparr>)))" "image_holds ?c im1 L"
      "list_all2 (all_fetched ?c L) [\<lparr>ft_topic = topic, ft_partitions = ?polled\<rparr>] ts"
      using broker_handle_fetch_logs [OF B im, of "fm_header f" "\<lparr>nf_replica_id = - 1, nf_max_bytes = 4096,
        nf_topics = [\<lparr>ft_topic = topic, ft_partitions = ?polled\<rparr>]\<rparr>"] by auto
    moreover from this(3) obtain qs where "ts = [\<lparr>tr_topic = topic, tr_partitions = qs\<rparr>]"
      "list_all2 (fetched ?c L topic) ?polled qs"
      by (auto simp: list_all2_Cons1 all_fetched_eq)
    ultimately show thesis
      by (intro that [of im1 qs]) simp_all
  qed
  define resp where "resp = \<lparr>nr_throttle_time_ms = en_elapsed e, nr_responses = [\<lparr>tr_topic = topic, tr_partitions = qs\<rparr>]\<rparr>"
  define g where "g = \<lparr>fm_size = fetch_response_get_size resp + request_header_get_size (fm_header f),
    fm_header = fm_header f, fm_body = FetchResponse resp\<rparr>"
  let ?br = "broker_set_image br im1"
  have handled: "broker_handle e f br = Some (Ok (?br, g))"
    using fetch by (simp add: broker_handle_def f(1) g_def resp_def Let_def)
  have "(\<Sum>part\<leftarrow>map fst ?ps. log_size (the (L (topic, part)))) = (\<Sum>part\<leftarrow>map fst m. log_size (the (L (topic, part))))"
    by (simp only: sum_mset_sum_list [symmetric] mset_map order)
  then have sizes: "(\<Sum>q\<leftarrow>qs. length (batches_layout (pr_records q))) < 2 ^ 31"
    "\<forall>q \<in> set qs. \<forall>b \<in> set (pr_records q). batch_sized b \<and> batch_checksum ?c b"
    using fetched_size [OF qs] there same(1) small by auto
  have "length qs \<le> 2 ^ 16"
    using list_all2_lengthD [OF qs] few by simp
  then have "answerable ?B ?c g"
    unfolding g_def resp_def using fetch_answer_answerable [OF B topic f(2,3) _ sizes(2,1)] by blast
  moreover have "sendable ?B ?c f"
    unfolding f_def by (rule fetch_request_sendable [OF B topic]) (use few in simp)
  ultimately have "exchange T ?B ?c (broker_peer T e) f (br, []) = ((?br, []), Ok (g\<lparr>fm_size := frame_get_size g\<rparr>))"
    using exchange_with_broker [OF T B _ handled] by blast
  then have request: "request_fetch T ?B ?c (broker_peer T e) c topic (map (\<lambda>(key, state). (key, cp_commit_offset state)) ?ps) (br, []) =
      ((?br, []), Ok resp)"
    by (simp add: request_fetch_def f_def [symmetric] g_def)
  have states: "\<forall>(part, state) \<in> set ?ps. map_of m part = Some state \<and> L (topic, part) \<noteq> None"
    using same(1) there m by (auto simp: map_of_is_SomeI)
  obtain m' out where "consume_partitions ?B topic qs (m, []) = Ok (m', [] @ out)" and moves: "poll_moves L topic ?ps m m' out"
    using consume_partitions_move [OF B room same(2) states qs] by blast
  then have "consumer_poll T ?B ?c (broker_peer T e) order c topic m (br, []) = ((?br, []), Ok (m', out))"
    using request by (simp add: consumer_poll_def resp_def)
  moreover have "poll_moves L topic m m m' out"
    using moves same(1) by (simp add: poll_moves_def)
  ultimately show ?thesis
    using im1 fetch_keeps_catalogue [OF handled f(1)] by auto
qed

text \<open>A refresh reads the answer it asked for and leaves the stream in step.\<close>

abbreviation metadata_request_frame :: "u32 \<Rightarrow> frame" where
  "metadata_request_frame c \<equiv> frame_new c ApiMetadata (Metadata \<lparr>mq_topics = [], mq_allow_auto_topic_creation = True\<rparr>)"

lemma metadata_request_sendable:
  assumes "bytes_crate B"
  shows "sendable B crc (metadata_request_frame c)"
proof -
  have "length (frame_encode B (metadata_request_frame c)) - 4 < 2 ^ 32"
    by (simp add: frame_encode_def frame_new_def Let_def encode_request_header_def encode_client_id_def
        encode_metadata_def put_string_i16_def put_bool_def bytes_crate.puts [OF assms])
  then show ?thesis
    by (simp add: sendable_def frame_new_def Let_def frame_fits_def header_fits_wire_def)
qed

context bytes_crate
begin

lemma encode_brokers_length:
  "length (emit (map (encode_broker_metadata B) bs) buf) = length buf + (\<Sum>b\<leftarrow>bs. 10 + length (bm_host b))"
  by (induction bs arbitrary: buf) (simp_all add: encode_broker_metadata_def put_string_def puts)

lemma encode_partition_metadata_length:
  "length (emit (map (encode_partition_metadata B) ps) buf) = length buf + 22 * length ps"
  by (induction ps arbitrary: buf) (simp_all add: encode_partition_metadata_def puts)

lemma encode_topics_length:
  "length (emit (map (encode_topic_metadata B) ts) buf) = length buf + topics_size ts"
  by (induction ts arbitrary: buf)
    (simp_all add: encode_topic_metadata_def put_string_def puts encode_partition_metadata_length topics_size_def)

end

lemma metadata_answerable:
  assumes B: "bytes_crate B" and e: "env_iterates e" and h: "rq_client_id h = None" "rq_api_key h = ApiMetadata"
    and small: "catalogue_small (map fst im, brokers)"
  shows "answerable B crc (broker_handle_metadata e h brokers im)"
proof -
  have host: "bm_host (broker_metadata_from b) = bc_host b" for b
    by (simp add: broker_metadata_from_def)
  have hosts: "(\<Sum>b\<leftarrow>map broker_metadata_from brokers. 10 + length (bm_host b)) = (\<Sum>b\<leftarrow>brokers. 10 + length (bc_host b))"
    by (simp add: comp_def host)
  let ?ts = "metadata_topics e im"
  have bound: "topics_size ?ts + (\<Sum>b\<leftarrow>brokers. 10 + length (bc_host b)) < 2 ^ 31"
    and ts: "\<forall>t \<in> set ?ts. tm_partitions t \<noteq> [] \<and> tm_name t \<in> fst ` set (map fst im)"
    using metadata_topics_size [OF e, of im] small by (auto simp: catalogue_small_def)
  have names: "string_fits 16 (tm_name t)" if "t \<in> set ?ts" for t
  proof -
    have "tm_name t \<in> fst ` set (map fst im)"
      using ts that by blast
    then show ?thesis
      using small by (auto simp: catalogue_small_def)
  qed
  have each: "22 * length (tm_partitions t) \<le> topics_size ?ts" if "t \<in> set ?ts" for t
    using member_le_sum_list [of "8 + length (tm_name t) + 22 * length (tm_partitions t)"
        "map (\<lambda>t. 8 + length (tm_name t) + 22 * length (tm_partitions t)) ?ts"] that
    by (simp add: topics_size_def)
  have "length ?ts \<le> topics_size ?ts"
    using sum_list_mono [of ?ts "\<lambda>t. 1" "\<lambda>t. 8 + length (tm_name t) + 22 * length (tm_partitions t)"]
    by (simp add: topics_size_def sum_list_triv)
  moreover have "length brokers \<le> (\<Sum>b\<leftarrow>brokers. 10 + length (bc_host b))"
    using sum_list_mono [of brokers "\<lambda>b. 1" "\<lambda>b. 10 + length (bc_host b)"] by (simp add: sum_list_triv)
  ultimately have counts: "length ?ts < 2 ^ 32" "length brokers < 2 ^ 32"
    using bound by simp_all
  moreover have "topic_metadata_fits t" if "t \<in> set ?ts" for t
    using names [OF that] each [OF that] bound by (simp add: topic_metadata_fits_def)
  ultimately have "frame_fits crc (broker_handle_metadata e h brokers im)"
    using small h(1)
    by (auto simp: frame_fits_def header_fits_wire_def broker_handle_metadata_def Let_def catalogue_small_def host)
  moreover have "length (frame_encode B (broker_handle_metadata e h brokers im)) - 4 < 2 ^ 32"
    using bound h(1) hosts
    by (simp add: frame_encode_def broker_handle_metadata_def Let_def encode_request_header_def encode_client_id_def
        encode_metadata_response_def bytes_crate.puts [OF B] bytes_crate.encode_brokers_length [OF B]
        bytes_crate.encode_topics_length [OF B] del: map_map)
  ultimately show ?thesis
    using h(2) by (simp add: answerable_def broker_handle_metadata_def Let_def)
qed

lemma request_metadata_answered:
  assumes T: "stream_law T" and B: "bytes_crate (en_bytes e)" and e: "env_iterates e" and small: "catalogue_small (catalogue br)"
  shows "\<exists>res. request_metadata T (en_bytes e) (en_crc e) (broker_peer T e) c (br, []) = ((br, []), Ok res)
    \<and> mr_topics res = metadata_topics e (bk_image br)"
proof -
  let ?f = "metadata_request_frame c"
  let ?g = "broker_handle_metadata e (fm_header ?f) (bk_brokers br) (bk_image br)"
  have "answerable (en_bytes e) (en_crc e) ?g"
    by (rule metadata_answerable [OF B e]) (use small in \<open>simp_all add: catalogue_def frame_new_def Let_def\<close>)
  moreover have "broker_handle e ?f br = Some (Ok (br, ?g))"
    by (simp add: broker_handle_def frame_new_def Let_def)
  ultimately have "exchange T (en_bytes e) (en_crc e) (broker_peer T e) ?f (br, []) = ((br, []), Ok (?g\<lparr>fm_size := frame_get_size ?g\<rparr>))"
    using exchange_with_broker [OF T B metadata_request_sendable [OF B]] by blast
  then show ?thesis
    by (simp add: request_metadata_def broker_handle_metadata_def map_error_def Let_def)
qed

lemma single_request_metadata_answered:
  assumes "stream_law T" and "serves topic keys (MetadataRefresh e c br) L"
  shows "single_request_metadata T (en_bytes e) (en_crc e) (broker_peer T e) c topic (br, []) = ((br, []), Ok ())"
proof -
  obtain res where "request_metadata T (en_bytes e) (en_crc e) (broker_peer T e) c (br, []) = ((br, []), Ok res)"
    using request_metadata_answered [OF assms(1), of e br c] assms(2) by auto
  then show ?thesis
    by (simp add: single_request_metadata_def do_request_metadata_def map_error_def split: option.split)
qed

section \<open>A run\<close>

definition log_records :: "logs \<Rightarrow> u8 list \<Rightarrow> u16 \<Rightarrow> msg_record list" where
  "log_records L topic part = (case L (topic, part) of None \<Rightarrow> [] | Some rss \<Rightarrow> concat rss)"

lemma logs_extend_records: "logs_extend L L' \<Longrightarrow> prefix (log_records L topic part) (log_records L' topic part)"
proof (cases "L (topic, part)")
  case (Some rss)
  moreover assume "logs_extend L L'"
  ultimately obtain sss where "L' (topic, part) = Some (rss @ sss)"
    unfolding logs_extend_def by blast
  then show ?thesis
    by (simp add: log_records_def Some)
qed (simp add: log_records_def)

text \<open>What was received of a partition, read from an offset on: all of it in order, nothing twice,
  and at least one record in each poll that was not at the end.\<close>

definition reads_on :: "msg_record list \<Rightarrow> msg_record list \<Rightarrow> nat \<Rightarrow> nat \<Rightarrow> msg_record list \<Rightarrow> bool" where
  "reads_on first all start polls rs \<longleftrightarrow>
     (\<exists>n. rs = take n (drop start all) \<and> n \<le> length all - start \<and> min polls (length first - start) \<le> n)"

lemma reads_on_step:
  assumes "prefix now all" and "rs = take k (drop start now)" "k \<le> length now - start"
    and "start < length now \<longrightarrow> 0 < k" and "reads_on first all (start + k) polls rest"
    and "polls' = polls \<or> polls' = Suc polls \<and> prefix first now"
  shows "reads_on first all start polls' (rs @ rest)"
proof -
  obtain n where n: "rest = take n (drop (start + k) all)" "n \<le> length all - (start + k)"
    "min polls (length first - (start + k)) \<le> n"
    using assms(5) by (auto simp: reads_on_def)
  have len: "length now \<le> length all"
    using assms(1) by (simp add: prefix_length_le)
  have "take k (drop start now) = take k (drop start all)"
    using assms(1,3) by (auto simp: prefix_def)
  then have "rs @ rest = take (k + n) (drop start all)"
    by (simp add: assms(2) n(1) take_add add.commute)
  moreover have "k + n \<le> length all - start"
    using n(2) assms(3) len by linarith
  moreover have "min polls' (length first - start) \<le> k + n"
    using assms(6)
  proof
    assume "polls' = polls"
    then show ?thesis
      using n(3) by linarith
  next
    assume "polls' = Suc polls \<and> prefix first now"
    moreover from this have "length first \<le> length now"
      by (simp add: prefix_length_le)
    ultimately show ?thesis
      using n(3) assms(4) by (cases "start < length now") auto
  qed
  ultimately show ?thesis
    unfolding reads_on_def by blast
qed

fun is_poll :: "consumer_event \<Rightarrow> bool" where
  "is_poll (OffsetSync e c br) = True"
| "is_poll (MetadataRefresh e c br) = False"

definition run_reads ::
    "logs \<Rightarrow> logs \<Rightarrow> u8 list \<Rightarrow> consumer_partitions \<Rightarrow> nat \<Rightarrow> consumer_record list \<Rightarrow> bool" where
  "run_reads L0 L1 topic m polls out \<longleftrightarrow>
     (\<forall>r \<in> set out. cs_topic r = topic \<and> cs_partition r \<in> fst ` set m)
     \<and> (\<forall>(part, state) \<in> set m. reads_on (log_records L0 topic part) (log_records L1 topic part)
          (unat (cp_commit_offset state)) polls (received part out))"

lemma run_reads_poll:
  assumes "logs_extend L L1" and poll: "poll_moves L topic m m m' out"
    and rest: "run_reads L0 L1 topic m' polls out'" and "polls' = polls \<or> polls' = Suc polls \<and> logs_extend L0 L"
  shows "run_reads L0 L1 topic m polls' (out @ out')"
  unfolding run_reads_def
proof (intro conjI ballI)
  fix r
  assume "r \<in> set (out @ out')"
  moreover have "set (map fst m') = set (map fst m)"
    using poll by (simp only: poll_moves_def)
  ultimately show "cs_topic r = topic" and "cs_partition r \<in> fst ` set m"
    using poll rest by (auto simp: poll_moves_def run_reads_def)
next
  fix p
  assume "p \<in> set m"
  moreover obtain part state where "p = (part, state)"
    by fastforce
  ultimately have p: "p = (part, state)" "(part, state) \<in> set m"
    by simp_all
  obtain rss state' where rss: "L (topic, part) = Some rss" and state': "map_of m' part = Some state'"
    and moved: "moved (concat rss) state (received part out) state'"
    using poll p(2) unfolding poll_moves_def by blast
  have "reads_on (log_records L0 topic part) (log_records L1 topic part) (unat (cp_commit_offset state')) polls (received part out')"
    using rest map_of_SomeD [OF state'] unfolding run_reads_def by blast
  then have "reads_on (log_records L0 topic part) (log_records L1 topic part) (unat (cp_commit_offset state)) polls'
      (received part out @ received part out')"
    using moved rss logs_extend_records [OF assms(1), of topic part] assms(4) logs_extend_records [of L0 L topic part]
    by (auto simp: moved_def log_records_def intro: reads_on_step [where now = "concat rss"])
  then show "case p of (part, state) \<Rightarrow> reads_on (log_records L0 topic part) (log_records L1 topic part)
      (unat (cp_commit_offset state)) polls' (received part (out @ out'))"
    by (simp add: p(1))
qed

lemma run_reads_nothing:
  assumes "logs_extend L0 L1"
  shows "run_reads L0 L1 topic m 0 []"
  by (auto simp: run_reads_def reads_on_def)

lemma run_moves:
  assumes T: "stream_law T" and order: "\<And>m. mset (order m) = mset m"
    and "list_all2 (serves topic (map fst m)) events Ls" and "sorted_wrt logs_extend (L0 # Ls @ [L1])"
    and "distinct (map fst m)"
  shows "\<exists>m' out. consumer_run T order topic events m [] = Ok (m', out)
    \<and> run_reads L0 L1 topic m (length (filter is_poll events)) out"
  using assms(3-5)
proof (induction events arbitrary: m Ls)
  case Nil
  then show ?case
    by (simp add: run_reads_nothing)
next
  case (Cons ev events)
  from Cons.prems(1) obtain L Ls' where Ls: "Ls = L # Ls'" "serves topic (map fst m) ev L"
    "list_all2 (serves topic (map fst m)) events Ls'"
    by (auto simp: list_all2_Cons1)
  have ext: "logs_extend L0 L" "logs_extend L L1" "sorted_wrt logs_extend (L0 # Ls' @ [L1])"
    using Cons.prems(2) by (auto simp: Ls(1))
  show ?case
  proof (cases ev)
    case (OffsetSync e c br)
    obtain br' m1 out where poll: "consumer_poll T (en_bytes e) (en_crc e) (broker_peer T e) order c topic m (br, []) =
        ((br', []), Ok (m1, out))" and moves: "poll_moves L topic m m m1 out"
      using poll_moves_partitions [OF T order Ls(2) [unfolded OffsetSync] Cons.prems(3)] by blast
    have keys: "map fst m1 = map fst m"
      using moves by (simp add: poll_moves_def)
    obtain m' out' where "consumer_run T order topic events m1 [] = Ok (m', out')"
      and rest: "run_reads L0 L1 topic m1 (length (filter is_poll events)) out'"
      using Cons.IH [of m1 Ls', OF _ ext(3)] Ls(3) Cons.prems(3) unfolding keys by blast
    then have "consumer_run T order topic (ev # events) m [] = Ok (m', out @ out')"
      using poll by (simp add: OffsetSync)
    moreover have "run_reads L0 L1 topic m (length (filter is_poll (ev # events))) (out @ out')"
      using run_reads_poll [OF ext(2) moves rest] ext(1) by (simp add: OffsetSync)
    ultimately show ?thesis
      by blast
  next
    case (MetadataRefresh e c br)
    have "single_request_metadata T (en_bytes e) (en_crc e) (broker_peer T e) c topic (br, []) = ((br, []), Ok ())"
      by (rule single_request_metadata_answered [OF T Ls(2) [unfolded MetadataRefresh]])
    then show ?thesis
      using Cons.IH [OF Ls(3) ext(3) Cons.prems(3)] by (simp add: MetadataRefresh)
  qed
qed

text \<open>What a single poll brings: something of every partition that has a record not sent yet.\<close>

definition poll_progress ::
    "(consumer_event list \<Rightarrow> (unit, consumer_partitions \<times> consumer_record list) outcome) \<Rightarrow> consumer_event list \<Rightarrow> logs list \<Rightarrow>
      u8 list \<Rightarrow> u16 \<Rightarrow> nat \<Rightarrow> bool" where
  "poll_progress run events Ls topic part start \<longleftrightarrow>
     (\<forall>before ev after. events = before @ ev # after \<longrightarrow> is_poll ev \<longrightarrow>
        (\<exists>m1 out1 m2 out2. run before = Ok (m1, out1) \<and> run (before @ [ev]) = Ok (m2, out1 @ out2)
           \<and> (start + length (received part out1) < length (log_records (Ls ! length before) topic part) \<longrightarrow>
                received part out2 \<noteq> [])))"

lemma run_progress:
  assumes T: "stream_law T" and order: "\<And>m. mset (order m) = mset m"
    and "list_all2 (serves topic (map fst m)) events Ls" and "distinct (map fst m)" and "(part, state) \<in> set m"
  shows "poll_progress (\<lambda>evs. consumer_run T order topic evs m []) events Ls topic part (unat (cp_commit_offset state))"
  using assms(3-5)
proof (induction events arbitrary: m Ls state)
  case (Cons ev0 events)
  from Cons.prems(1) obtain L Ls' where Ls: "Ls = L # Ls'" "serves topic (map fst m) ev0 L"
    "list_all2 (serves topic (map fst m)) events Ls'"
    by (auto simp: list_all2_Cons1)
  show ?case
  proof (cases ev0)
    case (OffsetSync e c br)
    obtain br' m1 out where poll: "consumer_poll T (en_bytes e) (en_crc e) (broker_peer T e) order c topic m (br, []) =
        ((br', []), Ok (m1, out))" and moves: "poll_moves L topic m m m1 out"
      using poll_moves_partitions [OF T order Ls(2) [unfolded OffsetSync] Cons.prems(2)] by blast
    have keys: "map fst m1 = map fst m"
      using moves by (simp add: poll_moves_def)
    obtain rss state1 where rss: "L (topic, part) = Some rss" and state1: "map_of m1 part = Some state1"
      and moved: "moved (concat rss) state (received part out) state1"
      using moves Cons.prems(3) unfolding poll_moves_def by blast
    have offset: "unat (cp_commit_offset state1) = unat (cp_commit_offset state) + length (received part out)"
      and some: "unat (cp_commit_offset state) < length (concat rss) \<Longrightarrow> received part out \<noteq> []"
      using moved by (auto simp: moved_def)
    have run: "consumer_run T order topic (ev0 # evs) m [] =
        omap (\<lambda>(partitions2, rest). (partitions2, out @ rest)) (consumer_run T order topic evs m1 [])" for evs
      using poll by (simp add: OffsetSync)
    note later = Cons.IH [of m1 Ls' state1, unfolded keys, OF Ls(3) Cons.prems(2) map_of_SomeD [OF state1]]
    show ?thesis
      unfolding poll_progress_def
    proof (intro allI impI)
      fix before ev after
      assume split: "ev0 # events = before @ ev # after" and "is_poll ev"
      show "\<exists>m1 out1 m2 out2. consumer_run T order topic before m [] = Ok (m1, out1)
        \<and> consumer_run T order topic (before @ [ev]) m [] = Ok (m2, out1 @ out2)
        \<and> (unat (cp_commit_offset state) + length (received part out1) < length (log_records (Ls ! length before) topic part) \<longrightarrow>
             received part out2 \<noteq> [])"
      proof (cases before)
        case Nil
        then show ?thesis
          using split run [of "[]"] some by (simp add: Ls(1) log_records_def rss)
      next
        case (Cons x before')
        then have "events = before' @ ev # after" and x: "x = ev0"
          using split by simp_all
        then obtain m2 out1 m3 out2 where "consumer_run T order topic before' m1 [] = Ok (m2, out1)"
          "consumer_run T order topic (before' @ [ev]) m1 [] = Ok (m3, out1 @ out2)"
          "unat (cp_commit_offset state1) + length (received part out1) < length (log_records (Ls' ! length before') topic part) \<longrightarrow>
             received part out2 \<noteq> []"
          using later \<open>is_poll ev\<close> unfolding poll_progress_def by blast
        then show ?thesis
          using run [of before'] run [of "before' @ [ev]"] offset by (simp add: Cons x Ls(1) add.assoc)
      qed
    qed
  next
    case (MetadataRefresh e c br)
    have "single_request_metadata T (en_bytes e) (en_crc e) (broker_peer T e) c topic (br, []) = ((br, []), Ok ())"
      by (rule single_request_metadata_answered [OF T Ls(2) [unfolded MetadataRefresh]])
    then have run: "consumer_run T order topic (ev0 # evs) m [] = consumer_run T order topic evs m []" for evs
      by (simp add: MetadataRefresh)
    show ?thesis
      unfolding poll_progress_def
    proof (intro allI impI)
      fix before ev after
      assume split: "ev0 # events = before @ ev # after" and "is_poll ev"
      then obtain before' where "before = ev0 # before'" "events = before' @ ev # after"
        by (cases before) (auto simp: MetadataRefresh)
      then show "\<exists>m1 out1 m2 out2. consumer_run T order topic before m [] = Ok (m1, out1)
        \<and> consumer_run T order topic (before @ [ev]) m [] = Ok (m2, out1 @ out2)
        \<and> (unat (cp_commit_offset state) + length (received part out1) < length (log_records (Ls ! length before) topic part) \<longrightarrow>
             received part out2 \<noteq> [])"
        using Cons.IH [OF Ls(3) Cons.prems(2,3)] \<open>is_poll ev\<close> run unfolding poll_progress_def by (simp add: Ls(1))
    qed
  qed
qed (simp add: poll_progress_def)

text \<open>The partitions a consumer starts with.\<close>

definition start_offset :: "consumer_config \<Rightarrow> nat" where
  "start_offset cfg = (case cc_partition cfg of None \<Rightarrow> 0 | Some part \<Rightarrow> unat (cc_base_offset cfg))"

lemma fold_update_partitions:
  "\<lbrakk>distinct (map fst m); \<forall>(part, state) \<in> set m. cp_commit_offset state = 0\<rbrakk> \<Longrightarrow>
    m' = fold (\<lambda>p m. AList.update (ucast (pm_partition_index p)) consumer_partition_default m) ps m \<Longrightarrow>
    distinct (map fst m') \<and> (\<forall>(part, state) \<in> set m'. cp_commit_offset state = 0)"
proof (induction ps arbitrary: m)
  case (Cons p ps)
  let ?m = "AList.update (ucast (pm_partition_index p)) consumer_partition_default m"
  have dis: "distinct (map fst ?m)"
    using Cons.prems(1) by (simp add: distinct_update)
  have "cp_commit_offset state = 0" if "(part, state) \<in> set ?m" for part state
    using map_of_is_SomeI [OF dis that] Cons.prems(1,2)
    by (auto simp: update_conv' consumer_partition_default_def dest!: map_of_SomeD split: if_splits)
  then show ?case
    using Cons.IH [OF dis] Cons.prems(3) by auto
qed simp

lemma consumer_actor_new_partitions:
  assumes "snd (consumer_actor_new T B crc peer c cfg s) = Ok m"
  shows "distinct (map fst m) \<and> (\<forall>(part, state) \<in> set m. unat (cp_commit_offset state) = start_offset cfg)"
proof (cases "cc_partition cfg")
  case None
  let ?fold = "\<lambda>ps :: partition_metadata list. fold (\<lambda>p m. AList.update (ucast (pm_partition_index p)) consumer_partition_default m) ps []"
  obtain s1 r where "do_request_metadata T B crc peer c (cc_topic cfg) s = (s1, r)"
    by fastforce
  then have "omap ?fold r = Ok m"
    using assms None by (simp add: consumer_actor_new_def)
  then obtain ps where "m = ?fold ps"
    unfolding omap_eq_Ok by blast
  then have "distinct (map fst m) \<and> (\<forall>(part, state) \<in> set m. cp_commit_offset state = 0)"
    using fold_update_partitions [of "[]", OF _ _ \<open>m = ?fold ps\<close>] by simp
  then show ?thesis
    using None by (auto simp: start_offset_def)
next
  case (Some part)
  then show ?thesis
    using assms by (auto simp: consumer_actor_new_def start_offset_def consumer_partition_from_offset_def)
qed

section \<open>Properties\<close>

text \<open>C7: a consumer whose broker's logs only grow while it polls and refreshes its metadata
  receives, of every one of its partitions, the records from the offset it starts at on, in
  order and each once; and every poll, the first or a later one, of which the log of a partition
  then holds a record that was not received yet brings at least one of that partition.\<close>

theorem consumer_reads_each_record_once:
  assumes "stream_law T" and "\<And>m. mset (order m) = mset m"
    and "snd (consumer_actor_new T B crc peer c cfg s) = Ok partitions"
    and "list_all2 (serves (cc_topic cfg) (map fst partitions)) events Ls"
    and "sorted_wrt logs_extend (L0 # Ls @ [L1])"
  shows "\<exists>partitions' out. consumer_run T order (cc_topic cfg) events partitions [] = Ok (partitions', out)
    \<and> (\<forall>r \<in> set out. cs_topic r = cc_topic cfg \<and> cs_partition r \<in> fst ` set partitions)
    \<and> (\<forall>part \<in> fst ` set partitions.
         let all = log_records L1 (cc_topic cfg) part;
             polls = length (filter is_poll events);
             there = length (log_records L0 (cc_topic cfg) part) - start_offset cfg
         in \<exists>n. map cs_inner (filter (\<lambda>r. cs_partition r = part) out) = take n (drop (start_offset cfg) all)
              \<and> n \<le> length all - start_offset cfg \<and> min polls there \<le> n)
    \<and> (\<forall>part \<in> fst ` set partitions.
         poll_progress (\<lambda>evs. consumer_run T order (cc_topic cfg) evs partitions []) events Ls (cc_topic cfg) part (start_offset cfg))"
proof -
  have m: "distinct (map fst partitions)" and start: "\<forall>(part, state) \<in> set partitions. unat (cp_commit_offset state) = start_offset cfg"
    using consumer_actor_new_partitions [OF assms(3)] by simp_all
  obtain partitions' out where run: "consumer_run T order (cc_topic cfg) events partitions [] = Ok (partitions', out)"
    and reads: "run_reads L0 L1 (cc_topic cfg) partitions (length (filter is_poll events)) out"
    using run_moves [OF assms(1,2,4,5) m] by blast
  have "reads_on (log_records L0 (cc_topic cfg) part) (log_records L1 (cc_topic cfg) part) (start_offset cfg)
      (length (filter is_poll events)) (received part out)" if "part \<in> fst ` set partitions" for part
    using reads start that by (fastforce simp: run_reads_def)
  moreover have "poll_progress (\<lambda>evs. consumer_run T order (cc_topic cfg) evs partitions []) events Ls (cc_topic cfg) part (start_offset cfg)"
    if part: "part \<in> fst ` set partitions" for part
  proof -
    obtain state where state: "(part, state) \<in> set partitions"
      using part by fastforce
    then have "unat (cp_commit_offset state) = start_offset cfg"
      using start by blast
    then show ?thesis
      using run_progress [OF assms(1,2,4) m state] by simp
  qed
  ultimately show ?thesis
    using run reads unfolding run_reads_def reads_on_def received_def Let_def by blast
qed

definition sample_consumer :: consumer_config where
  "sample_consumer = \<lparr>cc_topic = [116], cc_partition = Some 0, cc_base_offset = 1\<rparr>"

definition sample_consumer_events :: "partition_actor \<Rightarrow> consumer_event list" where
  "sample_consumer_events a =
     [OffsetSync sample_env 1 (sample_broker a), MetadataRefresh sample_env 2 (sample_broker a),
      OffsetSync sample_env 3 (sample_broker a)]"

lemma sample_catalogue: "env_iterates sample_env" "catalogue_small (catalogue (sample_broker a))"
  by (simp_all add: env_iterates_def sample_env_def catalogue_small_def catalogue_def sample_broker_def bk_image_def
      string_fits_def utf8_valid.simps)

lemma sample_consumer_events_served:
  assumes log: "log_holds (\<lambda>bs. 7) a stored [rebased sample_records]"
  shows "list_all2 (serves [116] [0]) (sample_consumer_events a)
    (replicate 3 [([116], 0) \<mapsto> [rebased sample_records]])"
proof -
  let ?L = "[([116], 0) \<mapsto> [rebased sample_records]] :: logs"
  have env: "bytes_crate (en_bytes sample_env)" "en_crc sample_env = (\<lambda>bs. 7)"
    using list_bytes.bytes_crate_axioms by (simp_all add: sample_env_def)
  have room: "logs_room ?L"
    using sample_records_layout_small by (auto simp: logs_room_def length_sample_records length_records_layout_rebased)
  have "log_size [rebased sample_records] < 2 ^ 31"
    using sample_records_layout_small by (simp add: length_records_layout_rebased)
  then have "serves [116] [0] (OffsetSync sample_env c (sample_broker a)) ?L" for c
    using sample_image_holds [OF log] env room by (simp add: string_fits_def utf8_valid.simps)
  moreover have "serves [116] [0] (MetadataRefresh sample_env c (sample_broker a)) ?L" for c
    using env sample_catalogue by simp
  ultimately show ?thesis
    by (simp add: sample_consumer_events_def numeral_3_eq_3)
qed

lemma consumer_reads_each_record_once_witness:
  "\<exists>a partitions' out. consumer_run list_stream rev [116] (sample_consumer_events a)
      [(0, consumer_partition_from_offset 1)] [] = Ok (partitions', out)
    \<and> map cs_inner (filter (\<lambda>r. cs_partition r = 0) out) = drop 1 (rebased sample_records)"
proof -
  obtain a where log: "log_holds (\<lambda>bs. 7) a [batch_update_base_offset 0 sample_produce] [rebased sample_records]"
    using sample_actor_exists by blast
  let ?L = "[([116], 0) \<mapsto> [rebased sample_records]] :: logs"
  have new: "snd (consumer_actor_new list_stream list_bytes (\<lambda>bs. 7) (\<lambda>s bs. Some (s, [])) 0 sample_consumer ((), [])) =
      Ok [(0, consumer_partition_from_offset 1)]"
    by (simp add: consumer_actor_new_def sample_consumer_def)
  have topic: "cc_topic sample_consumer = [116]" and start: "start_offset sample_consumer = 1"
    by (simp_all add: sample_consumer_def start_offset_def)
  have served: "list_all2 (serves (cc_topic sample_consumer) (map fst [(0, consumer_partition_from_offset 1)]))
      (sample_consumer_events a) (replicate 3 ?L)"
    using sample_consumer_events_served [OF log] by (simp add: topic)
  have sorted: "sorted_wrt logs_extend (?L # replicate 3 ?L @ [?L])"
    by (simp add: numeral_3_eq_3)
  have all: "log_records ?L [116] 0 = rebased sample_records"
    by (simp add: log_records_def)
  have polls: "length (filter is_poll (sample_consumer_events a)) = 2"
    by (simp add: sample_consumer_events_def)
  obtain partitions' out n where run: "consumer_run list_stream rev [116] (sample_consumer_events a)
      [(0, consumer_partition_from_offset 1)] [] = Ok (partitions', out)"
    and out: "map cs_inner (filter (\<lambda>r. cs_partition r = 0) out) = take n (drop 1 (rebased sample_records))"
    and n: "min 2 (length (rebased sample_records) - 1) \<le> n"
    using consumer_reads_each_record_once [OF list_stream_law mset_rev new served sorted]
    unfolding topic start polls Let_def by (auto simp: all)
  have "take n (drop 1 (rebased sample_records)) = drop 1 (rebased sample_records)"
    using n by (simp add: length_sample_records)
  with run out show ?thesis
    by auto
qed

end
