(* ===== verification/Delivery.thy ===== *)
theory Delivery
  imports Client_Publish Client_Poll
begin

text \<open>
  The program put together: a producer and a consumer of one broker, whose exchanges interleave in
  any order, the consumer's refreshes of its metadata among them. What the producer is told to
  send is what the consumer receives.
\<close>

declare split_paired_All [simp del] split_paired_Ex [simp del]

section \<open>The system\<close>

text \<open>The broker is the state at the other end of the producer's stream, and of the consumer's.\<close>

datatype system_event =
  Produces broker_env producer_env producer_event
| Polls broker_env u32
| Refreshes broker_env u32

record system =
  sy_producer :: "broker batcher"
  sy_running :: bool
  sy_pending :: "u8 list"
  sy_partitions :: consumer_partitions
  sy_received :: "consumer_record list"

abbreviation sy_broker :: "system \<Rightarrow> broker" where
  "sy_broker s \<equiv> fst (bt_stream (sy_producer s))"

abbreviation sy_batch :: "system \<Rightarrow> producer_batch" where
  "sy_batch s \<equiv> bt_batch (sy_producer s)"

text \<open>What an exchange of the consumer leaves at the other end.\<close>

definition consumer_exchanged :: "broker \<times> u8 list \<Rightarrow> system \<Rightarrow> system" where
  "consumer_exchanged s1 s =
     s\<lparr>sy_producer := (sy_producer s)\<lparr>bt_stream := (fst s1, snd (bt_stream (sy_producer s)))\<rparr>, sy_pending := snd s1\<rparr>"

definition system_start :: "broker \<Rightarrow> consumer_partitions \<Rightarrow> system" where
  "system_start br partitions =
     \<lparr>sy_producer = batcher_new (br, []), sy_running = True, sy_pending = [],
      sy_partitions = partitions, sy_received = []\<rparr>"

fun system_step ::
    "stream_ops \<Rightarrow> producer_actor \<Rightarrow> (consumer_partitions \<Rightarrow> consumer_partitions) \<Rightarrow> u8 list \<Rightarrow>
      system_event \<Rightarrow> system \<Rightarrow> (unit, system) outcome" where
  "system_step T a order topic (Produces e pe ev) s =
     (if sy_running s
      then omap (\<lambda>(b, continue). s\<lparr>sy_producer := b, sy_running := continue\<rparr>)
             (batcher_step T (en_bytes e) (en_crc e) (broker_peer T e) a pe ev (sy_producer s))
      else Ok s)"
| "system_step T a order topic (Polls e correlation_id) s =
     (let (s1, r) = consumer_poll T (en_bytes e) (en_crc e) (broker_peer T e) order correlation_id topic
            (sy_partitions s) (sy_broker s, sy_pending s)
      in omap (\<lambda>(partitions, rs).
           (consumer_exchanged s1 s)\<lparr>sy_partitions := partitions, sy_received := sy_received s @ rs\<rparr>) r)"
| "system_step T a order topic (Refreshes e correlation_id) s =
     (let (s1, r) = single_request_metadata T (en_bytes e) (en_crc e) (broker_peer T e) correlation_id topic
            (sy_broker s, sy_pending s)
      in omap (\<lambda>_. consumer_exchanged s1 s) r)"

fun system_run ::
    "stream_ops \<Rightarrow> producer_actor \<Rightarrow> (consumer_partitions \<Rightarrow> consumer_partitions) \<Rightarrow> u8 list \<Rightarrow>
      system_event list \<Rightarrow> system \<Rightarrow> (unit, system) outcome" where
  "system_run T a order topic [] s = Ok s"
| "system_run T a order topic (ev # events) s =
     obind (system_step T a order topic ev s) (system_run T a order topic events)"

text \<open>The producer's events, and the number of polls after the last of them.\<close>

fun producer_events :: "system_event list \<Rightarrow> (producer_env \<times> producer_event) list" where
  "producer_events [] = []"
| "producer_events (Produces e pe ev # events) = (pe, ev) # producer_events events"
| "producer_events (_ # events) = producer_events events"

fun final_polls :: "system_event list \<Rightarrow> nat" where
  "final_polls [] = 0"
| "final_polls (Polls e c # events) = (if producer_events events = [] then Suc (final_polls events) else final_polls events)"
| "final_polls (_ # events) = final_polls events"

section \<open>Room\<close>

text \<open>The logs leave room for some more bytes, in the files and in the answer to a fetch.\<close>

definition logs_budget :: "logs \<Rightarrow> u8 list \<Rightarrow> u16 list \<Rightarrow> nat \<Rightarrow> bool" where
  "logs_budget L topic keys w \<longleftrightarrow>
     (\<forall>k rss. L k = Some rss \<longrightarrow> log_size rss + w < 2 ^ 64)
     \<and> (\<Sum>part\<leftarrow>keys. log_size (the (L (topic, part)))) + w < 2 ^ 31"

lemma records_le_size: "length (concat rss) \<le> log_size rss"
proof (induction rss)
  case (Cons rs rss)
  have "length rs \<le> length (records_layout rs)"
  proof (induction rs)
    case (Cons r rs)
    with record_layout_min [of r] show ?case
      by simp
  qed simp
  with Cons show ?case
    by simp
qed simp

lemma logs_budget_room: "logs_budget L topic keys w \<Longrightarrow> logs_room L"
  unfolding logs_budget_def logs_room_def by (meson add_lessD1 le_less_trans records_le_size)

lemma logs_budget_less: "logs_budget L topic keys w \<Longrightarrow> w' \<le> w \<Longrightarrow> logs_budget L topic keys w'"
  unfolding logs_budget_def by (meson add_left_mono le_less_trans)

text \<open>What a batch adds to one log, and to those of a topic.\<close>

definition added_size :: "producer_batch \<Rightarrow> topic_partition \<Rightarrow> nat" where
  "added_size m k = (if records_at m k = [] then 0 else records_weight (records_at m k))"

lemma log_size_published:
  assumes "L k = Some rss"
  shows "log_size (the (published_logs m L k)) \<le> log_size rss + added_size m k"
  using assms by (simp add: published_logs_def added_size_def records_weight_def length_records_layout_rebased)

lemma added_size_le: "added_size m k \<le> batch_weight m"
proof (cases "records_at m k = []")
  case False
  then obtain ps rs where "map_of m (fst k) = Some ps" "map_of ps (snd k) = Some rs" "records_at m k = rs"
    by (auto simp: records_at_def split: option.splits)
  then show ?thesis
    using False records_weight_le [OF map_of_SomeD, of ps "snd k" rs] partitions_weight_le [OF map_of_SomeD, of m "fst k" ps]
    by (simp add: added_size_def)
qed (simp add: added_size_def)

lemma sum_list_single:
  fixes w :: nat
  shows "distinct ks \<Longrightarrow> (\<Sum>k\<leftarrow>ks. if k = i then w else 0) \<le> w"
  by (induction ks) (auto simp: sum_list_eq_0_iff)

lemma partitions_added:
  "distinct ks \<Longrightarrow> (\<Sum>k\<leftarrow>ks. case map_of ps k of None \<Rightarrow> 0 | Some rs \<Rightarrow> records_weight rs) \<le> partitions_weight ps"
proof (induction ps)
  case (Cons p ps)
  obtain i rs where p: "p = (i, rs)"
    by fastforce
  have "(\<Sum>k\<leftarrow>ks. case map_of (p # ps) k of None \<Rightarrow> 0 | Some rs \<Rightarrow> records_weight rs)
      \<le> (\<Sum>k\<leftarrow>ks. (if k = i then records_weight rs else 0) + (case map_of ps k of None \<Rightarrow> 0 | Some rs \<Rightarrow> records_weight rs))"
    by (rule sum_list_mono) (simp add: p)
  also have "\<dots> \<le> partitions_weight (p # ps)"
    using sum_list_single [OF Cons.prems, of i "records_weight rs"] Cons.IH [OF Cons.prems] by (simp add: p sum_list_addf)
  finally show ?case .
qed simp

lemma topic_added:
  assumes "distinct ks"
  shows "(\<Sum>k\<leftarrow>ks. added_size m (topic, k)) \<le> batch_weight m"
proof (cases "map_of m topic")
  case (Some ps)
  have "(\<Sum>k\<leftarrow>ks. added_size m (topic, k)) \<le> (\<Sum>k\<leftarrow>ks. case map_of ps k of None \<Rightarrow> 0 | Some rs \<Rightarrow> records_weight rs)"
    by (rule sum_list_mono) (simp add: added_size_def records_at_def Some split: option.split)
  also have "\<dots> \<le> batch_weight m"
    using partitions_added [OF assms, of ps] partitions_weight_le [OF map_of_SomeD [OF Some]] by linarith
  finally show ?thesis .
qed (simp add: added_size_def records_at_def)

lemma logs_budget_published:
  assumes "logs_budget L topic keys (batch_weight m + w)" and "distinct keys" and "\<forall>part \<in> set keys. L (topic, part) \<noteq> None"
  shows "logs_budget (published_logs m L) topic keys w"
  unfolding logs_budget_def
proof (intro conjI allI impI)
  fix k rss'
  assume rss': "published_logs m L k = Some rss'"
  then obtain rss where rss: "L k = Some rss"
    by (auto simp: published_logs_def)
  then have "log_size rss + (batch_weight m + w) < 2 ^ 64"
    using assms(1) unfolding logs_budget_def by blast
  then show "log_size rss' + w < 2 ^ 64"
    using log_size_published [where L = L and k = k, OF rss, of m] added_size_le [of m k] rss' by simp
next
  have "(\<Sum>part\<leftarrow>keys. log_size (the (published_logs m L (topic, part))))
      \<le> (\<Sum>part\<leftarrow>keys. log_size (the (L (topic, part))) + added_size m (topic, part))"
    by (rule sum_list_mono) (use assms(3) log_size_published in fastforce)
  also have "\<dots> \<le> (\<Sum>part\<leftarrow>keys. log_size (the (L (topic, part)))) + batch_weight m"
    using topic_added [OF assms(2), of m topic] by (simp add: sum_list_addf)
  finally show "(\<Sum>part\<leftarrow>keys. log_size (the (published_logs m L (topic, part)))) + w < 2 ^ 31"
    using assms(1) unfolding logs_budget_def by linarith
qed

section \<open>What is delivered\<close>

fun deliver :: "publication list \<Rightarrow> logs \<Rightarrow> logs" where
  "deliver [] L = L"
| "deliver ((sync, f, m) # pubs) L = deliver pubs (published_logs m L)"

definition published_at :: "publication list \<Rightarrow> topic_partition \<Rightarrow> msg_record list" where
  "published_at pubs k = concat (map (\<lambda>(_, _, m). records_at m k) pubs)"

text \<open>What a producer puts into a record and a consumer reads from it.\<close>

definition contents :: "msg_record \<Rightarrow> u8 list \<times> u8 list \<times> record_header list" where
  "contents r = (rc_key r, rc_value r, rc_headers r)"

lemma contents_rebased [simp]: "map contents (rebased rs) = map contents rs"
  by (rule nth_equalityI) (simp_all add: rebased_nth rebase_record_def contents_def)

lemma published_logs_extend: "logs_extend L (published_logs m L)"
  by (auto simp: logs_extend_def published_logs_def)

lemma deliver_extend: "logs_extend L (deliver pubs L)"
proof (induction pubs L rule: deliver.induct)
  case (2 sync f m pubs L)
  then show ?case
    using logs_extend_trans [OF published_logs_extend] by simp
qed simp

lemma deliver_None [simp]: "deliver pubs L k = None \<longleftrightarrow> L k = None"
  by (induction pubs L rule: deliver.induct) (simp_all add: published_logs_def)

lemma deliver_append: "deliver (pubs @ pubs') L = deliver pubs' (deliver pubs L)"
  by (induction pubs L rule: deliver.induct) simp_all

lemma log_records_published:
  assumes "L (topic, part) \<noteq> None"
  shows "map contents (log_records (published_logs m L) topic part) =
    map contents (log_records L topic part) @ map contents (records_at m (topic, part))"
  using assms by (auto simp: log_records_def published_logs_def)

lemma log_records_deliver:
  assumes "L (topic, part) \<noteq> None"
  shows "map contents (log_records (deliver pubs L) topic part) =
    map contents (log_records L topic part) @ map contents (published_at pubs (topic, part))"
  using assms
proof (induction pubs L rule: deliver.induct)
  case (2 sync f m pubs L)
  have "published_logs m L (topic, part) \<noteq> None"
    using 2(2) by (simp add: published_logs_def)
  then show ?case
    using 2(1) log_records_published [of L topic part m] 2(2) by (simp add: published_at_def)
qed (simp add: published_at_def)

section \<open>A step of the producer\<close>

text \<open>The events that the system can serve.\<close>

fun system_event_ok :: "(u8 list \<Rightarrow> u32) \<Rightarrow> producer_actor \<Rightarrow> system_event \<Rightarrow> bool" where
  "system_event_ok crc a (Produces e pe ev) \<longleftrightarrow> env_ok crc e \<and> env_orders pe \<and> event_known a ev"
| "system_event_ok crc a (Polls e c) \<longleftrightarrow> env_ok crc e"
| "system_event_ok crc a (Refreshes e c) \<longleftrightarrow> env_ok crc e \<and> env_iterates e"

definition system_ok :: "(u8 list \<Rightarrow> u32) \<Rightarrow> producer_actor \<Rightarrow> u8 list \<Rightarrow> logs \<Rightarrow> system \<Rightarrow> bool" where
  "system_ok crc a topic L s \<longleftrightarrow>
     snd (bt_stream (sy_producer s)) = [] \<and> sy_pending s = [] \<and> image_holds crc (bk_image (sy_broker s)) L
     \<and> catalogue_small (catalogue (sy_broker s)) \<and> batch_ok a (sy_batch s) \<and> distinct (map fst (sy_partitions s))
     \<and> (\<forall>part \<in> set (map fst (sy_partitions s)). L (topic, part) \<noteq> None)"

abbreviation system_budget :: "logs \<Rightarrow> u8 list \<Rightarrow> system \<Rightarrow> nat \<Rightarrow> bool" where
  "system_budget L topic s w \<equiv> logs_budget L topic (map fst (sy_partitions s)) (batch_weight (sy_batch s) + w)"

lemma batcher_step_delivers:
  assumes T: "stream_law T" and a: "metadata_ok a" and ev: "system_event_ok crc a (Produces e pe ev)"
    and b: "bt_stream b = (br, [])" "batch_ok a (bt_batch b)" and im: "image_holds crc (bk_image br) L"
    and small: "catalogue_small (catalogue br)"
    and budget: "logs_budget L topic keys (batch_weight (bt_batch b) + (event_weight (pe, ev) + w))"
    and keys: "distinct keys" "\<forall>part \<in> set keys. L (topic, part) \<noteq> None"
  shows "\<exists>b1 br1 pubs. batcher_step T (en_bytes e) (en_crc e) (broker_peer T e) a pe ev b = Ok (b1, ev \<noteq> Received Shutdown)
    \<and> bt_stream b1 = (br1, []) \<and> batch_ok a (bt_batch b1) \<and> image_holds crc (bk_image br1) (deliver pubs L)
    \<and> catalogue_small (catalogue br1) \<and> logs_budget (deliver pubs L) topic keys (batch_weight (bt_batch b1) + w)
    \<and> plan_conserves (en_bytes e) crc a (pe, ev) (bt_batch b) (bt_batch b1) pubs
    \<and> (ev = Received Shutdown \<longrightarrow> bt_batch b1 = [])"
proof -
  let ?B = "en_bytes e"
  have e: "env_ok crc e" "en_crc e = crc" and orders: "env_orders pe" and known: "event_known a ev"
    using ev by (simp_all add: env_ok_def)
  obtain pub m timer continue where
    plan: "batcher_plan ?B crc a pe ev (bt_batch b) (bt_timer_active b) = Ok (pub, m, timer, continue)"
    using batcher_plan_total [OF known] by (metis surj_pair)
  have weights: "batch_weight (bt_batch b) + event_weight (pe, ev) < 2 ^ 31"
    using budget unfolding logs_budget_def by linarith
  have wf: "batch_wf (bt_batch b)"
    using b(2) by (simp add: batch_ok_def)
  note conserves = batcher_plan_conserves [OF plan orders wf]
  have "event_weight (pe, ev) < 2 ^ 32"
    using weights by simp
  note ok = batcher_plan_ok [OF plan b(2) this]
  show ?thesis
  proof (cases pub)
    case None
    have "logs_budget L topic keys (batch_weight m + w)"
      by (rule logs_budget_less [OF budget]) (use ok None in \<open>simp add: pub_weight_def\<close>)
    then show ?thesis
      using conserves ok b im small plan None e(2)
      by (intro exI [of _ "b\<lparr>bt_batch := m, bt_timer_active := timer\<rparr>"] exI [of _ br] exI [of _ "[]"])
        (simp add: batcher_step_plan)
  next
    case (Some p)
    obtain sync pm where p: "pub = Some (sync, pm)"
      using Some by (cases p) simp
    have pm: "batch_ok a pm" and weight: "batch_weight pm + batch_weight m \<le> batch_weight (bt_batch b) + event_weight (pe, ev)"
      using ok p by (simp_all add: pub_weight_def)
    have "logs_budget L topic keys (batch_weight pm + (batch_weight m + w))"
      by (rule logs_budget_less [OF budget]) (use weight in simp)
    then have budget1: "logs_budget (published_logs pm L) topic keys (batch_weight m + w)"
      by (rule logs_budget_published [OF _ keys])
    have "batch_weight pm < 2 ^ 31"
      using weight weights by linarith
    then obtain br1 where "publish_raw T ?B crc (broker_peer T e) (batch_frame ?B crc pe pm) (br, []) = ((br1, []), Ok ())"
      and "image_holds crc (bk_image br1) (published_logs pm L)" and "catalogue br1 = catalogue br"
      using publish_to_broker [OF T e(1) orders a pm _ im logs_budget_room [OF budget1]] by blast
    then show ?thesis
      using conserves ok b small plan p e(2) budget1
      by (intro exI [of _ "\<lparr>bt_batch = m, bt_timer_active = timer, bt_stream = (br1, [])\<rparr>"] exI [of _ br1]
          exI [of _ "[(sync, batch_frame ?B crc pe pm, pm)]"]) (simp add: batcher_step_plan)
  qed
qed

section \<open>A run of the system\<close>

definition events_weight :: "system_event list \<Rightarrow> nat" where
  "events_weight events = sum_list (map event_weight (producer_events events))"

lemma events_weight_simps [simp]:
  "events_weight [] = 0" "events_weight (Produces e pe ev # events) = event_weight (pe, ev) + events_weight events"
  "events_weight (Polls e c # events) = events_weight events" "events_weight (Refreshes e c # events) = events_weight events"
  by (simp_all add: events_weight_def)

definition producer_accounts :: "producer_actor \<Rightarrow> system_event list \<Rightarrow> system \<Rightarrow> system \<Rightarrow> publication list \<Rightarrow> bool" where
  "producer_accounts a events s s' pubs \<longleftrightarrow>
     (if sy_running s
      then (\<forall>k. published False pubs k @ records_at (sy_batch s') k = records_at (sy_batch s) k @ accepted_at False a (producer_events events) k)
        \<and> (\<forall>k. published True pubs k = accepted_at True a (producer_events events) k)
        \<and> (Received Shutdown \<in> snd ` set (producer_events events) \<longrightarrow> sy_batch s' = [])
      else pubs = [] \<and> sy_batch s' = sy_batch s)"

lemma producer_accounts_stopped:
  "\<not> sy_running s \<Longrightarrow> producer_accounts a events s s' pubs \<Longrightarrow> producer_accounts a (ev # events) s s' pubs"
  by (simp add: producer_accounts_def)

lemma producer_accounts_consumer:
  "sy_batch s1 = sy_batch s \<Longrightarrow> sy_running s1 = sy_running s \<Longrightarrow> producer_accounts a events s1 s' pubs \<Longrightarrow>
    producer_events (ev # events) = producer_events events \<Longrightarrow> producer_accounts a (ev # events) s s' pubs"
  by (simp add: producer_accounts_def)

lemma producer_accounts_step:
  assumes "plan_conserves B crc a (pe, ev) (sy_batch s) (sy_batch s1) pubs" and "sy_running s"
    and "sy_running s1 \<longleftrightarrow> ev \<noteq> Received Shutdown" and "ev = Received Shutdown \<longrightarrow> sy_batch s1 = []"
    and "producer_accounts a events s1 s' pubs'"
  shows "producer_accounts a (Produces e pe ev # events) s s' (pubs @ pubs')"
proof (cases "ev = Received Shutdown")
  case True
  then show ?thesis
    using assms by (simp add: producer_accounts_def plan_conserves_def)
next
  case False
  have "published False (pubs @ pubs') k @ records_at (sy_batch s') k =
      records_at (sy_batch s) k @ accepted_at False a ((pe, ev) # producer_events events) k" for k
  proof -
    have "published False pubs k @ records_at (sy_batch s1) k = records_at (sy_batch s) k @ accepted_at False a [(pe, ev)] k"
      and "published False pubs' k @ records_at (sy_batch s') k = records_at (sy_batch s1) k @ accepted_at False a (producer_events events) k"
      using assms False by (simp_all add: producer_accounts_def plan_conserves_def)
    from append_balance [OF this] show ?thesis
      using False by (simp add: accepted_at_Cons [of _ a pe ev "producer_events events"])
  qed
  moreover have "published True (pubs @ pubs') k = accepted_at True a ((pe, ev) # producer_events events) k" for k
    using assms False
    by (simp add: producer_accounts_def plan_conserves_def accepted_at_Cons [of _ a pe ev "producer_events events"])
  ultimately show ?thesis
    using assms False by (simp add: producer_accounts_def)
qed

lemma system_poll:
  assumes T: "stream_law T" and order: "\<And>m. mset (order m) = mset m" and topic: "string_fits 16 topic"
    and s: "system_ok crc a topic L s" and budget: "system_budget L topic s w" and e: "env_ok crc e"
  shows "\<exists>s1 out. system_step T a order topic (Polls e c) s = Ok s1 \<and> system_ok crc a topic L s1
    \<and> sy_batch s1 = sy_batch s \<and> sy_running s1 = sy_running s \<and> sy_received s1 = sy_received s @ out
    \<and> map fst (sy_partitions s1) = map fst (sy_partitions s)
    \<and> poll_moves L topic (sy_partitions s) (sy_partitions s) (sy_partitions s1) out"
proof -
  let ?m = "sy_partitions s"
  have "(\<Sum>part\<leftarrow>map fst ?m. log_size (the (L (topic, part)))) < 2 ^ 31"
    using budget unfolding logs_budget_def by linarith
  then have "serves topic (map fst ?m) (OffsetSync e c (sy_broker s)) L"
    using s e topic logs_budget_room [OF budget] by (simp add: system_ok_def env_ok_def)
  moreover have "distinct (map fst ?m)"
    using s by (simp add: system_ok_def)
  ultimately obtain br1 m1 out where poll: "consumer_poll T (en_bytes e) (en_crc e) (broker_peer T e) order c topic ?m (sy_broker s, []) =
      ((br1, []), Ok (m1, out))" and im: "image_holds (en_crc e) (bk_image br1) L" and same: "catalogue br1 = catalogue (sy_broker s)"
    and moves: "poll_moves L topic ?m ?m m1 out"
    using poll_moves_partitions [OF T order] by blast
  have keys: "map fst m1 = map fst ?m"
    using moves by (simp add: poll_moves_def)
  have step: "system_step T a order topic (Polls e c) s =
      Ok ((consumer_exchanged (br1, []) s)\<lparr>sy_partitions := m1, sy_received := sy_received s @ out\<rparr>)"
    using poll s by (simp add: system_ok_def)
  show ?thesis
    by (rule exI, rule exI [of _ out], intro conjI, rule step)
      (use s e im same keys moves in \<open>simp_all add: system_ok_def env_ok_def consumer_exchanged_def\<close>)
qed

lemma system_refresh:
  assumes T: "stream_law T" and s: "system_ok crc a topic L s" and e: "env_ok crc e" "env_iterates e"
  shows "system_step T a order topic (Refreshes e c) s = Ok s"
proof -
  have "serves topic [] (MetadataRefresh e c (sy_broker s)) L"
    using s e by (simp add: system_ok_def env_ok_def)
  then have "single_request_metadata T (en_bytes e) (en_crc e) (broker_peer T e) c topic (sy_broker s, []) = ((sy_broker s, []), Ok ())"
    by (rule single_request_metadata_answered [OF T])
  moreover have "consumer_exchanged (sy_broker s, []) s = s"
    using s by (cases s; cases "sy_producer s") (simp add: system_ok_def consumer_exchanged_def prod_eq_iff)
  ultimately show ?thesis
    using s by (simp add: system_ok_def)
qed

lemma system_run_delivers:
  assumes T: "stream_law T" and order: "\<And>m. mset (order m) = mset m" and a: "metadata_ok a" and topic: "string_fits 16 topic"
    and "\<forall>ev \<in> set events. system_event_ok crc a ev" and "system_ok crc a topic L s"
    and "system_budget L topic s (events_weight events)"
  shows "\<exists>s' pubs out. system_run T a order topic events s = Ok s' \<and> sy_received s' = sy_received s @ out
    \<and> run_reads (deliver pubs L) (deliver pubs L) topic (sy_partitions s) (final_polls events) out
    \<and> (producer_events events = [] \<longrightarrow> pubs = []) \<and> producer_accounts a events s s' pubs"
  using assms(5-7)
proof (induction events arbitrary: s L)
  case Nil
  then show ?case
    by (intro exI [of _ s] exI [of _ "[]"]) (simp add: run_reads_nothing producer_accounts_def accepted_at_def)
next
  case (Cons ev events)
  show ?case
  proof (cases ev)
    case (Polls e c)
    obtain s1 out where step: "system_step T a order topic ev s = Ok s1" "system_ok crc a topic L s1"
      and same: "sy_batch s1 = sy_batch s" "sy_running s1 = sy_running s" "map fst (sy_partitions s1) = map fst (sy_partitions s)"
      and out: "sy_received s1 = sy_received s @ out" and moves: "poll_moves L topic (sy_partitions s) (sy_partitions s) (sy_partitions s1) out"
      using system_poll [OF T order topic Cons.prems(2,3), of e c] Cons.prems(1) Polls by auto
    have "system_budget L topic s1 (events_weight events)"
      using Cons.prems(3) Polls same by simp
    then obtain s' pubs out' where rest: "system_run T a order topic events s1 = Ok s'" "sy_received s' = sy_received s1 @ out'"
      "run_reads (deliver pubs L) (deliver pubs L) topic (sy_partitions s1) (final_polls events) out'"
      "producer_events events = [] \<longrightarrow> pubs = []" "producer_accounts a events s1 s' pubs"
      using Cons.IH [OF _ step(2)] Cons.prems(1) by auto
    have "run_reads (deliver pubs L) (deliver pubs L) topic (sy_partitions s) (final_polls (ev # events)) (out @ out')"
      by (rule run_reads_poll [OF deliver_extend moves rest(3)]) (use rest(4) Polls in auto)
    then show ?thesis
      using step(1) rest out producer_accounts_consumer [OF same(1,2) rest(5), of ev] Polls
      by (intro exI [of _ s'] exI [of _ pubs] exI [of _ "out @ out'"]) simp
  next
    case (Refreshes e c)
    have "system_step T a order topic ev s = Ok s"
      unfolding Refreshes by (rule system_refresh [OF T Cons.prems(2)]) (use Cons.prems(1) Refreshes in simp_all)
    moreover have "system_budget L topic s (events_weight events)"
      using Cons.prems(3) Refreshes by simp
    then obtain s' pubs out where "system_run T a order topic events s = Ok s'" "sy_received s' = sy_received s @ out"
      "run_reads (deliver pubs L) (deliver pubs L) topic (sy_partitions s) (final_polls events) out"
      "producer_events events = [] \<longrightarrow> pubs = []" "producer_accounts a events s s' pubs"
      using Cons.IH [OF _ Cons.prems(2)] Cons.prems(1) by auto
    ultimately show ?thesis
      using producer_accounts_consumer [of s s a events s' pubs ev] Refreshes
      by (intro exI [of _ s'] exI [of _ pubs] exI [of _ out]) simp
  next
    case (Produces e pe p)
    have weights: "system_budget L topic s (event_weight (pe, p) + events_weight events)"
      using Cons.prems(3) Produces by simp
    show ?thesis
    proof (cases "sy_running s")
      case False
      have "system_budget L topic s (events_weight events)"
        by (rule logs_budget_less [OF weights]) simp
      then obtain s' pubs out where rest: "system_run T a order topic events s = Ok s'" "sy_received s' = sy_received s @ out"
        "run_reads (deliver pubs L) (deliver pubs L) topic (sy_partitions s) (final_polls events) out"
        "producer_accounts a events s s' pubs"
        using Cons.IH [OF _ Cons.prems(2)] Cons.prems(1) by auto
      then show ?thesis
        using False producer_accounts_stopped [OF False rest(4), of ev] Produces
        by (intro exI [of _ s'] exI [of _ pubs] exI [of _ out]) simp
    next
      case True
      obtain b1 br1 pubs where
        step: "batcher_step T (en_bytes e) (en_crc e) (broker_peer T e) a pe p (sy_producer s) = Ok (b1, p \<noteq> Received Shutdown)"
        and b1: "bt_stream b1 = (br1, [])" "batch_ok a (bt_batch b1)" "image_holds crc (bk_image br1) (deliver pubs L)"
          "catalogue_small (catalogue br1)" "logs_budget (deliver pubs L) topic (map fst (sy_partitions s)) (batch_weight (bt_batch b1) + events_weight events)"
          "p = Received Shutdown \<longrightarrow> bt_batch b1 = []"
        and conserves: "plan_conserves (en_bytes e) crc a (pe, p) (sy_batch s) (bt_batch b1) pubs"
        using batcher_step_delivers [OF T a, of crc e pe p "sy_producer s" "sy_broker s" L topic "map fst (sy_partitions s)"
            "events_weight events"] Cons.prems(1,2) Produces weights
        unfolding system_ok_def by (auto simp: prod_eq_iff)
      let ?s = "s\<lparr>sy_producer := b1, sy_running := (p \<noteq> Received Shutdown)\<rparr>"
      have "system_ok crc a topic (deliver pubs L) ?s"
        using Cons.prems(2) b1 by (simp add: system_ok_def)
      then obtain s' pubs' out where rest: "system_run T a order topic events ?s = Ok s'" "sy_received s' = sy_received s @ out"
        "run_reads (deliver pubs' (deliver pubs L)) (deliver pubs' (deliver pubs L)) topic (sy_partitions s) (final_polls events) out"
        "producer_accounts a events ?s s' pubs'"
        using Cons.IH [of "deliver pubs L" ?s] Cons.prems(1) b1(5) by auto
      have "producer_accounts a (ev # events) s s' (pubs @ pubs')"
        unfolding Produces by (rule producer_accounts_step [OF _ True _ _ rest(4)]) (use conserves b1(6) in simp_all)
      then show ?thesis
        using step True rest Produces
        by (intro exI [of _ s'] exI [of _ "pubs @ pubs'"] exI [of _ out]) (simp add: deliver_append)
    qed
  qed
qed

section \<open>Properties\<close>

lemma shuffles_append_left: "zs \<in> shuffles xs ys \<Longrightarrow> rs @ zs \<in> shuffles (rs @ xs) ys"
  by (induction rs) (auto intro: Cons_in_shuffles_leftI)

lemma shuffles_append_right: "zs \<in> shuffles xs ys \<Longrightarrow> rs @ zs \<in> shuffles xs (rs @ ys)"
  by (induction rs) (auto intro: Cons_in_shuffles_rightI)

lemma published_at_shuffles: "published_at pubs k \<in> shuffles (published False pubs k) (published True pubs k)"
proof (induction pubs)
  case (Cons p pubs)
  obtain sync f m where p: "p = (sync, f, m)"
    by (metis surj_pair)
  show ?case
    using Cons shuffles_append_left shuffles_append_right by (cases sync) (auto simp: p published_at_def)
qed (simp add: published_at_def)

lemma reads_on_contents:
  assumes "reads_on first all start polls rs" and "map contents all = cs" and "length first = length all"
  shows "\<exists>n. map contents rs = take n (drop start cs) \<and> n \<le> length cs - start \<and> min polls (length cs - start) \<le> n"
proof -
  have "length cs = length all"
    using assms(2) by (metis length_map)
  moreover obtain n where "rs = take n (drop start all)" "n \<le> length all - start" "min polls (length first - start) \<le> n"
    using assms(1) by (auto simp: reads_on_def)
  ultimately show ?thesis
    using assms(3) by (intro exI [of _ n]) (simp add: take_map drop_map flip: assms(2))
qed

text \<open>C2: a producer and a consumer of one broker, whose commands, timers, polls and refreshes of the
  metadata interleave in any order. The payloads name topics the producer knows (for another its
  task panics), what is sent fits the frames and leaves room in the logs. Then nothing fails. What
  the broker gets for a partition are the synchronous records in the order they were told and the
  others in theirs, the last of which may still be in the producer's batch unless it was shut
  down; the two are shuffled, for a synchronous record overtakes those that wait in the batch. The
  consumer receives of each of its partitions, from the offset it starts at on, the records that
  were there and then those the broker got, in the order of the log and each once; once as many
  polls have followed the last event of the producer as there are records, it has them all.\<close>

theorem producer_reaches_consumer:
  assumes "stream_law T" and "\<And>m. mset (order m) = mset m" and "metadata_ok a" and "string_fits 16 topic"
    and "image_holds crc (bk_image br) L" and "catalogue_small (catalogue br)" and "distinct (map fst partitions)"
    and "\<forall>part \<in> fst ` set partitions. L (topic, part) \<noteq> None"
    and "\<forall>ev \<in> set events. system_event_ok crc a ev"
    and "logs_budget L topic (map fst partitions) (events_weight events)"
  shows "\<exists>s sent. system_run T a order topic events (system_start br partitions) = Ok s
    \<and> (\<forall>k. \<exists>async. async @ records_at (sy_batch s) k = accepted_at False a (producer_events events) k
          \<and> sent k \<in> shuffles async (accepted_at True a (producer_events events) k))
    \<and> (Received Shutdown \<in> snd ` set (producer_events events) \<longrightarrow> sy_batch s = [])
    \<and> (\<forall>r \<in> set (sy_received s). cs_topic r = topic \<and> cs_partition r \<in> fst ` set partitions)
    \<and> (\<forall>(part, state) \<in> set partitions.
          let all = map contents (log_records L topic part) @ map contents (sent (topic, part));
              start = unat (cp_commit_offset state)
          in \<exists>n. map contents (map cs_inner (filter (\<lambda>r. cs_partition r = part) (sy_received s))) = take n (drop start all)
               \<and> n \<le> length all - start \<and> min (final_polls events) (length all - start) \<le> n)"
proof -
  let ?s = "system_start br partitions"
  have start: "system_ok crc a topic L ?s" "system_budget L topic ?s (events_weight events)"
    "sy_running ?s" "sy_batch ?s = []" "sy_received ?s = []" "sy_partitions ?s = partitions"
    using assms(5-8,10) by (simp_all add: system_start_def system_ok_def batcher_new_def)
  obtain s pubs where run: "system_run T a order topic events ?s = Ok s"
    and reads: "run_reads (deliver pubs L) (deliver pubs L) topic partitions (final_polls events) (sy_received s)"
    and accounts: "producer_accounts a events ?s s pubs"
    using system_run_delivers [OF assms(1-4,9) start(1,2)] start(5,6) by auto
  let ?sent = "published_at pubs"
  have "published False pubs k @ records_at (sy_batch s) k = accepted_at False a (producer_events events) k
      \<and> ?sent k \<in> shuffles (published False pubs k) (accepted_at True a (producer_events events) k)" for k
    using accounts start(3,4) published_at_shuffles [of pubs k] by (simp add: producer_accounts_def)
  moreover have "Received Shutdown \<in> snd ` set (producer_events events) \<longrightarrow> sy_batch s = []"
    using accounts start(3) by (simp add: producer_accounts_def)
  moreover have "\<exists>n. map contents (received part (sy_received s)) =
        take n (drop (unat (cp_commit_offset state)) (map contents (log_records L topic part) @ map contents (?sent (topic, part))))
      \<and> n \<le> length (map contents (log_records L topic part) @ map contents (?sent (topic, part))) - unat (cp_commit_offset state)
      \<and> min (final_polls events) (length (map contents (log_records L topic part) @ map contents (?sent (topic, part)))
          - unat (cp_commit_offset state)) \<le> n" if "(part, state) \<in> set partitions" for part state
  proof (rule reads_on_contents)
    show "reads_on (log_records (deliver pubs L) topic part) (log_records (deliver pubs L) topic part)
        (unat (cp_commit_offset state)) (final_polls events) (received part (sy_received s))"
      using reads that unfolding run_reads_def by blast
    show "map contents (log_records (deliver pubs L) topic part) =
        map contents (log_records L topic part) @ map contents (?sent (topic, part))"
      by (rule log_records_deliver) (use assms(8) that in force)
  qed simp
  ultimately show ?thesis
    using run reads unfolding run_reads_def received_def Let_def
    by (intro exI [of _ s] exI [of _ ?sent]) blast
qed

definition delivery_events :: "system_event list" where
  "delivery_events =
     [Produces sample_logs_env (sample_producer_env 1) (Received (Async (sample_payload None))),
      Polls sample_logs_env 1,
      Produces sample_logs_env (sample_producer_env 2) (Received Shutdown),
      Polls sample_logs_env 2, Refreshes sample_logs_env 3,
      Polls sample_logs_env 4, Polls sample_logs_env 5]"

lemma sample_metadata_ok: "metadata_ok sample_producer"
  by (simp add: metadata_ok_def topic_names_def sample_producer_def string_fits_def utf8_valid.simps)

lemma delivery_events_ok: "\<forall>ev \<in> set delivery_events. system_event_ok (\<lambda>bs. 7) sample_producer ev"
proof -
  have "env_orders (sample_producer_env now)" for now
    by (simp add: env_orders_def sample_producer_env_def)
  moreover have "event_known sample_producer (Received (Async (sample_payload None)))"
    by (simp add: payload_known_def sample_payload_def sample_producer_def)
  ultimately show ?thesis
    using sample_logs_env_ok sample_catalogue(1) by (simp add: delivery_events_def env_iterates_def sample_logs_env_def)
qed

lemma delivery_events_eval:
  "producer_events delivery_events =
     [(sample_producer_env 1, Received (Async (sample_payload None))), (sample_producer_env 2, Received Shutdown)]"
  "final_polls delivery_events = 3" "events_weight delivery_events = 235"
proof -
  show events: "producer_events delivery_events =
     [(sample_producer_env 1, Received (Async (sample_payload None))), (sample_producer_env 2, Received Shutdown)]"
    by (simp add: delivery_events_def)
  show "final_polls delivery_events = 3"
    by (simp add: delivery_events_def)
  show "events_weight delivery_events = 235"
    unfolding events_weight_def events
    by (simp add: sample_payload_def sample_producer_env_def payload_into_record_def record_new_def length_record_layout Let_def)
qed

lemma delivery_accepted:
  "accepted_at True sample_producer (producer_events delivery_events) k = []"
  "accepted_at False sample_producer (producer_events delivery_events) ([116], 0) = [record_new 1 0 [] [118]]"
proof -
  have "calculate_index sample_producer (sample_producer_env now) (sample_payload None) = Ok 0" for now
    by (simp add: calculate_index_def sample_producer_def sample_payload_def sample_producer_env_def Let_def)
  then show "accepted_at True sample_producer (producer_events delivery_events) k = []"
    and "accepted_at False sample_producer (producer_events delivery_events) ([116], 0) = [record_new 1 0 [] [118]]"
    unfolding delivery_events_eval
    by (simp_all add: accepted_at_def) (simp add: sample_payload_def sample_producer_env_def payload_into_record_def)
qed

lemma producer_reaches_consumer_witness:
  "\<exists>a s. system_run list_stream sample_producer rev [116] delivery_events
      (system_start (sample_broker a) [(0, consumer_partition_from_offset 1)]) = Ok s
    \<and> map contents (map cs_inner (filter (\<lambda>r. cs_partition r = 0) (sy_received s))) =
        drop 1 (map contents sample_records) @ [contents (record_new 1 0 [] [118])]"
proof -
  obtain a where log: "log_holds (\<lambda>bs. 7) a [batch_update_base_offset 0 sample_produce] [rebased sample_records]"
    using sample_actor_exists by blast
  let ?L = "[([116], 0) \<mapsto> [rebased sample_records]] :: logs"
  let ?ps = "[(0 :: u16, consumer_partition_from_offset 1)]"
  have im: "image_holds (\<lambda>bs. 7) (bk_image (sample_broker a)) ?L"
    by (rule sample_image_holds [OF log])
  have topic: "string_fits 16 ([116] :: u8 list)"
    by (simp add: string_fits_def utf8_valid.simps)
  have dis: "distinct (map fst ?ps)" and there: "\<forall>part \<in> fst ` set ?ps. ?L ([116], part) \<noteq> None"
    by simp_all
  have budget: "logs_budget ?L [116] (map fst ?ps) (events_weight delivery_events)"
    using sample_records_layout_small
    by (auto simp: logs_budget_def delivery_events_eval length_records_layout_rebased)
  let ?k = "([116], 0) :: topic_partition"
  from producer_reaches_consumer [OF list_stream_law mset_rev sample_metadata_ok topic im sample_catalogue(2) dis there delivery_events_ok budget]
  obtain s and sent :: "topic_partition \<Rightarrow> msg_record list" where run: "system_run list_stream sample_producer rev [116] delivery_events
        (system_start (sample_broker a) ?ps) = Ok s"
    and sent: "\<forall>k. \<exists>async. async @ records_at (sy_batch s) k = accepted_at False sample_producer (producer_events delivery_events) k
          \<and> sent k \<in> shuffles async (accepted_at True sample_producer (producer_events delivery_events) k)"
    and stopped: "Received Shutdown \<in> snd ` set (producer_events delivery_events) \<longrightarrow> sy_batch s = []"
    and got: "\<forall>(part, state) \<in> set ?ps.
          let all = map contents (log_records ?L [116] part) @ map contents (sent ([116], part));
              start = unat (cp_commit_offset state)
          in \<exists>n. map contents (map cs_inner (filter (\<lambda>r. cs_partition r = part) (sy_received s))) = take n (drop start all)
               \<and> n \<le> length all - start \<and> min (final_polls delivery_events) (length all - start) \<le> n"
    by blast
  have "sy_batch s = []"
    using stopped by (simp add: delivery_events_eval)
  then have "sent ?k = [record_new 1 0 [] [118]]"
    using spec [OF sent, of ?k] by (auto simp: delivery_accepted)
  moreover have "log_records ?L [116] 0 = rebased sample_records"
    by (simp add: log_records_def)
  ultimately have "map contents (map cs_inner (filter (\<lambda>r. cs_partition r = 0) (sy_received s))) =
      drop 1 (map contents sample_records) @ [contents (record_new 1 0 [] [118])]"
    using got by (auto simp: consumer_partition_from_offset_def delivery_events_eval length_sample_records simp del: map_map)
  with run show ?thesis
    by blast
qed

end
