(* ===== verification/Broker_Tasks.thy ===== *)
theory Broker_Tasks
  imports Broker_Catalogue
begin

text \<open>
  The requests of a broker as tasks that interleave (\<open>broker/mod.rs\<close>, \<open>partition/handle.rs\<close>).
  \<open>Broker_Handlers\<close> takes a produce or fetch request as one step, with a parameter for what
  happens while it waits for replicas. Here a request is a task that sends commands to the
  mailboxes of the partitions and waits for their replies; the actor of a partition handles its
  mailbox one command at a time; and the turns of tasks and actors interleave in any order. The
  partitions are those there are: topics are not created in between.
\<close>

declare split_paired_All [simp del] split_paired_Ex [simp del]

section \<open>The loops of a handler\<close>

text \<open>
  Both handlers run over the topics of the request and over the partitions of each topic, gather
  the responses of a topic and then those of the topics. The state of the two loops is what is
  left of the topics, the responses for the first of them so far, and those of the topics done.
\<close>

record ('p, 'q) nested =
  ne_left :: "(u8 list \<times> 'p list) list"
  ne_parts :: "'q list"
  ne_done :: "(u8 list \<times> 'q list) list"

definition nested_new :: "(u8 list \<times> 'p list) list \<Rightarrow> ('p, 'q) nested" where
  "nested_new items = \<lparr>ne_left = items, ne_parts = [], ne_done = []\<rparr>"

text \<open>The next partition has a response; the next topic has no partition left.\<close>

definition nested_push :: "'q \<Rightarrow> ('p, 'q) nested \<Rightarrow> ('p, 'q) nested" where
  "nested_push q n =
     n\<lparr>ne_left := (case ne_left n of [] \<Rightarrow> [] | (t, ps) # ts \<Rightarrow> (t, tl ps) # ts),
       ne_parts := ne_parts n @ [q]\<rparr>"

definition nested_close :: "('p, 'q) nested \<Rightarrow> ('p, 'q) nested" where
  "nested_close n =
     (case ne_left n of
        [] \<Rightarrow> n
      | (t, ps) # ts \<Rightarrow> \<lparr>ne_left = ts, ne_parts = [], ne_done = ne_done n @ [(t, ne_parts n)]\<rparr>)"

section \<open>Tasks and mailboxes\<close>

record produce_task =
  pk_request :: produce_request
  pk_loop :: "(produce_partition, produce_partition_response) nested"
  pk_waiting :: "nat option"

record fetch_task =
  fk_request :: net_fetch_request
  fk_loop :: "(fetch_partition, partition_response) nested"
  fk_sending :: "(topic_partition \<times> partition_command) option"

datatype request_task =
  Producing produce_task
| Fetching fetch_task
| Answered frame_body frame_body
| Aborted frame_body

text \<open>
  A reply channel is the number of the append it belongs to: \<open>tk_asked\<close> lists the appends that
  were sent, with the topic, the partition and the acknowledgement asked for, and \<open>tk_appended\<close>
  those that were written, in the order of the writes. They are the history of the system, which
  nothing but the numbering of the channels depends on.
\<close>

record task_system =
  tk_image :: image
  tk_mailbox :: "topic_partition \<Rightarrow> partition_command list"
  tk_replies :: "nat \<rightharpoonup> produce_partition_response"
  tk_tasks :: "request_task list"
  tk_asked :: "(topic_partition \<times> record_batch \<times> acks) list"
  tk_appended :: "nat list"

definition tasks_start :: "image \<Rightarrow> task_system" where
  "tasks_start im =
     \<lparr>tk_image = im, tk_mailbox = (\<lambda>_. []), tk_replies = Map.empty, tk_tasks = [], tk_asked = [], tk_appended = []\<rparr>"

definition produce_items :: "produce_request \<Rightarrow> (u8 list \<times> produce_partition list) list" where
  "produce_items req = map (\<lambda>t. (qt_topic t, qt_partitions t)) (qr_topics req)"

definition fetch_items :: "net_fetch_request \<Rightarrow> (u8 list \<times> fetch_partition list) list" where
  "fetch_items req = map (\<lambda>t. (ft_topic t, ft_partitions t)) (nf_topics req)"

fun task_new :: "frame_body \<Rightarrow> request_task option" where
  "task_new (Produce req) = Some (Producing \<lparr>pk_request = req, pk_loop = nested_new (produce_items req), pk_waiting = None\<rparr>)"
| "task_new (Fetch req) = Some (Fetching \<lparr>fk_request = req, fk_loop = nested_new (fetch_items req), fk_sending = None\<rparr>)"
| "task_new _ = None"

section \<open>Turns\<close>

text \<open>
  A command goes to the end of the mailbox, which has room for \<open>cap\<close> of them. A turn that has to
  wait, for room or for a reply, is none.
\<close>

definition mailbox_send :: "nat \<Rightarrow> topic_partition \<Rightarrow> partition_command \<Rightarrow> task_system \<Rightarrow> task_system option" where
  "mailbox_send cap k c s =
     (if length (tk_mailbox s k) < cap
      then Some (s\<lparr>tk_mailbox := (tk_mailbox s)(k := tk_mailbox s k @ [c])\<rparr>) else None)"

definition produce_answer_body :: "broker_env \<Rightarrow> (u8 list \<times> produce_partition_response list) list \<Rightarrow> frame_body" where
  "produce_answer_body e ts =
     ProduceResponse \<lparr>prs_throttle_time_ms = en_elapsed e,
       prs_responses = map (\<lambda>(t, ps). \<lparr>ptr_topic = t, ptr_partition_responses = ps\<rparr>) ts\<rparr>"

definition produce_turn ::
    "nat \<Rightarrow> broker_env \<Rightarrow> produce_task \<Rightarrow> task_system \<Rightarrow> (task_system \<times> request_task) option" where
  "produce_turn cap e p s =
     (case ne_left (pk_loop p) of
        [] \<Rightarrow> Some (s, Answered (Produce (pk_request p)) (produce_answer_body e (ne_done (pk_loop p))))
      | (t, []) # ts \<Rightarrow> Some (s, Producing (p\<lparr>pk_loop := nested_close (pk_loop p)\<rparr>))
      | (t, q # qs) # ts \<Rightarrow>
          (let k = (t, qp_index q)
           in case pk_waiting p of
                None \<Rightarrow>
                  (case map_of (tk_image s) k of
                     None \<Rightarrow> Some (s, Producing (p\<lparr>pk_loop := nested_push
                       (produce_partition_response_error (ucast (qp_index q)) UnknownTopicOrPartition) (pk_loop p)\<rparr>))
                   | Some a \<Rightarrow>
                       (let acks = qr_acks (pk_request p); reply = length (tk_asked s)
                        in map_option
                             (\<lambda>s1. (s1\<lparr>tk_asked := tk_asked s @ [(k, qp_records q, acks)]\<rparr>,
                                    Producing (p\<lparr>pk_waiting := Some reply\<rparr>)))
                             (mailbox_send cap k (Append (qp_records q) acks reply) s)))
              | Some reply \<Rightarrow>
                  map_option
                    (\<lambda>resp. (s\<lparr>tk_replies := (tk_replies s)(reply := None)\<rparr>,
                             Producing (p\<lparr>pk_loop := nested_push resp (pk_loop p), pk_waiting := None\<rparr>)))
                    (tk_replies s reply)))"

definition fetch_answer_body :: "broker_env \<Rightarrow> (u8 list \<times> partition_response list) list \<Rightarrow> frame_body" where
  "fetch_answer_body e ts =
     FetchResponse \<lparr>nr_throttle_time_ms = en_elapsed e,
       nr_responses = map (\<lambda>(t, ps). \<lparr>tr_topic = t, tr_partitions = ps\<rparr>) ts\<rparr>"

text \<open>The partition is read at once; the report of a replica is sent when the mailbox has room.\<close>

definition fetch_turn ::
    "nat \<Rightarrow> broker_env \<Rightarrow> fetch_task \<Rightarrow> task_system \<Rightarrow> (task_system \<times> request_task) option" where
  "fetch_turn cap e f s =
     (case fk_sending f of
        Some (k, c) \<Rightarrow> map_option (\<lambda>s1. (s1, Fetching (f\<lparr>fk_sending := None\<rparr>))) (mailbox_send cap k c s)
      | None \<Rightarrow>
          (case ne_left (fk_loop f) of
             [] \<Rightarrow> Some (s, Answered (Fetch (fk_request f)) (fetch_answer_body e (ne_done (fk_loop f))))
           | (t, []) # ts \<Rightarrow> Some (s, Fetching (f\<lparr>fk_loop := nested_close (fk_loop f)\<rparr>))
           | (t, q # qs) # ts \<Rightarrow>
               (let part = ucast (fp_partition q) :: u16; k = (t, part)
                in case map_of (tk_image s) k of
                     None \<Rightarrow> Some (s, Fetching (f\<lparr>fk_loop := nested_push
                       (partition_response_error (fp_partition q) UnknownTopicOrPartition) (fk_loop f)\<rparr>))
                   | Some a \<Rightarrow>
                       map_option
                         (\<lambda>r. (s, (case r of
                            Ok (res, cmds) \<Rightarrow>
                              Fetching (f\<lparr>fk_loop := nested_push res (fk_loop f),
                                fk_sending := (case cmds of [] \<Rightarrow> None | c # _ \<Rightarrow> Some (k, c))\<rparr>)
                          | _ \<Rightarrow> Aborted (Fetch (fk_request f)))))
                         (handle_fetch (en_bytes e) (en_crc e) (ucast part) a q (nf_replica_id (fk_request f))))))"

fun task_turn :: "nat \<Rightarrow> broker_env \<Rightarrow> request_task \<Rightarrow> task_system \<Rightarrow> (task_system \<times> request_task) option" where
  "task_turn cap e (Producing p) s = produce_turn cap e p s"
| "task_turn cap e (Fetching f) s = fetch_turn cap e f s"
| "task_turn cap e _ s = None"

text \<open>
  The actor of a partition handles the first command of its mailbox. Its replies are kept until
  they are read; no caller is gone, for a task that waits for a reply waits until it comes.
\<close>

fun deliver_effects :: "partition_effect list \<Rightarrow> (nat \<rightharpoonup> produce_partition_response) \<Rightarrow> nat \<rightharpoonup> produce_partition_response" where
  "deliver_effects [] m = m"
| "deliver_effects (Produced reply resp # fx) m = deliver_effects fx (m(reply \<mapsto> resp))"
| "deliver_effects (Truncated reply # fx) m = deliver_effects fx m"

fun append_reply :: "partition_command \<Rightarrow> nat list" where
  "append_reply (Append b acks reply) = [reply]"
| "append_reply _ = []"

definition actor_turn :: "topic_partition \<Rightarrow> task_system \<Rightarrow> task_system option" where
  "actor_turn k s =
     (case (map_of (tk_image s) k, tk_mailbox s k) of
        (Some a, c # cs) \<Rightarrow>
          (case actor_handle (\<lambda>_. True) c a of
             Ok (a1, fx) \<Rightarrow>
               Some (s\<lparr>tk_image := AList.update k a1 (tk_image s), tk_mailbox := (tk_mailbox s)(k := cs),
                       tk_replies := deliver_effects fx (tk_replies s),
                       tk_appended := tk_appended s @ append_reply c\<rparr>)
           | _ \<Rightarrow> None)
      | _ \<Rightarrow> None)"

section \<open>The system\<close>

datatype task_event = Arrives frame_body | TaskTurn nat broker_env | ActorTurn topic_partition

inductive task_step :: "nat \<Rightarrow> task_system \<Rightarrow> task_event \<Rightarrow> task_system \<Rightarrow> bool" for cap where
  arrives: "task_new body = Some t \<Longrightarrow> task_step cap s (Arrives body) (s\<lparr>tk_tasks := tk_tasks s @ [t]\<rparr>)"
| task: "i < length (tk_tasks s) \<Longrightarrow> task_turn cap e (tk_tasks s ! i) s = Some (s1, t) \<Longrightarrow>
    task_step cap s (TaskTurn i e) (s1\<lparr>tk_tasks := (tk_tasks s)[i := t]\<rparr>)"
| actor: "actor_turn k s = Some s1 \<Longrightarrow> task_step cap s (ActorTurn k) s1"

inductive_cases task_step_ArrivesE: "task_step cap s (Arrives body) s'"
inductive_cases task_step_TaskE: "task_step cap s (TaskTurn i e) s'"
inductive_cases task_step_ActorE: "task_step cap s (ActorTurn k) s'"

inductive tasks_run :: "nat \<Rightarrow> task_system \<Rightarrow> task_event list \<Rightarrow> task_system \<Rightarrow> bool" for cap s0 where
  tasks_nil: "tasks_run cap s0 [] s0"
| tasks_snoc: "tasks_run cap s0 evs s \<Longrightarrow> task_step cap s ev s' \<Longrightarrow> tasks_run cap s0 (evs @ [ev]) s'"

text \<open>The relation computes: what a turn leaves depends on the state and the event only.\<close>

fun task_exec :: "nat \<Rightarrow> task_event \<Rightarrow> task_system \<Rightarrow> task_system option" where
  "task_exec cap (Arrives body) s = map_option (\<lambda>t. s\<lparr>tk_tasks := tk_tasks s @ [t]\<rparr>) (task_new body)"
| "task_exec cap (TaskTurn i e) s =
     (if i < length (tk_tasks s)
      then map_option (\<lambda>(s1, t). s1\<lparr>tk_tasks := (tk_tasks s)[i := t]\<rparr>) (task_turn cap e (tk_tasks s ! i) s)
      else None)"
| "task_exec cap (ActorTurn k) s = actor_turn k s"

lemma task_step_exec: "task_step cap s ev s1 \<longleftrightarrow> task_exec cap ev s = Some s1"
  by (cases ev) (auto elim: task_step.cases intro: task_step.intros split: if_splits)

fun tasks_exec :: "nat \<Rightarrow> task_event list \<Rightarrow> task_system \<Rightarrow> task_system option" where
  "tasks_exec cap [] s = Some s"
| "tasks_exec cap (ev # evs) s = Option.bind (task_exec cap ev s) (tasks_exec cap evs)"

lemma tasks_run_trans: "tasks_run cap s1 evs' s2 \<Longrightarrow> tasks_run cap s evs s1 \<Longrightarrow> tasks_run cap s (evs @ evs') s2"
proof (induction rule: tasks_run.induct)
  case (tasks_snoc evs' s1' ev s2)
  then show ?case
    using tasks_run.tasks_snoc [of cap s "evs @ evs'"] by simp
qed simp

lemma tasks_run_Cons: "task_exec cap ev s = Some s1 \<Longrightarrow> tasks_run cap s1 evs s2 \<Longrightarrow> tasks_run cap s (ev # evs) s2"
  using tasks_run_trans [of cap s1 evs s2 s "[ev]"] tasks_snoc [OF tasks_nil, of cap s ev s1] by (simp add: task_step_exec)

lemma tasks_run_exec: "tasks_exec cap evs s = Some s1 \<Longrightarrow> tasks_run cap s evs s1"
  by (induction evs arbitrary: s) (auto simp: bind_eq_Some_conv intro: tasks_nil tasks_run_Cons)

end
