(* ===== verification/Broker_Tasks_Safety.thy ===== *)
theory Broker_Tasks_Safety
  imports Broker_Tasks
begin

text \<open>
  The cases of a turn, and what holds of the reply channels however the tasks interleave: each
  append that was sent is in one mailbox or was written, once, and a task waits for its reply.
\<close>

declare split_paired_All [simp del] split_paired_Ex [simp del]

section \<open>The cases of a turn\<close>

lemma mailbox_send_eq_Some:
  "mailbox_send cap k c s = Some s1 \<longleftrightarrow>
     length (tk_mailbox s k) < cap \<and> s1 = s\<lparr>tk_mailbox := (tk_mailbox s)(k := tk_mailbox s k @ [c])\<rparr>"
  by (auto simp: mailbox_send_def)

lemma produce_turnE [consumes 1, case_names finish close unknown send receive]:
  assumes "produce_turn cap e p s = Some (s1, t1)"
  obtains "s1 = s" "ne_left (pk_loop p) = []"
      "t1 = Answered (Produce (pk_request p)) (produce_answer_body e (ne_done (pk_loop p)))"
  | t ts where "s1 = s" "ne_left (pk_loop p) = (t, []) # ts" "t1 = Producing (p\<lparr>pk_loop := nested_close (pk_loop p)\<rparr>)"
  | t q qs ts where "s1 = s" "ne_left (pk_loop p) = (t, q # qs) # ts" "pk_waiting p = None"
      "map_of (tk_image s) (t, qp_index q) = None"
      "t1 = Producing (p\<lparr>pk_loop := nested_push
         (produce_partition_response_error (ucast (qp_index q)) UnknownTopicOrPartition) (pk_loop p)\<rparr>)"
  | t q qs ts a where "ne_left (pk_loop p) = (t, q # qs) # ts" "pk_waiting p = None"
      "map_of (tk_image s) (t, qp_index q) = Some a"
      "s1 = s\<lparr>tk_mailbox := (tk_mailbox s)((t, qp_index q) := tk_mailbox s (t, qp_index q) @
                [Append (qp_records q) (qr_acks (pk_request p)) (length (tk_asked s))]),
              tk_asked := tk_asked s @ [((t, qp_index q), qp_records q, qr_acks (pk_request p))]\<rparr>"
      "t1 = Producing (p\<lparr>pk_waiting := Some (length (tk_asked s))\<rparr>)"
  | t q qs ts reply resp where "ne_left (pk_loop p) = (t, q # qs) # ts" "pk_waiting p = Some reply"
      "tk_replies s reply = Some resp" "s1 = s\<lparr>tk_replies := (tk_replies s)(reply := None)\<rparr>"
      "t1 = Producing (p\<lparr>pk_loop := nested_push resp (pk_loop p), pk_waiting := None\<rparr>)"
  using assms unfolding produce_turn_def
  by (fastforce simp: Let_def mailbox_send_eq_Some split: list.splits prod.splits option.splits)

lemma fetch_turnE [consumes 1, case_names report finish close unknown read abort]:
  assumes "fetch_turn cap e f s = Some (s1, t1)"
  obtains k c where "fk_sending f = Some (k, c)" "s1 = s\<lparr>tk_mailbox := (tk_mailbox s)(k := tk_mailbox s k @ [c])\<rparr>"
      "t1 = Fetching (f\<lparr>fk_sending := None\<rparr>)"
  | "s1 = s" "fk_sending f = None" "ne_left (fk_loop f) = []"
      "t1 = Answered (Fetch (fk_request f)) (fetch_answer_body e (ne_done (fk_loop f)))"
  | t ts where "s1 = s" "fk_sending f = None" "ne_left (fk_loop f) = (t, []) # ts"
      "t1 = Fetching (f\<lparr>fk_loop := nested_close (fk_loop f)\<rparr>)"
  | t q qs ts where "s1 = s" "fk_sending f = None" "ne_left (fk_loop f) = (t, q # qs) # ts"
      "map_of (tk_image s) (t, ucast (fp_partition q)) = None"
      "t1 = Fetching (f\<lparr>fk_loop := nested_push (partition_response_error (fp_partition q) UnknownTopicOrPartition) (fk_loop f)\<rparr>)"
  | t q qs ts a res cmds where "s1 = s" "fk_sending f = None" "ne_left (fk_loop f) = (t, q # qs) # ts"
      "map_of (tk_image s) (t, ucast (fp_partition q)) = Some a"
      "handle_fetch (en_bytes e) (en_crc e) (ucast (ucast (fp_partition q) :: u16)) a q (nf_replica_id (fk_request f)) =
         Some (Ok (res, cmds))"
      "t1 = Fetching (f\<lparr>fk_loop := nested_push res (fk_loop f),
         fk_sending := (case cmds of [] \<Rightarrow> None | c # _ \<Rightarrow> Some ((t, ucast (fp_partition q)), c))\<rparr>)"
  | t q qs ts a where "s1 = s" "fk_sending f = None" "ne_left (fk_loop f) = (t, q # qs) # ts"
      "map_of (tk_image s) (t, ucast (fp_partition q)) = Some a"
      "\<exists>r. handle_fetch (en_bytes e) (en_crc e) (ucast (ucast (fp_partition q) :: u16)) a q (nf_replica_id (fk_request f)) =
         Some r \<and> (\<forall>x. r \<noteq> Ok x)"
      "t1 = Aborted (Fetch (fk_request f))"
proof (cases "fk_sending f")
  case (Some kc)
  then show ?thesis
    using assms that(1) unfolding fetch_turn_def by (cases kc) (auto simp: mailbox_send_eq_Some)
next
  case None
  show ?thesis
  proof (cases "ne_left (fk_loop f)")
    case Nil
    then show ?thesis
      using assms None that(2) unfolding fetch_turn_def by auto
  next
    case (Cons x ts)
    obtain t ps where x: "x = (t, ps)"
      by fastforce
    show ?thesis
    proof (cases ps)
      case Nil
      then show ?thesis
        using assms None Cons x that(3) unfolding fetch_turn_def by auto
    next
      case ps: (Cons q qs)
      let ?k = "(t, ucast (fp_partition q) :: u16)"
      note left = Cons [unfolded x ps]
      show ?thesis
      proof (cases "map_of (tk_image s) ?k")
        case no: None
        then show ?thesis
          using assms None left that(4) unfolding fetch_turn_def by (auto simp: Let_def)
      next
        case (Some a)
        let ?r = "handle_fetch (en_bytes e) (en_crc e) (ucast (ucast (fp_partition q) :: u16)) a q (nf_replica_id (fk_request f))"
        obtain r where r: "?r = Some r"
          using assms None left Some unfolding fetch_turn_def by (auto simp: Let_def)
        show ?thesis
        proof (cases r)
          case (Ok rc)
          then show ?thesis
            using assms None left Some r that(5) unfolding fetch_turn_def by (cases rc) (auto simp: Let_def)
        qed (use assms None left Some r that(6) in \<open>auto simp: fetch_turn_def Let_def\<close>)
      qed
    qed
  qed
qed

lemma actor_turnE:
  assumes "actor_turn k s = Some s1"
  obtains a c cs a1 fx where "map_of (tk_image s) k = Some a" "tk_mailbox s k = c # cs"
    "actor_handle (\<lambda>_. True) c a = Ok (a1, fx)"
    "s1 = s\<lparr>tk_image := AList.update k a1 (tk_image s), tk_mailbox := (tk_mailbox s)(k := cs),
            tk_replies := deliver_effects fx (tk_replies s), tk_appended := tk_appended s @ append_reply c\<rparr>"
  using assms unfolding actor_turn_def by (auto split: option.splits list.splits outcome.splits)

section \<open>Reply channels\<close>

text \<open>
  The appends that wait in a mailbox are those that were sent and not written yet, and a task
  waits for each of them; a reply comes only after the write.
\<close>

fun waiting_for :: "request_task \<Rightarrow> nat option" where
  "waiting_for (Producing p) = pk_waiting p"
| "waiting_for _ = None"

fun to_report :: "request_task \<Rightarrow> (topic_partition \<times> partition_command) option" where
  "to_report (Fetching f) = fk_sending f"
| "to_report _ = None"

definition queued :: "(topic_partition \<Rightarrow> partition_command list) \<Rightarrow> topic_partition \<Rightarrow> nat list" where
  "queued mb k = concat (map append_reply (mb k))"

definition waited :: "request_task list \<Rightarrow> nat set" where
  "waited ts = {r. Some r \<in> waiting_for ` set ts}"

definition queue_inv ::
    "(topic_partition \<Rightarrow> partition_command list) \<Rightarrow> (topic_partition \<times> record_batch \<times> acks) list \<Rightarrow> nat list \<Rightarrow> nat set \<Rightarrow> bool" where
  "queue_inv mb asked appended W \<longleftrightarrow>
     distinct appended \<and> (\<forall>r \<in> set appended. r < length asked) \<and> (\<forall>k. distinct (queued mb k))
     \<and> (\<forall>k b acks r. Append b acks r \<in> set (mb k) \<longrightarrow>
          r < length asked \<and> asked ! r = (k, b, acks) \<and> r \<notin> set appended \<and> r \<in> W)
     \<and> (\<forall>r < length asked. r \<in> set appended \<or> r \<in> set (queued mb (fst (asked ! r))))"

lemma append_reply_iff: "r \<in> set (append_reply c) \<longleftrightarrow> (\<exists>b acks. c = Append b acks r)"
  by (cases c) auto

lemma queued_iff: "r \<in> set (queued mb k) \<longleftrightarrow> (\<exists>b acks. Append b acks r \<in> set (mb k))"
  by (auto simp: queued_def append_reply_iff)

lemma queued_upd: "queued (mb(k := cs)) k' = (if k' = k then concat (map append_reply cs) else queued mb k')"
  by (simp add: queued_def)

lemma queue_inv_queued:
  assumes "queue_inv mb asked appended W" and "r \<in> set (queued mb k)"
  shows "r < length asked \<and> fst (asked ! r) = k \<and> r \<notin> set appended \<and> r \<in> W"
  using assms unfolding queue_inv_def queued_iff by fastforce

lemma queue_inv_send:
  assumes inv: "queue_inv mb asked appended W" and W: "insert (length asked) W \<subseteq> W'"
  shows "queue_inv (mb(k := mb k @ [Append b acks (length asked)])) (asked @ [(k, b, acks)]) appended W'"
proof -
  let ?mb = "mb(k := mb k @ [Append b acks (length asked)])"
  have queued: "queued ?mb k' = queued mb k' @ (if k' = k then [length asked] else [])" for k'
    by (simp add: queued_def)
  have old: "r < length asked" if "r \<in> set (queued mb k')" for r k'
    using queue_inv_queued [OF inv that] by simp
  have append: "r < length (asked @ [(k, b, acks)]) \<and> (asked @ [(k, b, acks)]) ! r = (k', b', acks') \<and> r \<notin> set appended \<and> r \<in> W'"
    if app: "Append b' acks' r \<in> set (?mb k')" for k' b' acks' r
  proof -
    consider "Append b' acks' r \<in> set (mb k')" | "k' = k" "b' = b" "acks' = acks" "r = length asked"
      using app by (auto split: if_splits)
    then show ?thesis
    proof cases
      case 1
      then have "r < length asked \<and> asked ! r = (k', b', acks') \<and> r \<notin> set appended \<and> r \<in> W"
        using inv unfolding queue_inv_def by blast
      then show ?thesis
        using W by (auto simp: nth_append)
    next
      case 2
      then show ?thesis
        using inv W by (auto simp: queue_inv_def)
    qed
  qed
  show ?thesis
    unfolding queue_inv_def
  proof (intro conjI allI impI)
    fix k'
    show "distinct (queued ?mb k')"
      using inv old [of "length asked" k'] by (auto simp: queued queue_inv_def)
  next
    fix r
    assume "r < length (asked @ [(k, b, acks)])"
    then show "r \<in> set appended \<or> r \<in> set (queued ?mb (fst ((asked @ [(k, b, acks)]) ! r)))"
      using inv by (cases "r < length asked") (auto simp: queued queue_inv_def nth_append less_Suc_eq)
  qed (use inv append in \<open>auto simp: queue_inv_def\<close>)
qed

lemma queue_inv_waited:
  "queue_inv mb asked appended W \<Longrightarrow> W - set appended \<subseteq> W' \<Longrightarrow> queue_inv mb asked appended W'"
  unfolding queue_inv_def by blast

lemma queue_inv_report:
  assumes "queue_inv mb asked appended W" and "append_reply c = []"
  shows "queue_inv (mb(k := mb k @ [c])) asked appended W"
proof -
  have "queued (mb(k := mb k @ [c])) = queued mb"
    using assms(2) by (simp add: queued_def fun_eq_iff)
  moreover have "Append b acks r \<in> set ((mb(k := mb k @ [c])) k') \<longleftrightarrow> Append b acks r \<in> set (mb k')" for b acks r k'
    using assms(2) by auto
  ultimately show ?thesis
    using assms(1) unfolding queue_inv_def by presburger
qed

lemma queue_inv_take:
  assumes inv: "queue_inv mb asked appended W" and k: "mb k = c # cs"
  shows "queue_inv (mb(k := cs)) asked (appended @ append_reply c) W"
proof -
  have parts: "queued mb k = append_reply c @ concat (map append_reply cs)"
    by (simp add: queued_def k)
  have dis: "distinct (append_reply c @ concat (map append_reply cs))"
    using inv parts unfolding queue_inv_def by metis
  have head: "r < length asked \<and> fst (asked ! r) = k \<and> r \<notin> set appended" if "r \<in> set (append_reply c)" for r
    using queue_inv_queued [OF inv, of r k] that parts by simp
  have apart: "r \<notin> set (append_reply c)" if "Append b acks r \<in> set ((mb(k := cs)) k')" for b acks r k'
  proof (cases "k' = k")
    case True
    then have "r \<in> set (concat (map append_reply cs))"
      using that by (force simp: append_reply_iff)
    then show ?thesis
      using dis by auto
  next
    case False
    then have "fst (asked ! r) = k'"
      using that inv unfolding queue_inv_def by fastforce
    then show ?thesis
      using head False by auto
  qed
  have mem: "Append b acks r \<in> set (mb k')" if "Append b acks r \<in> set ((mb(k := cs)) k')" for b acks r k'
    using that k by (auto split: if_splits)
  have waits: "r < length asked \<and> asked ! r = (k', b, acks) \<and> r \<notin> set (appended @ append_reply c) \<and> r \<in> W"
    if "Append b acks r \<in> set ((mb(k := cs)) k')" for b acks r k'
    using inv mem [OF that] apart [OF that] unfolding queue_inv_def by auto
  show ?thesis
    unfolding queue_inv_def
  proof (intro conjI allI impI)
    show "distinct (appended @ append_reply c)"
      using inv head dis by (auto simp: queue_inv_def)
  next
    fix k'
    show "distinct (queued (mb(k := cs)) k')"
      using inv dis by (auto simp: queued_upd queue_inv_def)
  next
    fix r
    assume "r < length asked"
    then have "r \<in> set appended \<or> r \<in> set (queued mb (fst (asked ! r)))"
      using inv by (simp add: queue_inv_def)
    then show "r \<in> set (appended @ append_reply c) \<or> r \<in> set (queued (mb(k := cs)) (fst (asked ! r)))"
      using parts by (auto simp: queued_upd)
  qed (use inv head in \<open>force simp: queue_inv_def\<close>, (use waits in blast)+)
qed

lemma update_keeps: "x \<in> set xs \<Longrightarrow> x \<noteq> xs ! i \<Longrightarrow> x \<in> set (xs[i := y])"
  by (metis in_set_conv_nth length_list_update nth_list_update_neq)

lemma waited_update:
  assumes "i < length ts"
  shows "waited ts - set_option (waiting_for (ts ! i)) \<subseteq> waited (ts[i := t])"
    and "set_option (waiting_for t) \<subseteq> waited (ts[i := t])"
proof
  fix r
  assume "r \<in> waited ts - set_option (waiting_for (ts ! i))"
  then obtain t' where t': "t' \<in> set ts" "waiting_for t' = Some r" and "waiting_for (ts ! i) \<noteq> Some r"
    by (force simp: waited_def elem_set)
  then have "t' \<noteq> ts ! i"
    by auto
  with t'  show "r \<in> waited (ts[i := t])"
    using update_keeps [of t' ts i t] by (force simp: waited_def)
next
  show "set_option (waiting_for t) \<subseteq> waited (ts[i := t])"
    using set_update_memI [OF assms, of t] by (force simp: waited_def elem_set)
qed

lemma handle_reportE:
  assumes "actor_handle alive (UpdateReplicaLeo i leo) a = Ok (a1, fx)"
  obtains ps where "fx = map (ack_effect a) ps" "pa_acks_pending a = ps @ pa_acks_pending a1"
    "pa_snapshot a1 = state_ack_replica i leo (pa_snapshot a)"
    "\<forall>p \<in> set ps. pn_hw p \<le> ps_high_watermark (pa_snapshot a1)"
    "a1 = a\<lparr>pa_acks_pending := pa_acks_pending a1, pa_snapshot := pa_snapshot a1\<rparr>"
proof -
  let ?ps = "takeWhile (\<lambda>p. pn_hw p \<le> ps_high_watermark (state_ack_replica i leo (pa_snapshot a))) (pa_acks_pending a)"
  have "?ps @ drop (length ?ps) (pa_acks_pending a) = pa_acks_pending a"
    by (metis dropWhile_eq_drop takeWhile_dropWhile_id)
  moreover have "\<forall>p \<in> set ?ps. pn_hw p \<le> ps_high_watermark (state_ack_replica i leo (pa_snapshot a))"
    by (auto dest: set_takeWhileD)
  ultimately show thesis
    using assms that [of ?ps] by (auto simp: release_acks_spec Let_def split: if_splits)
qed

lemma handle_appendE:
  assumes "actor_handle (\<lambda>_. True) (Append b acks r) a = Ok (a1, fx)"
  obtains "acks = AcksAll" "fx = []"
      "a1 = (actor_append b a)\<lparr>pa_acks_pending := pa_acks_pending a @
         [\<lparr>pn_hw = ps_log_end_offset (pa_snapshot a) + ucast (rb_records_count b),
           pn_base_offset = ps_log_end_offset (pa_snapshot a), pn_done = r\<rparr>]\<rparr>"
  | "acks \<noteq> AcksAll" "fx = [Produced r (produced a (ps_log_end_offset (pa_snapshot a)))]" "a1 = actor_append b a"
proof (cases "acks = AcksAll")
  case True
  then show thesis
    using assms that(1) by (simp add: Let_def actor_append_snapshot)
next
  case False
  then show thesis
    using assms that(2) actor_handle_append [of acks "\<lambda>_. True" r b a] by simp
qed

lemma handle_effects_written:
  assumes "actor_handle (\<lambda>_. True) c a = Ok (a1, fx)"
  shows "dom (deliver_effects fx m) \<subseteq> dom m \<union> pn_done ` set (pa_acks_pending a) \<union> set (append_reply c)"
    and "pn_done ` set (pa_acks_pending a1) \<subseteq> pn_done ` set (pa_acks_pending a) \<union> set (append_reply c)"
proof -
  have released: "dom (deliver_effects (map (ack_effect a) ps) m) \<subseteq> dom m \<union> pn_done ` set ps" for ps m
    by (induction ps arbitrary: m) (fastforce simp: ack_effect_def)+
  show "dom (deliver_effects fx m) \<subseteq> dom m \<union> pn_done ` set (pa_acks_pending a) \<union> set (append_reply c)"
  proof (cases c)
    case (Append b acks r)
    show ?thesis
      by (rule handle_appendE [OF assms [unfolded Append]]) (auto simp: Append)
  next
    case (UpdateReplicaLeo i leo)
    obtain ps where "fx = map (ack_effect a) ps" "pa_acks_pending a = ps @ pa_acks_pending a1"
      by (rule handle_reportE [OF assms [unfolded UpdateReplicaLeo]])
    then show ?thesis
      using released [of ps m] by auto
  qed (use assms in auto)
  show "pn_done ` set (pa_acks_pending a1) \<subseteq> pn_done ` set (pa_acks_pending a) \<union> set (append_reply c)"
  proof (cases c)
    case (Append b acks r)
    show ?thesis
      by (rule handle_appendE [OF assms [unfolded Append]]) (auto simp: Append)
  next
    case (UpdateReplicaLeo i leo)
    obtain ps where "pa_acks_pending a = ps @ pa_acks_pending a1"
      by (rule handle_reportE [OF assms [unfolded UpdateReplicaLeo]])
    then show ?thesis
      by auto
  qed (use assms in auto)
qed

lemma task_turn_queue:
  assumes inv: "queue_inv (tk_mailbox s) (tk_asked s) (tk_appended s) (waited (tk_tasks s))"
    and replies: "dom (tk_replies s) \<subseteq> set (tk_appended s)" and i: "i < length (tk_tasks s)"
    and reports: "\<forall>k c. to_report (tk_tasks s ! i) = Some (k, c) \<longrightarrow> append_reply c = []"
    and waits: "\<forall>p. tk_tasks s ! i = Producing p \<longrightarrow> pk_waiting p \<noteq> None \<longrightarrow> ne_left (pk_loop p) \<noteq> []"
    and turn: "task_turn cap e (tk_tasks s ! i) s = Some (s1, t1)"
  shows "queue_inv (tk_mailbox s1) (tk_asked s1) (tk_appended s1) (waited ((tk_tasks s)[i := t1]))"
proof (cases "tk_tasks s ! i")
  case (Producing p)
  note waited = waited_update [OF i, of t1]
  have turn: "produce_turn cap e p s = Some (s1, t1)"
    using turn Producing by simp
  from turn show ?thesis
  proof (cases rule: produce_turnE)
    case (send t q qs ts a)
    have "insert (length (tk_asked s)) (waited (tk_tasks s)) \<subseteq> waited ((tk_tasks s)[i := t1])"
      using waited Producing send by auto
    then show ?thesis
      using queue_inv_send [OF inv] send by simp
  next
    case (receive t q qs ts reply resp)
    then have "waited (tk_tasks s) - set (tk_appended s) \<subseteq> waited ((tk_tasks s)[i := t1])"
      using waited Producing replies by auto
    then show ?thesis
      using queue_inv_waited [OF inv] receive by simp
  qed (use queue_inv_waited [OF inv] waits waited Producing in auto)
next
  case (Fetching f)
  note waited = waited_update [OF i, of t1]
  have keep: "queue_inv (tk_mailbox s) (tk_asked s) (tk_appended s) (waited ((tk_tasks s)[i := t1]))"
    by (rule queue_inv_waited [OF inv]) (use waited Fetching in auto)
  have turn: "fetch_turn cap e f s = Some (s1, t1)"
    using turn Fetching by simp
  from turn show ?thesis
  proof (cases rule: fetch_turnE)
    case (report k c)
    then show ?thesis
      using queue_inv_report [OF keep] reports Fetching by simp
  qed (use keep in auto)
qed (use turn in auto)

end
