(* ===== verification/Broker_Tasks_Logs.thy ===== *)
theory Broker_Tasks_Logs
  imports Broker_Tasks_Safety
begin

text \<open>
  What the partitions hold while the tasks interleave: the logs of the abstract broker with the
  appends that were written, in their order; and what a reply to an append says of them.
\<close>

declare split_paired_All [simp del] split_paired_Ex [simp del]

section \<open>The logs of the system\<close>

text \<open>The records of a batch are given by a function, \<open>dec\<close>.\<close>

type_synonym decoder = "topic_partition \<times> record_batch \<Rightarrow> msg_record list"

definition asked_entry :: "topic_partition \<times> record_batch \<times> acks \<Rightarrow> topic_partition \<times> record_batch" where
  "asked_entry = (\<lambda>(k, b, acks). (k, b))"

definition written :: "task_system \<Rightarrow> (topic_partition \<times> record_batch) list" where
  "written s = map (\<lambda>r. asked_entry (tk_asked s ! r)) (tk_appended s)"

definition logs_now :: "decoder \<Rightarrow> logs \<Rightarrow> task_system \<Rightarrow> logs" where
  "logs_now dec L0 s = append_logs (map (\<lambda>x. (fst x, dec x)) (written s)) L0"

text \<open>A batch of the log that starts at an offset, and the replicas that have reported one.\<close>

definition located :: "decoder \<Rightarrow> logs \<Rightarrow> topic_partition \<Rightarrow> record_batch \<Rightarrow> u64 \<Rightarrow> bool" where
  "located dec L k b base \<longleftrightarrow>
     (\<exists>rss sss. L k = Some (rss @ dec (k, b) # sss) \<and> unat base = length (concat rss))"

definition replicas_have :: "image \<Rightarrow> topic_partition \<Rightarrow> u64 \<Rightarrow> bool" where
  "replicas_have im k n \<longleftrightarrow>
     (\<forall>a. map_of im k = Some a \<longrightarrow> (\<forall>r \<in> set (ps_replicas (pa_snapshot a)). n \<le> rm_log_end_offset r))"

definition acknowledged ::
    "decoder \<Rightarrow> image \<Rightarrow> logs \<Rightarrow> topic_partition \<times> record_batch \<times> acks \<Rightarrow> produce_partition_response \<Rightarrow> bool" where
  "acknowledged dec im L = (\<lambda>(k, b, acks) resp.
     pp_error_code resp = NoError \<and> located dec L k b (pp_base_offset resp)
     \<and> (acks = AcksAll \<longrightarrow> replicas_have im k (pp_base_offset resp + ucast (rb_records_count b))))"

text \<open>What the replicas have reported only grows.\<close>

definition replicas_grow :: "image \<Rightarrow> image \<Rightarrow> bool" where
  "replicas_grow im im1 \<longleftrightarrow>
     (\<forall>k a1. map_of im1 k = Some a1 \<longrightarrow> (\<exists>a. map_of im k = Some a
        \<and> list_all2 (\<lambda>r r'. rm_log_end_offset r \<le> rm_log_end_offset r')
            (ps_replicas (pa_snapshot a)) (ps_replicas (pa_snapshot a1))))"

lemma replicas_grow_refl [simp]: "replicas_grow im im"
  by (auto simp: replicas_grow_def intro: list_all2_refl)

lemma replicas_grow_update:
  assumes "map_of im k = Some a"
    and "list_all2 (\<lambda>r r'. rm_log_end_offset r \<le> rm_log_end_offset r') (ps_replicas (pa_snapshot a)) (ps_replicas (pa_snapshot a1))"
  shows "replicas_grow im (AList.update k a1 im)"
  using assms by (auto simp: replicas_grow_def update_conv' intro: list_all2_refl)

lemma replicas_have_mono:
  assumes "replicas_have im k n" and "replicas_grow im im1"
  shows "replicas_have im1 k n"
  unfolding replicas_have_def
proof (intro allI impI ballI)
  fix a1 r'
  assume a1: "map_of im1 k = Some a1" and r': "r' \<in> set (ps_replicas (pa_snapshot a1))"
  obtain a where a: "map_of im k = Some a" and grow: "list_all2 (\<lambda>r r'. rm_log_end_offset r \<le> rm_log_end_offset r')
      (ps_replicas (pa_snapshot a)) (ps_replicas (pa_snapshot a1))"
    using assms(2) a1 unfolding replicas_grow_def by blast
  obtain r where "r \<in> set (ps_replicas (pa_snapshot a))" "rm_log_end_offset r \<le> rm_log_end_offset r'"
    using list_all2_right [OF grow r'] by blast
  then show "n \<le> rm_log_end_offset r'"
    using assms(1) a unfolding replicas_have_def by (meson order_trans)
qed

lemma located_mono:
  assumes "located dec L k b base" and "logs_extend L L1"
  shows "located dec L1 k b base"
proof -
  obtain rss sss where L: "L k = Some (rss @ dec (k, b) # sss)" and base: "unat base = length (concat rss)"
    using assms(1) by (auto simp: located_def)
  then obtain ttt where "L1 k = Some ((rss @ dec (k, b) # sss) @ ttt)"
    using assms(2) unfolding logs_extend_def by blast
  with base show ?thesis
    unfolding located_def by (intro exI [of _ rss] exI [of _ "sss @ ttt"]) simp
qed

lemma acknowledged_mono:
  "acknowledged dec im L x resp \<Longrightarrow> logs_extend L L1 \<Longrightarrow> replicas_grow im im1 \<Longrightarrow> acknowledged dec im1 L1 x resp"
  unfolding acknowledged_def using located_mono replicas_have_mono by (auto split: prod.splits)

section \<open>The turn of an actor\<close>

fun plain_command :: "partition_command \<Rightarrow> bool" where
  "plain_command (Append b acks r) = True"
| "plain_command (UpdateReplicaLeo i leo) = True"
| "plain_command _ = False"

text \<open>What the actors hold: the logs, and for each caller that waits where its batch is.\<close>

definition pending_ok :: "decoder \<Rightarrow> (topic_partition \<times> record_batch \<times> acks) list \<Rightarrow> logs \<Rightarrow> topic_partition \<Rightarrow> pending_response \<Rightarrow> bool" where
  "pending_ok dec asked L k p \<longleftrightarrow>
     pn_done p < length asked
     \<and> (\<exists>b. asked ! pn_done p = (k, b, AcksAll) \<and> located dec L k b (pn_base_offset p)
          \<and> pn_hw p = pn_base_offset p + ucast (rb_records_count b))"

definition content_inv :: "(u8 list \<Rightarrow> u32) \<Rightarrow> decoder \<Rightarrow> logs \<Rightarrow> task_system \<Rightarrow> bool" where
  "content_inv crc dec L s \<longleftrightarrow>
     image_holds crc (tk_image s) L
     \<and> (\<forall>k a. map_of (tk_image s) k = Some a \<longrightarrow> (\<forall>p \<in> set (pa_acks_pending a). pending_ok dec (tk_asked s) L k p
          \<and> pn_done p \<in> set (tk_appended s)))
     \<and> (\<forall>r resp. tk_replies s r = Some resp \<longrightarrow>
          r \<in> set (tk_appended s) \<and> r < length (tk_asked s) \<and> acknowledged dec (tk_image s) L (tk_asked s ! r) resp)
     \<and> (\<forall>k. \<forall>c \<in> set (tk_mailbox s k). plain_command c)"

lemma pending_ok_mono:
  "pending_ok dec asked L k p \<Longrightarrow> logs_extend L L1 \<Longrightarrow> pending_ok dec asked L1 k p"
  unfolding pending_ok_def using located_mono by blast

lemma append_entry_extend: "L k = Some rss \<Longrightarrow> append_logs [(k, rs)] L = L(k \<mapsto> rss @ [rs])"
  by simp

text \<open>An append that is handled.\<close>

lemma append_content:
  assumes im: "image_holds crc im L" and a: "map_of im k = Some a"
    and entry: "entry_holds crc (k, b) (k, dec (k, b))" and room: "logs_room (append_logs [(k, dec (k, b))] L)"
    and handle: "actor_handle (\<lambda>_. True) (Append b acks r) a = Ok (a1, fx)"
  defines "L1 \<equiv> append_logs [(k, dec (k, b))] L"
  shows "image_holds crc (AList.update k a1 im) L1" and "located dec L1 k b (ps_log_end_offset (pa_snapshot a))"
    and "ps_replicas (pa_snapshot a1) = ps_replicas (pa_snapshot a)"
proof -
  obtain stored rss where L: "L k = Some rss" and log: "log_holds crc a stored rss"
    using image_holds_Some [OF im a] by blast
  have L1: "L1 = L(k \<mapsto> rss @ [dec (k, b)])"
    by (simp add: L1_def L)
  have b: "batches_hold [b] [dec (k, b)]" "dec (k, b) \<noteq> []" "batch_checksum crc b"
    using entry by (simp_all add: entry_holds_def)
  then have "batch_holds b (dec (k, b))"
    by (simp add: batches_hold_def)
  then have "length (batch_layout b) = 61 + length (records_layout (dec (k, b)))"
    by (rule batch_holds_length)
  moreover have "length (concat (rss @ [dec (k, b)])) < 2 ^ 64 \<and> log_size (rss @ [dec (k, b)]) < 2 ^ 64"
    using room L1 unfolding logs_room_def L1_def [symmetric] by (metis fun_upd_same)
  ultimately have "\<exists>stored'. log_holds crc (actor_append b a) stored' (rss @ [dec (k, b)])"
    using log_holds_append [OF log b] log_holds_stored [OF log] by auto
  moreover have "log_holds crc a1 stored' rss' = log_holds crc (actor_append b a) stored' rss'" for stored' rss'
    by (rule handle_appendE [OF handle]; rule log_holds_cong; simp)
  ultimately have "\<exists>stored'. log_holds crc a1 stored' (rss @ [dec (k, b)])"
    by simp
  then show "image_holds crc (AList.update k a1 im) L1"
    using image_holds_update [OF im] unfolding L1 by blast
  show "located dec L1 k b (ps_log_end_offset (pa_snapshot a))"
    unfolding located_def L1 using log_end_offset_holds [OF log] by (intro exI [of _ rss] exI [of _ "[]"]) simp
  show "ps_replicas (pa_snapshot a1) = ps_replicas (pa_snapshot a)"
    by (rule handle_appendE [OF handle]) (simp_all add: actor_append_snapshot)
qed

text \<open>A report that is handled.\<close>

lemma report_content:
  assumes im: "image_holds crc im L" and a: "map_of im k = Some a"
    and handle: "actor_handle (\<lambda>_. True) (UpdateReplicaLeo i leo) a = Ok (a1, fx)"
  shows "image_holds crc (AList.update k a1 im) L"
    and "list_all2 (\<lambda>r r'. rm_log_end_offset r \<le> rm_log_end_offset r') (ps_replicas (pa_snapshot a)) (ps_replicas (pa_snapshot a1))"
    and "hw \<le> ps_high_watermark (pa_snapshot a1) \<Longrightarrow> replicas_have (AList.update k a1 im) k hw"
proof -
  obtain ps where snap: "pa_snapshot a1 = state_ack_replica i leo (pa_snapshot a)"
    and a1: "a1 = a\<lparr>pa_acks_pending := pa_acks_pending a1, pa_snapshot := pa_snapshot a1\<rparr>"
    by (rule handle_reportE [OF handle])
  obtain stored rss where L: "L k = Some rss" and log: "log_holds crc a stored rss"
    using image_holds_Some [OF im a] by blast
  have "log_holds crc a1 stored rss = log_holds crc a stored rss"
    by (rule log_holds_cong) (subst a1, simp add: snap state_ack_replica_def Let_def)+
  then show "image_holds crc (AList.update k a1 im) L"
    using image_holds_update [OF im, of a1 stored rss k] log L by (simp add: fun_upd_idem)
  show "list_all2 (\<lambda>r r'. rm_log_end_offset r \<le> rm_log_end_offset r') (ps_replicas (pa_snapshot a)) (ps_replicas (pa_snapshot a1))"
    by (simp add: snap ack_replica_replicas bump_replica_grows)
  assume hw: "hw \<le> ps_high_watermark (pa_snapshot a1)"
  show "replicas_have (AList.update k a1 im) k hw"
  proof (cases "ps_replicas (pa_snapshot a) = []")
    case True
    then have "ps_replicas (pa_snapshot a1) = []"
      by (simp add: snap ack_replica_replicas)
    then show ?thesis
      by (simp add: replicas_have_def update_conv')
  next
    case False
    then show ?thesis
      using hw by (simp add: snap le_watermark_iff replicas_have_def update_conv')
  qed
qed

lemma mailbox_tail: "mb k = c # cs \<Longrightarrow> x \<in> set ((mb(k := cs)) k') \<Longrightarrow> x \<in> set (mb k')"
  by (cases "k' = k") auto

text \<open>The turn keeps what the actors hold; only an append changes the logs.\<close>

lemma acked_deliver:
  "deliver_effects (map (ack_effect a) ps) m r = Some resp \<Longrightarrow>
     m r = Some resp \<or> (\<exists>p \<in> set ps. pn_done p = r \<and> resp = produced a (pn_base_offset p))"
  by (induction ps arbitrary: m) (fastforce simp: ack_effect_def split: if_splits)+

lemma produced_fields [simp]:
  "pp_error_code (produced a base) = NoError" "pp_base_offset (produced a base) = base"
  by (simp_all add: produced_def produce_partition_response_new_def)

lemma actor_turn_report:
  assumes inv: "content_inv crc dec L s" and k: "map_of (tk_image s) k = Some a" "tk_mailbox s k = UpdateReplicaLeo i leo # cs"
    and handle: "actor_handle (\<lambda>_. True) (UpdateReplicaLeo i leo) a = Ok (a1, fx)"
  shows "content_inv crc dec L (s\<lparr>tk_image := AList.update k a1 (tk_image s), tk_mailbox := (tk_mailbox s)(k := cs),
    tk_replies := deliver_effects fx (tk_replies s)\<rparr>)"
proof -
  let ?im = "AList.update k a1 (tk_image s)"
  have im: "image_holds crc (tk_image s) L"
    using inv by (simp add: content_inv_def)
  note report = report_content [OF im k(1) handle]
  have grow: "replicas_grow (tk_image s) ?im"
    by (rule replicas_grow_update [OF k(1) report(2)])
  obtain ps where fx: "fx = map (ack_effect a) ps" and pending: "pa_acks_pending a = ps @ pa_acks_pending a1"
    and covered: "\<forall>p \<in> set ps. pn_hw p \<le> ps_high_watermark (pa_snapshot a1)"
    by (rule handle_reportE [OF handle])
  have waits: "pending_ok dec (tk_asked s) L k p \<and> pn_done p \<in> set (tk_appended s)" if "p \<in> set (pa_acks_pending a)" for p
    using inv k(1) that unfolding content_inv_def by blast
  have released: "pn_done p \<in> set (tk_appended s) \<and> pn_done p < length (tk_asked s)
      \<and> acknowledged dec ?im L (tk_asked s ! pn_done p) (produced a (pn_base_offset p))" if "p \<in> set ps" for p
    using waits [of p] report(3) [of "pn_hw p"] covered that unfolding pending
    by (auto simp: pending_ok_def acknowledged_def)
  have "r \<in> set (tk_appended s) \<and> r < length (tk_asked s) \<and> acknowledged dec ?im L (tk_asked s ! r) resp"
    if "deliver_effects fx (tk_replies s) r = Some resp" for r resp
    using acked_deliver [OF that [unfolded fx]]
  proof
    assume "tk_replies s r = Some resp"
    then have "r \<in> set (tk_appended s) \<and> r < length (tk_asked s) \<and> acknowledged dec (tk_image s) L (tk_asked s ! r) resp"
      using inv unfolding content_inv_def by blast
    then show ?thesis
      using acknowledged_mono [OF _ logs_extend_refl grow] by blast
  qed (use released in blast)
  moreover have "plain_command c" if "c \<in> set (((tk_mailbox s)(k := cs)) k')" for c k'
    using mailbox_tail [OF k(2) that] inv unfolding content_inv_def by blast
  moreover have "\<forall>p \<in> set (pa_acks_pending a'). pending_ok dec (tk_asked s) L k' p \<and> pn_done p \<in> set (tk_appended s)"
    if "map_of ?im k' = Some a'" for k' a'
    using that inv waits pending unfolding content_inv_def by (auto simp: update_conv' split: if_splits)
  ultimately show ?thesis
    unfolding content_inv_def using report(1) by simp
qed

lemma actor_turn_append:
  assumes inv: "content_inv crc dec L s" and k: "map_of (tk_image s) k = Some a" "tk_mailbox s k = Append b acks r # cs"
    and asked: "r < length (tk_asked s)" "tk_asked s ! r = (k, b, acks)"
    and entry: "entry_holds crc (k, b) (k, dec (k, b))" and room: "logs_room (append_logs [(k, dec (k, b))] L)"
    and handle: "actor_handle (\<lambda>_. True) (Append b acks r) a = Ok (a1, fx)"
  shows "content_inv crc dec (append_logs [(k, dec (k, b))] L)
    (s\<lparr>tk_image := AList.update k a1 (tk_image s), tk_mailbox := (tk_mailbox s)(k := cs),
       tk_replies := deliver_effects fx (tk_replies s), tk_appended := tk_appended s @ [r]\<rparr>)"
proof -
  let ?im = "AList.update k a1 (tk_image s)" and ?L = "append_logs [(k, dec (k, b))] L"
  let ?base = "ps_log_end_offset (pa_snapshot a)"
  have im: "image_holds crc (tk_image s) L"
    using inv by (simp add: content_inv_def)
  note append = append_content [where dec = dec and k = k, OF im k(1) entry room handle]
  have grow: "replicas_grow (tk_image s) ?im"
    by (rule replicas_grow_update [OF k(1)]) (simp add: append(3) list_all2_refl)
  have ext: "logs_extend L ?L"
    by (rule append_logs_extend)
  have waits: "pending_ok dec (tk_asked s) ?L k' p \<and> pn_done p \<in> set (tk_appended s)"
    if "map_of (tk_image s) k' = Some a'" "p \<in> set (pa_acks_pending a')" for k' a' p
  proof -
    have "pending_ok dec (tk_asked s) L k' p \<and> pn_done p \<in> set (tk_appended s)"
      using inv that unfolding content_inv_def by blast
    then show ?thesis
      using pending_ok_mono [OF _ ext] by blast
  qed
  have new: "pending_ok dec (tk_asked s) ?L k \<lparr>pn_hw = ?base + ucast (rb_records_count b), pn_base_offset = ?base, pn_done = r\<rparr>"
    if "acks = AcksAll"
    using append(2) asked that by (simp add: pending_ok_def del: append_logs.simps)
  have "\<forall>p \<in> set (pa_acks_pending a'). pending_ok dec (tk_asked s) ?L k' p \<and> pn_done p \<in> set (tk_appended s @ [r])"
    if "map_of ?im k' = Some a'" for k' a'
  proof (cases "k' = k")
    case True
    show ?thesis
      by (rule handle_appendE [OF handle]) (use True that waits [OF k(1)] new in \<open>auto simp: update_conv'\<close>)
  next
    case False
    then show ?thesis
      using that waits by (auto simp: update_conv')
  qed
  moreover have "r' \<in> set (tk_appended s @ [r]) \<and> r' < length (tk_asked s) \<and> acknowledged dec ?im ?L (tk_asked s ! r') resp"
    if got: "deliver_effects fx (tk_replies s) r' = Some resp" for r' resp
  proof -
    have "fx = [] \<or> acks \<noteq> AcksAll \<and> fx = [Produced r (produced a ?base)]"
      by (rule handle_appendE [OF handle]) simp_all
    then consider "r' = r" "acks \<noteq> AcksAll" "resp = produced a ?base" | "tk_replies s r' = Some resp"
      using got by (cases "r' = r") auto
    then show ?thesis
    proof cases
      case 1
      then show ?thesis
        using append(2) asked by (simp add: acknowledged_def del: append_logs.simps)
    next
      case 2
      then have "r' \<in> set (tk_appended s) \<and> r' < length (tk_asked s) \<and> acknowledged dec (tk_image s) L (tk_asked s ! r') resp"
        using inv unfolding content_inv_def by blast
      then show ?thesis
        using acknowledged_mono [OF _ ext grow] by auto
    qed
  qed
  moreover have "plain_command c" if "c \<in> set (((tk_mailbox s)(k := cs)) k')" for c k'
    using mailbox_tail [OF k(2) that] inv unfolding content_inv_def by blast
  ultimately show ?thesis
    unfolding content_inv_def using append(1) by simp
qed

end
