(* ===== verification/Broker_Tasks_Answers.thy ===== *)
theory Broker_Tasks_Answers
  imports Broker_Tasks_Logs
begin

text \<open>
  What the tasks answer: the invariant of the system, and what it says of the requests that have
  been answered.
\<close>

declare split_paired_All [simp del] split_paired_Ex [simp del]

section \<open>The loops\<close>

text \<open>Responses that answer the items of a loop, in order, and a loop that has answered some of them.\<close>

definition topic_answers ::
    "(u8 list \<Rightarrow> 'p \<Rightarrow> 'q \<Rightarrow> bool) \<Rightarrow> u8 list \<times> 'p list \<Rightarrow> u8 list \<times> 'q list \<Rightarrow> bool" where
  "topic_answers R = (\<lambda>(t, ps) (t', qs). t' = t \<and> list_all2 (R t) ps qs)"

definition nested_ok :: "(u8 list \<Rightarrow> 'p \<Rightarrow> 'q \<Rightarrow> bool) \<Rightarrow> (u8 list \<times> 'p list) list \<Rightarrow> ('p, 'q) nested \<Rightarrow> bool" where
  "nested_ok R items n \<longleftrightarrow>
     (\<exists>ts0 qs0. list_all2 (topic_answers R) ts0 (ne_done n)
        \<and> (case ne_left n of
             [] \<Rightarrow> items = ts0
           | (t, ps) # ts \<Rightarrow> items = ts0 @ (t, qs0 @ ps) # ts \<and> list_all2 (R t) qs0 (ne_parts n)))"

lemma nested_ok_new: "nested_ok R items (nested_new items)"
  unfolding nested_ok_def nested_new_def
  by (intro exI [of _ "[]"]) (simp split: list.split prod.split)

lemma nested_ok_push:
  assumes ok: "nested_ok R items n" and left: "ne_left n = (t, p # ps) # ts" and q: "R t p q"
  shows "nested_ok R items (nested_push q n)"
proof -
  obtain ts0 qs0 where "list_all2 (topic_answers R) ts0 (ne_done n)" "items = ts0 @ (t, qs0 @ p # ps) # ts"
    "list_all2 (R t) qs0 (ne_parts n)"
    using ok left by (auto simp: nested_ok_def)
  then show ?thesis
    unfolding nested_ok_def nested_push_def using left q
    by (intro exI [of _ ts0] exI [of _ "qs0 @ [p]"]) (simp add: list_all2_appendI)
qed

lemma nested_ok_close:
  assumes ok: "nested_ok R items n" and left: "ne_left n = (t, []) # ts"
  shows "nested_ok R items (nested_close n)"
proof -
  obtain ts0 qs0 where "list_all2 (topic_answers R) ts0 (ne_done n)" "items = ts0 @ (t, qs0) # ts"
    "list_all2 (R t) qs0 (ne_parts n)"
    using ok left by (auto simp: nested_ok_def)
  then show ?thesis
    unfolding nested_ok_def nested_close_def using left
    by (intro exI [of _ "ts0 @ [(t, qs0)]"] exI [of _ "[]"])
      (simp add: list_all2_appendI topic_answers_def split: list.split prod.split)
qed

lemma nested_ok_done: "nested_ok R items n \<Longrightarrow> ne_left n = [] \<Longrightarrow> list_all2 (topic_answers R) items (ne_done n)"
  by (auto simp: nested_ok_def)

lemma topic_answers_mono:
  "topic_answers R x y \<Longrightarrow> (\<And>t p q. R t p q \<Longrightarrow> R' t p q) \<Longrightarrow> topic_answers R' x y"
  by (cases x; cases y) (auto simp: topic_answers_def elim: list_all2_mono)

lemma nested_ok_mono:
  assumes "nested_ok R items n" and "\<And>t p q. R t p q \<Longrightarrow> R' t p q"
  shows "nested_ok R' items n"
proof -
  obtain ts0 qs0 where "list_all2 (topic_answers R) ts0 (ne_done n)"
    "case ne_left n of [] \<Rightarrow> items = ts0
     | (t, ps) # ts \<Rightarrow> items = ts0 @ (t, qs0 @ ps) # ts \<and> list_all2 (R t) qs0 (ne_parts n)"
    using assms(1) unfolding nested_ok_def by blast
  moreover from this(1) have "list_all2 (topic_answers R') ts0 (ne_done n)"
    by (rule list_all2_mono) (rule topic_answers_mono [OF _ assms(2)])
  ultimately show ?thesis
    unfolding nested_ok_def using assms(2)
    by (intro exI [of _ ts0] exI [of _ qs0]) (auto split: list.splits elim: list_all2_mono)
qed

text \<open>The entries of a loop of appends.\<close>

definition items_entries :: "(u8 list \<times> produce_partition list) list \<Rightarrow> (topic_partition \<times> record_batch) list" where
  "items_entries items = concat (map (\<lambda>(t, ps). map (\<lambda>p. ((t, qp_index p), qp_records p)) ps) items)"

lemma items_entries_simps [simp]:
  "items_entries [] = []" "items_entries ((t, []) # items) = items_entries items"
  "items_entries ((t, p # ps) # items) = ((t, qp_index p), qp_records p) # items_entries ((t, ps) # items)"
  by (simp_all add: items_entries_def)

lemma request_entries_items: "request_entries req = items_entries (produce_items req)"
  by (simp add: request_entries_def items_entries_def produce_items_def comp_def)

lemma nested_ok_entry:
  assumes "nested_ok R items n" and "ne_left n = (t, p # ps) # ts"
  shows "((t, qp_index p), qp_records p) \<in> set (items_entries items)"
  using assms by (auto simp: nested_ok_def items_entries_def)

section \<open>Answers\<close>

definition append_answered ::
    "decoder \<Rightarrow> image \<Rightarrow> logs \<Rightarrow> acks \<Rightarrow> u8 list \<Rightarrow> produce_partition \<Rightarrow> produce_partition_response \<Rightarrow> bool" where
  "append_answered dec im L acks t p q \<longleftrightarrow>
     (if (t, qp_index p) \<in> dom L then acknowledged dec im L ((t, qp_index p), qp_records p, acks) q
      else q = produce_partition_response_error (ucast (qp_index p)) UnknownTopicOrPartition)"

text \<open>A fetch reads the logs as they were at some moment since the start.\<close>

definition fetch_answered ::
    "(u8 list \<Rightarrow> u32) \<Rightarrow> logs \<Rightarrow> logs \<Rightarrow> u8 list \<Rightarrow> fetch_partition \<Rightarrow> partition_response \<Rightarrow> bool" where
  "fetch_answered crc L0 L t p q \<longleftrightarrow> (\<exists>L1. logs_extend L0 L1 \<and> logs_extend L1 L \<and> fetched crc L1 t p q)"

fun body_answered ::
    "(u8 list \<Rightarrow> u32) \<Rightarrow> decoder \<Rightarrow> logs \<Rightarrow> image \<Rightarrow> logs \<Rightarrow> frame_body \<Rightarrow> frame_body \<Rightarrow> bool" where
  "body_answered crc dec L0 im L (Produce req) (ProduceResponse resp) \<longleftrightarrow>
     list_all2 (\<lambda>t r. ptr_topic r = qt_topic t
       \<and> list_all2 (append_answered dec im L (qr_acks req) (qt_topic t)) (qt_partitions t) (ptr_partition_responses r))
     (qr_topics req) (prs_responses resp)"
| "body_answered crc dec L0 im L (Fetch req) (FetchResponse resp) \<longleftrightarrow>
     list_all2 (\<lambda>t r. tr_topic r = ft_topic t
       \<and> list_all2 (fetch_answered crc L0 L (ft_topic t)) (ft_partitions t) (tr_partitions r))
     (nf_topics req) (nr_responses resp)"
| "body_answered crc dec L0 im L _ _ \<longleftrightarrow> False"

lemma produce_items_answered:
  "list_all2 (topic_answers R) (produce_items req) ts \<Longrightarrow>
    list_all2 (\<lambda>t r. ptr_topic r = qt_topic t \<and> list_all2 (R (qt_topic t)) (qt_partitions t) (ptr_partition_responses r))
      (qr_topics req) (map (\<lambda>(t, ps). \<lparr>ptr_topic = t, ptr_partition_responses = ps\<rparr>) ts)"
  unfolding produce_items_def list_all2_map1 list_all2_map2
  by (erule list_all2_mono) (auto simp: topic_answers_def split: prod.splits)

lemma fetch_items_answered:
  "list_all2 (topic_answers R) (fetch_items req) ts \<Longrightarrow>
    list_all2 (\<lambda>t r. tr_topic r = ft_topic t \<and> list_all2 (R (ft_topic t)) (ft_partitions t) (tr_partitions r))
      (nf_topics req) (map (\<lambda>(t, ps). \<lparr>tr_topic = t, tr_partitions = ps\<rparr>) ts)"
  unfolding fetch_items_def list_all2_map1 list_all2_map2
  by (erule list_all2_mono) (auto simp: topic_answers_def split: prod.splits)

lemma append_answered_mono:
  assumes "append_answered dec im L acks t p q" and "logs_extend L L1" and "dom L1 = dom L" and "replicas_grow im im1"
  shows "append_answered dec im1 L1 acks t p q"
  using assms acknowledged_mono [OF _ assms(2,4)] by (simp add: append_answered_def split: if_splits)

lemma fetch_answered_mono:
  "fetch_answered crc L0 L t p q \<Longrightarrow> logs_extend L L1 \<Longrightarrow> fetch_answered crc L0 L1 t p q"
  unfolding fetch_answered_def using logs_extend_trans by blast

lemma body_answered_mono:
  assumes "body_answered crc dec L0 im L req resp" and ext: "logs_extend L L1" "dom L1 = dom L" "replicas_grow im im1"
  shows "body_answered crc dec L0 im1 L1 req resp"
proof (cases "(crc, dec, L0, im, L, req, resp)" rule: body_answered.cases)
  case (1 crc dec L0 im L req resp)
  then show ?thesis
    using assms(1) append_answered_mono [OF _ ext] by (auto elim!: list_all2_mono)
next
  case (2 crc dec L0 im L req resp)
  then show ?thesis
    using assms(1) fetch_answered_mono [OF _ ext(1)] by (auto elim!: list_all2_mono)
qed (use assms(1) in auto)

section \<open>The invariant of a task\<close>

definition entry_ok :: "(u8 list \<Rightarrow> u32) \<Rightarrow> decoder \<Rightarrow> topic_partition \<times> record_batch \<Rightarrow> bool" where
  "entry_ok crc dec x \<longleftrightarrow> entry_holds crc x (fst x, dec x)"

fun task_ok ::
    "(u8 list \<Rightarrow> u32) \<Rightarrow> decoder \<Rightarrow> logs \<Rightarrow> image \<Rightarrow> logs \<Rightarrow> (topic_partition \<times> record_batch \<times> acks) list \<Rightarrow> request_task \<Rightarrow> bool" where
  "task_ok crc dec L0 im L asked (Producing p) \<longleftrightarrow>
     nested_ok (append_answered dec im L (qr_acks (pk_request p))) (produce_items (pk_request p)) (pk_loop p)
     \<and> (\<forall>x \<in> set (request_entries (pk_request p)). entry_ok crc dec x)
     \<and> (\<forall>r. pk_waiting p = Some r \<longrightarrow> r < length asked \<and> (\<exists>t q qs ts. ne_left (pk_loop p) = (t, q # qs) # ts
          \<and> (t, qp_index q) \<in> dom L \<and> asked ! r = ((t, qp_index q), qp_records q, qr_acks (pk_request p))))"
| "task_ok crc dec L0 im L asked (Fetching f) \<longleftrightarrow>
     nested_ok (fetch_answered crc L0 L) (fetch_items (fk_request f)) (fk_loop f)
     \<and> (\<forall>k c. fk_sending f = Some (k, c) \<longrightarrow> (\<exists>i leo. c = UpdateReplicaLeo i leo))"
| "task_ok crc dec L0 im L asked (Answered req resp) \<longleftrightarrow> body_answered crc dec L0 im L req resp"
| "task_ok crc dec L0 im L asked (Aborted req) \<longleftrightarrow> False"

lemma task_ok_mono:
  assumes "task_ok crc dec L0 im L asked t" and ext: "logs_extend L L1" "dom L1 = dom L" "replicas_grow im im1"
    and asked: "\<exists>xs. asked1 = asked @ xs"
  shows "task_ok crc dec L0 im1 L1 asked1 t"
proof (cases t)
  case (Producing p)
  have "nested_ok (append_answered dec im1 L1 (qr_acks (pk_request p))) (produce_items (pk_request p)) (pk_loop p)"
    by (rule nested_ok_mono [where R = "append_answered dec im L (qr_acks (pk_request p))"])
      (use assms(1) Producing append_answered_mono [OF _ ext] in simp_all)
  then show ?thesis
    using assms(1) asked ext(2) Producing by (auto simp: nth_append)
next
  case (Fetching f)
  have "nested_ok (fetch_answered crc L0 L1) (fetch_items (fk_request f)) (fk_loop f)"
    by (rule nested_ok_mono [where R = "fetch_answered crc L0 L"])
      (use assms(1) Fetching fetch_answered_mono [OF _ ext(1)] in simp_all)
  then show ?thesis
    using assms(1) Fetching by simp
next
  case (Answered req resp)
  then show ?thesis
    using assms(1) body_answered_mono [OF _ ext] by simp
qed (use assms(1) in simp)

text \<open>The appends a request asks for, and those it has not sent yet.\<close>

fun requested :: "request_task \<Rightarrow> (topic_partition \<times> record_batch) list" where
  "requested (Producing p) = request_entries (pk_request p)"
| "requested (Answered (Produce req) resp) = request_entries req"
| "requested _ = []"

fun unsent :: "request_task \<Rightarrow> (topic_partition \<times> record_batch) list" where
  "unsent (Producing p) = (if pk_waiting p = None then id else tl) (items_entries (ne_left (pk_loop p)))"
| "unsent _ = []"

abbreviation known :: "logs \<Rightarrow> (topic_partition \<times> record_batch) list \<Rightarrow> (topic_partition \<times> record_batch) multiset" where
  "known L xs \<equiv> mset (filter (\<lambda>x. fst x \<in> dom L) xs)"

text \<open>What a turn of a task does to the rest.\<close>

definition turn_ok ::
    "(u8 list \<Rightarrow> u32) \<Rightarrow> decoder \<Rightarrow> logs \<Rightarrow> logs \<Rightarrow> request_task \<Rightarrow> task_system \<Rightarrow> request_task \<Rightarrow> task_system \<Rightarrow> bool" where
  "turn_ok crc dec L0 L t s t1 s1 \<longleftrightarrow>
     task_ok crc dec L0 (tk_image s) L (tk_asked s1) t1 \<and> content_inv crc dec L s1
     \<and> tk_image s1 = tk_image s \<and> tk_appended s1 = tk_appended s \<and> tk_tasks s1 = tk_tasks s
     \<and> (\<exists>xs. tk_asked s1 = tk_asked s @ xs \<and> (\<forall>x \<in> set xs. entry_ok crc dec (asked_entry x))
          \<and> known L (unsent t) = mset (map asked_entry xs) + known L (unsent t1))
     \<and> requested t1 = requested t"

lemma content_inv_mailbox:
  assumes "content_inv crc dec L s" and "plain_command c"
  shows "content_inv crc dec L (s\<lparr>tk_mailbox := (tk_mailbox s)(k := tk_mailbox s k @ [c])\<rparr>)"
  using assms by (simp add: content_inv_def)

lemma content_inv_asked:
  assumes "content_inv crc dec L s"
  shows "content_inv crc dec L (s\<lparr>tk_asked := tk_asked s @ xs\<rparr>)"
proof -
  have "pending_ok dec (tk_asked s @ xs) L k p" if "pending_ok dec (tk_asked s) L k p" for k p
    using that by (auto simp: pending_ok_def nth_append)
  moreover have "r < length (tk_asked s @ xs) \<and> (tk_asked s @ xs) ! r = tk_asked s ! r" if "r < length (tk_asked s)" for r
    using that by (simp add: nth_append)
  ultimately show ?thesis
    using assms unfolding content_inv_def by simp (metis trans_less_add1)
qed

lemma content_inv_reply:
  assumes "content_inv crc dec L s"
  shows "content_inv crc dec L (s\<lparr>tk_replies := (tk_replies s)(r := None)\<rparr>)"
  using assms by (simp add: content_inv_def)

lemma produce_turn_ok:
  assumes ok: "task_ok crc dec L0 (tk_image s) L (tk_asked s) (Producing p)" and inv: "content_inv crc dec L s"
    and turn: "produce_turn cap e p s = Some (s1, t1)"
  shows "turn_ok crc dec L0 L (Producing p) s t1 s1"
proof -
  have im: "image_holds crc (tk_image s) L"
    using inv by (simp add: content_inv_def)
  have loop: "nested_ok (append_answered dec (tk_image s) L (qr_acks (pk_request p))) (produce_items (pk_request p)) (pk_loop p)"
    using ok by simp
  have waits: "\<exists>t q qs ts. ne_left (pk_loop p) = (t, q # qs) # ts" if "pk_waiting p = Some r" for r
    using ok that by auto
  from turn show ?thesis
  proof (cases rule: produce_turnE)
    case finish
    then have "pk_waiting p = None"
      using waits by (cases "pk_waiting p") auto
    then show ?thesis
      using finish nested_ok_done [OF loop finish(2)] inv
      by (simp add: turn_ok_def produce_answer_body_def produce_items_answered)
  next
    case (close t ts)
    then have "pk_waiting p = None"
      using waits by (cases "pk_waiting p") auto
    then show ?thesis
      using close nested_ok_close [OF loop close(2)] ok inv by (simp add: turn_ok_def nested_close_def)
  next
    case (unknown t q qs ts)
    have no: "(t, qp_index q) \<notin> dom L"
      using unknown(4) im by (simp add: image_holds_None domIff)
    have "nested_ok (append_answered dec (tk_image s) L (qr_acks (pk_request p))) (produce_items (pk_request p))
        (nested_push (produce_partition_response_error (ucast (qp_index q)) UnknownTopicOrPartition) (pk_loop p))"
      by (rule nested_ok_push [OF loop unknown(2)]) (simp add: append_answered_def no)
    then show ?thesis
      using unknown no ok inv by (simp add: turn_ok_def nested_push_def)
  next
    case (send t q qs ts a)
    let ?x = "((t, qp_index q), qp_records q, qr_acks (pk_request p))"
    have yes: "(t, qp_index q) \<in> dom L"
      using send(3) image_holds_Some [OF im] by blast
    have entry: "entry_ok crc dec (asked_entry ?x)"
      using ok nested_ok_entry [OF loop send(1)] by (simp add: asked_entry_def request_entries_items)
    have "content_inv crc dec L s1"
      using content_inv_asked [OF content_inv_mailbox [OF inv]] by (simp add: send(4))
    then show ?thesis
      using send yes ok entry by (auto simp: turn_ok_def asked_entry_def)
  next
    case (receive t q qs ts reply resp)
    have yes: "(t, qp_index q) \<in> dom L" and asked: "tk_asked s ! reply = ((t, qp_index q), qp_records q, qr_acks (pk_request p))"
      using ok receive(1,2) by auto
    have "acknowledged dec (tk_image s) L (tk_asked s ! reply) resp"
      using inv receive(3) unfolding content_inv_def by blast
    then have "nested_ok (append_answered dec (tk_image s) L (qr_acks (pk_request p))) (produce_items (pk_request p))
        (nested_push resp (pk_loop p))"
      by (intro nested_ok_push [OF loop receive(1)]) (simp add: append_answered_def yes asked)
    moreover have "content_inv crc dec L s1"
      using content_inv_reply [OF inv] by (simp add: receive(4))
    ultimately show ?thesis
      using receive ok by (simp add: turn_ok_def nested_push_def)
  qed
qed

lemma fetch_turn_ok:
  assumes ok: "task_ok crc dec L0 (tk_image s) L (tk_asked s) (Fetching f)" and inv: "content_inv crc dec L s"
    and e: "bytes_crate (en_bytes e)" "en_crc e = crc" and ext: "logs_extend L0 L"
    and turn: "fetch_turn cap e f s = Some (s1, t1)"
  shows "turn_ok crc dec L0 L (Fetching f) s t1 s1"
proof -
  have im: "image_holds crc (tk_image s) L"
    using inv by (simp add: content_inv_def)
  have loop: "nested_ok (fetch_answered crc L0 L) (fetch_items (fk_request f)) (fk_loop f)"
    using ok by simp
  have now: "fetch_answered crc L0 L t q res" if "fetched crc L t q res" for t q res
    using that ext unfolding fetch_answered_def by (intro exI [of _ L]) simp
  from turn show ?thesis
  proof (cases rule: fetch_turnE)
    case (report k c)
    then have "plain_command c"
      using ok by auto
    then show ?thesis
      using content_inv_mailbox [OF inv] report ok by (simp add: turn_ok_def)
  next
    case finish
    then show ?thesis
      using nested_ok_done [OF loop finish(3)] inv
      by (simp add: turn_ok_def fetch_answer_body_def fetch_items_answered)
  next
    case (close t ts)
    then show ?thesis
      using nested_ok_close [OF loop close(3)] ok inv by (simp add: turn_ok_def)
  next
    case (unknown t q qs ts)
    have "fetched crc L t q (partition_response_error (fp_partition q) UnknownTopicOrPartition)"
      using unknown(4) im by (simp add: fetched_def image_holds_None)
    then show ?thesis
      using nested_ok_push [OF loop unknown(3) now] unknown ok inv by (simp add: turn_ok_def)
  next
    case (read t q qs ts a res cmds)
    have "fetched crc L t q res \<and> (cmds = [] \<or> (\<exists>leo. cmds = [UpdateReplicaLeo (nf_replica_id (fk_request f)) leo]))"
      using handle_fetch_logs [of e "tk_image s" L t q a "nf_replica_id (fk_request f)"] e im read(4,5) by auto
    then show ?thesis
      using nested_ok_push [OF loop read(3) now] read ok inv by (auto simp: turn_ok_def)
  next
    case (abort t q qs ts a)
    then show ?thesis
      using handle_fetch_logs [of e "tk_image s" L t q a "nf_replica_id (fk_request f)"] e im by auto
  qed
qed

section \<open>The invariant of the system\<close>

definition system_inv :: "(u8 list \<Rightarrow> u32) \<Rightarrow> decoder \<Rightarrow> logs \<Rightarrow> task_system \<Rightarrow> bool" where
  "system_inv crc dec L0 s \<longleftrightarrow>
     queue_inv (tk_mailbox s) (tk_asked s) (tk_appended s) (waited (tk_tasks s))
     \<and> content_inv crc dec (logs_now dec L0 s) s
     \<and> (\<forall>t \<in> set (tk_tasks s). task_ok crc dec L0 (tk_image s) (logs_now dec L0 s) (tk_asked s) t)
     \<and> (\<forall>x \<in> set (tk_asked s). entry_ok crc dec (asked_entry x))
     \<and> mset (map asked_entry (tk_asked s)) + (\<Sum>t\<leftarrow>tk_tasks s. known L0 (unsent t)) =
         (\<Sum>t\<leftarrow>tk_tasks s. known L0 (requested t))"

text \<open>The appends that arrive hold records, and the crates are those of the system.\<close>

fun event_ok :: "(u8 list \<Rightarrow> u32) \<Rightarrow> decoder \<Rightarrow> task_event \<Rightarrow> bool" where
  "event_ok crc dec (Arrives (Produce req)) \<longleftrightarrow> (\<forall>x \<in> set (request_entries req). entry_ok crc dec x)"
| "event_ok crc dec (TaskTurn i e) \<longleftrightarrow> bytes_crate (en_bytes e) \<and> en_crc e = crc"
| "event_ok crc dec _ \<longleftrightarrow> True"

lemma dom_logs_now [simp]: "dom (logs_now dec L0 s) = dom L0"
  by (simp add: logs_now_def)

lemma logs_now_extend: "logs_extend L0 (logs_now dec L0 s)"
  by (simp add: logs_now_def append_logs_extend)

lemma logs_now_tasks [simp]: "logs_now dec L0 (s\<lparr>tk_tasks := ts\<rparr>) = logs_now dec L0 s"
  by (simp add: logs_now_def written_def)

lemma content_inv_tasks [simp]: "content_inv crc dec L (s\<lparr>tk_tasks := ts\<rparr>) = content_inv crc dec L s"
  by (simp add: content_inv_def)

lemma sum_list_upd:
  fixes f :: "'a \<Rightarrow> 'b :: comm_monoid_add"
  assumes "i < length xs"
  shows "(\<Sum>x\<leftarrow>xs[i := y]. f x) + f (xs ! i) = (\<Sum>x\<leftarrow>xs. f x) + f y"
  using assms by (induction xs arbitrary: i) (auto split: nat.split simp: ac_simps)

lemma account_step:
  fixes A :: "'a :: cancel_comm_monoid_add"
  assumes "U' + (x + u') = U + u'" and "R' + r = R + r" and "A + U = R"
  shows "A + x + U' = R'"
proof -
  have "U' + x = U"
    using assms(1) by (simp flip: add.assoc)
  moreover have "R' = R"
    using assms(2) by simp
  ultimately show ?thesis
    using assms(3) by (simp add: ac_simps)
qed

lemma system_inv_start:
  assumes "image_holds crc im L0" and "\<forall>k a. map_of im k = Some a \<longrightarrow> pa_acks_pending a = []"
  shows "system_inv crc dec L0 (tasks_start im)"
  using assms
  by (auto simp: system_inv_def tasks_start_def queue_inv_def queued_def content_inv_def logs_now_def written_def)

lemma system_inv_arrives:
  assumes inv: "system_inv crc dec L0 s" and ev: "event_ok crc dec (Arrives body)" and new: "task_new body = Some t"
  shows "system_inv crc dec L0 (s\<lparr>tk_tasks := tk_tasks s @ [t]\<rparr>)"
proof -
  have t: "task_ok crc dec L0 (tk_image s) (logs_now dec L0 s) (tk_asked s) t" "unsent t = requested t" "waiting_for t = None"
    using new ev nested_ok_new by (cases body; auto simp: nested_new_def request_entries_items)+
  have "waited (tk_tasks s @ [t]) = waited (tk_tasks s)"
    by (simp add: waited_def t(3))
  then show ?thesis
    using inv t by (auto simp: system_inv_def)
qed

lemma system_inv_task:
  assumes inv: "system_inv crc dec L0 s" and ev: "event_ok crc dec (TaskTurn i e)" and i: "i < length (tk_tasks s)"
    and turn: "task_turn cap e (tk_tasks s ! i) s = Some (s1, t1)"
  shows "system_inv crc dec L0 (s1\<lparr>tk_tasks := (tk_tasks s)[i := t1]\<rparr>)"
proof -
  let ?L = "logs_now dec L0 s" and ?t = "tk_tasks s ! i"
  have content: "content_inv crc dec ?L s" and all: "\<forall>t \<in> set (tk_tasks s). task_ok crc dec L0 (tk_image s) ?L (tk_asked s) t"
    and queue: "queue_inv (tk_mailbox s) (tk_asked s) (tk_appended s) (waited (tk_tasks s))"
    using inv by (simp_all add: system_inv_def)
  have ok: "task_ok crc dec L0 (tk_image s) ?L (tk_asked s) ?t"
    using all i by simp
  have "turn_ok crc dec L0 ?L ?t s t1 s1"
  proof (cases ?t)
    case (Producing p)
    then show ?thesis
      using produce_turn_ok [of crc dec L0 s ?L p] ok content turn by simp
  next
    case (Fetching f)
    then show ?thesis
      using fetch_turn_ok [of crc dec L0 s ?L f e cap] ok content turn ev logs_now_extend by simp
  qed (use turn in auto)
  then obtain xs where t1: "task_ok crc dec L0 (tk_image s) ?L (tk_asked s1) t1" and content1: "content_inv crc dec ?L s1"
    and same: "tk_image s1 = tk_image s" "tk_appended s1 = tk_appended s" "tk_tasks s1 = tk_tasks s" "requested t1 = requested ?t"
    and asked: "tk_asked s1 = tk_asked s @ xs" and entries: "\<forall>x \<in> set xs. entry_ok crc dec (asked_entry x)"
    and sent: "known L0 (unsent ?t) = mset (map asked_entry xs) + known L0 (unsent t1)"
    by (auto simp: turn_ok_def)
  have "\<forall>r \<in> set (tk_appended s). r < length (tk_asked s)"
    using queue by (simp add: queue_inv_def)
  then have logs: "logs_now dec L0 s1 = ?L"
    by (simp add: logs_now_def written_def same asked nth_append cong: map_cong)
  have "task_ok crc dec L0 (tk_image s) ?L (tk_asked s1) t" if "t \<in> set (tk_tasks s)" for t
    using task_ok_mono [of crc dec L0 "tk_image s" ?L "tk_asked s" t ?L "tk_image s" "tk_asked s1"] all that asked by simp
  then have tasks: "\<forall>t \<in> set ((tk_tasks s)[i := t1]). task_ok crc dec L0 (tk_image s) ?L (tk_asked s1) t"
    using t1 set_update_subset_insert [of "tk_tasks s" i t1] by auto
  have "\<forall>k c. to_report ?t = Some (k, c) \<longrightarrow> append_reply c = []"
    using ok by (cases ?t) auto
  moreover have "\<forall>p. ?t = Producing p \<longrightarrow> pk_waiting p \<noteq> None \<longrightarrow> ne_left (pk_loop p) \<noteq> []"
    using ok by auto
  moreover have "dom (tk_replies s) \<subseteq> set (tk_appended s)"
    using content by (auto simp: content_inv_def)
  ultimately have queue1: "queue_inv (tk_mailbox s1) (tk_asked s1) (tk_appended s1) (waited ((tk_tasks s)[i := t1]))"
    using task_turn_queue [OF queue _ i _ _ turn] by blast
  have "(\<Sum>t\<leftarrow>(tk_tasks s)[i := t1]. known L0 (unsent t)) + known L0 (unsent ?t) =
      (\<Sum>t\<leftarrow>tk_tasks s. known L0 (unsent t)) + known L0 (unsent t1)"
    by (rule sum_list_upd [OF i])
  moreover have "(\<Sum>t\<leftarrow>(tk_tasks s)[i := t1]. known L0 (requested t)) + known L0 (requested ?t) =
      (\<Sum>t\<leftarrow>tk_tasks s. known L0 (requested t)) + known L0 (requested t1)"
    by (rule sum_list_upd [OF i])
  moreover have "mset (map asked_entry (tk_asked s)) + (\<Sum>t\<leftarrow>tk_tasks s. known L0 (unsent t)) = (\<Sum>t\<leftarrow>tk_tasks s. known L0 (requested t))"
    using inv by (simp add: system_inv_def)
  ultimately have "mset (map asked_entry (tk_asked s1)) + (\<Sum>t\<leftarrow>(tk_tasks s)[i := t1]. known L0 (unsent t)) =
      (\<Sum>t\<leftarrow>(tk_tasks s)[i := t1]. known L0 (requested t))"
    unfolding asked same(4) sent map_append mset_append by (rule account_step)
  then show ?thesis
    using inv content1 tasks queue1 entries unfolding system_inv_def by (auto simp: logs same asked)
qed

lemma system_inv_actor:
  assumes inv: "system_inv crc dec L0 s" and turn: "actor_turn k s = Some s1" and room: "logs_room (logs_now dec L0 s1)"
  shows "system_inv crc dec L0 s1"
proof -
  let ?L = "logs_now dec L0 s" and ?L1 = "logs_now dec L0 s1"
  have queue: "queue_inv (tk_mailbox s) (tk_asked s) (tk_appended s) (waited (tk_tasks s))"
    and content: "content_inv crc dec ?L s"
    using inv by (simp_all add: system_inv_def)
  then have im: "image_holds crc (tk_image s) ?L"
    by (simp add: content_inv_def)
  obtain a c cs a1 fx where k: "map_of (tk_image s) k = Some a" "tk_mailbox s k = c # cs"
    and handle: "actor_handle (\<lambda>_. True) c a = Ok (a1, fx)"
    and s1: "s1 = s\<lparr>tk_image := AList.update k a1 (tk_image s), tk_mailbox := (tk_mailbox s)(k := cs),
            tk_replies := deliver_effects fx (tk_replies s), tk_appended := tk_appended s @ append_reply c\<rparr>"
    using turn by (rule actor_turnE)
  have queue1: "queue_inv (tk_mailbox s1) (tk_asked s1) (tk_appended s1) (waited (tk_tasks s1))"
    using queue_inv_take [OF queue k(2)] by (simp add: s1)
  have "plain_command c"
    using content k(2) unfolding content_inv_def by (metis list.set_intros(1))
  then have "content_inv crc dec ?L1 s1 \<and> logs_extend ?L ?L1 \<and> replicas_grow (tk_image s) (tk_image s1)"
  proof (cases c)
    case (Append b acks r)
    have asked: "r < length (tk_asked s)" "tk_asked s ! r = (k, b, acks)"
      using queue k(2) Append unfolding queue_inv_def by (metis list.set_intros(1))+
    then have entry: "entry_holds crc (k, b) (k, dec (k, b))"
      using inv nth_mem [OF asked(1)] by (auto simp: system_inv_def entry_ok_def asked_entry_def)
    have L1: "?L1 = append_logs [(k, dec (k, b))] ?L"
      by (simp add: logs_now_def written_def s1 Append asked asked_entry_def append_logs_append)
    have handle: "actor_handle (\<lambda>_. True) (Append b acks r) a = Ok (a1, fx)"
      using handle by (simp only: Append)
    have "content_inv crc dec ?L1 s1"
      using actor_turn_append [where dec = dec and k = k, OF content k(1) k(2) [unfolded Append] asked entry room [unfolded L1] handle]
      unfolding L1 by (simp add: s1 Append)
    moreover have "replicas_grow (tk_image s) (tk_image s1)"
      using append_content(3) [where dec = dec and k = k, OF im k(1) entry room [unfolded L1] handle]
      by (simp add: s1 replicas_grow_update [OF k(1)] list_all2_refl)
    ultimately show ?thesis
      by (simp add: L1 append_logs_extend del: append_logs.simps)
  next
    case (UpdateReplicaLeo i leo)
    have L1: "?L1 = ?L"
      by (simp add: logs_now_def written_def s1 UpdateReplicaLeo)
    have handle: "actor_handle (\<lambda>_. True) (UpdateReplicaLeo i leo) a = Ok (a1, fx)"
      using handle by (simp only: UpdateReplicaLeo)
    have "content_inv crc dec ?L1 s1"
      using actor_turn_report [OF content k(1) k(2) [unfolded UpdateReplicaLeo] handle]
      unfolding L1 by (simp add: s1 UpdateReplicaLeo content_inv_def)
    moreover have "replicas_grow (tk_image s) (tk_image s1)"
      using report_content(2) [OF im k(1) handle] by (simp add: s1 replicas_grow_update [OF k(1)])
    ultimately show ?thesis
      by (simp add: L1)
  qed simp_all
  then have content1: "content_inv crc dec ?L1 s1" and ext: "logs_extend ?L ?L1" "replicas_grow (tk_image s) (tk_image s1)"
    by simp_all
  have "\<forall>t \<in> set (tk_tasks s). task_ok crc dec L0 (tk_image s1) ?L1 (tk_asked s) t"
    using inv task_ok_mono [OF _ ext(1) _ ext(2), of crc dec L0 "tk_asked s" _ "tk_asked s"] by (auto simp: system_inv_def)
  then show ?thesis
    using inv queue1 content1 unfolding system_inv_def by (simp add: s1)
qed

section \<open>Runs\<close>

text \<open>The numbers of the appends, which the logs are read with, whatever the logs.\<close>

definition numbers_ok :: "task_system \<Rightarrow> bool" where
  "numbers_ok s \<longleftrightarrow>
     (\<forall>r \<in> set (tk_appended s). r < length (tk_asked s))
     \<and> (\<forall>k. \<forall>c \<in> set (tk_mailbox s k). \<forall>r \<in> set (append_reply c). r < length (tk_asked s))
     \<and> (\<forall>t \<in> set (tk_tasks s). \<forall>k c. to_report t = Some (k, c) \<longrightarrow> append_reply c = [])"

lemma handle_fetch_reports:
  "handle_fetch B crc i a q replica_id = Some (Ok (res, cmds)) \<Longrightarrow> c \<in> set cmds \<Longrightarrow> append_reply c = []"
  by (auto simp: handle_fetch_def omap_eq_Ok split: if_splits)

text \<open>A turn of a task sends commands and numbers appends; nothing is written.\<close>

lemma task_turn_numbers:
  assumes ok: "numbers_ok s" and i: "i < length (tk_tasks s)" and turn: "task_turn cap e (tk_tasks s ! i) s = Some (s1, t1)"
  shows "tk_appended s1 = tk_appended s \<and> (\<exists>xs. tk_asked s1 = tk_asked s @ xs)
    \<and> (\<forall>k. \<forall>c \<in> set (tk_mailbox s1 k). c \<in> set (tk_mailbox s k) \<or> (\<forall>r \<in> set (append_reply c). r < length (tk_asked s1)))
    \<and> (\<forall>k c. to_report t1 = Some (k, c) \<longrightarrow> append_reply c = [])"
proof (cases "tk_tasks s ! i")
  case (Producing p)
  then have "produce_turn cap e p s = Some (s1, t1)"
    using turn by simp
  then show ?thesis
    by (cases rule: produce_turnE) simp_all
next
  case (Fetching f)
  have sending: "append_reply c = []" if "fk_sending f = Some (k, c)" for k c
    using ok i Fetching that nth_mem [OF i] unfolding numbers_ok_def by (metis to_report.simps(1))
  have "fetch_turn cap e f s = Some (s1, t1)"
    using turn Fetching by simp
  then show ?thesis
  proof (cases rule: fetch_turnE)
    case (read t q qs ts a res cmds)
    then show ?thesis
      using handle_fetch_reports [OF read(5)] by (auto split: list.splits)
  qed (use sending in auto)
qed (use turn in auto)

lemma step_numbers:
  assumes "task_step cap s ev s1" and ok: "numbers_ok s"
  shows "numbers_ok s1 \<and> (\<exists>xs. written s1 = written s @ xs)"
  using assms(1)
proof cases
  case (arrives body t)
  then have "to_report t = None"
    by (cases body) auto
  then show ?thesis
    using arrives ok by (auto simp: numbers_ok_def written_def)
next
  case (task i e s2 t)
  note turn = task_turn_numbers [OF ok task(3,4)]
  then obtain xs where asked: "tk_asked s2 = tk_asked s @ xs"
    by blast
  have "\<forall>t' \<in> set ((tk_tasks s)[i := t]). \<forall>k c. to_report t' = Some (k, c) \<longrightarrow> append_reply c = []"
    using turn ok set_update_subset_insert [of "tk_tasks s" i t] unfolding numbers_ok_def by blast
  moreover have "\<forall>c \<in> set (tk_mailbox s2 k). \<forall>r \<in> set (append_reply c). r < length (tk_asked s2)" for k
    using turn ok asked unfolding numbers_ok_def by (metis length_append trans_less_add1)
  moreover have "\<forall>r \<in> set (tk_appended s2). r < length (tk_asked s2)"
    using turn ok asked unfolding numbers_ok_def by (metis length_append trans_less_add1)
  moreover have "written s2 = written s"
    using turn ok asked by (simp add: written_def numbers_ok_def nth_append cong: map_cong)
  ultimately show ?thesis
    using task(2) by (simp add: numbers_ok_def) (simp add: written_def)
next
  case (actor k)
  obtain a c cs a1 fx where k: "tk_mailbox s k = c # cs"
    and s1: "s1 = s\<lparr>tk_image := AList.update k a1 (tk_image s), tk_mailbox := (tk_mailbox s)(k := cs),
            tk_replies := deliver_effects fx (tk_replies s), tk_appended := tk_appended s @ append_reply c\<rparr>"
    using actor(2) by (rule actor_turnE)
  have "\<forall>r \<in> set (append_reply c). r < length (tk_asked s)"
    using ok k unfolding numbers_ok_def by (metis list.set_intros(1))
  moreover have "\<forall>c' \<in> set (((tk_mailbox s)(k := cs)) k'). \<forall>r \<in> set (append_reply c'). r < length (tk_asked s)" for k'
    using ok mailbox_tail [where mb = "tk_mailbox s", OF k] unfolding numbers_ok_def by blast
  ultimately show ?thesis
    using ok unfolding numbers_ok_def by (auto simp: s1 written_def)
qed

lemma system_inv_run:
  assumes "tasks_run cap (tasks_start im) evs s"
    and start: "image_holds crc im L0" "\<forall>k a. map_of im k = Some a \<longrightarrow> pa_acks_pending a = []"
    and "\<forall>ev \<in> set evs. event_ok crc dec ev" and "logs_room (logs_now dec L0 s)"
  shows "system_inv crc dec L0 s"
proof -
  have "numbers_ok s \<and> (logs_room (logs_now dec L0 s) \<longrightarrow> system_inv crc dec L0 s)"
    using assms(1,4)
  proof (induction rule: tasks_run.induct)
    case tasks_nil
    then show ?case
      using system_inv_start [OF start] by (simp add: numbers_ok_def tasks_start_def)
  next
    case (tasks_snoc evs s ev s')
    then have ok: "numbers_ok s" and inv: "logs_room (logs_now dec L0 s) \<Longrightarrow> system_inv crc dec L0 s" and ev: "event_ok crc dec ev"
      by simp_all
    obtain xs where xs: "written s' = written s @ xs" and ok': "numbers_ok s'"
      using step_numbers [OF tasks_snoc.hyps(2) ok] by blast
    have "logs_extend (logs_now dec L0 s) (logs_now dec L0 s')"
      by (simp add: logs_now_def xs append_logs_append append_logs_extend)
    then have inv: "system_inv crc dec L0 s" if "logs_room (logs_now dec L0 s')"
      using inv logs_room_extend that by blast
    have "system_inv crc dec L0 s'" if room: "logs_room (logs_now dec L0 s')"
      using tasks_snoc.hyps(2)
    proof cases
      case (arrives body t)
      then show ?thesis
        using system_inv_arrives [OF inv [OF room]] ev by simp
    next
      case (task i e s1 t)
      then show ?thesis
        using system_inv_task [OF inv [OF room] _ task(3,4)] ev by simp
    next
      case (actor k)
      then show ?thesis
        using system_inv_actor [OF inv [OF room] actor(2) room] by simp
    qed
    with ok' show ?case
      by blast
  qed
  with assms(5) show ?thesis
    by blast
qed

lemma all_sent:
  "\<forall>t \<in> set ts. \<exists>req resp. t = Answered req resp \<Longrightarrow> (\<Sum>t\<leftarrow>ts. known L (unsent t)) = {#}"
  by (induction ts) auto

text \<open>What was written of what the requests ask for: some of it, each append once, and in the end all.\<close>

lemma written_once:
  assumes inv: "system_inv crc dec L0 s"
  shows "mset (written s) \<subseteq># (\<Sum>t\<leftarrow>tk_tasks s. known L0 (requested t))"
    and "\<forall>t \<in> set (tk_tasks s). \<exists>req resp. t = Answered req resp \<Longrightarrow>
      mset (written s) = (\<Sum>t\<leftarrow>tk_tasks s. known L0 (requested t))"
proof -
  let ?asked = "mset (map asked_entry (tk_asked s))" and ?entry = "\<lambda>r. asked_entry (tk_asked s ! r)"
  have queue: "queue_inv (tk_mailbox s) (tk_asked s) (tk_appended s) (waited (tk_tasks s))"
    and account: "?asked + (\<Sum>t\<leftarrow>tk_tasks s. known L0 (unsent t)) = (\<Sum>t\<leftarrow>tk_tasks s. known L0 (requested t))"
    using inv by (simp_all add: system_inv_def)
  have dis: "distinct (tk_appended s)" and sub: "set (tk_appended s) \<subseteq> {0..<length (tk_asked s)}"
    using queue by (auto simp: queue_inv_def)
  have "map asked_entry (tk_asked s) = map ?entry [0..<length (tk_asked s)]"
    by (rule nth_equalityI) simp_all
  then have asked: "?asked = image_mset ?entry (mset [0..<length (tk_asked s)])"
    by (metis mset_map)
  have written: "mset (written s) = image_mset ?entry (mset (tk_appended s))"
    by (simp add: written_def)
  have "mset (tk_appended s) \<subseteq># mset [0..<length (tk_asked s)]"
    using dis sub by (simp add: mset_set_set [symmetric] subset_imp_msubset_mset_set)
  then have "mset (written s) \<subseteq># ?asked"
    unfolding asked written by (rule image_mset_subseteq_mono)
  then show "mset (written s) \<subseteq># (\<Sum>t\<leftarrow>tk_tasks s. known L0 (requested t))"
    unfolding account [symmetric] by (rule subset_mset.order_trans [OF _ mset_subset_eq_add_left])
  assume ready: "\<forall>t \<in> set (tk_tasks s). \<exists>req resp. t = Answered req resp"
  then have "waited (tk_tasks s) = {}"
    by (force simp: waited_def)
  then have "set (tk_appended s) = {0..<length (tk_asked s)}"
    using queue sub queue_inv_queued [OF queue] unfolding queue_inv_def by (fastforce simp: queued_iff)
  then have "mset (tk_appended s) = mset [0..<length (tk_asked s)]"
    using dis by (simp add: mset_set_set [symmetric])
  then have "mset (written s) = ?asked"
    unfolding asked written by (rule arg_cong)
  then show "mset (written s) = (\<Sum>t\<leftarrow>tk_tasks s. known L0 (requested t))"
    using account all_sent [OF ready] by simp
qed

section \<open>A produce request that waits for a replica\<close>

definition await_request :: produce_request where
  "await_request =
     \<lparr>qr_transactional_id = 0, qr_acks = AcksAll, qr_timeout = 0,
      qr_topics = [\<lparr>qt_topic = [116], qt_partitions = [\<lparr>qp_index = 0, qp_records = sample_produce\<rparr>]\<rparr>]\<rparr>"

definition replica_request :: net_fetch_request where
  "replica_request =
     \<lparr>nf_replica_id = 7, nf_max_bytes = 4096,
      nf_topics = [\<lparr>ft_topic = [116], ft_partitions = [fetch_partition_from 0]\<rparr>]\<rparr>"

text \<open>An append that waits until the one replica has fetched.\<close>

lemma append_awaits:
  assumes "ps_replicas (pa_snapshot a) = [r]" "rm_replica_id r = i" "pa_acks_pending a = []"
  shows "\<exists>a1. actor_handle alive (Append b AcksAll n) a = Ok (a1, [])
    \<and> pa_fs a1 = pa_fs (actor_append b a) \<and> pa_snapshot a1 = pa_snapshot (actor_append b a)
    \<and> (alive n \<longrightarrow> (\<exists>a2 resp. actor_handle alive (UpdateReplicaLeo i (ps_log_end_offset (pa_snapshot a1))) a1 = Ok (a2, [Produced n resp])))"
proof -
  define a1 where "a1 = (actor_append b a)\<lparr>pa_acks_pending := [\<lparr>pn_hw = ps_log_end_offset (pa_snapshot (actor_append b a)),
      pn_base_offset = ps_log_end_offset (pa_snapshot a), pn_done = n\<rparr>]\<rparr>"
  have "actor_handle alive (Append b AcksAll n) a = Ok (a1, [])"
    using assms(3) by (simp add: a1_def Let_def)
  moreover have "\<exists>a2 resp. actor_handle alive (UpdateReplicaLeo i (ps_log_end_offset (pa_snapshot a1))) a1 = Ok (a2, [Produced n resp])"
    if "alive n"
    using assms(1,2) that by (simp add: a1_def release_acks_spec Let_def ack_effect_def actor_append_snapshot ack_replica_watermark)
  ultimately show ?thesis
    by (auto simp: a1_def)
qed

definition await_events :: "task_event list" where
  "await_events =
     [Arrives (Produce await_request), TaskTurn 0 sample_env, ActorTurn ([116], 0),
      Arrives (Fetch replica_request), TaskTurn 1 sample_env, TaskTurn 1 sample_env, ActorTurn ([116], 0),
      TaskTurn 0 sample_env, TaskTurn 0 sample_env, TaskTurn 0 sample_env]"

lemma await_exec:
  assumes "ps_replicas (pa_snapshot a) = [r]" "rm_replica_id r = 7" "pa_acks_pending a = []"
    and log: "log_holds (\<lambda>bs. 7) a [] []"
  shows "\<exists>s resp t. tasks_exec 1 await_events (tasks_start [(([116], 0), a)]) = Some s
    \<and> tk_tasks s = [Answered (Produce await_request) (produce_answer_body sample_env [([116], [resp])]), t]
    \<and> tk_asked s = [(([116], 0), sample_produce, AcksAll)] \<and> tk_appended s = [0]"
proof -
  obtain a1 where append: "actor_handle (\<lambda>_. True) (Append sample_produce AcksAll 0) a = Ok (a1, [])"
    and a1: "pa_fs a1 = pa_fs (actor_append sample_produce a)" "pa_snapshot a1 = pa_snapshot (actor_append sample_produce a)"
    and "\<exists>a2 resp. actor_handle (\<lambda>_. True) (UpdateReplicaLeo 7 (ps_log_end_offset (pa_snapshot a1))) a1 = Ok (a2, [Produced 0 resp])"
    using append_awaits [OF assms(1-3), of "\<lambda>_. True" sample_produce 0] by auto
  then obtain a2 resp where release: "actor_handle (\<lambda>_. True) (UpdateReplicaLeo 7 (ps_log_end_offset (pa_snapshot a1))) a1 = Ok (a2, [Produced 0 resp])"
    by blast
  have "rebased sample_records \<noteq> []" and "length (rebased sample_records) < 2 ^ 64"
    by (auto simp: rebased_def sample_records_def)
  then have stored: "log_holds (\<lambda>bs. 7) (actor_append sample_produce a)
      ([] @ [batch_update_base_offset (of_nat (length (concat ([] :: msg_record list list)))) sample_produce]) ([] @ [rebased sample_records])"
    using sample_produce_length
    by (intro log_holds_append [OF log sample_produce_stored _ sample_produce_holds(2)])
      (simp_all add: length_batch_layout)
  obtain res where "state_fetch list_bytes (\<lambda>bs. 7) (fs_data (pa_fs a1)) (pa_snapshot a1) 0 (fetch_partition_from 0) = Some (Ok res)"
    using list_bytes.state_fetch_holds [OF stored, of "fetch_partition_from 0" 0] a1
    by (auto simp: fetch_partition_from_def length_sample_records)
  then have fetch: "handle_fetch list_bytes (\<lambda>bs. 7) 0 a1 (fetch_partition_from 0) 7 = Some (Ok (res, [UpdateReplicaLeo 7 (ps_log_end_offset (pa_snapshot a1))]))"
    by (auto simp: handle_fetch_def state_fetch_def omap_eq_Ok Let_def split: if_splits)
  have env: "en_bytes sample_env = list_bytes" "en_crc sample_env = (\<lambda>bs. 7)"
    by (simp_all add: sample_env_def)
  have part: "fp_partition (fetch_partition_from 0) = 0"
    by (simp add: fetch_partition_from_def)
  show ?thesis
    unfolding await_events_def
    using append release fetch part env
    by (simp add: tasks_start_def await_request_def replica_request_def produce_items_def fetch_items_def nested_new_def
        produce_turn_def fetch_turn_def nested_push_def nested_close_def mailbox_send_def actor_turn_def Let_def
        del: actor_handle.simps) (rule exI, rule refl)
qed

lemma replica_actor_exists:
  "\<exists>a. pa_acks_pending a = [] \<and> log_holds (\<lambda>bs. 7) a [] [] \<and> ps_replicas (pa_snapshot a) = [replica_empty [98] 7]"
proof -
  have "0 < pc_segment_bytes replica_config"
    by (simp add: replica_config_def sample_config_def)
  then obtain a where new: "actor_new replica_config [] fs_empty = Some (Ok a)"
    and "log_holds (\<lambda>bs. 7) a [] []" and "ps_replicas (pa_snapshot a) = [replica_empty [98] 7]"
    using actor_new_empty [of replica_config "\<lambda>bs. 7"] by (auto simp: replica_config_def)
  with actor_new_pending [OF new] show ?thesis
    by blast
qed

lemma await_events_ok: "\<forall>ev \<in> set await_events. event_ok (\<lambda>bs. 7) (\<lambda>_. rebased sample_records) ev"
proof -
  have "length (rebased sample_records) \<noteq> 0"
    unfolding length_rebased length_sample_records by simp
  then have "rebased sample_records \<noteq> []"
    unfolding length_0_conv .
  then show ?thesis
    using sample_produce_stored sample_produce_holds(2) list_bytes.bytes_crate_axioms
    by (simp add: await_events_def sample_env_def await_request_def request_entries_def entry_ok_def entry_holds_def)
qed

lemma sample_room: "logs_room [([116], 0) \<mapsto> [rebased sample_records]]"
  using sample_records_layout_small
  by (auto simp: logs_room_def length_sample_records length_records_layout_rebased)

section \<open>Properties\<close>

text \<open>C4: however the requests of a broker and its partitions interleave, the partitions hold the
  logs with the appends written so far, which are among those requested, each at most once; no
  request is aborted, and one that is answered has for every partition it names the error for an
  unknown one, or the offset at which the log holds the batch, to whose end every replica has
  reported with \<open>acks = all\<close>, or the records of the log as it was at some moment. When every
  request is answered the appends written are those requested, each once.\<close>

theorem tasks_answer_requests:
  assumes "tasks_run cap (tasks_start im) evs s"
    and "image_holds crc im L0" and "\<forall>k a. map_of im k = Some a \<longrightarrow> pa_acks_pending a = []"
    and "\<forall>ev \<in> set evs. event_ok crc dec ev" and "logs_room (logs_now dec L0 s)"
  shows "image_holds crc (tk_image s) (logs_now dec L0 s)
    \<and> (\<forall>req resp. Answered req resp \<in> set (tk_tasks s) \<longrightarrow>
         body_answered crc dec L0 (tk_image s) (logs_now dec L0 s) req resp)
    \<and> (\<forall>req. Aborted req \<notin> set (tk_tasks s))
    \<and> mset (written s) \<subseteq># (\<Sum>t\<leftarrow>tk_tasks s. known L0 (requested t))
    \<and> ((\<forall>t \<in> set (tk_tasks s). \<exists>req resp. t = Answered req resp) \<longrightarrow>
         mset (written s) = (\<Sum>t\<leftarrow>tk_tasks s. known L0 (requested t)))"
proof -
  have inv: "system_inv crc dec L0 s"
    by (rule system_inv_run [OF assms])
  then have "task_ok crc dec L0 (tk_image s) (logs_now dec L0 s) (tk_asked s) t" if "t \<in> set (tk_tasks s)" for t
    using that by (simp add: system_inv_def)
  from this [of "Answered _ _"] this [of "Aborted _"] show ?thesis
    using written_once [OF inv] inv by (auto simp: system_inv_def content_inv_def)
qed

lemma tasks_answer_requests_witness:
  "\<exists>im s resp t. tasks_run 1 (tasks_start im) await_events s
    \<and> tk_tasks s = [Answered (Produce await_request) resp, t]
    \<and> body_answered (\<lambda>bs. 7) (\<lambda>_. rebased sample_records) [([116], 0) \<mapsto> []] (tk_image s)
        [([116], 0) \<mapsto> [rebased sample_records]] (Produce await_request) resp
    \<and> image_holds (\<lambda>bs. 7) (tk_image s) [([116], 0) \<mapsto> [rebased sample_records]]"
proof -
  obtain a where none: "pa_acks_pending a = []" and log: "log_holds (\<lambda>bs. 7) a [] []"
    and reps: "ps_replicas (pa_snapshot a) = [replica_empty [98] 7]"
    using replica_actor_exists by blast
  let ?im = "[(([116], 0), a)]" and ?L0 = "[([116], 0) \<mapsto> []] :: logs" and ?dec = "\<lambda>_. rebased sample_records"
  obtain s resp t where exec: "tasks_exec 1 await_events (tasks_start ?im) = Some s"
    and tasks: "tk_tasks s = [Answered (Produce await_request) (produce_answer_body sample_env [([116], [resp])]), t]"
    and hist: "tk_asked s = [(([116], 0), sample_produce, AcksAll)]" "tk_appended s = [0]"
    using await_exec [OF reps _ none log] by (auto simp: replica_empty_def)
  have now: "logs_now ?dec ?L0 s = [([116], 0) \<mapsto> [rebased sample_records]]"
    by (simp add: logs_now_def written_def hist asked_entry_def)
  have room: "logs_room (logs_now ?dec ?L0 s)"
    unfolding now by (rule sample_room)
  have "image_holds (\<lambda>bs. 7) ?im ?L0" and "\<forall>k a'. map_of ?im k = Some a' \<longrightarrow> pa_acks_pending a' = []"
    using log none by (auto simp: image_holds_def)
  from tasks_answer_requests [OF tasks_run_exec [OF exec] this await_events_ok room] tasks tasks_run_exec [OF exec] show ?thesis
    unfolding now by fastforce
qed

end
