(* ===== verification/Net_Server.thy ===== *)
theory Net_Server
  imports Net_Connection Broker_Tasks_Answers "HOL-Library.Sublist"
begin

text \<open>
  The server (\<open>crates/broker/src/network/server.rs\<close>): a loop that accepts connections and spawns a
  task for each, which runs the loop of \<open>Connection::handle\<close> (\<open>network/connection.rs\<close>). The tasks
  share the partitions: a connection reads a request, waits for what \<open>Broker_Tasks\<close> makes of it,
  where the requests of the other connections and the actors come in between, and writes the
  response. Every read, every turn of a request or of an actor and every write is a step of its
  own, in any order. The bytes that a peer sends until it closes are fixed when its connection is
  accepted. As in \<open>Broker_Tasks\<close> the topics are fixed: a request to create topics is not read here.
\<close>

declare split_paired_All [simp del] split_paired_Ex [simp del]

section \<open>Connections\<close>

text \<open>
  Where the loop of a connection is: before a read; in \<open>handle\<close>, waiting for the task with a
  number; before the write of a response. It ends when a read fails or when a write fails, or by
  a panic.
\<close>

datatype connection_status =
  Serving
| Waiting request_header nat
| Responding frame
| Ended
| Broken
| Crashed

record connection =
  cn_incoming :: "u8 list"
  cn_written :: "u8 list"
  cn_status :: connection_status

definition connection_new :: "u8 list \<Rightarrow> connection" where
  "connection_new bytes = \<lparr>cn_incoming = bytes, cn_written = [], cn_status = Serving\<rparr>"

record server =
  sr_tasks :: task_system
  sr_brokers :: "broker_config list"
  sr_connections :: "connection list"

definition server_new :: "image \<Rightarrow> broker_config list \<Rightarrow> server" where
  "server_new im brokers = \<lparr>sr_tasks = tasks_start im, sr_brokers = brokers, sr_connections = []\<rparr>"

section \<open>Turns of a connection\<close>

text \<open>
  A request that was read: produce and fetch requests become tasks, metadata is answered from the
  image. Anything else is an error of the broker, which the loop takes to be unreachable.
\<close>

definition request_taken :: "broker_env \<Rightarrow> frame \<Rightarrow> server \<Rightarrow> (server \<times> connection_status) option" where
  "request_taken e f s =
     (let ts = sr_tasks s
      in case task_new (fm_body f) of
           Some t \<Rightarrow>
             Some (s\<lparr>sr_tasks := ts\<lparr>tk_tasks := tk_tasks ts @ [t]\<rparr>\<rparr>, Waiting (fm_header f) (length (tk_tasks ts)))
         | None \<Rightarrow>
             (case fm_body f of
                Metadata req \<Rightarrow>
                  Some (s, Responding (broker_handle_metadata e (fm_header f) (sr_brokers s) (tk_image ts)))
              | Topic req \<Rightarrow> None
              | _ \<Rightarrow> Some (s, Crashed)))"

definition connection_reads ::
    "stream_ops \<Rightarrow> broker_env \<Rightarrow> connection \<Rightarrow> server \<Rightarrow> (server \<times> connection) option" where
  "connection_reads T e c s =
     (if cn_status c = Serving
      then (case read_frame T (en_bytes e) (en_crc e) (cn_incoming c) of
              Ok (f, rest) \<Rightarrow>
                map_option (\<lambda>(s1, st). (s1, c\<lparr>cn_incoming := rest, cn_status := st\<rparr>)) (request_taken e f s)
            | Err er \<Rightarrow> Some (s, c\<lparr>cn_status := Ended\<rparr>)
            | Panic \<Rightarrow> Some (s, c\<lparr>cn_status := Crashed\<rparr>))
      else None)"

text \<open>The frame of a response, and the end of the wait for it.\<close>

definition response_frame :: "request_header \<Rightarrow> frame_body \<Rightarrow> frame" where
  "response_frame h body =
     \<lparr>fm_size = frame_body_get_size body + request_header_get_size h, fm_header = h, fm_body = body\<rparr>"

definition connection_resumes :: "task_system \<Rightarrow> connection \<Rightarrow> connection option" where
  "connection_resumes ts c =
     (case cn_status c of
        Waiting h j \<Rightarrow>
          (case tk_tasks ts ! j of
             Answered req body \<Rightarrow> Some (c\<lparr>cn_status := Responding (response_frame h body)\<rparr>)
           | Aborted req \<Rightarrow> Some (c\<lparr>cn_status := Crashed\<rparr>)
           | _ \<Rightarrow> None)
      | _ \<Rightarrow> None)"

text \<open>A write that succeeds, or fails after some bytes.\<close>

definition connection_writes :: "bytes_ops \<Rightarrow> nat option \<Rightarrow> connection \<Rightarrow> connection option" where
  "connection_writes B fails c =
     (case cn_status c of
        Responding g \<Rightarrow>
          Some (case fails of
                  None \<Rightarrow> c\<lparr>cn_written := cn_written c @ frame_encode B g, cn_status := Serving\<rparr>
                | Some n \<Rightarrow> c\<lparr>cn_written := cn_written c @ take n (frame_encode B g), cn_status := Broken\<rparr>)
      | _ \<Rightarrow> None)"

section \<open>The server\<close>

datatype server_event =
  Accepted "u8 list"
| Reads nat broker_env
| Works task_event
| Resumes nat
| Writes nat bytes_ops "nat option"

fun server_exec :: "stream_ops \<Rightarrow> nat \<Rightarrow> server_event \<Rightarrow> server \<Rightarrow> server option" where
  "server_exec T cap (Accepted bytes) s =
     Some (s\<lparr>sr_connections := sr_connections s @ [connection_new bytes]\<rparr>)"
| "server_exec T cap (Reads i e) s =
     (if i < length (sr_connections s)
      then map_option (\<lambda>(s1, c). s1\<lparr>sr_connections := (sr_connections s)[i := c]\<rparr>)
             (connection_reads T e (sr_connections s ! i) s)
      else None)"
| "server_exec T cap (Works (Arrives body)) s = None"
| "server_exec T cap (Works ev) s = map_option (\<lambda>ts. s\<lparr>sr_tasks := ts\<rparr>) (task_exec cap ev (sr_tasks s))"
| "server_exec T cap (Resumes i) s =
     (if i < length (sr_connections s)
      then map_option (\<lambda>c. s\<lparr>sr_connections := (sr_connections s)[i := c]\<rparr>)
             (connection_resumes (sr_tasks s) (sr_connections s ! i))
      else None)"
| "server_exec T cap (Writes i B fails) s =
     (if i < length (sr_connections s)
      then map_option (\<lambda>c. s\<lparr>sr_connections := (sr_connections s)[i := c]\<rparr>)
             (connection_writes B fails (sr_connections s ! i))
      else None)"

inductive server_run :: "stream_ops \<Rightarrow> nat \<Rightarrow> server \<Rightarrow> server_event list \<Rightarrow> server \<Rightarrow> bool" for T cap s0 where
  run_nil: "server_run T cap s0 [] s0"
| run_snoc: "server_run T cap s0 evs s \<Longrightarrow> server_exec T cap ev s = Some s' \<Longrightarrow> server_run T cap s0 (evs @ [ev]) s'"

fun server_execs :: "stream_ops \<Rightarrow> nat \<Rightarrow> server_event list \<Rightarrow> server \<Rightarrow> server option" where
  "server_execs T cap [] s = Some s"
| "server_execs T cap (ev # evs) s = Option.bind (server_exec T cap ev s) (server_execs T cap evs)"

lemma server_execs_append:
  "server_execs T cap (evs @ evs') s = Option.bind (server_execs T cap evs s) (server_execs T cap evs')"
  by (induction evs arbitrary: s) (auto split: Option.bind_splits)

lemma server_execs_then:
  "server_execs T cap evs s = Some s1 \<Longrightarrow> server_execs T cap evs' s1 = r \<Longrightarrow> server_execs T cap (evs @ evs') s = r"
  by (simp add: server_execs_append)

lemma server_run_execs: "server_execs T cap evs s = Some s1 \<Longrightarrow> server_run T cap s evs s1"
proof (induction evs arbitrary: s1 rule: rev_induct)
  case (snoc ev evs)
  then obtain s2 where "server_execs T cap evs s = Some s2" "server_exec T cap ev s2 = Some s1"
    by (auto simp: server_execs_append bind_eq_Some_conv)
  then show ?case
    using run_snoc snoc.IH by blast
qed (simp add: run_nil)

section \<open>What the peers send\<close>

definition frame_bytes :: "bytes_ops \<Rightarrow> frame list \<Rightarrow> u8 list" where
  "frame_bytes B fs = concat (map (frame_encode B) fs)"

lemma frame_bytes_simps [simp]:
  "frame_bytes B [] = []" "frame_bytes B (f # fs) = frame_encode B f @ frame_bytes B fs"
  "frame_bytes B (fs @ fs') = frame_bytes B fs @ frame_bytes B fs'"
  by (simp_all add: frame_bytes_def)

text \<open>
  A peer sends requests and then closes, perhaps in the middle of another. It does not create
  topics, and its batches hold records.
\<close>

type_synonym peer_input = "frame list \<times> u8 list"

definition peer_bytes :: "bytes_ops \<Rightarrow> peer_input \<Rightarrow> u8 list" where
  "peer_bytes B p = frame_bytes B (fst p) @ snd p"

fun body_entries :: "frame_body \<Rightarrow> (topic_partition \<times> record_batch) list" where
  "body_entries (Produce req) = request_entries req"
| "body_entries _ = []"

definition frames_entries :: "frame list \<Rightarrow> (topic_partition \<times> record_batch) list" where
  "frames_entries fs = concat (map (\<lambda>f. body_entries (fm_body f)) fs)"

definition request_ok :: "bytes_ops \<Rightarrow> (u8 list \<Rightarrow> u32) \<Rightarrow> decoder \<Rightarrow> frame \<Rightarrow> bool" where
  "request_ok B crc dec f \<longleftrightarrow> sendable B crc f \<and> rq_api_key (fm_header f) \<noteq> ApiCreateTopics
     \<and> (\<forall>x \<in> set (body_entries (fm_body f)). entry_ok crc dec x)"

definition peer_ok :: "bytes_ops \<Rightarrow> (u8 list \<Rightarrow> u32) \<Rightarrow> decoder \<Rightarrow> peer_input \<Rightarrow> bool" where
  "peer_ok B crc dec p \<longleftrightarrow> (\<forall>f \<in> set (fst p). request_ok B crc dec f)
     \<and> (snd p = [] \<or> (\<exists>f k. sendable B crc f \<and> k < length (frame_encode B f) \<and> snd p = take k (frame_encode B f)))"

definition accepted_bytes :: "server_event list \<Rightarrow> u8 list list" where
  "accepted_bytes evs = concat (map (\<lambda>ev. case ev of Accepted bytes \<Rightarrow> [bytes] | _ \<Rightarrow> []) evs)"

text \<open>The crates and the orders of maps in the environments of a run.\<close>

definition order_law :: "broker_env \<Rightarrow> bool" where
  "order_law e \<longleftrightarrow> (\<forall>im. mset (en_order e im) = mset im) \<and> (\<forall>ts. mset (en_topic_order e ts) = mset ts)"

fun server_event_ok :: "bytes_ops \<Rightarrow> (u8 list \<Rightarrow> u32) \<Rightarrow> decoder \<Rightarrow> server_event \<Rightarrow> bool" where
  "server_event_ok B crc dec (Reads i e) \<longleftrightarrow> en_bytes e = B \<and> en_crc e = crc \<and> order_law e"
| "server_event_ok B crc dec (Works ev) \<longleftrightarrow> event_ok crc dec ev"
| "server_event_ok B crc dec (Writes i B' fails) \<longleftrightarrow> B' = B"
| "server_event_ok B crc dec _ \<longleftrightarrow> True"

lemma read_frame_cut:
  assumes "stream_law T" and "bytes_crate B" and "sendable B crc f" and k: "k < length (frame_encode B f)"
  shows "read_frame T B crc (take k (frame_encode B f)) = Err Io"
proof -
  have f: "frame_fits crc f" "request_key (fm_body f) = Some (rq_api_key (fm_header f))"
    and len: "length (frame_encode B f) - 4 < 2 ^ 32"
    using assms(3) by (simp_all add: sendable_def)
  let ?n = "frame_get_size f"
  obtain s where s: "frame_encode B f = be32 ?n @ s" "?n = of_nat (length s)"
    using bytes_crate.frame_encode_codec [OF assms(2) bytes_crate.codec_request [OF assms(2) f]] by blast
  have "length s < 2 ^ 32"
    using len s(1) by simp
  then have n: "unat ?n = length s"
    by (subst s(2)) (rule unat_of_nat_id, simp)
  show ?thesis
  proof (cases "k < 4")
    case True
    then have "so_read_u32 T (take k (frame_encode B f)) = None"
      using assms(1) k by (simp add: stream_law_def get_front_def take_front_def)
    then show ?thesis
      by (simp add: read_frame_def)
  next
    case False
    then have cut: "take k (frame_encode B f) = be32 ?n @ take (k - 4) s"
      by (simp add: s(1))
    then have "so_read_u32 T (take k (frame_encode B f)) = Some (?n, take (k - 4) s)"
      using assms(1) by (simp add: stream_law_def get_front_def take_front_def)
    moreover have "so_read_exact T (unat ?n) (take (k - 4) s) = None"
      using assms(1) False k s(1) n by (simp add: stream_law_def take_front_def)
    ultimately show ?thesis
      by (simp add: read_frame_def)
  qed
qed

section \<open>The tasks go on\<close>

fun task_request :: "request_task \<Rightarrow> frame_body" where
  "task_request (Producing p) = Produce (pk_request p)"
| "task_request (Fetching f) = Fetch (fk_request f)"
| "task_request (Answered req resp) = req"
| "task_request (Aborted req) = req"

fun settled :: "request_task \<Rightarrow> bool" where
  "settled (Answered req resp) \<longleftrightarrow> True"
| "settled (Aborted req) \<longleftrightarrow> True"
| "settled _ \<longleftrightarrow> False"

lemma task_new_request: "task_new body = Some t \<Longrightarrow> task_request t = body"
  by (cases body) auto

text \<open>A turn keeps the requests of the tasks and what was answered, and the keys of the image.\<close>

definition tasks_grow :: "request_task list \<Rightarrow> request_task list \<Rightarrow> bool" where
  "tasks_grow ts ts' \<longleftrightarrow> length ts \<le> length ts'
     \<and> (\<forall>j < length ts. task_request (ts' ! j) = task_request (ts ! j) \<and> (settled (ts ! j) \<longrightarrow> ts' ! j = ts ! j))"

lemma tasks_grow_refl [simp]: "tasks_grow ts ts"
  by (simp add: tasks_grow_def)

lemma tasks_grow_append [simp]: "tasks_grow ts (ts @ ts')"
  by (simp add: tasks_grow_def nth_append)

lemma tasks_grow_settled: "tasks_grow ts ts' \<Longrightarrow> settled t \<Longrightarrow> t \<in> set ts \<Longrightarrow> t \<in> set ts'"
  unfolding tasks_grow_def in_set_conv_nth by (metis order.strict_trans2)

lemma task_turn_keeps:
  assumes "task_turn cap e t s = Some (s1, t1)"
  shows "tk_image s1 = tk_image s \<and> tk_tasks s1 = tk_tasks s \<and> task_request t1 = task_request t \<and> \<not> settled t"
proof (cases t)
  case (Producing p)
  then have "produce_turn cap e p s = Some (s1, t1)"
    using assms by simp
  then show ?thesis
    using Producing by (cases rule: produce_turnE) auto
next
  case (Fetching f)
  then have "fetch_turn cap e f s = Some (s1, t1)"
    using assms by simp
  then show ?thesis
    using Fetching by (cases rule: fetch_turnE) auto
qed (use assms in simp_all)

lemma works_keep:
  assumes "task_exec cap ev s = Some s1" and "\<forall>body. ev \<noteq> Arrives body"
  shows "tasks_grow (tk_tasks s) (tk_tasks s1) \<and> length (tk_tasks s1) = length (tk_tasks s)
    \<and> map task_request (tk_tasks s1) = map task_request (tk_tasks s) \<and> map fst (tk_image s1) = map fst (tk_image s)"
proof (cases ev)
  case (TaskTurn i e)
  then obtain s2 t where i: "i < length (tk_tasks s)" and "task_turn cap e (tk_tasks s ! i) s = Some (s2, t)"
    and s1: "s1 = s2\<lparr>tk_tasks := (tk_tasks s)[i := t]\<rparr>"
    using assms(1) by (auto split: if_splits)
  note keep = task_turn_keeps [OF this(2)]
  have "map task_request ((tk_tasks s)[i := t]) = map task_request (tk_tasks s)"
    using keep i by (simp add: map_update list_update_same_conv)
  moreover have "tasks_grow (tk_tasks s) ((tk_tasks s)[i := t])"
    using keep i by (auto simp: tasks_grow_def nth_list_update)
  ultimately show ?thesis
    using keep by (simp add: s1)
next
  case (ActorTurn k)
  then have "actor_turn k s = Some s1"
    using assms(1) by simp
  then show ?thesis
    by (cases rule: actor_turnE) (force simp: update_keys dest: map_of_SomeD)
qed (use assms(2) in simp)

section \<open>The invariant of a connection\<close>

text \<open>The answer of a request, once its task has it.\<close>

definition answered_with :: "image \<Rightarrow> broker_config list \<Rightarrow> request_task list \<Rightarrow> frame \<Rightarrow> frame \<Rightarrow> bool" where
  "answered_with im brokers ts f g \<longleftrightarrow>
     (case fm_body f of
        Metadata req \<Rightarrow>
          \<exists>e im1. order_law e \<and> map fst im1 = map fst im \<and> g = broker_handle_metadata e (fm_header f) brokers im1
      | body \<Rightarrow> \<exists>resp. Answered body resp \<in> set ts \<and> g = response_frame (fm_header f) resp)"

lemma answered_with_mono: "answered_with im brokers ts f g \<Longrightarrow> tasks_grow ts ts' \<Longrightarrow> answered_with im brokers ts' f g"
  unfolding answered_with_def
  by (auto split: frame_body.splits dest!: tasks_grow_settled)

text \<open>
  A connection that has read \<open>n\<close> of the requests \<open>fs\<close>. The responses to those it has answered
  are written, but for the one it is about to write.
\<close>

definition connection_inv ::
    "bytes_ops \<Rightarrow> image \<Rightarrow> broker_config list \<Rightarrow> request_task list \<Rightarrow> peer_input \<Rightarrow> nat \<Rightarrow> connection \<Rightarrow> bool" where
  "connection_inv B im brokers ts p n c \<longleftrightarrow> n \<le> length (fst p)
     \<and> (let answered = list_all2 (answered_with im brokers ts); fs = fst p;
            left = (cn_incoming c = frame_bytes B (drop n fs) @ snd p)
        in case cn_status c of
             Serving \<Rightarrow> left \<and> (\<exists>gs. answered (take n fs) gs \<and> cn_written c = frame_bytes B gs)
           | Waiting h j \<Rightarrow> left \<and> (\<exists>f gs. take n fs = take (n - 1) fs @ [f] \<and> answered (take (n - 1) fs) gs
               \<and> cn_written c = frame_bytes B gs \<and> j < length ts \<and> task_request (ts ! j) = fm_body f \<and> h = fm_header f
               \<and> (\<forall>req. fm_body f \<noteq> Metadata req))
           | Responding g \<Rightarrow> left \<and> (\<exists>gs. answered (take n fs) (gs @ [g]) \<and> cn_written c = frame_bytes B gs)
           | Ended \<Rightarrow> n = length fs \<and> (\<exists>gs. answered fs gs \<and> cn_written c = frame_bytes B gs)
           | Broken \<Rightarrow> (\<exists>gs. answered (take n fs) gs \<and> prefix (cn_written c) (frame_bytes B gs))
           | Crashed \<Rightarrow> (\<exists>req. Aborted req \<in> set ts))"

lemma answered_mono:
  "list_all2 (answered_with im brokers ts) fs gs \<Longrightarrow> tasks_grow ts ts' \<Longrightarrow> list_all2 (answered_with im brokers ts') fs gs"
  by (erule list_all2_mono) (rule answered_with_mono)

lemma connection_inv_mono:
  assumes "connection_inv B im brokers ts p n c" and grow: "tasks_grow ts ts'"
  shows "connection_inv B im brokers ts' p n c"
proof (cases "cn_status c")
  case (Waiting h j)
  moreover have "j < length ts' \<and> task_request (ts' ! j) = body" if "j < length ts" "task_request (ts ! j) = body" for body
    using that grow by (auto simp: tasks_grow_def)
  ultimately show ?thesis
    using assms answered_mono [OF _ grow] unfolding connection_inv_def Let_def by fastforce
next
  case Crashed
  then show ?thesis
    using assms tasks_grow_settled [OF grow] by (auto simp: connection_inv_def) (metis settled.simps(2))
qed (use assms(1) answered_mono [OF _ grow] in \<open>fastforce simp: connection_inv_def Let_def\<close>)+

lemma connection_inv_new: "connection_inv B im brokers ts p 0 (connection_new (peer_bytes B p))"
  by (simp add: connection_inv_def connection_new_def peer_bytes_def)

section \<open>The invariant of the server\<close>

definition serving_inv ::
    "bytes_ops \<Rightarrow> (u8 list \<Rightarrow> u32) \<Rightarrow> decoder \<Rightarrow> nat \<Rightarrow> image \<Rightarrow> broker_config list \<Rightarrow> peer_input list \<Rightarrow> nat list \<Rightarrow> server \<Rightarrow> bool" where
  "serving_inv B crc dec cap im brokers peers ns s \<longleftrightarrow>
     (let ts = tk_tasks (sr_tasks s); cs = sr_connections s
      in (\<exists>tevs. tasks_run cap (tasks_start im) tevs (sr_tasks s) \<and> (\<forall>ev \<in> set tevs. event_ok crc dec ev))
         \<and> map fst (tk_image (sr_tasks s)) = map fst im \<and> sr_brokers s = brokers
         \<and> length cs = length peers \<and> length ns = length peers
         \<and> (\<forall>i < length peers. connection_inv B im brokers ts (peers ! i) (ns ! i) (cs ! i))
         \<and> (\<Sum>t\<leftarrow>ts. mset (body_entries (task_request t))) = (\<Sum>(p, n)\<leftarrow>zip peers ns. mset (frames_entries (take n (fst p))))
         \<and> (\<forall>j < length ts. settled (ts ! j) \<or> (\<exists>i < length peers. \<exists>h. cn_status (cs ! i) = Waiting h j)))"

lemma serving_invD:
  assumes "serving_inv B crc dec cap im brokers peers ns s"
  shows "\<exists>tevs. tasks_run cap (tasks_start im) tevs (sr_tasks s) \<and> (\<forall>ev \<in> set tevs. event_ok crc dec ev)"
    and "map fst (tk_image (sr_tasks s)) = map fst im" and "sr_brokers s = brokers"
    and "length (sr_connections s) = length peers" and "length ns = length peers"
    and "\<And>i. i < length peers \<Longrightarrow>
      connection_inv B im brokers (tk_tasks (sr_tasks s)) (peers ! i) (ns ! i) (sr_connections s ! i)"
    and "(\<Sum>t\<leftarrow>tk_tasks (sr_tasks s). mset (body_entries (task_request t))) =
      (\<Sum>(p, n)\<leftarrow>zip peers ns. mset (frames_entries (take n (fst p))))"
    and "\<And>j. j < length (tk_tasks (sr_tasks s)) \<Longrightarrow> settled (tk_tasks (sr_tasks s) ! j)
      \<or> (\<exists>i < length peers. \<exists>h. cn_status (sr_connections s ! i) = Waiting h j)"
  using assms by (simp_all add: serving_inv_def Let_def)

text \<open>One connection moves on, and the tasks may grow.\<close>

lemma serving_inv_update:
  assumes inv: "serving_inv B crc dec cap im brokers peers ns s" and i: "i < length peers"
    and run: "\<exists>tevs. tasks_run cap (tasks_start im) tevs ts1 \<and> (\<forall>ev \<in> set tevs. event_ok crc dec ev)"
    and image: "tk_image ts1 = tk_image (sr_tasks s)"
    and grow: "tasks_grow (tk_tasks (sr_tasks s)) (tk_tasks ts1)"
    and c: "connection_inv B im brokers (tk_tasks ts1) (peers ! i) n c"
    and entries: "(\<Sum>t\<leftarrow>tk_tasks ts1. mset (body_entries (task_request t))) + mset (frames_entries (take (ns ! i) (fst (peers ! i))))
      = (\<Sum>t\<leftarrow>tk_tasks (sr_tasks s). mset (body_entries (task_request t))) + mset (frames_entries (take n (fst (peers ! i))))"
    and waits: "\<And>j. j < length (tk_tasks ts1) \<Longrightarrow> settled (tk_tasks ts1 ! j) \<or> (\<exists>h. cn_status c = Waiting h j)
      \<or> j < length (tk_tasks (sr_tasks s)) \<and> \<not> settled (tk_tasks (sr_tasks s) ! j)
         \<and> (\<forall>h. cn_status (sr_connections s ! i) \<noteq> Waiting h j)"
  shows "serving_inv B crc dec cap im brokers peers (ns[i := n])
    (s\<lparr>sr_tasks := ts1, sr_connections := (sr_connections s)[i := c]\<rparr>)"
proof -
  let ?ts = "tk_tasks (sr_tasks s)" and ?ts1 = "tk_tasks ts1" and ?cs = "sr_connections s"
  let ?E = "\<lambda>(p, n). mset (frames_entries (take n (fst p)))"
  have lens: "length ?cs = length peers" "length ns = length peers"
    and conns: "\<And>j. j < length peers \<Longrightarrow> connection_inv B im brokers ?ts (peers ! j) (ns ! j) (?cs ! j)"
    and sum: "(\<Sum>t\<leftarrow>?ts. mset (body_entries (task_request t))) = (\<Sum>x\<leftarrow>zip peers ns. ?E x)"
    and wait: "\<And>j. j < length ?ts \<Longrightarrow> settled (?ts ! j) \<or> (\<exists>i < length peers. \<exists>h. cn_status (?cs ! i) = Waiting h j)"
    using inv by (simp_all add: serving_inv_def Let_def)
  have "zip peers (ns[i := n]) = (zip peers ns)[i := (peers ! i, n)]"
    using zip_update [of peers i "peers ! i" ns n] by simp
  moreover have "zip peers ns ! i = (peers ! i, ns ! i)"
    using i lens by simp
  ultimately have "(\<Sum>x\<leftarrow>zip peers (ns[i := n]). ?E x) + ?E (peers ! i, ns ! i) = (\<Sum>x\<leftarrow>zip peers ns. ?E x) + ?E (peers ! i, n)"
    using sum_list_upd [of i "zip peers ns" ?E "(peers ! i, n)"] i lens by simp
  then have "(\<Sum>t\<leftarrow>?ts1. mset (body_entries (task_request t))) = (\<Sum>x\<leftarrow>zip peers (ns[i := n]). ?E x)"
    using entries sum by simp (metis add_right_cancel)
  moreover have "connection_inv B im brokers ?ts1 (peers ! j) (ns[i := n] ! j) (?cs[i := c] ! j)" if "j < length peers" for j
    using connection_inv_mono [OF conns [OF that] grow] c i that lens by (cases "j = i") simp_all
  moreover have "settled (?ts1 ! j) \<or> (\<exists>k < length peers. \<exists>h. cn_status (?cs[i := c] ! k) = Waiting h j)"
    if j: "j < length ?ts1" for j
    using waits [OF j] wait [of j] i lens
    by (metis length_list_update nth_list_update_eq nth_list_update_neq)
  ultimately show ?thesis
    using inv run image lens by (simp add: serving_inv_def Let_def)
qed

section \<open>Every step keeps it\<close>

lemma accepted_inv:
  assumes inv: "serving_inv B crc dec cap im brokers peers ns s"
    and step: "server_exec T cap (Accepted (peer_bytes B p)) s = Some s1"
  shows "serving_inv B crc dec cap im brokers (peers @ [p]) (ns @ [0]) s1"
proof -
  let ?cs = "sr_connections s @ [connection_new (peer_bytes B p)]"
  have s1: "s1 = s\<lparr>sr_connections := ?cs\<rparr>"
    using step by simp
  have lens: "length (sr_connections s) = length peers" "length ns = length peers"
    using inv by (simp_all add: serving_inv_def Let_def)
  have "connection_inv B im brokers (tk_tasks (sr_tasks s)) ((peers @ [p]) ! i) ((ns @ [0]) ! i) (?cs ! i)"
    if "i < length (peers @ [p])" for i
    using inv that lens connection_inv_new by (cases "i < length peers") (simp_all add: serving_inv_def Let_def nth_append)
  moreover have "\<exists>i < Suc (length peers). \<exists>h. cn_status (?cs ! i) = Waiting h j"
    if "\<exists>i < length peers. \<exists>h. cn_status (sr_connections s ! i) = Waiting h j" for j
    using that lens by (metis less_SucI nth_append)
  then have "settled (tk_tasks (sr_tasks s) ! j) \<or> (\<exists>i < Suc (length peers). \<exists>h. cn_status (?cs ! i) = Waiting h j)"
    if "j < length (tk_tasks (sr_tasks s))" for j
    using serving_invD(8) [OF inv that] by blast
  ultimately show ?thesis
    using serving_invD(1-5,7) [OF inv] by (simp add: serving_inv_def Let_def s1 frames_entries_def)
qed

lemma works_inv:
  assumes inv: "serving_inv B crc dec cap im brokers peers ns s"
    and step: "server_exec T cap (Works ev) s = Some s1" and ev: "event_ok crc dec ev"
  shows "serving_inv B crc dec cap im brokers peers ns s1"
proof -
  have turn: "\<forall>body. ev \<noteq> Arrives body"
    using step by auto
  obtain ts1 where exec: "task_exec cap ev (sr_tasks s) = Some ts1" and s1: "s1 = s\<lparr>sr_tasks := ts1\<rparr>"
    using step turn by (cases ev) auto
  let ?ts = "tk_tasks (sr_tasks s)" and ?ts1 = "tk_tasks ts1"
  have keep: "tasks_grow ?ts ?ts1" "length ?ts1 = length ?ts" "map task_request ?ts1 = map task_request ?ts"
    "map fst (tk_image ts1) = map fst (tk_image (sr_tasks s))"
    using works_keep [OF exec turn] by simp_all
  obtain tevs where "tasks_run cap (tasks_start im) tevs (sr_tasks s)" "\<forall>ev \<in> set tevs. event_ok crc dec ev"
    using inv by (auto simp: serving_inv_def Let_def)
  then have run: "\<exists>tevs. tasks_run cap (tasks_start im) tevs ts1 \<and> (\<forall>ev \<in> set tevs. event_ok crc dec ev)"
    using tasks_snoc [of cap "tasks_start im" tevs "sr_tasks s" ev ts1] exec ev
    by (intro exI [of _ "tevs @ [ev]"]) (simp add: task_step_exec)
  have "(\<Sum>t\<leftarrow>ts. mset (body_entries (task_request t))) = (\<Sum>b\<leftarrow>map task_request ts. mset (body_entries b))" for ts
    by (simp add: comp_def)
  then have "(\<Sum>t\<leftarrow>?ts1. mset (body_entries (task_request t))) = (\<Sum>t\<leftarrow>?ts. mset (body_entries (task_request t)))"
    using keep(3) by metis
  moreover have "settled (?ts1 ! j)" if "j < length ?ts" "settled (?ts ! j)" for j
    using that keep(1) by (simp add: tasks_grow_def)
  moreover have "settled (?ts1 ! j) \<or> (\<exists>i < length peers. \<exists>h. cn_status (sr_connections s ! i) = Waiting h j)"
    if "j < length ?ts" for j
    using calculation(2) that serving_invD(8) [OF inv that] by blast
  ultimately show ?thesis
    using run keep connection_inv_mono [OF serving_invD(6) [OF inv] keep(1)] serving_invD(2-5,7) [OF inv]
    by (simp add: serving_inv_def Let_def s1)
qed

lemma read_frame_tail:
  assumes "stream_law T" and "bytes_crate B" and "peer_ok B crc dec p"
  shows "read_frame T B crc (snd p) = Err Io"
proof (cases "snd p = []")
  case True
  then show ?thesis
    using assms(1) by (simp add: read_frame_def stream_law_def get_front_def take_front_def)
next
  case False
  then show ?thesis
    using assms(3) read_frame_cut [OF assms(1,2), of crc] by (auto simp: peer_ok_def)
qed

lemma request_kinds:
  assumes "request_ok B crc dec f"
  obtains t where "task_new (fm_body f) = Some t" "event_ok crc dec (Arrives (fm_body f))" "\<forall>req. fm_body f \<noteq> Metadata req"
  | req where "fm_body f = Metadata req"
  using assms by (cases "fm_body f") (auto simp: request_ok_def sendable_def)

lemma take_left:
  assumes "n < length fs"
  shows "take (Suc n) fs = take n fs @ [fs ! n]" and "drop n fs = fs ! n # drop (Suc n) fs"
  using assms by (simp_all add: take_Suc_conv_app_nth Cons_nth_drop_Suc)

lemma frames_entries_simps [simp]:
  "frames_entries [] = []" "frames_entries (fs @ [f]) = frames_entries fs @ body_entries (fm_body f)"
  by (simp_all add: frames_entries_def)

text \<open>A read takes the next request, or finds the end of the stream.\<close>

lemma reads_inv:
  assumes T: "stream_law T" and B: "bytes_crate B" and peers: "\<forall>p \<in> set peers. peer_ok B crc dec p"
    and inv: "serving_inv B crc dec cap im brokers peers ns s"
    and step: "server_exec T cap (Reads i e) s = Some s1" and e: "server_event_ok B crc dec (Reads i e)"
  shows "\<exists>ns1. serving_inv B crc dec cap im brokers peers ns1 s1"
proof -
  let ?c = "sr_connections s ! i" and ?n = "ns ! i" and ?p = "peers ! i" and ?ts = "tk_tasks (sr_tasks s)"
  note D = serving_invD [OF inv]
  have i: "i < length peers" and status: "cn_status ?c = Serving"
    and env: "en_bytes e = B" "en_crc e = crc" "order_law e"
    using step e D(4) by (auto simp: connection_reads_def split: if_splits)
  have p: "peer_ok B crc dec ?p"
    using peers i by simp
  obtain gs where n: "?n \<le> length (fst ?p)" and left: "cn_incoming ?c = frame_bytes B (drop ?n (fst ?p)) @ snd ?p"
    and gs: "list_all2 (answered_with im brokers ?ts) (take ?n (fst ?p)) gs" "cn_written ?c = frame_bytes B gs"
    using D(6) [OF i] status by (auto simp: connection_inv_def Let_def)
  note update = serving_inv_update [OF inv i]
  show ?thesis
  proof (cases "?n = length (fst ?p)")
    case True
    let ?c1 = "?c\<lparr>cn_status := Ended\<rparr>"
    have "read_frame T B crc (cn_incoming ?c) = Err Io"
      using read_frame_tail [OF T B p] left True by simp
    then have "s1 = s\<lparr>sr_tasks := sr_tasks s, sr_connections := (sr_connections s)[i := ?c1]\<rparr>"
      using step i D(4) status env by (simp add: connection_reads_def)
    moreover have "connection_inv B im brokers ?ts ?p ?n ?c1"
      using gs True by (auto simp: connection_inv_def)
    ultimately show ?thesis
      using update [OF D(1) refl, of ?n ?c1] status D(8) by auto
  next
    case False
    let ?f = "fst ?p ! ?n"
    have less: "?n < length (fst ?p)"
      using False n by simp
    note split = take_left [OF less]
    have f: "request_ok B crc dec ?f"
      using p less by (simp add: peer_ok_def)
    let ?rest = "frame_bytes B (drop (Suc ?n) (fst ?p)) @ snd ?p"
    have read: "read_frame T B crc (cn_incoming ?c) = Ok (?f\<lparr>fm_size := frame_get_size ?f\<rparr>, ?rest)"
      using read_frame_encoded [OF T B, of crc ?f ?rest] f left split(2) by (simp add: request_ok_def)
    from f show ?thesis
    proof (cases rule: request_kinds)
      case (1 t)
      let ?ts1 = "(sr_tasks s)\<lparr>tk_tasks := ?ts @ [t]\<rparr>"
      let ?c1 = "?c\<lparr>cn_incoming := ?rest, cn_status := Waiting (fm_header ?f) (length ?ts)\<rparr>"
      have s1: "s1 = s\<lparr>sr_tasks := ?ts1, sr_connections := (sr_connections s)[i := ?c1]\<rparr>"
        using step i D(4) status env read 1(1) by (auto simp: connection_reads_def request_taken_def Let_def)
      obtain tevs where "tasks_run cap (tasks_start im) tevs (sr_tasks s)" "\<forall>ev \<in> set tevs. event_ok crc dec ev"
        using D(1) by blast
      then have run: "\<exists>tevs. tasks_run cap (tasks_start im) tevs ?ts1 \<and> (\<forall>ev \<in> set tevs. event_ok crc dec ev)"
        using tasks_snoc [of cap "tasks_start im" tevs "sr_tasks s" "Arrives (fm_body ?f)" ?ts1] 1(1,2)
        by (intro exI [of _ "tevs @ [Arrives (fm_body ?f)]"]) (simp add: task_step_exec)
      have c1: "connection_inv B im brokers (tk_tasks ?ts1) ?p (Suc ?n) ?c1"
        using less split(1) answered_mono [OF gs(1), of "?ts @ [t]"] gs(2) 1(3) task_new_request [OF 1(1)]
        by (auto simp: connection_inv_def Let_def)
      have "serving_inv B crc dec cap im brokers peers (ns[i := Suc ?n]) s1"
        unfolding s1
      proof (rule update [OF run _ _ c1])
        show "tk_image ?ts1 = tk_image (sr_tasks s)" and "tasks_grow ?ts (tk_tasks ?ts1)"
          by simp_all
        show "(\<Sum>t\<leftarrow>tk_tasks ?ts1. mset (body_entries (task_request t))) + mset (frames_entries (take ?n (fst ?p)))
            = (\<Sum>t\<leftarrow>?ts. mset (body_entries (task_request t))) + mset (frames_entries (take (Suc ?n) (fst ?p)))"
          using split(1) task_new_request [OF 1(1)] by (simp add: ac_simps)
        show "settled (tk_tasks ?ts1 ! j) \<or> (\<exists>h. cn_status ?c1 = Waiting h j)
            \<or> j < length ?ts \<and> \<not> settled (?ts ! j) \<and> (\<forall>h. cn_status ?c \<noteq> Waiting h j)" if "j < length (tk_tasks ?ts1)" for j
          using that status by (auto simp: nth_append less_Suc_eq)
      qed
      then show ?thesis
        by blast
    next
      case (2 req)
      let ?g = "broker_handle_metadata e (fm_header ?f) brokers (tk_image (sr_tasks s))"
      let ?c1 = "?c\<lparr>cn_incoming := ?rest, cn_status := Responding ?g\<rparr>"
      have s1: "s1 = s\<lparr>sr_tasks := sr_tasks s, sr_connections := (sr_connections s)[i := ?c1]\<rparr>"
        using step i D(3,4) status env read 2 by (auto simp: connection_reads_def request_taken_def Let_def)
      have "answered_with im brokers ?ts ?f ?g"
        using 2 env(3) D(2) by (auto simp: answered_with_def)
      then have "list_all2 (answered_with im brokers ?ts) (take (Suc ?n) (fst ?p)) (gs @ [?g])"
        using gs(1) split(1) by (simp add: list_all2_appendI)
      then have c1: "connection_inv B im brokers ?ts ?p (Suc ?n) ?c1"
        using less gs(2) by (auto simp: connection_inv_def Let_def)
      have "serving_inv B crc dec cap im brokers peers (ns[i := Suc ?n]) s1"
        unfolding s1 by (rule update [OF D(1) refl _ c1]) (use split(1) 2 status in auto)
      then show ?thesis
        by blast
    qed
  qed
qed

text \<open>A wait that is over, and a write.\<close>

lemma resumes_inv:
  assumes inv: "serving_inv B crc dec cap im brokers peers ns s"
    and step: "server_exec T cap (Resumes i) s = Some s1"
  shows "serving_inv B crc dec cap im brokers peers ns s1"
proof -
  let ?c = "sr_connections s ! i" and ?p = "peers ! i" and ?n = "ns ! i" and ?ts = "tk_tasks (sr_tasks s)"
  note D = serving_invD [OF inv]
  obtain c1 where i: "i < length peers" and c1: "connection_resumes (sr_tasks s) ?c = Some c1"
    and s1: "s1 = s\<lparr>sr_tasks := sr_tasks s, sr_connections := (sr_connections s)[i := c1]\<rparr>"
    using step D(4) by (auto split: if_splits)
  then obtain h j where status: "cn_status ?c = Waiting h j" and settled: "settled (?ts ! j)"
    by (auto simp: connection_resumes_def split: connection_status.splits request_task.splits)
  obtain f gs where n: "take ?n (fst ?p) = take (?n - 1) (fst ?p) @ [f]" "?n \<le> length (fst ?p)"
    and left: "cn_incoming ?c = frame_bytes B (drop ?n (fst ?p)) @ snd ?p"
    and gs: "list_all2 (answered_with im brokers ?ts) (take (?n - 1) (fst ?p)) gs" "cn_written ?c = frame_bytes B gs"
    and task: "j < length ?ts" "task_request (?ts ! j) = fm_body f" "h = fm_header f" "\<forall>req. fm_body f \<noteq> Metadata req"
    using D(6) [OF i] status by (auto simp: connection_inv_def Let_def)
  have "connection_inv B im brokers ?ts ?p ?n c1"
  proof (cases "?ts ! j")
    case (Answered req body)
    let ?g = "response_frame (fm_header f) body"
    have "Answered (fm_body f) body \<in> set ?ts"
      using task(1,2) Answered by (metis nth_mem task_request.simps(3))
    then have "answered_with im brokers ?ts f ?g"
      using task(4) by (auto simp: answered_with_def split: frame_body.split)
    then have "list_all2 (answered_with im brokers ?ts) (take ?n (fst ?p)) (gs @ [?g])"
      unfolding n(1) using gs(1) by (simp add: list_all2_appendI)
    moreover have "c1 = ?c\<lparr>cn_status := Responding ?g\<rparr>"
      using c1 status Answered task(3) by (simp add: connection_resumes_def)
    ultimately show ?thesis
      using n(2) left gs(2) by (auto simp: connection_inv_def Let_def)
  next
    case (Aborted req)
    then have "Aborted req \<in> set ?ts"
      using task(1) by (metis nth_mem)
    then show ?thesis
      using c1 status Aborted n(2) by (auto simp: connection_inv_def connection_resumes_def)
  qed (use settled in simp_all)
  from serving_inv_update [OF inv i D(1) refl _ this] have "serving_inv B crc dec cap im brokers peers (ns[i := ?n]) s1"
    unfolding s1 using status settled D(8) by auto
  then show ?thesis
    by simp
qed

lemma writes_inv:
  assumes inv: "serving_inv B crc dec cap im brokers peers ns s"
    and step: "server_exec T cap (Writes i B fails) s = Some s1"
  shows "serving_inv B crc dec cap im brokers peers ns s1"
proof -
  let ?c = "sr_connections s ! i" and ?p = "peers ! i" and ?n = "ns ! i" and ?ts = "tk_tasks (sr_tasks s)"
  note D = serving_invD [OF inv]
  obtain c1 where i: "i < length peers" and c1: "connection_writes B fails ?c = Some c1"
    and s1: "s1 = s\<lparr>sr_tasks := sr_tasks s, sr_connections := (sr_connections s)[i := c1]\<rparr>"
    using step D(4) by (auto split: if_splits)
  then obtain g where status: "cn_status ?c = Responding g"
    by (auto simp: connection_writes_def split: connection_status.splits)
  obtain gs where n: "?n \<le> length (fst ?p)" and left: "cn_incoming ?c = frame_bytes B (drop ?n (fst ?p)) @ snd ?p"
    and gs: "list_all2 (answered_with im brokers ?ts) (take ?n (fst ?p)) (gs @ [g])" "cn_written ?c = frame_bytes B gs"
    using D(6) [OF i] status by (auto simp: connection_inv_def Let_def)
  have "connection_inv B im brokers ?ts ?p ?n c1"
  proof (cases fails)
    case None
    then show ?thesis
      using c1 status n left gs by (auto simp: connection_inv_def connection_writes_def Let_def intro!: exI [of _ "gs @ [g]"])
  next
    case (Some k)
    then have "prefix (cn_written c1) (frame_bytes B (gs @ [g]))"
      using c1 status gs(2) by (auto simp: connection_writes_def take_is_prefix)
    then show ?thesis
      using c1 status n gs(1) Some unfolding connection_inv_def Let_def
      by (auto simp: connection_writes_def simp del: frame_bytes_simps)
  qed
  from serving_inv_update [OF inv i D(1) refl _ this] have "serving_inv B crc dec cap im brokers peers (ns[i := ?n]) s1"
    unfolding s1 using status D(8) by auto
  then show ?thesis
    by simp
qed

lemma server_new_inv: "serving_inv B crc dec cap im brokers [] [] (server_new im brokers)"
  using tasks_nil [of cap "tasks_start im"]
  by (auto simp: serving_inv_def Let_def server_new_def tasks_start_def intro: exI [of _ "[]"])

lemma server_run_inv:
  assumes T: "stream_law T" and B: "bytes_crate B"
    and run: "server_run T cap (server_new im brokers) evs s"
    and "\<forall>ev \<in> set evs. server_event_ok B crc dec ev" and "accepted_bytes evs = map (peer_bytes B) peers"
    and "\<forall>p \<in> set peers. peer_ok B crc dec p"
  shows "\<exists>ns. serving_inv B crc dec cap im brokers peers ns s"
  using run assms(4-6)
proof (induction evs s arbitrary: peers rule: server_run.induct)
  case run_nil
  then have "peers = []"
    by (simp add: accepted_bytes_def)
  then show ?case
    using server_new_inv by blast
next
  case (run_snoc evs s ev s1)
  show ?case
  proof (cases "\<exists>bytes. ev = Accepted bytes")
    case True
    then obtain peers' p where peers: "peers = peers' @ [p]" and ev: "ev = Accepted (peer_bytes B p)"
      and "accepted_bytes evs = map (peer_bytes B) peers'"
      using run_snoc.prems(2) by (cases peers rule: rev_cases) (auto simp: accepted_bytes_def)
    then obtain ns where "serving_inv B crc dec cap im brokers peers' ns s"
      using run_snoc.IH [of peers'] run_snoc.prems(1,3) by auto
    then show ?thesis
      using accepted_inv run_snoc.hyps(2) peers ev by blast
  next
    case False
    then have "accepted_bytes evs = map (peer_bytes B) peers"
      using run_snoc.prems(2) by (auto simp: accepted_bytes_def split: server_event.splits)
    then obtain ns where inv: "serving_inv B crc dec cap im brokers peers ns s"
      using run_snoc.IH [of peers] run_snoc.prems(1,3) by auto
    have ok: "server_event_ok B crc dec ev" and step: "server_exec T cap ev s = Some s1"
      using run_snoc.prems(1) run_snoc.hyps(2) by simp_all
    from False show ?thesis
      using reads_inv [OF T B run_snoc.prems(3) inv] works_inv [OF inv] resumes_inv [OF inv] writes_inv [OF inv] ok step
      by (cases ev) (auto, blast+)
  qed
qed

section \<open>What was asked of the tasks\<close>

definition peers_entries :: "peer_input list \<Rightarrow> (topic_partition \<times> record_batch) list" where
  "peers_entries peers = concat (map (\<lambda>p. frames_entries (fst p)) peers)"

lemma known_sum: "(\<Sum>x\<leftarrow>xs. known L (g x)) = filter_mset (\<lambda>y. fst y \<in> dom L) (\<Sum>x\<leftarrow>xs. mset (g x))"
  by (induction xs) simp_all

lemma mset_peers_entries: "mset (peers_entries peers) = (\<Sum>p\<leftarrow>peers. mset (frames_entries (fst p)))"
  by (induction peers) (simp_all add: peers_entries_def)

lemma taken_entries_subset:
  "length ns = length peers \<Longrightarrow>
    (\<Sum>(p, n)\<leftarrow>zip peers ns. mset (frames_entries (take n (fst p)))) \<subseteq># mset (peers_entries peers)"
proof (induction peers arbitrary: ns)
  case (Cons p peers)
  then obtain n ns' where ns: "ns = n # ns'" "length ns' = length peers"
    by (cases ns) auto
  have "frames_entries fs = frames_entries (take n fs) @ frames_entries (drop n fs)" for fs
    by (simp add: frames_entries_def flip: concat_append map_append)
  then have "mset (frames_entries (take n (fst p))) \<subseteq># mset (frames_entries (fst p))"
    by (metis mset_append mset_subset_eq_add_left)
  then show ?case
    using Cons.IH [OF ns(2)] by (simp add: ns(1) mset_peers_entries subset_mset.add_mono)
qed simp

lemma taken_entries_all:
  "length ns = length peers \<Longrightarrow> (\<forall>i < length peers. ns ! i = length (fst (peers ! i))) \<Longrightarrow>
    (\<Sum>(p, n)\<leftarrow>zip peers ns. mset (frames_entries (take n (fst p)))) = mset (peers_entries peers)"
proof (induction peers arbitrary: ns)
  case (Cons p peers)
  then obtain n ns' where ns: "ns = n # ns'" "length ns' = length peers" "n = length (fst p)"
    by (cases ns) auto
  have "\<forall>i < length peers. ns' ! i = length (fst (peers ! i))"
    using Cons.prems(2) ns(1) by auto
  then show ?case
    using Cons.IH [OF ns(2)] ns(3) by (simp add: ns(1) mset_peers_entries)
qed (simp add: mset_peers_entries)

lemma requested_entries: "(\<forall>req. t \<noteq> Aborted req) \<Longrightarrow> requested t = body_entries (task_request t)"
  by (cases t rule: requested.cases) simp_all

section \<open>Properties\<close>

text \<open>A frame that answers a request: for metadata, that of an image with the same partitions.\<close>

definition frame_answered ::
    "(u8 list \<Rightarrow> u32) \<Rightarrow> decoder \<Rightarrow> logs \<Rightarrow> image \<Rightarrow> logs \<Rightarrow> broker_config list \<Rightarrow> frame \<Rightarrow> frame \<Rightarrow> bool" where
  "frame_answered crc dec L0 im L brokers f g \<longleftrightarrow>
     (case fm_body f of
        Metadata req \<Rightarrow>
          \<exists>e im1. order_law e \<and> map fst im1 = map fst im \<and> g = broker_handle_metadata e (fm_header f) brokers im1
      | body \<Rightarrow> \<exists>resp. g = response_frame (fm_header f) resp \<and> body_answered crc dec L0 im L body resp)"

text \<open>What a connection has written at any time.\<close>

definition connection_answers :: "(frame \<Rightarrow> frame \<Rightarrow> bool) \<Rightarrow> bytes_ops \<Rightarrow> peer_input \<Rightarrow> connection \<Rightarrow> bool" where
  "connection_answers R B p c \<longleftrightarrow>
     (\<exists>served left gs. fst p = served @ left \<and> list_all2 R served gs \<and> prefix (cn_written c) (frame_bytes B gs)
        \<and> ((\<forall>g. cn_status c \<noteq> Responding g) \<and> cn_status c \<noteq> Broken \<longrightarrow> cn_written c = frame_bytes B gs)
        \<and> (cn_status c = Ended \<longrightarrow> left = []) \<and> cn_status c \<noteq> Crashed)"

lemma connection_answersI:
  assumes "list_all2 R (take m (fst p)) gs" and "prefix (cn_written c) (frame_bytes B gs)"
    and "(\<forall>g. cn_status c \<noteq> Responding g) \<and> cn_status c \<noteq> Broken \<longrightarrow> cn_written c = frame_bytes B gs"
    and "cn_status c = Ended \<longrightarrow> m = length (fst p)" and "cn_status c \<noteq> Crashed"
  shows "connection_answers R B p c"
  unfolding connection_answers_def using assms
  by (intro exI [of _ "take m (fst p)"] exI [of _ "drop m (fst p)"] exI [of _ gs]) simp

lemma connection_inv_answers:
  assumes inv: "connection_inv B im brokers ts p n c" and none: "\<forall>req. Aborted req \<notin> set ts"
    and R: "\<And>f g. answered_with im brokers ts f g \<Longrightarrow> R f g"
  shows "connection_answers R B p c"
proof -
  have all: "list_all2 R fs gs" if "list_all2 (answered_with im brokers ts) fs gs" for fs gs
    using that R by (rule list_all2_mono)
  show ?thesis
  proof (cases "cn_status c")
    case Serving
    then obtain gs where "list_all2 (answered_with im brokers ts) (take n (fst p)) gs" "cn_written c = frame_bytes B gs"
      using inv by (auto simp: connection_inv_def Let_def)
    then show ?thesis
      using Serving by (intro connection_answersI [OF all]) simp_all
  next
    case (Waiting h j)
    then obtain gs where "list_all2 (answered_with im brokers ts) (take (n - 1) (fst p)) gs" "cn_written c = frame_bytes B gs"
      using inv by (auto simp: connection_inv_def Let_def)
    then show ?thesis
      using Waiting by (intro connection_answersI [OF all]) simp_all
  next
    case (Responding g)
    then obtain gs where "list_all2 (answered_with im brokers ts) (take n (fst p)) (gs @ [g])" "cn_written c = frame_bytes B gs"
      using inv by (auto simp: connection_inv_def Let_def)
    then show ?thesis
      using Responding by (intro connection_answersI [where m = n and gs = "gs @ [g]"] all) simp_all
  next
    case Ended
    then obtain gs where "list_all2 (answered_with im brokers ts) (take n (fst p)) gs" "cn_written c = frame_bytes B gs"
      and "n = length (fst p)"
      using inv by (auto simp: connection_inv_def Let_def)
    then show ?thesis
      using Ended by (intro connection_answersI [OF all]) simp_all
  next
    case Broken
    then obtain gs where "list_all2 (answered_with im brokers ts) (take n (fst p)) gs" "prefix (cn_written c) (frame_bytes B gs)"
      using inv by (auto simp: connection_inv_def Let_def)
    then show ?thesis
      using Broken by (intro connection_answersI [OF all]) simp_all
  qed (use inv none in \<open>simp add: connection_inv_def Let_def\<close>)
qed

text \<open>C10: however the connections of a server, the tasks of their requests and the actors of the
  partitions interleave, each connection has written the answers to the first requests of its own
  peer, in order, and nothing else but the start of the next one when a write failed; none
  panics, and one whose peer has closed has answered all of them. An answer has the header of its
  request and is what the logs hold: the offset at which each batch is, records of the log, the
  partitions there are. The partitions hold the logs with the appends written so far, which are
  among those the peers asked for, each at most once, and all of them when every connection has
  ended. Responses are so never mixed up or lost between connections that wait for one another.\<close>

theorem connections_are_answered:
  assumes "stream_law T" and "bytes_crate B" and "server_run T cap (server_new im brokers) evs s"
    and "\<forall>ev \<in> set evs. server_event_ok B crc dec ev" and "accepted_bytes evs = map (peer_bytes B) peers"
    and "\<forall>p \<in> set peers. peer_ok B crc dec p"
    and "image_holds crc im L0" and "\<forall>k a. map_of im k = Some a \<longrightarrow> pa_acks_pending a = []"
    and "logs_room (logs_now dec L0 (sr_tasks s))"
  shows "length (sr_connections s) = length peers
    \<and> (\<forall>i < length peers. connection_answers
         (frame_answered crc dec L0 (tk_image (sr_tasks s)) (logs_now dec L0 (sr_tasks s)) brokers)
         B (peers ! i) (sr_connections s ! i))
    \<and> image_holds crc (tk_image (sr_tasks s)) (logs_now dec L0 (sr_tasks s))
    \<and> mset (written (sr_tasks s)) \<subseteq># known L0 (peers_entries peers)
    \<and> ((\<forall>c \<in> set (sr_connections s). cn_status c = Ended) \<longrightarrow>
         mset (written (sr_tasks s)) = known L0 (peers_entries peers))"
proof -
  let ?S = "sr_tasks s" and ?ts = "tk_tasks (sr_tasks s)" and ?L = "logs_now dec L0 (sr_tasks s)"
  obtain ns where "serving_inv B crc dec cap im brokers peers ns s"
    using server_run_inv [OF assms(1-6)] by blast
  note D = serving_invD [OF this]
  obtain tevs where "tasks_run cap (tasks_start im) tevs ?S" "\<forall>ev \<in> set tevs. event_ok crc dec ev"
    using D(1) by blast
  then have sys: "system_inv crc dec L0 ?S"
    using system_inv_run [OF _ assms(7,8) _ assms(9)] by blast
  then have ok: "task_ok crc dec L0 (tk_image ?S) ?L (tk_asked ?S) t" if "t \<in> set ?ts" for t
    using that by (simp add: system_inv_def)
  have none: "\<forall>req. Aborted req \<notin> set ?ts"
    using ok by fastforce
  have asked: "(\<Sum>t\<leftarrow>?ts. known L0 (requested t)) =
      filter_mset (\<lambda>y. fst y \<in> dom L0) (\<Sum>(p, n)\<leftarrow>zip peers ns. mset (frames_entries (take n (fst p))))"
  proof -
    have "map requested ?ts = map (\<lambda>t. body_entries (task_request t)) ?ts"
      using none requested_entries by (metis (no_types, lifting) map_cong)
    then have "(\<Sum>t\<leftarrow>?ts. mset (requested t)) = (\<Sum>t\<leftarrow>?ts. mset (body_entries (task_request t)))"
      by (metis (no_types, lifting) list.map_comp comp_def map_eq_conv)
    then show ?thesis
      unfolding known_sum D(7) [symmetric] by simp
  qed
  have "connection_answers (frame_answered crc dec L0 (tk_image ?S) ?L brokers) B (peers ! i) (sr_connections s ! i)"
    if i: "i < length peers" for i
  proof (rule connection_inv_answers [OF D(6) [OF i] none])
    show "frame_answered crc dec L0 (tk_image ?S) ?L brokers f g" if "answered_with im brokers ?ts f g" for f g
      using that ok D(2) by (fastforce simp: answered_with_def frame_answered_def split: frame_body.splits)
  qed
  moreover have "mset (written ?S) \<subseteq># known L0 (peers_entries peers)"
    using subset_mset.order_trans [OF written_once(1) [OF sys, unfolded asked] multiset_filter_mono [OF taken_entries_subset [OF D(5)]]]
    by simp
  moreover have "mset (written ?S) = known L0 (peers_entries peers)" if ended: "\<forall>c \<in> set (sr_connections s). cn_status c = Ended"
  proof -
    have at: "cn_status (sr_connections s ! i) = Ended" if "i < length peers" for i
      using ended that D(4) by (metis nth_mem)
    have "settled (?ts ! j)" if "j < length ?ts" for j
      using D(8) [OF that] at by auto
    then have "settled t" if "t \<in> set ?ts" for t
      using that by (auto simp: in_set_conv_nth)
    then have "\<forall>t \<in> set ?ts. \<exists>req resp. t = Answered req resp"
      using none by (metis settled.elims(2))
    moreover have "\<forall>i < length peers. ns ! i = length (fst (peers ! i))"
      using D(6) at by (simp add: connection_inv_def Let_def)
    ultimately show ?thesis
      using written_once(2) [OF sys] taken_entries_all [OF D(5)] unfolding asked by simp
  qed
  ultimately show ?thesis
    using D(4) sys by (simp add: system_inv_def content_inv_def)
qed

section \<open>Two connections\<close>

text \<open>A produce request with \<open>acks = all\<close> on a connection is answered since a replica fetches on another.\<close>

definition await_frame :: frame where
  "await_frame = sample_frame ApiProduce (Produce await_request)"

definition replica_frame :: frame where
  "replica_frame = sample_frame ApiFetch (Fetch replica_request)"

definition sample_peers :: "peer_input list" where
  "sample_peers = [([await_frame], []), ([replica_frame], take 3 (frame_encode list_bytes replica_frame))]"

definition sample_server_events :: "server_event list" where
  "sample_server_events =
     map (Accepted \<circ> peer_bytes list_bytes) sample_peers
     @ [Reads 0 sample_env, Works (TaskTurn 0 sample_env), Works (ActorTurn ([116], 0)),
        Reads 1 sample_env, Works (TaskTurn 1 sample_env), Works (TaskTurn 1 sample_env), Works (ActorTurn ([116], 0)),
        Works (TaskTurn 0 sample_env), Works (TaskTurn 0 sample_env), Works (TaskTurn 0 sample_env),
        Resumes 0, Writes 0 list_bytes None, Reads 0 sample_env]"

lemma sample_produce_fits: "batch_fits (\<lambda>bs. 7) sample_produce"
  using sample_produce_stored sample_produce_holds sample_produce_length
  by (simp add: batch_fits_def batch_holds_def length_batch_layout)

lemma sample_frames_sendable: "sendable list_bytes (\<lambda>bs. 7) await_frame" "sendable list_bytes (\<lambda>bs. 7) replica_frame"
proof -
  have "length (frame_encode list_bytes await_frame) - 4 < 2 ^ 32"
    using sample_produce_length
    by (simp add: await_frame_def sample_frame_def frame_new_def await_request_def frame_encode_def Let_def
        encode_request_header_def encode_client_id_def encode_produce_def encode_produce_topic_def
        encode_produce_partition_def put_string_def list_bytes.puts length_batch_layout)
  then show "sendable list_bytes (\<lambda>bs. 7) await_frame"
    using sample_produce_fits
    by (simp add: sendable_def await_frame_def sample_frame_def frame_new_def Let_def frame_fits_def header_fits_wire_def
        await_request_def duration_fits_def duration_as_millis_def produce_topic_fits_def)
  have "length (frame_encode list_bytes replica_frame) - 4 < 2 ^ 32"
    by (simp add: replica_frame_def sample_frame_def frame_new_def replica_request_def frame_encode_def Let_def
        encode_request_header_def encode_client_id_def encode_fetch_def encode_fetch_topic_def
        encode_fetch_partition_def put_string_def list_bytes.puts)
  then show "sendable list_bytes (\<lambda>bs. 7) replica_frame"
    by (simp add: sendable_def replica_frame_def sample_frame_def frame_new_def Let_def frame_fits_def header_fits_wire_def
        replica_request_def fetch_topic_fits_def)
qed

lemma works_execs:
  "\<forall>ev \<in> set evs. \<forall>body. ev \<noteq> Arrives body \<Longrightarrow>
    server_execs T cap (map Works evs) s = map_option (\<lambda>ts. s\<lparr>sr_tasks := ts\<rparr>) (tasks_exec cap evs (sr_tasks s))"
proof (induction evs arbitrary: s)
  case (Cons ev evs)
  then show ?case
    by (cases ev) (auto simp: map_option_case split: option.split Option.bind_split)
qed simp

lemma reads_frame:
  assumes "sendable list_bytes (\<lambda>bs. 7) f" and "task_new (fm_body f) = Some t" and "i < length cs"
    and "cs ! i = connection_new (frame_encode list_bytes f @ rest)"
  shows "server_exec list_stream cap (Reads i sample_env) \<lparr>sr_tasks = ts, sr_brokers = bs, sr_connections = cs\<rparr>
    = Some \<lparr>sr_tasks = ts\<lparr>tk_tasks := tk_tasks ts @ [t]\<rparr>, sr_brokers = bs,
        sr_connections = cs[i := \<lparr>cn_incoming = rest, cn_written = [], cn_status = Waiting (fm_header f) (length (tk_tasks ts))\<rparr>]\<rparr>"
  using assms read_frame_encoded [OF list_stream_law list_bytes.bytes_crate_axioms assms(1), of rest]
  by (simp add: connection_reads_def request_taken_def connection_new_def sample_env_def Let_def)

lemma tasks_exec_append: "tasks_exec cap (evs @ evs') s = Option.bind (tasks_exec cap evs s) (tasks_exec cap evs')"
  by (induction evs arbitrary: s) (auto split: Option.bind_splits)

lemma tasks_exec_arrivals:
  assumes "tasks_exec cap ([Arrives b0] @ evs @ [Arrives b1] @ evs') s = Some s2"
    and "task_new b0 = Some t0" and "task_new b1 = Some t1"
  shows "\<exists>s1. tasks_exec cap evs (s\<lparr>tk_tasks := tk_tasks s @ [t0]\<rparr>) = Some s1
    \<and> tasks_exec cap evs' (s1\<lparr>tk_tasks := tk_tasks s1 @ [t1]\<rparr>) = Some s2"
  using assms by (auto simp: tasks_exec_append bind_eq_Some_conv)

lemma sample_server_runs:
  assumes exec: "tasks_exec 1 await_events (tasks_start im) = Some ts"
    and answered: "tk_tasks ts = [Answered (Produce await_request) body, t]"
  shows "\<exists>s. server_run list_stream 1 (server_new im []) sample_server_events s \<and> sr_tasks s = ts
    \<and> length (sr_connections s) = 2 \<and> cn_status (sr_connections s ! 0) = Ended
    \<and> (\<exists>h j. cn_status (sr_connections s ! 1) = Waiting h j)"
proof -
  let ?e = sample_env and ?new = "\<lambda>bs. connection_new bs"
  let ?A = "frame_encode list_bytes await_frame" and ?R = "frame_encode list_bytes replica_frame"
  let ?w1 = "[TaskTurn 0 ?e, ActorTurn ([116], 0)]"
  let ?w2 = "[TaskTurn 1 ?e, TaskTurn 1 ?e, ActorTurn ([116], 0), TaskTurn 0 ?e, TaskTurn 0 ?e, TaskTurn 0 ?e]"
  obtain t0 t1 where t0: "task_new (fm_body await_frame) = Some t0" and t1: "task_new (fm_body replica_frame) = Some t1"
    by (simp add: await_frame_def replica_frame_def sample_frame_def frame_new_def Let_def)
  let ?tasks = "(tasks_start im)\<lparr>tk_tasks := tk_tasks (tasks_start im) @ [t0]\<rparr>"
  have bodies: "task_new (Produce await_request) = Some t0" "task_new (Fetch replica_request) = Some t1"
    using t0 t1 by (simp_all add: await_frame_def replica_frame_def sample_frame_def frame_new_def Let_def)
  have "await_events = [Arrives (Produce await_request)] @ ?w1 @ [Arrives (Fetch replica_request)] @ ?w2"
    by (simp add: await_events_def)
  from tasks_exec_arrivals [OF exec [unfolded this] bodies] obtain s1 where w1: "tasks_exec 1 ?w1 ?tasks = Some s1"
    and w2: "tasks_exec 1 ?w2 (s1\<lparr>tk_tasks := tk_tasks s1 @ [t1]\<rparr>) = Some ts"
    by blast
  let ?tail = "take 3 ?R" and ?h0 = "fm_header await_frame" and ?h1 = "fm_header replica_frame"
  let ?c0 = "\<lparr>cn_incoming = [], cn_written = [], cn_status = Waiting ?h0 0\<rparr>"
  let ?c1 = "\<lparr>cn_incoming = ?tail, cn_written = [], cn_status = Waiting ?h1 (length (tk_tasks s1))\<rparr>"
  let ?S = "\<lambda>ts cs. \<lparr>sr_tasks = ts, sr_brokers = [], sr_connections = cs\<rparr>"
  have r0: "server_exec list_stream 1 (Reads 0 ?e) (?S (tasks_start im) [?new (?A @ []), ?new (?R @ ?tail)])
      = Some (?S ?tasks [?c0, ?new (?R @ ?tail)])"
    using reads_frame [OF sample_frames_sendable(1) t0, of 0 "[?new (?A @ []), ?new (?R @ ?tail)]" "[]" 1 "tasks_start im" "[]"]
    by (simp add: tasks_start_def)
  have r1: "server_exec list_stream 1 (Reads 1 ?e) (?S s1 [?c0, ?new (?R @ ?tail)])
      = Some (?S (s1\<lparr>tk_tasks := tk_tasks s1 @ [t1]\<rparr>) [?c0, ?c1])"
    using reads_frame [OF sample_frames_sendable(2) t1, of 1 "[?c0, ?new (?R @ ?tail)]" ?tail 1 s1 "[]"] by simp
  have works: "server_execs list_stream 1 (map Works ?w1) (?S ?tasks cs) = Some (?S s1 cs)"
    "server_execs list_stream 1 (map Works ?w2) (?S (s1\<lparr>tk_tasks := tk_tasks s1 @ [t1]\<rparr>) cs) = Some (?S ts cs)" for cs
    using works_execs [of ?w1] works_execs [of ?w2] w1 w2 by (simp_all del: tasks_exec.simps list.map)
  let ?d0 = "\<lparr>cn_incoming = [], cn_written = frame_encode list_bytes (response_frame ?h0 body), cn_status = Ended\<rparr>"
  have "read_frame list_stream B crc [] = Err Io" for B crc
    by (simp add: read_frame_def list_stream_def get_front_def take_front_def)
  then have last: "server_execs list_stream 1 [Resumes 0, Writes 0 list_bytes None, Reads 0 ?e] (?S ts [?c0, ?c1]) = Some (?S ts [?d0, ?c1])"
    using answered by (simp add: connection_resumes_def connection_writes_def connection_reads_def)
  have accept: "server_execs list_stream 1 [Accepted (?A @ []), Accepted (?R @ ?tail)] (server_new im [])
      = Some (?S (tasks_start im) [?new (?A @ []), ?new (?R @ ?tail)])"
    by (simp add: server_new_def)
  have reads: "server_execs list_stream 1 [ev] s = Some s2" if "server_exec list_stream 1 ev s = Some s2" for ev s s2
    using that by simp
  have events: "sample_server_events = [Accepted (?A @ []), Accepted (?R @ ?tail)] @ [Reads 0 ?e] @ map Works ?w1 @ [Reads 1 ?e]
      @ map Works ?w2 @ [Resumes 0, Writes 0 list_bytes None, Reads 0 ?e]"
    by (simp add: sample_server_events_def sample_peers_def peer_bytes_def)
  have "server_execs list_stream 1 sample_server_events (server_new im []) = Some (?S ts [?d0, ?c1])"
    unfolding events
    by (rule server_execs_then [OF accept server_execs_then [OF reads [OF r0] server_execs_then [OF works(1)
            server_execs_then [OF reads [OF r1] server_execs_then [OF works(2) last]]]]])
  then show ?thesis
    using server_run_execs by fastforce
qed

lemma connections_are_answered_witness:
  "\<exists>im s resp. server_run list_stream 1 (server_new im []) sample_server_events s
    \<and> cn_status (sr_connections s ! 0) = Ended \<and> (\<exists>h j. cn_status (sr_connections s ! 1) = Waiting h j)
    \<and> cn_written (sr_connections s ! 0) = frame_encode list_bytes (response_frame (fm_header await_frame) resp)
    \<and> body_answered (\<lambda>bs. 7) (\<lambda>_. rebased sample_records) [([116], 0) \<mapsto> []] (tk_image (sr_tasks s))
        [([116], 0) \<mapsto> [rebased sample_records]] (Produce await_request) resp"
proof -
  obtain a where none: "pa_acks_pending a = []" and log: "log_holds (\<lambda>bs. 7) a [] []"
    and reps: "ps_replicas (pa_snapshot a) = [replica_empty [98] 7]"
    using replica_actor_exists by blast
  let ?im = "[(([116], 0), a)]" and ?L0 = "[([116], 0) \<mapsto> []] :: logs" and ?dec = "\<lambda>_. rebased sample_records"
  obtain ts resp t where "tasks_exec 1 await_events (tasks_start ?im) = Some ts"
    and tasks: "tk_tasks ts = [Answered (Produce await_request) (produce_answer_body sample_env [([116], [resp])]), t]"
    and hist: "tk_asked ts = [(([116], 0), sample_produce, AcksAll)]" "tk_appended ts = [0]"
    using await_exec [OF reps _ none log] by (auto simp: replica_empty_def)
  then obtain s where run: "server_run list_stream 1 (server_new ?im []) sample_server_events s" and ts: "sr_tasks s = ts"
    and len: "length (sr_connections s) = 2" and ended: "cn_status (sr_connections s ! 0) = Ended"
    and waiting: "\<exists>h j. cn_status (sr_connections s ! 1) = Waiting h j"
    using sample_server_runs by blast
  have now: "logs_now ?dec ?L0 (sr_tasks s) = [([116], 0) \<mapsto> [rebased sample_records]]"
    by (simp add: logs_now_def written_def hist asked_entry_def ts)
  have room: "logs_room (logs_now ?dec ?L0 (sr_tasks s))"
    unfolding now by (rule sample_room)
  have events: "\<forall>ev \<in> set sample_server_events. server_event_ok list_bytes (\<lambda>bs. 7) ?dec ev"
    using list_bytes.bytes_crate_axioms
    by (simp add: sample_server_events_def sample_peers_def sample_env_def order_law_def)
  have bytes: "accepted_bytes sample_server_events = map (peer_bytes list_bytes) sample_peers"
    by (simp add: accepted_bytes_def sample_server_events_def sample_peers_def)
  have "\<forall>x \<in> set (request_entries await_request). entry_ok (\<lambda>bs. 7) ?dec x"
    using await_events_ok by (simp add: await_events_def)
  moreover have "3 < length (frame_encode list_bytes replica_frame)"
    by (simp add: frame_encode_def Let_def)
  ultimately have peers: "\<forall>p \<in> set sample_peers. peer_ok list_bytes (\<lambda>bs. 7) ?dec p"
    using sample_frames_sendable
    by (auto simp: sample_peers_def peer_ok_def request_ok_def await_frame_def replica_frame_def sample_frame_def frame_new_def Let_def)
  have "image_holds (\<lambda>bs. 7) ?im ?L0" and "\<forall>k a'. map_of ?im k = Some a' \<longrightarrow> pa_acks_pending a' = []"
    using log none by (auto simp: image_holds_def)
  from connections_are_answered [OF list_stream_law list_bytes.bytes_crate_axioms run events bytes peers this room]
  have "connection_answers (frame_answered (\<lambda>bs. 7) ?dec ?L0 (tk_image (sr_tasks s)) [([116], 0) \<mapsto> [rebased sample_records]] [])
      list_bytes ([await_frame], []) (sr_connections s ! 0)"
    unfolding now by (auto simp: sample_peers_def)
  then obtain g where "frame_answered (\<lambda>bs. 7) ?dec ?L0 (tk_image (sr_tasks s)) [([116], 0) \<mapsto> [rebased sample_records]] [] await_frame g"
    and written: "cn_written (sr_connections s ! 0) = frame_encode list_bytes g"
    using ended by (auto simp: connection_answers_def list_all2_Cons1)
  moreover have "fm_body await_frame = Produce await_request"
    by (simp add: await_frame_def sample_frame_def frame_new_def Let_def)
  ultimately obtain resp where "g = response_frame (fm_header await_frame) resp"
    "body_answered (\<lambda>bs. 7) ?dec ?L0 (tk_image (sr_tasks s)) [([116], 0) \<mapsto> [rebased sample_records]] (Produce await_request) resp"
    by (auto simp: frame_answered_def)
  with run ended waiting written show ?thesis
    by blast
qed

end
