(* ===== verification/Programs.thy ===== *)
theory Programs
  imports Delivery Net_Server Raft_Json
begin

text \<open>
  The programs (\<open>src/bin\<close>). Their arguments, configuration files and sockets are read by other
  crates; what they do with them is here: the producer that sends a value or the lines of its
  input, the seeder that creates topics, the server, and the lines the consumer prints. A string
  is the list of its bytes in UTF-8.
\<close>

section \<open>Strings\<close>

text \<open>The white space of \<open>str::trim\<close>, each character by its bytes.\<close>

definition white_chars :: "u8 list list" where
  "white_chars =
     map (\<lambda>b. [b]) [9, 10, 11, 12, 13, 32] @ [[0xC2, 0x85], [0xC2, 0xA0], [0xE1, 0x9A, 0x80]]
     @ map (\<lambda>b. [0xE2, 0x80, b]) [0x80, 0x81, 0x82, 0x83, 0x84, 0x85, 0x86, 0x87, 0x88, 0x89, 0x8A, 0xA8, 0xA9, 0xAF]
     @ [[0xE2, 0x81, 0x9F], [0xE3, 0x80, 0x80]]"

lemma white_chars_ne: "w \<in> set white_chars \<Longrightarrow> w \<noteq> []"
  by (auto simp: white_chars_def)

function trim_front :: "u8 list list \<Rightarrow> u8 list \<Rightarrow> u8 list" where
  "trim_front ws s =
     (case find (\<lambda>w. w \<noteq> [] \<and> take (length w) s = w) ws of
        None \<Rightarrow> s
      | Some w \<Rightarrow> trim_front ws (drop (length w) s))"
  by pat_completeness auto
termination
proof (relation "measure (\<lambda>(ws, s). length s)")
  fix ws :: "u8 list list" and s w
  assume "find (\<lambda>w. w \<noteq> [] \<and> take (length w) s = w) ws = Some w"
  then have "w \<noteq> []" and "take (length w) s = w"
    by (auto dest: find_SomeD)
  then show "((ws, drop (length w) s), (ws, s)) \<in> measure (\<lambda>(ws, s). length s)"
    by (cases s) auto
qed simp

declare trim_front.simps [simp del]

definition trim :: "u8 list \<Rightarrow> u8 list" where
  "trim s = rev (trim_front (map rev white_chars) (rev (trim_front white_chars s)))"

text \<open>\<open>splitn(2, c)\<close>: what is before the first \<open>c\<close>, and what is after it if there is one.\<close>

fun splitn2 :: "u8 \<Rightarrow> u8 list \<Rightarrow> u8 list list" where
  "splitn2 c [] = [[]]"
| "splitn2 c (b # bs) =
     (if b = c then [[], bs] else case splitn2 c bs of [] \<Rightarrow> [] | p # ps \<Rightarrow> (b # p) # ps)"

section \<open>The producer\<close>

definition parse_input_line :: "u8 list \<Rightarrow> u8 list option \<times> u8 list" where
  "parse_input_line line =
     (case splitn2 58 line of
        [key, value] \<Rightarrow> (Some key, value)
      | [value] \<Rightarrow> (None, value)
      | _ \<Rightarrow> (None, line))"

text \<open>
  The methods of \<open>Producer\<close> send a command to the task of the batcher. The commands sent so far
  are the state; \<open>alive\<close> says whether the task still receives after them, and \<open>joined\<close> whether
  it ends without a panic.
\<close>

type_synonym sent_commands = "producer_command list"

definition producer_publish_async ::
    "(sent_commands \<Rightarrow> bool) \<Rightarrow> publish_payload \<Rightarrow> sent_commands \<Rightarrow> (producer_error, sent_commands) outcome" where
  "producer_publish_async alive p sent = (if alive sent then Ok (sent @ [Async p]) else Err ClientErr)"

definition producer_publish_once ::
    "(sent_commands \<Rightarrow> bool) \<Rightarrow> publish_payload \<Rightarrow> sent_commands \<Rightarrow> (producer_error, sent_commands) outcome" where
  "producer_publish_once alive p sent = (if alive sent then Ok (sent @ [Sync p]) else Err ClientErr)"

definition producer_shutdown ::
    "(sent_commands \<Rightarrow> bool) \<Rightarrow> (sent_commands \<Rightarrow> bool) \<Rightarrow> sent_commands \<Rightarrow> (producer_error, sent_commands) outcome" where
  "producer_shutdown alive joined sent =
     (if alive sent
      then let sent1 = sent @ [Shutdown] in if joined sent1 then Ok sent1 else Err ChanClosed
      else Err UnknownErr)"

definition run_once ::
    "(sent_commands \<Rightarrow> bool) \<Rightarrow> u8 list \<Rightarrow> u8 list option \<Rightarrow> u8 list \<Rightarrow> sent_commands \<Rightarrow> (unit, sent_commands) outcome" where
  "run_once alive topic key value sent =
     unwrap (producer_publish_once alive \<lparr>py_topic = topic, py_key = key, py_value = value\<rparr> sent)"

text \<open>The lines of the input; \<open>None\<close> is a line that cannot be read.\<close>

fun run_loop ::
    "(sent_commands \<Rightarrow> bool) \<Rightarrow> u8 list \<Rightarrow> u8 list option list \<Rightarrow> sent_commands \<Rightarrow> (unit, sent_commands) outcome" where
  "run_loop alive topic [] sent = Ok sent"
| "run_loop alive topic (None # lines) sent = Ok sent"
| "run_loop alive topic (Some line # lines) sent =
     (let input = trim line
      in if input = [] then run_loop alive topic lines sent
         else let (key, value) = parse_input_line input
              in obind (unwrap (producer_publish_async alive \<lparr>py_topic = topic, py_key = key, py_value = value\<rparr> sent))
                   (run_loop alive topic lines))"

definition producer_main ::
    "(sent_commands \<Rightarrow> bool) \<Rightarrow> (sent_commands \<Rightarrow> bool) \<Rightarrow> u8 list \<Rightarrow> u8 list option \<Rightarrow> u8 list option \<Rightarrow>
      u8 list option list \<Rightarrow> (unit, sent_commands) outcome" where
  "producer_main alive joined topic key value lines =
     obind (case value of Some v \<Rightarrow> run_once alive topic key v [] | None \<Rightarrow> run_loop alive topic lines [])
       (\<lambda>sent. unwrap (producer_shutdown alive joined sent))"

section \<open>The seeder, the server and the consumer\<close>

text \<open>Every failure of the seeder's exchange is a panic.\<close>

definition seeder_main ::
    "stream_ops \<Rightarrow> bytes_ops \<Rightarrow> (u8 list \<Rightarrow> u32) \<Rightarrow> 's peer \<Rightarrow> u32 \<Rightarrow> create_topic_request \<Rightarrow> 's \<times> u8 list \<Rightarrow>
      ('s \<times> u8 list) \<times> (unit, frame) outcome" where
  "seeder_main T B crc peer correlation_id req s =
     (let (s1, r) = exchange T B crc peer (frame_new correlation_id ApiCreateTopics (Topic req)) s
      in (s1, unwrap r))"

definition server_main ::
    "broker_env \<Rightarrow> ((topic_record \<times> partition_record list) list \<Rightarrow> (topic_record \<times> partition_record list) list) \<Rightarrow>
      file_system \<Rightarrow> broker_config list \<Rightarrow> (unit, server) outcome option" where
  "server_main e order fs brokers =
     map_option (omap (\<lambda>br. server_new (bk_image br) (bk_brokers br))) (broker_new e order fs brokers)"

text \<open>A record as it is printed: \<open>[topic-partition:key] value\<close>.\<close>

definition record_text :: "u8 list \<Rightarrow> nat \<Rightarrow> msg_record \<Rightarrow> u8 list" where
  "record_text topic part r =
     91 # topic @ 45 # json_digits part @ 58 # from_utf8_lossy (rc_key r) @ [93, 32] @ from_utf8_lossy (rc_value r)"

definition consumer_record_display :: "consumer_record \<Rightarrow> u8 list" where
  "consumer_record_display r = record_text (cs_topic r) (unat (cs_partition r)) (cs_inner r)"

definition consumer_main :: "consumer_record list \<Rightarrow> u8 list list" where
  "consumer_main rs = map consumer_record_display rs"

text \<open>A fetch response is printed in the same way, a line for each record.\<close>

fun display_batches :: "bytes_ops \<Rightarrow> u8 list \<Rightarrow> u32 \<Rightarrow> record_batch list \<Rightarrow> (unit, u8 list) outcome" where
  "display_batches B topic part [] = Ok []"
| "display_batches B topic part (b # bs) =
     obind (batch_into_records B b) (\<lambda>rs.
     omap (\<lambda>rest. concat (map (\<lambda>r. record_text topic (unat part) r @ [10]) rs) @ rest) (display_batches B topic part bs))"

fun display_partitions :: "bytes_ops \<Rightarrow> u8 list \<Rightarrow> partition_response list \<Rightarrow> (unit, u8 list) outcome" where
  "display_partitions B topic [] = Ok []"
| "display_partitions B topic (p # ps) =
     obind (display_batches B topic (pr_partition_index p) (pr_records p)) (\<lambda>text.
     omap (\<lambda>rest. text @ rest) (display_partitions B topic ps))"

definition topic_response_display :: "bytes_ops \<Rightarrow> topic_response \<Rightarrow> (unit, u8 list) outcome" where
  "topic_response_display B t = display_partitions B (tr_topic t) (tr_partitions t)"

lemma display_batches_carry:
  assumes "bytes_crate B" and "batches_carry bs rss"
  shows "display_batches B topic part bs = Ok (concat (map (\<lambda>r. record_text topic (unat part) r @ [10]) (concat rss)))"
  using assms(2)
proof (induction bs arbitrary: rss)
  case (Cons b bs)
  then obtain rs qss where rss: "rss = rs # qss" "batch_holds b rs" "batches_carry bs qss"
    by (auto simp: batches_carry_def list_all2_Cons1)
  then show ?case
    using Cons.IH [OF rss(3)] bytes_crate.batch_into_records_holds [OF assms(1) rss(2)] by simp
qed (simp add: batches_carry_def)

section \<open>The lines of the input\<close>

text \<open>A line is one record; put together again its key and value are the line without the white
  space around it.\<close>

lemma splitn2_found: "c \<notin> set key \<Longrightarrow> splitn2 c (key @ c # value) = [key, value]"
  by (induction key) auto

lemma splitn2_none: "c \<notin> set s \<Longrightarrow> splitn2 c s = [s]"
  by (induction s) auto

lemma parse_input_line_spec:
  "parse_input_line line = (key, value) \<longleftrightarrow>
     (case key of Some k \<Rightarrow> 58 \<notin> set k \<and> line = k @ 58 # value | None \<Rightarrow> 58 \<notin> set line \<and> value = line)"
proof (cases "58 \<in> set line")
  case True
  then obtain k v where line: "line = k @ 58 # v" "58 \<notin> set k"
    by (meson split_list_first)
  have "k' = k \<and> v' = v" if "k' @ 58 # v' = k @ 58 # v" "58 \<notin> set k'" for k' v' :: "u8 list"
    using that line(2) by (metis (no_types, lifting) append_Cons_eq_iff append_Nil2 splitn2_found list.inject)
  then show ?thesis
    using line splitn2_found [OF line(2), of v] by (auto simp: parse_input_line_def split: option.splits)
qed (auto simp: parse_input_line_def splitn2_none split: option.splits)

definition line_payload :: "u8 list \<Rightarrow> u8 list \<Rightarrow> publish_payload" where
  "line_payload topic line =
     \<lparr>py_topic = topic, py_key = fst (parse_input_line (trim line)), py_value = snd (parse_input_line (trim line))\<rparr>"

lemma run_loop_sends:
  assumes "\<And>sent. alive sent"
  shows "run_loop alive topic (map Some lines) sent =
    Ok (sent @ map (\<lambda>line. Async (line_payload topic line)) (filter (\<lambda>line. trim line \<noteq> []) lines))"
  by (induction lines arbitrary: sent)
    (simp_all add: producer_publish_async_def assms line_payload_def Let_def case_prod_unfold)

lemma producer_main_sends:
  assumes "\<And>sent. alive sent" and "\<And>sent. joined sent"
  shows "producer_main alive joined topic key None (map Some lines) =
    Ok (map (\<lambda>line. Async (line_payload topic line)) (filter (\<lambda>line. trim line \<noteq> []) lines) @ [Shutdown])"
  by (simp add: producer_main_def run_loop_sends [OF assms(1)] producer_shutdown_def assms Let_def)

text \<open>Three lines, the second of them blank.\<close>

lemma producer_main_sample:
  "producer_main (\<lambda>_. True) (\<lambda>_. True) [116] None None [Some [32, 107, 58, 118, 58, 13], Some [32, 9], Some [118]] =
    Ok [Async \<lparr>py_topic = [116], py_key = Some [107], py_value = [118, 58]\<rparr>,
        Async \<lparr>py_topic = [116], py_key = None, py_value = [118]\<rparr>, Shutdown]"
  by (simp add: producer_main_def trim_def trim_front.simps white_chars_def parse_input_line_def
      producer_publish_async_def producer_shutdown_def Let_def)

section \<open>The seeder and a broker\<close>

definition topics_small :: "create_topic_request \<Rightarrow> bool" where
  "topics_small req \<longleftrightarrow>
     length (cq_topics req) < 2 ^ 16 \<and> (\<forall>t \<in> set (cq_topics req). topic_request_fits t)
     \<and> (\<Sum>t\<leftarrow>cq_topics req. 12 + length (tq_name t) + 8 * length (tq_assignments t)) < 2 ^ 31"

context bytes_crate
begin

lemma encode_assignments_length:
  "length (emit (map (encode_assignment B) as) buf) = length buf + 8 * length as"
  by (induction as arbitrary: buf) (simp_all add: encode_assignment_def puts)

lemma encode_topic_requests_length:
  "length (emit (map (encode_topic_request B) ts) buf) =
     length buf + (\<Sum>t\<leftarrow>ts. 10 + length (tq_name t) + 8 * length (tq_assignments t))"
  by (induction ts arbitrary: buf)
    (simp_all add: encode_topic_request_def put_string_def puts encode_assignments_length)

lemma encode_created_length:
  "length (emit (map (encode_create_topic_topic_response B) (map created_response ts)) buf) =
     length buf + (\<Sum>t\<leftarrow>ts. 12 + length (tq_name t))"
  by (induction ts arbitrary: buf)
    (simp_all add: encode_create_topic_topic_response_def created_response_def put_string_def puts)

end

lemma seeder_sendable:
  assumes B: "bytes_crate B" and req: "topics_small req"
  shows "sendable B crc (frame_new c ApiCreateTopics (Topic req))"
proof -
  have "(\<Sum>t\<leftarrow>cq_topics req. 10 + length (tq_name t) + 8 * length (tq_assignments t))
      \<le> (\<Sum>t\<leftarrow>cq_topics req. 12 + length (tq_name t) + 8 * length (tq_assignments t))"
    by (rule sum_list_mono) simp
  then have "length (frame_encode B (frame_new c ApiCreateTopics (Topic req))) - 4 < 2 ^ 32"
    using req
    by (simp add: topics_small_def frame_encode_def frame_new_def Let_def encode_request_header_def encode_client_id_def
        encode_create_topics_def put_bool_def bytes_crate.puts [OF B] bytes_crate.encode_topic_requests_length [OF B])
  then show ?thesis
    using req by (simp add: topics_small_def sendable_def frame_new_def frame_fits_def header_fits_wire_def Let_def)
qed

lemma created_answerable:
  assumes B: "bytes_crate B" and req: "topics_small req" and h: "rq_client_id h = None" "rq_api_key h = ApiCreateTopics"
  shows "answerable B crc \<lparr>fm_size = sz, fm_header = h, fm_body = TopicResponse
    \<lparr>cr_throttle_time_ms = elapsed, cr_topics = map created_response (cq_topics req)\<rparr>\<rparr>"
proof -
  have "(\<Sum>t\<leftarrow>cq_topics req. 12 + length (tq_name t))
      \<le> (\<Sum>t\<leftarrow>cq_topics req. 12 + length (tq_name t) + 8 * length (tq_assignments t))"
    by (rule sum_list_mono) simp
  then have "length (frame_encode B \<lparr>fm_size = sz, fm_header = h, fm_body = TopicResponse
    \<lparr>cr_throttle_time_ms = elapsed, cr_topics = map created_response (cq_topics req)\<rparr>\<rparr>) - 4 < 2 ^ 32"
    using req h
    by (simp add: topics_small_def frame_encode_def Let_def encode_request_header_def encode_client_id_def
        encode_create_topics_response_def bytes_crate.puts [OF B] bytes_crate.encode_created_length [OF B] del: map_map)
  moreover have "string_fits 16 []"
    by (simp add: string_fits_def)
  ultimately show ?thesis
    using req h
    by (auto simp: topics_small_def answerable_def frame_fits_def header_fits_wire_def created_response_def
        create_topic_topic_response_fits_def topic_request_fits_def)
qed

lemma created_answer:
  assumes "broker_handle e f br = Some (Ok (br1, g))" and "fm_body f = Topic req"
  shows "fm_header g = fm_header f
    \<and> fm_body g = TopicResponse \<lparr>cr_throttle_time_ms = en_elapsed e, cr_topics = map created_response (cq_topics req)\<rparr>"
proof -
  obtain r where r: "metadata_create_topics (en_bytes e) (en_crc e) (en_read_dir e) (en_disk e) (en_clock e) (en_elapsed e)
      req (bk_meta br) = Some r"
    using assms by (auto simp: broker_handle_def broker_handle_create_topics_def Let_def)
  then obtain m1 res where "r = Ok (m1, res)"
    using assms by (cases r) (auto simp: broker_handle_def broker_handle_create_topics_def Let_def)
  then show ?thesis
    using assms r
    by (auto simp: broker_handle_def broker_handle_create_topics_def metadata_create_topics_def Let_def omap_eq_Ok
        split: outcome.splits)
qed

section \<open>Properties\<close>

text \<open>C11: the seeder creates the topics of its file: a broker at the other end that has none of
  their partitions has them all, and empty, when the seeder ends, and has kept the others.\<close>

theorem seeder_creates_topics:
  assumes "stream_law T" and "env_ok crc e" and "image_holds crc (bk_image br) L" and "topics_small req"
    and "distinct (created_keys req)" and "\<forall>k \<in> set (created_keys req). L k = None"
  shows "\<exists>br1 g. seeder_main T (en_bytes e) crc (broker_peer T e) c req (br, []) = ((br1, []), Ok g)
    \<and> image_holds crc (bk_image br1) (\<lambda>k. if k \<in> set (created_keys req) then Some [] else L k)
    \<and> fm_body g = TopicResponse \<lparr>cr_throttle_time_ms = en_elapsed e, cr_topics = map created_response (cq_topics req)\<rparr>"
proof -
  let ?f = "frame_new c ApiCreateTopics (Topic req)"
  have B: "bytes_crate (en_bytes e)" "en_crc e = crc"
    using assms(2) by (simp_all add: env_ok_def)
  have f: "fm_body ?f = Topic req" "rq_client_id (fm_header ?f) = None" "rq_api_key (fm_header ?f) = ApiCreateTopics"
    by (simp_all add: frame_new_def Let_def)
  obtain br1 g where handled: "broker_handle e ?f br = Some (Ok (br1, g))"
    and im: "image_holds crc (bk_image br1) (\<lambda>k. if k \<in> set (created_keys req) then Some [] else L k)"
    using broker_create_logs [OF assms(2,3,5,6) f(1)] by blast
  note g = created_answer [OF handled f(1)]
  then have "g = \<lparr>fm_size = fm_size g, fm_header = fm_header ?f, fm_body = TopicResponse
      \<lparr>cr_throttle_time_ms = en_elapsed e, cr_topics = map created_response (cq_topics req)\<rparr>\<rparr>"
    by simp
  then have "answerable (en_bytes e) crc g"
    using created_answerable [OF B(1) assms(4) f(2,3)] by metis
  then have "exchange T (en_bytes e) crc (broker_peer T e) ?f (br, []) = ((br1, []), Ok (g\<lparr>fm_size := frame_get_size g\<rparr>))"
    using exchange_with_broker [OF assms(1) B(1) _ handled] seeder_sendable [OF B(1) assms(4)] B(2) by simp
  then show ?thesis
    using g im by (simp add: seeder_main_def)
qed

lemma seeder_creates_topics_witness:
  "\<forall>a. \<exists>br1 g. seeder_main list_stream list_bytes (\<lambda>bs. 7) (broker_peer list_stream sample_logs_env) 1 sample_topics
      (\<lparr>bk_meta = \<lparr>ma_handle = a, ma_snapshot = []\<rparr>, bk_brokers = []\<rparr>, []) = ((br1, []), Ok g)
    \<and> image_holds (\<lambda>bs. 7) (bk_image br1) (\<lambda>k. if k \<in> {([116], 0), ([116], 1)} then Some [] else None)"
proof
  fix a
  let ?br = "\<lparr>bk_meta = \<lparr>ma_handle = a, ma_snapshot = []\<rparr>, bk_brokers = []\<rparr>"
  have im: "image_holds (\<lambda>bs. 7) (bk_image ?br) Map.empty"
    by (simp add: bk_image_def)
  have small: "topics_small sample_topics"
    by (simp add: topics_small_def sample_topics_def topic_request_fits_def string_fits_def utf8_valid.simps)
  have created: "created_keys sample_topics = [([116], 0), ([116], 1)]"
    by (simp add: created_keys_def sample_topics_def topic_partitions_def upt_rec)
  have keys: "distinct (created_keys sample_topics)" "\<forall>k \<in> set (created_keys sample_topics). Map.empty k = None"
    by (simp_all add: created)
  have env: "en_bytes sample_logs_env = list_bytes"
    by (simp add: sample_logs_env_def sample_env_def)
  from seeder_creates_topics [OF list_stream_law sample_logs_env_ok im small keys, of 1]
  show "\<exists>br1 g. seeder_main list_stream list_bytes (\<lambda>bs. 7) (broker_peer list_stream sample_logs_env) 1 sample_topics
      (?br, []) = ((br1, []), Ok g)
    \<and> image_holds (\<lambda>bs. 7) (bk_image br1) (\<lambda>k. if k \<in> {([116], 0), ([116], 1)} then Some [] else None)"
    unfolding env created list.set by blast
qed

end
