(* ===== verification/Broker_Tasks_Acks.thy ===== *)
theory Broker_Tasks_Acks
  imports Broker_Tasks_Answers
begin

text \<open>
  The acknowledgement that never comes: only the report of a replica releases an append with
  \<open>acks = all\<close>, also on a partition that has no replicas, and the program gives its partitions none.
\<close>

declare split_paired_All [simp del] split_paired_Ex [simp del]

section \<open>Without replicas that fetch\<close>

definition answered_without :: "topic_partition set \<Rightarrow> produce_request \<Rightarrow> bool" where
  "answered_without K req \<longleftrightarrow> (qr_acks req = AcksAll \<longrightarrow> (\<forall>x \<in> set (request_entries req). fst x \<notin> K))"

text \<open>The mailboxes hold appends only, and no reply is there to one with \<open>acks = all\<close>.\<close>

definition numbered :: "(topic_partition \<times> record_batch \<times> acks) list \<Rightarrow> nat \<Rightarrow> acks \<Rightarrow> bool" where
  "numbered asked r acks \<longleftrightarrow> r < length asked \<and> snd (snd (asked ! r)) = acks"

definition only_append :: "(topic_partition \<times> record_batch \<times> acks) list \<Rightarrow> partition_command \<Rightarrow> bool" where
  "only_append asked c \<longleftrightarrow> (\<exists>b acks r. c = Append b acks r \<and> numbered asked r acks)"

definition replied :: "(topic_partition \<times> record_batch \<times> acks) list \<Rightarrow> nat \<Rightarrow> bool" where
  "replied asked r \<longleftrightarrow> (\<exists>acks. numbered asked r acks \<and> acks \<noteq> AcksAll)"

lemma numbered_mono: "numbered asked r acks \<Longrightarrow> numbered (asked @ xs) r acks"
  by (auto simp: numbered_def nth_append)

lemma only_append_mono: "only_append asked c \<Longrightarrow> only_append (asked @ xs) c"
  unfolding only_append_def using numbered_mono by blast

lemma replied_mono: "replied asked r \<Longrightarrow> replied (asked @ xs) r"
  unfolding replied_def using numbered_mono by blast

fun stuck_ok :: "topic_partition set \<Rightarrow> (topic_partition \<times> record_batch \<times> acks) list \<Rightarrow> request_task \<Rightarrow> bool" where
  "stuck_ok K asked (Producing p) \<longleftrightarrow>
     (qr_acks (pk_request p) = AcksAll \<longrightarrow>
        nested_ok (\<lambda>t q _. (t, qp_index q) \<notin> K) (produce_items (pk_request p)) (pk_loop p))
     \<and> (\<forall>r. pk_waiting p = Some r \<longrightarrow> numbered asked r (qr_acks (pk_request p)))"
| "stuck_ok K asked (Fetching f) \<longleftrightarrow> sint (nf_replica_id (fk_request f)) < 0 \<and> fk_sending f = None"
| "stuck_ok K asked (Answered (Produce req) resp) \<longleftrightarrow> answered_without K req"
| "stuck_ok K asked _ \<longleftrightarrow> True"

definition stuck_inv :: "topic_partition set \<Rightarrow> task_system \<Rightarrow> bool" where
  "stuck_inv K s \<longleftrightarrow>
     image_keys (tk_image s) = K
     \<and> (\<forall>k. \<forall>c \<in> set (tk_mailbox s k). only_append (tk_asked s) c)
     \<and> (\<forall>r \<in> dom (tk_replies s). replied (tk_asked s) r)
     \<and> (\<forall>t \<in> set (tk_tasks s). stuck_ok K (tk_asked s) t)"

lemma stuck_ok_mono: "stuck_ok K asked t \<Longrightarrow> stuck_ok K (asked @ xs) t"
  by (cases "(K, asked, t)" rule: stuck_ok.cases) (auto intro: numbered_mono)

lemma all_unknown:
  assumes "list_all2 (topic_answers (\<lambda>t q _. (t, qp_index q) \<notin> K)) items ts"
  shows "\<forall>x \<in> set (items_entries items). fst x \<notin> K"
  using assms
proof (induction items ts rule: list_all2_induct)
  case (Cons x xs y ys)
  obtain t ps where x: "x = (t, ps)"
    by fastforce
  have "(t, qp_index p) \<notin> K" if "p \<in> set ps" for p
    using Cons(1) that by (cases y) (auto simp: x topic_answers_def list_all2_conv_all_nth in_set_conv_nth)
  moreover have "items_entries (x # xs) = map (\<lambda>p. ((t, qp_index p), qp_records p)) ps @ items_entries xs"
    by (simp add: items_entries_def x)
  ultimately show ?case
    using Cons(3) by auto
qed simp

lemma stuck_task:
  assumes inv: "stuck_inv K s" and i: "i < length (tk_tasks s)" and turn: "task_turn cap e (tk_tasks s ! i) s = Some (s1, t1)"
  shows "stuck_inv K (s1\<lparr>tk_tasks := (tk_tasks s)[i := t1]\<rparr>)"
proof -
  have ok: "stuck_ok K (tk_asked s) (tk_tasks s ! i)" and keys: "image_keys (tk_image s) = K"
    using inv i by (simp_all add: stuck_inv_def)
  have update: "stuck_inv K (s1\<lparr>tk_tasks := (tk_tasks s)[i := t1]\<rparr>)"
    if "tk_image s1 = tk_image s" "tk_asked s1 = tk_asked s @ xs" "dom (tk_replies s1) \<subseteq> dom (tk_replies s)"
      "\<forall>k. \<forall>c \<in> set (tk_mailbox s1 k). c \<in> set (tk_mailbox s k)
         \<or> only_append (tk_asked s1) c"
      "stuck_ok K (tk_asked s1) t1" for xs
  proof -
    have "\<forall>t \<in> set ((tk_tasks s)[i := t1]). stuck_ok K (tk_asked s1) t"
      using inv that(5) set_update_subset_insert [of "tk_tasks s" i t1] stuck_ok_mono [of K "tk_asked s" _ xs]
      unfolding stuck_inv_def that(2) by blast
    moreover have "\<forall>k. \<forall>c \<in> set (tk_mailbox s1 k). only_append (tk_asked s1) c"
      using inv that(2,4) only_append_mono unfolding stuck_inv_def by metis
    moreover have "\<forall>r \<in> dom (tk_replies s1). replied (tk_asked s1) r"
      using inv that(2,3) replied_mono unfolding stuck_inv_def by (metis subsetD)
    ultimately show ?thesis
      using inv that(1) unfolding stuck_inv_def by simp
  qed
  show ?thesis
  proof (cases "tk_tasks s ! i")
    case (Producing p)
    let ?R = "\<lambda>t q (_ :: produce_partition_response). (t, qp_index q) \<notin> K"
    have loop: "qr_acks (pk_request p) = AcksAll \<longrightarrow> nested_ok ?R (produce_items (pk_request p)) (pk_loop p)"
      and waits: "pk_waiting p = Some r \<Longrightarrow> numbered (tk_asked s) r (qr_acks (pk_request p))" for r
      using ok Producing by simp_all
    have turn: "produce_turn cap e p s = Some (s1, t1)"
      using turn Producing by simp
    from turn show ?thesis
    proof (cases rule: produce_turnE)
      case finish
      then have "answered_without K (pk_request p)"
        using loop all_unknown [OF nested_ok_done [OF _ finish(2)]]
        unfolding answered_without_def request_entries_items by blast
      then show ?thesis
        using finish by (intro update [of "[]"]) simp_all
    next
      case (close t ts)
      then show ?thesis
        using loop waits nested_ok_close [OF _ close(2), of ?R] by (intro update [of "[]"]) simp_all
    next
      case (unknown t q qs ts)
      then have "(t, qp_index q) \<notin> K"
        using keys by (auto simp: domIff)
      then show ?thesis
        using unknown loop nested_ok_push [OF _ unknown(2), of ?R] by (intro update [of "[]"]) simp_all
    next
      case (send t q qs ts a)
      then show ?thesis
        using loop by (intro update [of "[((t, qp_index q), qp_records q, qr_acks (pk_request p))]"]) (auto simp: numbered_def only_append_def)
    next
      case (receive t q qs ts reply resp)
      then have "qr_acks (pk_request p) \<noteq> AcksAll"
        using inv waits [OF receive(2)] by (fastforce simp: stuck_inv_def replied_def numbered_def)
      then show ?thesis
        using receive by (intro update [of "[]"]) auto
    qed
  next
    case (Fetching f)
    have turn: "fetch_turn cap e f s = Some (s1, t1)"
      using turn Fetching by simp
    from turn show ?thesis
    proof (cases rule: fetch_turnE)
      case (report k c)
      then show ?thesis
        using ok Fetching by simp
    next
      case (read t q qs ts a res cmds)
      then have "cmds = []"
        using ok Fetching by (auto simp: handle_fetch_def omap_eq_Ok)
      then show ?thesis
        using read ok Fetching by (intro update [of "[]"]) auto
    qed (intro update [of "[]"]; use ok Fetching in simp)+
  qed (use turn in auto)
qed

lemma stuck_actor:
  assumes inv: "stuck_inv K s" and turn: "actor_turn k s = Some s1"
  shows "stuck_inv K s1"
proof -
  obtain a c cs a1 fx where k: "map_of (tk_image s) k = Some a" "tk_mailbox s k = c # cs"
    and handle: "actor_handle (\<lambda>_. True) c a = Ok (a1, fx)"
    and s1: "s1 = s\<lparr>tk_image := AList.update k a1 (tk_image s), tk_mailbox := (tk_mailbox s)(k := cs),
            tk_replies := deliver_effects fx (tk_replies s), tk_appended := tk_appended s @ append_reply c\<rparr>"
    using turn by (rule actor_turnE)
  have "only_append (tk_asked s) c"
    using inv k(2) unfolding stuck_inv_def by (metis list.set_intros(1))
  then obtain b acks r where c: "c = Append b acks r" "numbered (tk_asked s) r acks"
    by (auto simp: only_append_def)
  have "dom (deliver_effects fx (tk_replies s)) \<subseteq> dom (tk_replies s) \<union> {r'. r' = r \<and> acks \<noteq> AcksAll}"
    by (rule handle_appendE [OF handle [unfolded c(1)]]) auto
  moreover have "replied (tk_asked s) r" if "acks \<noteq> AcksAll"
    using c(2) that by (auto simp: replied_def)
  ultimately have "\<forall>r' \<in> dom (deliver_effects fx (tk_replies s)). replied (tk_asked s) r'"
    using inv unfolding stuck_inv_def by blast
  moreover have "insert k K = K"
    using inv k(1) by (auto simp: stuck_inv_def)
  moreover have "\<forall>k'. \<forall>c' \<in> set (((tk_mailbox s)(k := cs)) k'). only_append (tk_asked s) c'"
    using inv mailbox_tail [where mb = "tk_mailbox s", OF k(2)] unfolding stuck_inv_def by blast
  ultimately show ?thesis
    using inv unfolding stuck_inv_def s1 by simp
qed

section \<open>Properties\<close>

text \<open>C33: as long as no replica fetches, and consumers do not count as one, a produce request that
  asks for all replicas is never answered when it names a partition that is there: not even if
  the partition has no replicas, as all have that the program creates.\<close>

theorem acks_all_never_answered:
  assumes "tasks_run cap (tasks_start im) evs s"
    and "\<forall>req. Arrives (Fetch req) \<in> set evs \<longrightarrow> sint (nf_replica_id req) < 0"
    and "Answered (Produce req) resp \<in> set (tk_tasks s)" and "qr_acks req = AcksAll"
  shows "\<forall>t \<in> set (qr_topics req). \<forall>p \<in> set (qt_partitions t). map_of im (qt_topic t, qp_index p) = None"
proof -
  have "stuck_inv (image_keys im) s"
    using assms(1,2)
  proof (induction rule: tasks_run.induct)
    case tasks_nil
    then show ?case
      by (simp add: stuck_inv_def tasks_start_def)
  next
    case (tasks_snoc evs s ev s')
    then have inv: "stuck_inv (image_keys im) s"
      by simp
    show ?case
      using tasks_snoc.hyps(2)
    proof cases
      case (arrives body t)
      then have "stuck_ok (image_keys im) (tk_asked s) t"
        using tasks_snoc.prems nested_ok_new by (cases body) auto
      then show ?thesis
        using inv arrives by (auto simp: stuck_inv_def)
    qed (use inv stuck_task stuck_actor in auto)
  qed
  then have "answered_without (image_keys im) req"
    using assms(3) by (auto simp: stuck_inv_def)
  then show ?thesis
    using assms(4) by (force simp: answered_without_def request_entries_def domIff)
qed

definition absent_request :: produce_request where
  "absent_request = await_request\<lparr>qr_topics := [\<lparr>qt_topic = [116], qt_partitions = [\<lparr>qp_index = 1, qp_records = sample_produce\<rparr>]\<rparr>]\<rparr>"

lemma acks_all_never_answered_witness:
  "\<forall>a. \<exists>s resp. tasks_run 1 (tasks_start [(([116], 0), a)])
      [Arrives (Produce absent_request), TaskTurn 0 sample_env, TaskTurn 0 sample_env, TaskTurn 0 sample_env] s
    \<and> Answered (Produce absent_request) resp \<in> set (tk_tasks s) \<and> map_of [(([116] :: u8 list, 0 :: u16), a)] ([116], 1) = None"
proof
  fix a :: partition_actor
  let ?evs = "[Arrives (Produce absent_request), TaskTurn 0 sample_env, TaskTurn 0 sample_env, TaskTurn 0 sample_env]"
  have "\<exists>s resp. tasks_exec 1 ?evs (tasks_start [(([116], 0), a)]) = Some s \<and> tk_tasks s = [Answered (Produce absent_request) resp]"
    by (simp add: tasks_start_def absent_request_def await_request_def produce_items_def nested_new_def produce_turn_def
        nested_push_def nested_close_def Let_def)
  then obtain s resp where run: "tasks_run 1 (tasks_start [(([116], 0), a)]) ?evs s"
    and answered: "Answered (Produce absent_request) resp \<in> set (tk_tasks s)"
    using tasks_run_exec by fastforce
  show "\<exists>s resp. tasks_run 1 (tasks_start [(([116], 0), a)]) ?evs s
    \<and> Answered (Produce absent_request) resp \<in> set (tk_tasks s) \<and> map_of [(([116] :: u8 list, 0 :: u16), a)] ([116], 1) = None"
    using acks_all_never_answered [OF run _ answered] run answered
    by (fastforce simp: absent_request_def await_request_def)
qed

end
