(* ===== verification/Broker_Tasks_Alone.thy ===== *)
theory Broker_Tasks_Alone
  imports Broker_Tasks_Answers
begin

text \<open>
  A request that nothing interrupts: its turns and those of the actors, one after the other, do
  what the handlers of \<open>Broker_Handlers\<close> do in one step.
\<close>

declare split_paired_All [simp del] split_paired_Ex [simp del]

section \<open>Runs that a task has to itself\<close>

text \<open>The task \<open>i\<close> goes on from a system with empty mailboxes to another one.\<close>

definition goes_on :: "nat \<Rightarrow> nat \<Rightarrow> task_system \<Rightarrow> image \<Rightarrow> request_task \<Rightarrow> task_system \<Rightarrow> bool" where
  "goes_on cap i s im t s1 \<longleftrightarrow>
     (\<exists>evs. tasks_run cap s evs s1) \<and> tk_mailbox s1 = (\<lambda>_. []) \<and> tk_image s1 = im \<and> tk_tasks s1 = (tk_tasks s)[i := t]"

lemma goes_on_refl: "tk_mailbox s = (\<lambda>_. []) \<Longrightarrow> tk_tasks s ! i = t \<Longrightarrow> goes_on cap i s (tk_image s) t s"
  unfolding goes_on_def using tasks_nil by (auto intro: exI [of _ "[]"])

lemma goes_on_trans:
  "goes_on cap i s im t s1 \<Longrightarrow> goes_on cap i s1 im' t' s2 \<Longrightarrow> goes_on cap i s im' t' s2"
  unfolding goes_on_def using tasks_run_trans by fastforce

lemma goes_on_exec:
  "tasks_exec cap evs s = Some s1 \<Longrightarrow> tk_mailbox s1 = (\<lambda>_. []) \<Longrightarrow> tk_image s1 = im \<Longrightarrow> tk_tasks s1 = (tk_tasks s)[i := t] \<Longrightarrow>
    goes_on cap i s im t s1"
  unfolding goes_on_def using tasks_run_exec by blast

section \<open>The loops of a handler\<close>

lemma thread_Cons_Ok:
  "thread f (x # xs) s = Some (Ok (s', ys)) \<longleftrightarrow>
     (\<exists>s1 y ys'. f x s = Some (Ok (s1, y)) \<and> thread f xs s1 = Some (Ok (s', ys')) \<and> ys = y # ys')"
proof (cases "f x s")
  case (Some r)
  then show ?thesis
    by (cases r) (auto simp: omap_eq_Ok)
qed simp

text \<open>A task whose turns follow the loops of a handler that treats the partitions with \<open>f\<close>.\<close>

locale handler_task =
  fixes cap i :: nat
    and mk :: "('p, 'q) nested \<Rightarrow> request_task"
    and f :: "u8 list \<Rightarrow> 'p \<Rightarrow> image \<Rightarrow> (unit, image \<times> 'q) outcome option"
  assumes item: "\<lbrakk>tk_mailbox s = (\<lambda>_. []); i < length (tk_tasks s); tk_tasks s ! i = mk n;
      ne_left n = (t, p # ps) # ts; f t p (tk_image s) = Some (Ok (im, q))\<rbrakk> \<Longrightarrow>
      \<exists>s1. goes_on cap i s im (mk (nested_push q n)) s1"
    and close: "\<lbrakk>tk_mailbox s = (\<lambda>_. []); i < length (tk_tasks s); tk_tasks s ! i = mk n; ne_left n = (t, []) # ts\<rbrakk> \<Longrightarrow>
      \<exists>s1. goes_on cap i s (tk_image s) (mk (nested_close n)) s1"
begin

lemma partitions_alone:
  assumes "thread (f t) ps (tk_image s) = Some (Ok (im, qs))"
    and "tk_mailbox s = (\<lambda>_. [])" "i < length (tk_tasks s)" "tk_tasks s ! i = mk n" "ne_left n = (t, ps) # ts"
  shows "\<exists>s1. goes_on cap i s im (mk \<lparr>ne_left = ts, ne_parts = [], ne_done = ne_done n @ [(t, ne_parts n @ qs)]\<rparr>) s1"
  using assms
proof (induction ps arbitrary: s n qs)
  case Nil
  then show ?case
    using close [of s n t ts] by (auto simp: nested_close_def)
next
  case (Cons p ps)
  obtain im1 q qs' where step: "f t p (tk_image s) = Some (Ok (im1, q))" and rest: "thread (f t) ps im1 = Some (Ok (im, qs'))"
    and qs: "qs = q # qs'"
    using Cons.prems(1) unfolding thread_Cons_Ok by blast
  obtain s1 where s1: "goes_on cap i s im1 (mk (nested_push q n)) s1"
    using item [OF Cons.prems(2-5) step] by blast
  obtain s2 where "goes_on cap i s1 im (mk \<lparr>ne_left = ts, ne_parts = [],
      ne_done = ne_done (nested_push q n) @ [(t, ne_parts (nested_push q n) @ qs')]\<rparr>) s2"
    using Cons.IH [of s1 qs' "nested_push q n"] rest s1 Cons.prems(3,5) by (auto simp: goes_on_def nested_push_def)
  then have "goes_on cap i s1 im (mk \<lparr>ne_left = ts, ne_parts = [], ne_done = ne_done n @ [(t, ne_parts n @ qs)]\<rparr>) s2"
    by (simp add: qs nested_push_def)
  with goes_on_trans [OF s1] show ?case
    by blast
qed

lemma topics_alone:
  assumes "thread (\<lambda>(t, ps) im. map_option (omap (\<lambda>(im1, qs). (im1, (t, qs)))) (thread (f t) ps im)) items (tk_image s) =
      Some (Ok (im, rs))"
    and "tk_mailbox s = (\<lambda>_. [])" "i < length (tk_tasks s)" "tk_tasks s ! i = mk n"
    and "ne_left n = items" "ne_parts n = []"
  shows "\<exists>s1. goes_on cap i s im (mk \<lparr>ne_left = [], ne_parts = [], ne_done = ne_done n @ rs\<rparr>) s1"
  using assms
proof (induction items arbitrary: s n rs)
  case Nil
  then have "n = \<lparr>ne_left = [], ne_parts = [], ne_done = ne_done n @ rs\<rparr>" and "im = tk_image s"
    by (cases n, simp)+
  then show ?case
    using goes_on_refl [OF Nil.prems(2,4)] by metis
next
  case (Cons x items)
  obtain t ps where x: "x = (t, ps)"
    by fastforce
  obtain im1 qs rs' where step: "thread (f t) ps (tk_image s) = Some (Ok (im1, qs))" and rs: "rs = (t, qs) # rs'"
    and rest: "thread (\<lambda>(t, ps) im. map_option (omap (\<lambda>(im1, qs). (im1, (t, qs)))) (thread (f t) ps im)) items im1 = Some (Ok (im, rs'))"
    using Cons.prems(1) unfolding thread_Cons_Ok x by (auto simp: omap_eq_Ok)
  let ?n = "\<lparr>ne_left = items, ne_parts = [], ne_done = ne_done n @ [(t, qs)]\<rparr>"
  obtain s1 where s1: "goes_on cap i s im1 (mk ?n) s1"
    using partitions_alone [OF step Cons.prems(2-4)] Cons.prems(5,6) by (auto simp: x)
  then have "tk_image s1 = im1" "tk_mailbox s1 = (\<lambda>_. [])" "i < length (tk_tasks s1)" "tk_tasks s1 ! i = mk ?n"
    using Cons.prems(3) by (simp_all add: goes_on_def)
  then obtain s2 where "goes_on cap i s1 im (mk \<lparr>ne_left = [], ne_parts = [], ne_done = ne_done ?n @ rs'\<rparr>) s2"
    using Cons.IH [of s1 rs' ?n] rest by auto
  then have "goes_on cap i s1 im (mk \<lparr>ne_left = [], ne_parts = [], ne_done = ne_done n @ rs\<rparr>) s2"
    by (simp add: rs)
  with goes_on_trans [OF s1] show ?case
    by blast
qed

end

section \<open>The two handlers\<close>

abbreviation producing :: "produce_request \<Rightarrow> (produce_partition, produce_partition_response) nested \<Rightarrow> request_task" where
  "producing req n \<equiv> Producing \<lparr>pk_request = req, pk_loop = n, pk_waiting = None\<rparr>"

abbreviation fetching :: "net_fetch_request \<Rightarrow> (fetch_partition, partition_response) nested \<Rightarrow> request_task" where
  "fetching req n \<equiv> Fetching \<lparr>fk_request = req, fk_loop = n, fk_sending = None\<rparr>"

lemma empty_mailbox_upd: "(\<lambda>_. [])(k := []) = (\<lambda>_. [])"
  by (rule ext) simp

lemma append_alone:
  assumes "0 < cap" "qr_acks req \<noteq> AcksAll" "tk_mailbox s = (\<lambda>_. [])" "i < length (tk_tasks s)"
    and "tk_tasks s ! i = producing req n" "ne_left n = (t, q # qs) # ts"
    and step: "append_to_partition e (qr_acks req) t q (tk_image s) = Some (Ok (im, r))"
  shows "\<exists>s1. goes_on cap i s im (producing req (nested_push r n)) s1"
proof (cases "map_of (tk_image s) (t, qp_index q)")
  case None
  then have exec: "tasks_exec cap [TaskTurn i e] s = Some (s\<lparr>tk_tasks := (tk_tasks s)[i := producing req (nested_push r n)]\<rparr>)"
    and "im = tk_image s"
    using assms by (simp_all add: produce_turn_def append_to_partition_def broker_partition_def Let_def)
  show ?thesis
    by (rule exI, rule goes_on_exec [OF exec]) (simp_all add: assms(3) \<open>im = tk_image s\<close>)
next
  case (Some a)
  let ?k = "(t, qp_index q)" and ?n = "length (tk_asked s)"
  have r: "r = produced a (ps_log_end_offset (pa_snapshot a))" and im: "im = AList.update ?k (actor_append (qp_records q) a) (tk_image s)"
    using step Some assms(2) by (simp_all add: append_to_partition_def broker_partition_def handle_append_now Let_def)
  have handle: "actor_handle (\<lambda>_. True) (Append (qp_records q) (qr_acks req) ?n) a = Ok (actor_append (qp_records q) a, [Produced ?n r])"
    using actor_handle_append [of "qr_acks req" "\<lambda>_. True"] assms(2) by (simp add: r del: actor_handle.simps)
  have "\<exists>s1. tasks_exec cap [TaskTurn i e, ActorTurn ?k, TaskTurn i e] s = Some s1 \<and> tk_mailbox s1 = (\<lambda>_. []) \<and> tk_image s1 = im
      \<and> tk_tasks s1 = (tk_tasks s)[i := producing req (nested_push r n)]"
    using assms(1-6) Some handle im
    by (simp add: produce_turn_def mailbox_send_def actor_turn_def Let_def empty_mailbox_upd del: actor_handle.simps)
  then show ?thesis
    using goes_on_exec by blast
qed

lemma fetch_alone:
  assumes "0 < cap" "tk_mailbox s = (\<lambda>_. [])" "i < length (tk_tasks s)"
    and "tk_tasks s ! i = fetching req n" "ne_left n = (t, q # qs) # ts"
    and step: "fetch_from_partition e (nf_replica_id req) t q (tk_image s) = Some (Ok (im, r))"
  shows "\<exists>s1. goes_on cap i s im (fetching req (nested_push r n)) s1"
proof (cases "map_of (tk_image s) (t, ucast (fp_partition q))")
  case None
  then have exec: "tasks_exec cap [TaskTurn i e] s = Some (s\<lparr>tk_tasks := (tk_tasks s)[i := fetching req (nested_push r n)]\<rparr>)"
    and "im = tk_image s"
    using assms by (simp_all add: fetch_turn_def fetch_from_partition_def broker_partition_def Let_def)
  show ?thesis
    by (rule exI, rule goes_on_exec [OF exec]) (simp_all add: assms(2) \<open>im = tk_image s\<close>)
next
  case (Some a)
  let ?k = "(t, ucast (fp_partition q) :: u16)"
  obtain cmds a1 fx where fetch: "handle_fetch (en_bytes e) (en_crc e) (ucast (ucast (fp_partition q) :: u16)) a q (nf_replica_id req) = Some (Ok (r, cmds))"
    and run: "actor_run (\<lambda>_. True) cmds a = Ok (a1, fx)" and im: "im = AList.update ?k a1 (tk_image s)"
    using step Some by (auto simp: fetch_from_partition_def broker_partition_def Let_def obind_eq_Ok omap_eq_Ok)
  have "cmds = [] \<or> (\<exists>leo. cmds = [UpdateReplicaLeo (nf_replica_id req) leo])"
    using fetch by (auto simp: handle_fetch_def omap_eq_Ok)
  then show ?thesis
  proof
    assume none: "cmds = []"
    then have unchanged: "im = tk_image s"
      using run im Some by (simp add: update_triv)
    have exec: "tasks_exec cap [TaskTurn i e] s = Some (s\<lparr>tk_tasks := (tk_tasks s)[i := fetching req (nested_push r n)]\<rparr>)"
      using assms(3-5) Some fetch none by (simp add: fetch_turn_def Let_def)
    show ?thesis
      by (rule exI, rule goes_on_exec [OF exec]) (simp_all add: assms(2) unchanged)
  next
    assume "\<exists>leo. cmds = [UpdateReplicaLeo (nf_replica_id req) leo]"
    then obtain leo where cmds: "cmds = [UpdateReplicaLeo (nf_replica_id req) leo]"
      by blast
    then have handle: "actor_handle (\<lambda>_. True) (UpdateReplicaLeo (nf_replica_id req) leo) a = Ok (a1, fx)"
      using run by (auto simp: obind_eq_Ok simp del: actor_handle.simps)
    have "\<exists>s1. tasks_exec cap [TaskTurn i e, TaskTurn i e, ActorTurn ?k] s = Some s1 \<and> tk_mailbox s1 = (\<lambda>_. []) \<and> tk_image s1 = im
      \<and> tk_tasks s1 = (tk_tasks s)[i := fetching req (nested_push r n)]"
      using assms(1-5) Some fetch handle cmds im
      by (simp add: fetch_turn_def mailbox_send_def actor_turn_def Let_def empty_mailbox_upd del: actor_handle.simps)
    then show ?thesis
      using goes_on_exec by blast
  qed
qed

lemma close_alone:
  assumes "tk_mailbox s = (\<lambda>_. [])" "i < length (tk_tasks s)" and "\<And>e. task_turn cap e (tk_tasks s ! i) s = Some (s, t1)"
  shows "\<exists>s1. goes_on cap i s (tk_image s) t1 s1"
proof -
  have exec: "tasks_exec cap [TaskTurn i e] s = Some (s\<lparr>tk_tasks := (tk_tasks s)[i := t1]\<rparr>)" for e
    using assms(2,3) by simp
  show ?thesis
    by (rule exI, rule goes_on_exec [OF exec]) (use assms(1) in simp_all)
qed

text \<open>Both handlers are such tasks: the one of a produce request when it does not wait for replicas.\<close>

interpretation produce_handler: handler_task cap i "producing req"
  "\<lambda>t q im. if 0 < cap \<and> qr_acks req \<noteq> AcksAll then append_to_partition e (qr_acks req) t q im else None"
  for cap i req e
proof (unfold_locales, goal_cases)
  case 1
  then show ?case
    using append_alone [of cap req _ i _ _ _ _ _ e] by (auto split: if_splits)
next
  case 2
  then show ?case
    by (intro close_alone) (auto simp: produce_turn_def)
qed

interpretation fetch_handler: handler_task cap i "fetching req"
  "\<lambda>t q im. if 0 < cap then fetch_from_partition e (nf_replica_id req) t q im else None"
  for cap i req e
proof (unfold_locales, goal_cases)
  case 1
  then show ?case
    using fetch_alone [of cap _ i req _ _ _ _ _ e] by (auto split: if_splits)
next
  case 2
  then show ?case
    by (intro close_alone) (auto simp: fetch_turn_def)
qed

text \<open>The loop over the topics of a request is that over its items.\<close>

lemma produce_thread_items:
  "thread (append_to_topic e acks) ts im = Some (Ok (im1, rs)) \<Longrightarrow>
    thread (\<lambda>(t, ps) im. map_option (omap (\<lambda>(im1, qs). (im1, (t, qs)))) (thread (append_to_partition e acks t) ps im))
      (map (\<lambda>t. (qt_topic t, qt_partitions t)) ts) im = Some (Ok (im1, map (\<lambda>r. (ptr_topic r, ptr_partition_responses r)) rs))"
proof (induction ts arbitrary: im rs)
  case (Cons t ts)
  then show ?case
    unfolding thread_Cons_Ok list.map by (fastforce simp: append_to_topic_def omap_eq_Ok)
qed simp

lemma fetch_thread_items:
  "thread (fetch_from_topic e replica_id) ts im = Some (Ok (im1, rs)) \<Longrightarrow>
    thread (\<lambda>(t, ps) im. map_option (omap (\<lambda>(im1, qs). (im1, (t, qs)))) (thread (fetch_from_partition e replica_id t) ps im))
      (map (\<lambda>t. (ft_topic t, ft_partitions t)) ts) im = Some (Ok (im1, map (\<lambda>r. (tr_topic r, tr_partitions r)) rs))"
proof (induction ts arbitrary: im rs)
  case (Cons t ts)
  then show ?case
    unfolding thread_Cons_Ok list.map by (fastforce simp: fetch_from_topic_def omap_eq_Ok)
qed simp

text \<open>From its arrival to its answer.\<close>

lemma finish_alone:
  assumes quiet: "tk_mailbox s = (\<lambda>_. [])" and new: "task_new body = Some t0"
    and loops: "\<exists>s1. goes_on cap (length (tk_tasks s)) (s\<lparr>tk_tasks := tk_tasks s @ [t0]\<rparr>) im t1 s1"
    and answer: "\<And>s1. task_turn cap e t1 s1 = Some (s1, t2)"
  shows "\<exists>evs s1. tasks_run cap s evs s1 \<and> tk_mailbox s1 = (\<lambda>_. []) \<and> tk_image s1 = im \<and> tk_tasks s1 = tk_tasks s @ [t2]"
proof -
  let ?s = "s\<lparr>tk_tasks := tk_tasks s @ [t0]\<rparr>" and ?i = "length (tk_tasks s)"
  obtain s1 evs where s1: "tasks_run cap ?s evs s1" "tk_mailbox s1 = (\<lambda>_. [])" "tk_image s1 = im" "tk_tasks s1 = tk_tasks s @ [t1]"
    using loops by (auto simp: goes_on_def)
  have "tasks_run cap s ((Arrives body # evs) @ [TaskTurn ?i e]) (s1\<lparr>tk_tasks := tk_tasks s @ [t2]\<rparr>)"
  proof (rule tasks_snoc)
    show "tasks_run cap s (Arrives body # evs) s1"
      by (rule tasks_run_Cons [OF _ s1(1)]) (simp add: new)
    show "task_step cap s1 (TaskTurn ?i e) (s1\<lparr>tk_tasks := tk_tasks s @ [t2]\<rparr>)"
      by (simp add: task_step_exec s1(4) answer)
  qed
  with s1 show ?thesis
    by (intro exI [of _ "(Arrives body # evs) @ [TaskTurn ?i e]"] exI [of _ "s1\<lparr>tk_tasks := tk_tasks s @ [t2]\<rparr>"]) simp
qed

lemma produced_eta: "(\<lambda>r. \<lparr>ptr_topic = ptr_topic r, ptr_partition_responses = ptr_partition_responses r\<rparr>) = (\<lambda>r. r)"
  by (rule ext) simp

lemma fetched_eta: "(\<lambda>r. \<lparr>tr_topic = tr_topic r, tr_partitions = tr_partitions r\<rparr>) = (\<lambda>r. r)"
  by (rule ext) simp

section \<open>Properties\<close>

text \<open>The two models of the handlers agree: a request that a handler answers in one step is answered
  the same by a run of its task, which leaves the same partitions. The handlers that are one step
  are the interleavings in which nothing comes between.\<close>

theorem handlers_are_runs:
  assumes "broker_handle e f br = Some (Ok (br1, g))"
    and "(\<exists>req. fm_body f = Produce req \<and> qr_acks req \<noteq> AcksAll) \<or> (\<exists>req. fm_body f = Fetch req)"
    and "0 < cap" and "tk_image s = bk_image br" and "tk_mailbox s = (\<lambda>_. [])"
  shows "\<exists>evs s1. tasks_run cap s evs s1 \<and> tk_mailbox s1 = (\<lambda>_. []) \<and> tk_image s1 = bk_image br1
    \<and> tk_tasks s1 = tk_tasks s @ [Answered (fm_body f) (fm_body g)]"
  using assms(2)
proof (elim disjE exE conjE)
  fix req
  assume req: "fm_body f = Produce req" "qr_acks req \<noteq> AcksAll"
  let ?n = "nested_new (produce_items req)"
  obtain rs where rs: "thread (append_to_topic e (qr_acks req)) (qr_topics req) (bk_image br) = Some (Ok (bk_image br1, rs))"
    and g: "fm_body g = ProduceResponse \<lparr>prs_throttle_time_ms = en_elapsed e, prs_responses = rs\<rparr>"
    using assms(1) req(1) by (auto simp: broker_handle_def broker_handle_produce_def Let_def omap_eq_Ok)
  let ?done = "\<lparr>ne_left = [], ne_parts = [], ne_done = map (\<lambda>r. (ptr_topic r, ptr_partition_responses r)) rs\<rparr>"
  have "\<exists>s1. goes_on cap (length (tk_tasks s)) (s\<lparr>tk_tasks := tk_tasks s @ [producing req ?n]\<rparr>) (bk_image br1) (producing req ?done) s1"
    using produce_handler.topics_alone [of cap req e "produce_items req" "s\<lparr>tk_tasks := tk_tasks s @ [producing req ?n]\<rparr>"
        "bk_image br1" "map (\<lambda>r. (ptr_topic r, ptr_partition_responses r)) rs" "length (tk_tasks s)" ?n]
      produce_thread_items [OF rs] assms(3-5) req(2) by (simp add: produce_items_def nested_new_def)
  from finish_alone [OF assms(5) _ this, of "Produce req" e] show ?thesis
    by (simp add: req(1) g produce_turn_def produce_answer_body_def comp_def produced_eta)
next
  fix req
  assume req: "fm_body f = Fetch req"
  let ?n = "nested_new (fetch_items req)"
  obtain rs where rs: "thread (fetch_from_topic e (nf_replica_id req)) (nf_topics req) (bk_image br) = Some (Ok (bk_image br1, rs))"
    and g: "fm_body g = FetchResponse \<lparr>nr_throttle_time_ms = en_elapsed e, nr_responses = rs\<rparr>"
    using assms(1) req(1) by (auto simp: broker_handle_def broker_handle_fetch_def Let_def omap_eq_Ok)
  let ?done = "\<lparr>ne_left = [], ne_parts = [], ne_done = map (\<lambda>r. (tr_topic r, tr_partitions r)) rs\<rparr>"
  have "\<exists>s1. goes_on cap (length (tk_tasks s)) (s\<lparr>tk_tasks := tk_tasks s @ [fetching req ?n]\<rparr>) (bk_image br1) (fetching req ?done) s1"
    using fetch_handler.topics_alone [of cap e req "fetch_items req" "s\<lparr>tk_tasks := tk_tasks s @ [fetching req ?n]\<rparr>"
        "bk_image br1" "map (\<lambda>r. (tr_topic r, tr_partitions r)) rs" "length (tk_tasks s)" ?n]
      fetch_thread_items [OF rs] assms(3-5) by (simp add: fetch_items_def nested_new_def)
  from finish_alone [OF assms(5) _ this, of "Fetch req" e] show ?thesis
    by (simp add: req(1) g fetch_turn_def fetch_answer_body_def comp_def fetched_eta)
qed

lemma handlers_are_runs_witness:
  "\<forall>a. \<exists>br' g evs s. broker_handle sample_env (sample_frame ApiProduce (Produce sample_produce_request)) (sample_broker a) = Some (Ok (br', g))
    \<and> tasks_run 1 (tasks_start (bk_image (sample_broker a))) evs s
    \<and> tk_image s = bk_image br' \<and> tk_tasks s = [Answered (Produce sample_produce_request) (fm_body g)]"
proof
  fix a
  let ?f = "sample_frame ApiProduce (Produce sample_produce_request)"
  have "\<exists>p. broker_handle sample_env ?f (sample_broker a) = Some (Ok p)"
    by (simp add: broker_handle_def broker_handle_produce_def sample_broker_def sample_produce_request_def
        append_to_topic_def append_to_partition_def broker_partition_def handle_append_now Let_def bk_image_def)
  then obtain br' g where handled: "broker_handle sample_env ?f (sample_broker a) = Some (Ok (br', g))"
    by fast
  show "\<exists>br' g evs s. broker_handle sample_env ?f (sample_broker a) = Some (Ok (br', g))
    \<and> tasks_run 1 (tasks_start (bk_image (sample_broker a))) evs s
    \<and> tk_image s = bk_image br' \<and> tk_tasks s = [Answered (Produce sample_produce_request) (fm_body g)]"
    using handlers_are_runs [OF handled, of 1 "tasks_start (bk_image (sample_broker a))"] handled
    by (auto simp: tasks_start_def sample_produce_request_def)
qed

end
