(* ===== verification/Broker_Tasks_Progress.thy ===== *)
theory Broker_Tasks_Progress
  imports Broker_Tasks_Answers
begin

text \<open>
  What the tasks of a broker wait for: nothing but a replica. Each turn uses up some of the work
  that the requests bring with them, and when no turn is left every request is answered, but
  those with \<open>acks = all\<close> whose append no replica has reported yet.
\<close>

declare split_paired_All [simp del] split_paired_Ex [simp del]

section \<open>Where the replies are\<close>

definition wait_list :: "request_task \<Rightarrow> nat list" where
  "wait_list t = (case waiting_for t of None \<Rightarrow> [] | Some r \<Rightarrow> [r])"

abbreviation waits :: "request_task list \<Rightarrow> nat list" where
  "waits ts \<equiv> concat (map wait_list ts)"

lemma wait_list_simps [simp]:
  "wait_list (Producing p) = (case pk_waiting p of None \<Rightarrow> [] | Some r \<Rightarrow> [r])"
  "wait_list (Fetching f) = []" "wait_list (Answered req resp) = []" "wait_list (Aborted req) = []"
  by (simp_all add: wait_list_def)

lemma distinct_replace:
  assumes "distinct (xs @ ys @ zs)"
  shows "set (xs @ ys' @ zs) = (set (xs @ ys @ zs) - set ys) \<union> set ys'"
    and "distinct ys' \<Longrightarrow> set ys' \<inter> (set (xs @ ys @ zs) - set ys) = {} \<Longrightarrow> distinct (xs @ ys' @ zs)"
  using assms by auto

lemma waits_update:
  assumes "i < length ts" and "distinct (waits ts)"
  shows "set (waits (ts[i := t])) = (set (waits ts) - set (wait_list (ts ! i))) \<union> set (wait_list t)"
    and "set (wait_list t) \<inter> (set (waits ts) - set (wait_list (ts ! i))) = {} \<Longrightarrow> distinct (waits (ts[i := t]))"
proof -
  let ?xs = "take i ts" and ?ys = "drop (Suc i) ts"
  have ts: "ts = ?xs @ ts ! i # ?ys" and upd: "ts[i := t] = ?xs @ t # ?ys"
    using assms(1) by (simp_all add: id_take_nth_drop [symmetric] upd_conv_take_nth_drop)
  have waits: "waits ts = waits ?xs @ wait_list (ts ! i) @ waits ?ys"
    by (subst ts) simp
  have waits': "waits (ts[i := t]) = waits ?xs @ wait_list t @ waits ?ys"
    by (subst upd) simp
  note replace = distinct_replace [OF assms(2) [unfolded waits], of "wait_list t", folded waits waits']
  show "set (waits (ts[i := t])) = (set (waits ts) - set (wait_list (ts ! i))) \<union> set (wait_list t)"
    by (rule replace(1))
  have "distinct (wait_list t)"
    by (simp add: wait_list_def split: option.split)
  then show "set (wait_list t) \<inter> (set (waits ts) - set (wait_list (ts ! i))) = {} \<Longrightarrow> distinct (waits (ts[i := t]))"
    by (rule replace(2))
qed

text \<open>The reply is there, or its append is in a mailbox, or waits in an actor for the replicas.\<close>

definition pending_at :: "image \<Rightarrow> nat \<Rightarrow> bool" where
  "pending_at im r \<longleftrightarrow> (\<exists>k a. map_of im k = Some a \<and> r \<in> pn_done ` set (pa_acks_pending a))"

lemma pending_at_update:
  assumes "map_of im k = Some a"
  shows "r \<in> pn_done ` set (pa_acks_pending a1) \<Longrightarrow> pending_at (AList.update k a1 im) r"
    and "pending_at im r \<Longrightarrow> r \<in> pn_done ` set (pa_acks_pending a) \<or> pending_at (AList.update k a1 im) r"
proof -
  show "pending_at (AList.update k a1 im) r" if "r \<in> pn_done ` set (pa_acks_pending a1)"
    unfolding pending_at_def update_conv' using that by (intro exI [of _ k] exI [of _ a1]) simp
  assume "pending_at im r"
  then obtain k' a' where k': "map_of im k' = Some a'" "r \<in> pn_done ` set (pa_acks_pending a')"
    by (auto simp: pending_at_def)
  show "r \<in> pn_done ` set (pa_acks_pending a) \<or> pending_at (AList.update k a1 im) r"
  proof (cases "k' = k")
    case False
    then have "map_of (AList.update k a1 im) k' = Some a'"
      using k'(1) by (simp add: update_conv')
    then show ?thesis
      using k'(2) unfolding pending_at_def by blast
  qed (use k' assms in simp)
qed

definition in_flight :: "task_system \<Rightarrow> nat \<Rightarrow> bool" where
  "in_flight s r \<longleftrightarrow>
     (\<exists>k. r \<in> set (queued (tk_mailbox s) k)) \<or> r \<in> dom (tk_replies s) \<or> pending_at (tk_image s) r"

fun channel_ok :: "topic_partition set \<Rightarrow> request_task \<Rightarrow> bool" where
  "channel_ok K (Producing p) \<longleftrightarrow>
     (pk_waiting p \<noteq> None \<longrightarrow> (\<exists>t q qs ts. ne_left (pk_loop p) = (t, q # qs) # ts))"
| "channel_ok K (Fetching f) \<longleftrightarrow> (\<forall>k c. fk_sending f = Some (k, c) \<longrightarrow> k \<in> K \<and> plain_command c)"
| "channel_ok K _ \<longleftrightarrow> True"

definition channel_inv :: "topic_partition set \<Rightarrow> task_system \<Rightarrow> bool" where
  "channel_inv K s \<longleftrightarrow>
     image_keys (tk_image s) = K
     \<and> (\<forall>k c. c \<in> set (tk_mailbox s k) \<longrightarrow> k \<in> K \<and> plain_command c)
     \<and> (\<forall>t \<in> set (tk_tasks s). channel_ok K t)
     \<and> distinct (waits (tk_tasks s)) \<and> (\<forall>r \<in> set (waits (tk_tasks s)). r < length (tk_asked s) \<and> in_flight s r)"

lemma in_flight_mono:
  assumes "in_flight s r" and "tk_image s1 = tk_image s" and "\<And>k. set (queued (tk_mailbox s) k) \<subseteq> set (queued (tk_mailbox s1) k)"
    and "r \<in> dom (tk_replies s) \<Longrightarrow> r \<in> dom (tk_replies s1)"
  shows "in_flight s1 r"
  using assms unfolding in_flight_def by (metis subsetD)

lemma channel_task:
  assumes inv: "channel_inv K s" and i: "i < length (tk_tasks s)" and turn: "task_turn cap e (tk_tasks s ! i) s = Some (s1, t1)"
  shows "channel_inv K (s1\<lparr>tk_tasks := (tk_tasks s)[i := t1]\<rparr>)"
proof -
  have ok: "channel_ok K (tk_tasks s ! i)" and keys: "image_keys (tk_image s) = K" and dis: "distinct (waits (tk_tasks s))"
    using inv i by (simp_all add: channel_inv_def)
  let ?rest = "set (waits (tk_tasks s)) - set (wait_list (tk_tasks s ! i))"
  have update: "channel_inv K (s1\<lparr>tk_tasks := (tk_tasks s)[i := t1]\<rparr>)"
    if "tk_image s1 = tk_image s" "tk_asked s1 = tk_asked s @ xs" "channel_ok K t1"
      "\<forall>k c. c \<in> set (tk_mailbox s1 k) \<longrightarrow> c \<in> set (tk_mailbox s k) \<or> k \<in> K \<and> plain_command c"
      "\<And>k. set (queued (tk_mailbox s) k) \<subseteq> set (queued (tk_mailbox s1) k)"
      "\<forall>r \<in> ?rest. r \<in> dom (tk_replies s) \<longrightarrow> r \<in> dom (tk_replies s1)"
      "\<forall>r \<in> set (wait_list t1). r \<notin> ?rest \<and> r < length (tk_asked s1) \<and> in_flight s1 r" for xs
  proof -
    let ?s = "s1\<lparr>tk_tasks := (tk_tasks s)[i := t1]\<rparr>"
    have "r < length (tk_asked s1) \<and> in_flight s1 r" if r: "r \<in> ?rest" for r
    proof
      have "r < length (tk_asked s)" and flight: "in_flight s r"
        using inv r unfolding channel_inv_def by blast+
      then show "r < length (tk_asked s1)"
        by (simp add: \<open>tk_asked s1 = tk_asked s @ xs\<close>)
      show "in_flight s1 r"
        by (rule in_flight_mono [OF flight \<open>tk_image s1 = tk_image s\<close>])
          (use \<open>\<And>k. set (queued (tk_mailbox s) k) \<subseteq> set (queued (tk_mailbox s1) k)\<close>
            \<open>\<forall>r \<in> ?rest. r \<in> dom (tk_replies s) \<longrightarrow> r \<in> dom (tk_replies s1)\<close> r in blast)+
    qed
    then have "\<forall>r \<in> set (waits ((tk_tasks s)[i := t1])). r < length (tk_asked s1) \<and> in_flight s1 r"
      using that(7) unfolding waits_update(1) [OF i dis] by blast
    moreover have "distinct (waits ((tk_tasks s)[i := t1]))"
      using waits_update(2) [OF i dis] that(7) by blast
    moreover have "\<forall>t \<in> set ((tk_tasks s)[i := t1]). channel_ok K t"
      using inv that(3) set_update_subset_insert [of "tk_tasks s" i t1] unfolding channel_inv_def by blast
    moreover have "\<forall>k c. c \<in> set (tk_mailbox s1 k) \<longrightarrow> k \<in> K \<and> plain_command c"
      using inv that(4) unfolding channel_inv_def by blast
    ultimately show ?thesis
      using keys that(1) unfolding channel_inv_def by (simp add: in_flight_def)
  qed
  have below: "r < length (tk_asked s)" if "r \<in> set (waits (tk_tasks s))" for r
    using inv that unfolding channel_inv_def by blast
  show ?thesis
  proof (cases "tk_tasks s ! i")
    case (Producing p)
    have turn: "produce_turn cap e p s = Some (s1, t1)"
      using turn Producing by simp
    from turn show ?thesis
    proof (cases rule: produce_turnE)
      case (close t ts)
      then show ?thesis
        using ok Producing by (intro update [of "[]"]) auto
    next
      case (send t q qs ts a)
      then show ?thesis
        using below keys ok by (intro update [of "[((t, qp_index q), qp_records q, qr_acks (pk_request p))]"])
          (auto simp: queued_upd in_flight_def, auto simp: queued_def)
    next
      case (receive t q qs ts reply resp)
      then show ?thesis
        using Producing by (intro update [of "[]"]) auto
    qed (intro update [of "[]"]; auto)+
  next
    case (Fetching f)
    have turn: "fetch_turn cap e f s = Some (s1, t1)"
      using turn Fetching by simp
    from turn show ?thesis
    proof (cases rule: fetch_turnE)
      case (report k c)
      then show ?thesis
        using ok Fetching by (intro update [of "[]"]) (auto simp: queued_def)
    next
      case (read t q qs ts a res cmds)
      have "plain_command c" if "c \<in> set cmds" for c
        using read(5) that by (auto simp: handle_fetch_def omap_eq_Ok split: if_splits)
      then show ?thesis
        using read keys by (intro update [of "[]"]) (auto split: list.splits)
    qed (intro update [of "[]"]; use ok Fetching in auto)+
  qed (use turn in auto)
qed


lemma released_replies: "dom (deliver_effects (map (ack_effect a) ps) m) = dom m \<union> pn_done ` set ps"
  by (induction ps arbitrary: m) (auto simp: ack_effect_def)

lemma channel_actor:
  assumes inv: "channel_inv K s" and turn: "actor_turn k s = Some s1"
  shows "channel_inv K s1"
proof -
  obtain a c cs a1 fx where k: "map_of (tk_image s) k = Some a" "tk_mailbox s k = c # cs"
    and handle: "actor_handle (\<lambda>_. True) c a = Ok (a1, fx)"
    and s1: "s1 = s\<lparr>tk_image := AList.update k a1 (tk_image s), tk_mailbox := (tk_mailbox s)(k := cs),
            tk_replies := deliver_effects fx (tk_replies s), tk_appended := tk_appended s @ append_reply c\<rparr>"
    using turn by (rule actor_turnE)
  have "plain_command c"
    using inv k(2) unfolding channel_inv_def by (metis list.set_intros(1))
  then have moves: "dom (tk_replies s) \<subseteq> dom (deliver_effects fx (tk_replies s))
    \<and> set (append_reply c) \<union> pn_done ` set (pa_acks_pending a)
        \<subseteq> dom (deliver_effects fx (tk_replies s)) \<union> pn_done ` set (pa_acks_pending a1)"
  proof (cases c)
    case (Append b acks r)
    show ?thesis
      by (rule handle_appendE [OF handle [unfolded Append]]) (auto simp: Append)
  next
    case (UpdateReplicaLeo i leo)
    show ?thesis
      by (rule handle_reportE [OF handle [unfolded UpdateReplicaLeo]]) (auto simp: UpdateReplicaLeo released_replies)
  qed simp_all
  have pending: "pending_at (tk_image s) r \<Longrightarrow> r \<in> pn_done ` set (pa_acks_pending a) \<or> pending_at (tk_image s1) r"
    and now: "r \<in> pn_done ` set (pa_acks_pending a1) \<Longrightarrow> pending_at (tk_image s1) r" for r
    using pending_at_update [OF k(1)] by (auto simp: s1)
  have queue: "r \<in> set (queued (tk_mailbox s) k') \<Longrightarrow> r \<in> set (append_reply c) \<or> r \<in> set (queued (tk_mailbox s1) k')" for r k'
    using k(2) by (auto simp: s1 queued_def)
  have replies: "tk_replies s1 = deliver_effects fx (tk_replies s)"
    by (simp add: s1)
  have here: "in_flight s1 r" if "r \<in> set (append_reply c) \<or> r \<in> pn_done ` set (pa_acks_pending a) \<or> r \<in> dom (tk_replies s)" for r
  proof -
    have "r \<in> dom (tk_replies s1) \<or> r \<in> pn_done ` set (pa_acks_pending a1)"
      using that moves unfolding replies by blast
    then show ?thesis
      using now [of r] unfolding in_flight_def by blast
  qed
  have "in_flight s1 r" if flight: "in_flight s r" for r
  proof -
    consider k' where "r \<in> set (queued (tk_mailbox s) k')" | "r \<in> dom (tk_replies s)" | "pending_at (tk_image s) r"
      using flight unfolding in_flight_def by blast
    then show ?thesis
    proof cases
      case (1 k')
      then show ?thesis
        using queue [OF 1] here [of r] unfolding in_flight_def by blast
    next
      case 3
      then show ?thesis
        using pending [OF 3] here [of r] unfolding in_flight_def by blast
    qed (use here in blast)
  qed
  moreover have "insert k K = K"
    using inv k(1) by (auto simp: channel_inv_def)
  moreover have "\<forall>k' c'. c' \<in> set (tk_mailbox s1 k') \<longrightarrow> k' \<in> K \<and> plain_command c'"
  proof (intro allI impI)
    fix k' c'
    assume "c' \<in> set (tk_mailbox s1 k')"
    then have "c' \<in> set (tk_mailbox s k')"
      using k(2) by (auto simp: s1 split: if_splits)
    then show "k' \<in> K \<and> plain_command c'"
      using inv unfolding channel_inv_def by blast
  qed
  moreover have "image_keys (tk_image s1) = insert k (image_keys (tk_image s))" "tk_tasks s1 = tk_tasks s" "tk_asked s1 = tk_asked s"
    by (simp_all add: s1)
  ultimately show ?thesis
    using inv unfolding channel_inv_def by simp
qed

lemma channel_inv_run:
  "tasks_run cap (tasks_start im) evs s \<Longrightarrow> channel_inv (image_keys im) s"
proof (induction rule: tasks_run.induct)
  case tasks_nil
  then show ?case
    by (simp add: channel_inv_def tasks_start_def)
next
  case (tasks_snoc evs s ev s')
  show ?case
    using tasks_snoc(2)
  proof cases
    case (arrives body t)
    then have "channel_ok (image_keys im) t" "wait_list t = []"
      by (cases body; auto)+
    then show ?thesis
      using tasks_snoc(3) arrives by (auto simp: channel_inv_def in_flight_def)
  qed (use tasks_snoc(3) channel_task channel_actor in auto)
qed


section \<open>The work that is left\<close>

text \<open>
  A partition of a produce request takes two turns of its task and one of the actor, one of a fetch
  request as many when a replica reads; a topic and the answer take a turn each.
\<close>

fun loop_work :: "('t \<times> 'p list) list \<Rightarrow> nat" where
  "loop_work [] = 1"
| "loop_work ((t, ps) # ts) = 1 + 4 * length ps + loop_work ts"

fun task_work :: "request_task \<Rightarrow> nat" where
  "task_work (Producing p) = loop_work (ne_left (pk_loop p)) - (if pk_waiting p = None then 0 else 2)"
| "task_work (Fetching f) = loop_work (ne_left (fk_loop f)) + (if fk_sending f = None then 0 else 2)"
| "task_work _ = 0"

definition system_work :: "task_system \<Rightarrow> nat" where
  "system_work s =
     (\<Sum>t\<leftarrow>tk_tasks s. task_work t) + (\<Sum>k \<in> image_keys (tk_image s). length (tk_mailbox s k))"

lemma mailbox_work:
  assumes "k \<in> image_keys im"
  shows "(\<Sum>k' \<in> image_keys im. length ((mb(k := cs)) k')) + length (mb k) = (\<Sum>k' \<in> image_keys im. length (mb k')) + length cs"
  using assms by (simp add: sum.remove [OF finite_dom_map_of assms])

lemma loop_work_pos [simp]: "0 < loop_work ts"
  by (cases ts rule: loop_work.cases) simp_all

lemma work_task:
  assumes inv: "channel_inv K s" and i: "i < length (tk_tasks s)" and turn: "task_turn cap e (tk_tasks s ! i) s = Some (s1, t1)"
  shows "system_work (s1\<lparr>tk_tasks := (tk_tasks s)[i := t1]\<rparr>) < system_work s"
proof -
  let ?t = "tk_tasks s ! i" and ?boxes = "\<lambda>mb. \<Sum>k \<in> image_keys (tk_image s). length (mb k)"
  have ok: "channel_ok (image_keys (tk_image s)) ?t"
    using inv i by (auto simp: channel_inv_def)
  have sent: "?boxes ((tk_mailbox s)(k := tk_mailbox s k @ [c])) = ?boxes (tk_mailbox s) + 1" if "k \<in> image_keys (tk_image s)" for k c
    using mailbox_work [OF that, of "tk_mailbox s" "tk_mailbox s k @ [c]"] by simp
  have "tk_image s1 = tk_image s \<and> task_work t1 + ?boxes (tk_mailbox s1) < task_work ?t + ?boxes (tk_mailbox s)"
  proof (cases ?t)
    case (Producing p)
    then have "produce_turn cap e p s = Some (s1, t1)"
      using turn by simp
    then show ?thesis
    proof (cases rule: produce_turnE)
      case (send t q qs ts a)
      then show ?thesis
        using Producing sent [of "(t, qp_index q)"] by (auto simp: domIff)
    qed (use ok Producing in \<open>auto simp: nested_close_def nested_push_def\<close>)
  next
    case (Fetching f)
    then have "fetch_turn cap e f s = Some (s1, t1)"
      using turn by simp
    then show ?thesis
    proof (cases rule: fetch_turnE)
      case (report k c)
      then show ?thesis
        using ok Fetching sent [of k] by auto
    qed (use Fetching in \<open>auto simp: nested_close_def nested_push_def\<close>)
  qed (use turn in auto)
  moreover have "(\<Sum>t\<leftarrow>(tk_tasks s)[i := t1]. task_work t) + task_work ?t = (\<Sum>t\<leftarrow>tk_tasks s. task_work t) + task_work t1"
    by (rule sum_list_upd [OF i])
  ultimately show ?thesis
    unfolding system_work_def by simp
qed

lemma work_actor:
  assumes "channel_inv K s" and turn: "actor_turn k s = Some s1"
  shows "system_work s1 < system_work s"
proof -
  obtain a c cs a1 fx where k: "map_of (tk_image s) k = Some a" "tk_mailbox s k = c # cs"
    and s1: "s1 = s\<lparr>tk_image := AList.update k a1 (tk_image s), tk_mailbox := (tk_mailbox s)(k := cs),
            tk_replies := deliver_effects fx (tk_replies s), tk_appended := tk_appended s @ append_reply c\<rparr>"
    using turn by (rule actor_turnE)
  then have key: "k \<in> image_keys (tk_image s)"
    by auto
  then have "image_keys (tk_image s1) = image_keys (tk_image s)"
    by (auto simp: s1)
  then show ?thesis
    using mailbox_work [OF key, of "tk_mailbox s" cs] k(2) by (simp add: system_work_def s1)
qed

text \<open>As long as no request arrives.\<close>

lemma turns_use_work:
  assumes "tasks_run cap s evs s1" and "channel_inv K s" and "\<forall>body. Arrives body \<notin> set evs"
  shows "channel_inv K s1 \<and> length evs + system_work s1 \<le> system_work s"
  using assms
proof (induction rule: tasks_run.induct)
  case (tasks_snoc evs s1 ev s2)
  then have inv: "channel_inv K s1" and work: "length evs + system_work s1 \<le> system_work s"
    by auto
  have "channel_inv K s2 \<and> system_work s2 < system_work s1"
    using tasks_snoc.hyps(2)
  proof cases
    case (arrives body t)
    then show ?thesis
      using tasks_snoc.prems(2) arrives(1) by auto
  next
    case (task i e s' t)
    then show ?thesis
      using channel_task [OF inv task(3,4)] work_task [OF inv task(3,4)] by simp
  next
    case (actor k)
    then show ?thesis
      using channel_actor [OF inv] work_actor [OF inv] by simp
  qed
  with work show ?case
    by simp
qed simp

section \<open>What an idle system waits for\<close>

definition idle :: "nat \<Rightarrow> broker_env \<Rightarrow> task_system \<Rightarrow> bool" where
  "idle cap e s \<longleftrightarrow> (\<forall>i s1. \<not> task_step cap s (TaskTurn i e) s1) \<and> (\<forall>k s1. \<not> task_step cap s (ActorTurn k) s1)"

fun awaits_replicas :: "image \<Rightarrow> request_task \<Rightarrow> bool" where
  "awaits_replicas im (Producing p) \<longleftrightarrow>
     qr_acks (pk_request p) = AcksAll \<and> (\<exists>r. pk_waiting p = Some r \<and> pending_at im r)"
| "awaits_replicas im _ \<longleftrightarrow> False"

lemma handle_plain:
  assumes "plain_command c"
  shows "\<exists>p. actor_handle (\<lambda>_. True) c a = Ok p"
proof (cases c)
  case (Append b acks r)
  then show ?thesis
    using actor_handle_append [of acks "\<lambda>_. True" r b a] by (cases "acks = AcksAll") (auto simp: Let_def)
qed (use assms in \<open>auto simp: release_acks_spec Let_def\<close>)

lemma idle_mailboxes:
  assumes "idle cap e s" and "channel_inv K s"
  shows "tk_mailbox s k = []"
proof (cases "tk_mailbox s k")
  case (Cons c cs)
  then have "k \<in> image_keys (tk_image s)" and "plain_command c"
    using assms(2) unfolding channel_inv_def by (metis list.set_intros(1))+
  then obtain a p where "map_of (tk_image s) k = Some a" "actor_handle (\<lambda>_. True) c a = Ok p"
    using handle_plain by blast
  then have "\<exists>s1. actor_turn k s = Some s1"
    using Cons by (cases p) (simp add: actor_turn_def)
  then show ?thesis
    using assms(1) task_step.actor unfolding idle_def by blast
qed

lemma produce_turn_waits:
  assumes "0 < cap" and "\<And>k. tk_mailbox s k = []" and "produce_turn cap e p s = None"
  shows "\<exists>r. pk_waiting p = Some r \<and> tk_replies s r = None"
proof -
  obtain t q qs ts where left: "ne_left (pk_loop p) = (t, q # qs) # ts"
    using assms(3) by (cases "ne_left (pk_loop p)" rule: loop_work.cases) (auto simp: produce_turn_def neq_Nil_conv split: list.splits)
  show ?thesis
    using assms by (cases "pk_waiting p"; cases "map_of (tk_image s) (t, qp_index q)")
      (simp_all add: produce_turn_def left mailbox_send_def Let_def)
qed

lemma fetch_turn_goes_on:
  assumes "0 < cap" and "\<And>k. tk_mailbox s k = []" and "bytes_crate (en_bytes e)" and "image_holds (en_crc e) (tk_image s) L"
  shows "fetch_turn cap e f s \<noteq> None"
proof (cases "fk_sending f")
  case None
  consider "ne_left (fk_loop f) = []" | t ts where "ne_left (fk_loop f) = (t, []) # ts"
    | t q qs ts where "ne_left (fk_loop f) = (t, q # qs) # ts"
    by (metis list.exhaust prod.exhaust)
  then show ?thesis
  proof cases
    case (3 t q qs ts)
    then show ?thesis
      using None handle_fetch_logs [OF assms(3,4), of t q _ "nf_replica_id (fk_request f)"]
      by (cases "map_of (tk_image s) (t, ucast (fp_partition q))") (auto simp: fetch_turn_def Let_def)
  qed (simp_all add: fetch_turn_def None)
next
  case (Some kc)
  then show ?thesis
    using assms(1,2) by (cases kc) (simp add: fetch_turn_def mailbox_send_def)
qed

lemma idle_task:
  assumes idle: "idle cap e s" and cap: "0 < cap" and channel: "channel_inv K s" and inv: "system_inv crc dec L0 s"
    and e: "bytes_crate (en_bytes e)" "en_crc e = crc" and t: "t \<in> set (tk_tasks s)"
  shows "(\<exists>req resp. t = Answered req resp) \<or> awaits_replicas (tk_image s) t"
proof -
  have turn: "task_turn cap e t s = None"
  proof (rule ccontr)
    assume "task_turn cap e t s \<noteq> None"
    then obtain s1 t1 i where "task_turn cap e (tk_tasks s ! i) s = Some (s1, t1)" "i < length (tk_tasks s)"
      using t by (auto simp: in_set_conv_nth)
    then show False
      using idle task_step.task unfolding idle_def by blast
  qed
  have empty: "tk_mailbox s k = []" for k
    by (rule idle_mailboxes [OF idle channel])
  have ok: "task_ok crc dec L0 (tk_image s) (logs_now dec L0 s) (tk_asked s) t"
    and content: "content_inv crc dec (logs_now dec L0 s) s"
    using inv t by (simp_all add: system_inv_def)
  show ?thesis
  proof (cases t)
    case (Producing p)
    then obtain r where r: "pk_waiting p = Some r" and none: "tk_replies s r = None"
      using turn produce_turn_waits [OF cap empty] by auto
    have "r \<in> set (waits (tk_tasks s))"
      using t Producing r by force
    then have "in_flight s r"
      using channel unfolding channel_inv_def by blast
    then have pending: "pending_at (tk_image s) r"
      using none empty by (auto simp: in_flight_def queued_def)
    then obtain k a q where "map_of (tk_image s) k = Some a" "q \<in> set (pa_acks_pending a)" "pn_done q = r"
      by (auto simp: pending_at_def)
    then have "snd (snd (tk_asked s ! r)) = AcksAll"
      using content unfolding content_inv_def pending_ok_def by fastforce
    moreover have "snd (snd (tk_asked s ! r)) = qr_acks (pk_request p)"
      using ok Producing r by auto
    ultimately show ?thesis
      using Producing r pending by simp
  next
    case (Fetching f)
    have "image_holds (en_crc e) (tk_image s) (logs_now dec L0 s)"
      using content e(2) by (simp add: content_inv_def)
    then show ?thesis
      using turn Fetching fetch_turn_goes_on [OF cap empty e(1)] by force
  qed (use ok in auto)
qed


section \<open>Properties\<close>

text \<open>C5: the requests of a broker wait for nothing but replicas. From every state that the system
  reaches, the turns that can still come, whatever their order, are no more than the work that is
  left; and when neither a task nor an actor can take a turn, every request is answered, but
  those with \<open>acks = all\<close> whose append waits in the actor of its partition for the report of a
  replica: no task waits for room in a mailbox, for another task, or for a reply that is lost.\<close>

theorem requests_wait_for_replicas_only:
  assumes "tasks_run cap (tasks_start im) evs s"
    and "image_holds crc im L0" and "\<forall>k a. map_of im k = Some a \<longrightarrow> pa_acks_pending a = []"
    and "\<forall>ev \<in> set evs. event_ok crc dec ev" and "logs_room (logs_now dec L0 s)"
    and "0 < cap" and "bytes_crate (en_bytes e)" and "en_crc e = crc"
  shows "(\<forall>evs1 s1. tasks_run cap s evs1 s1 \<longrightarrow> (\<forall>body. Arrives body \<notin> set evs1) \<longrightarrow>
       length evs1 + system_work s1 \<le> system_work s)
    \<and> (idle cap e s \<longrightarrow>
       (\<forall>t \<in> set (tk_tasks s). (\<exists>req resp. t = Answered req resp) \<or> awaits_replicas (tk_image s) t))"
proof (intro conjI allI impI ballI)
  have channel: "channel_inv (image_keys im) s"
    by (rule channel_inv_run [OF assms(1)])
  fix evs1 s1
  assume run: "tasks_run cap s evs1 s1" and turns: "\<forall>body. Arrives body \<notin> set evs1"
  show "length evs1 + system_work s1 \<le> system_work s"
    by (rule conjunct2 [OF turns_use_work [OF run channel turns]])
next
  fix t
  assume "idle cap e s" and "t \<in> set (tk_tasks s)"
  then show "(\<exists>req resp. t = Answered req resp) \<or> awaits_replicas (tk_image s) t"
    using idle_task [OF _ assms(6) channel_inv_run [OF assms(1)] system_inv_run [OF assms(1-5)] assms(7,8)] by blast
qed

lemma requests_wait_for_replicas_only_witness:
  "\<exists>im s p. tasks_run 1 (tasks_start im) (take 3 await_events) s \<and> idle 1 sample_env s
    \<and> tk_tasks s = [Producing p] \<and> awaits_replicas (tk_image s) (Producing p)"
proof -
  obtain a where none: "pa_acks_pending a = []" and log: "log_holds (\<lambda>bs. 7) a [] []"
    and reps: "ps_replicas (pa_snapshot a) = [replica_empty [98] 7]"
    using replica_actor_exists by blast
  let ?im = "[(([116], 0), a)]" and ?L0 = "[([116], 0) \<mapsto> []] :: logs" and ?dec = "\<lambda>_. rebased sample_records"
  obtain a1 where append: "actor_handle (\<lambda>_. True) (Append sample_produce AcksAll 0) a = Ok (a1, [])"
    using append_awaits [OF reps _ none, of 7 "\<lambda>_. True" sample_produce 0] by (auto simp: replica_empty_def)
  have "\<exists>s p. tasks_exec 1 (take 3 await_events) (tasks_start ?im) = Some s
    \<and> tk_tasks s = [Producing p] \<and> tk_replies s = Map.empty \<and> tk_mailbox s = (\<lambda>_. []) \<and> pk_waiting p = Some 0
    \<and> ne_left (pk_loop p) = [([116], [\<lparr>qp_index = 0, qp_records = sample_produce\<rparr>])]
    \<and> tk_asked s = [(([116], 0), sample_produce, AcksAll)] \<and> tk_appended s = [0]"
    using append
    by (simp add: await_events_def tasks_start_def await_request_def produce_items_def nested_new_def
        produce_turn_def mailbox_send_def actor_turn_def Let_def fun_upd_idem del: actor_handle.simps)
  then obtain s p where exec: "tasks_exec 1 (take 3 await_events) (tasks_start ?im) = Some s"
    and tasks: "tk_tasks s = [Producing p]" "tk_replies s = Map.empty" "tk_mailbox s = (\<lambda>_. [])" "pk_waiting p = Some 0"
      "ne_left (pk_loop p) = [([116], [\<lparr>qp_index = 0, qp_records = sample_produce\<rparr>])]"
    and hist: "tk_asked s = [(([116], 0), sample_produce, AcksAll)]" "tk_appended s = [0]"
    by blast
  have idle: "idle 1 sample_env s"
    using tasks by (simp add: idle_def task_step_exec actor_turn_def produce_turn_def less_Suc_eq split: option.split)
  have now: "logs_now ?dec ?L0 s = [([116], 0) \<mapsto> [rebased sample_records]]"
    by (simp add: logs_now_def written_def hist asked_entry_def)
  have ok: "\<forall>ev \<in> set (take 3 await_events). event_ok (\<lambda>bs. 7) ?dec ev"
    using await_events_ok by (meson in_set_takeD)
  have room: "logs_room (logs_now ?dec ?L0 s)"
    unfolding now by (rule sample_room)
  have "image_holds (\<lambda>bs. 7) ?im ?L0" and "\<forall>k a'. map_of ?im k = Some a' \<longrightarrow> pa_acks_pending a' = []"
    using log none by (auto simp: image_holds_def)
  from requests_wait_for_replicas_only [OF tasks_run_exec [OF exec] this ok room, of sample_env] idle tasks(1)
  have "awaits_replicas (tk_image s) (Producing p)"
    using list_bytes.bytes_crate_axioms by (simp add: sample_env_def)
  with idle tasks(1) tasks_run_exec [OF exec] show ?thesis
    by blast
qed

end
