(* ===== verification/Spec2Isabelle.thy ===== *)
theory Spec2Isabelle
  imports Raft_Commit Storage_Raft Programs Broker_Tasks_Acks Broker_Tasks_Alone Broker_Tasks_Progress
begin

text \<open>
  A verification development for musil, a message broker in the style of Kafka whose metadata
  quorum follows KRaft.

  The program. Producers gather records into batches and send them in produce requests; a broker
  appends each batch to the log of a partition and acknowledges it; consumers and replicas fetch
  batches from an offset on. Requests and responses are frames on a TCP connection. The topics of
  a broker are kept by a metadata actor, which writes them to a log of its own and replays it on
  start. Next to this there is a Raft library (\<open>crates/raft\<close>), a pure state machine that turns
  events into actions, with a runtime that executes the actions (\<open>crates/raft-runtime\<close>), and an
  implementation of its log interface by the storage of a partition. Nothing in the program
  connects the Raft runtime to the broker yet.

  How a unit of the source becomes a group of definitions. A struct is a record and an enum a
  datatype; a method is a function from its arguments and the state it borrows to the changed
  state and its result; a task that receives commands from a channel is a function on one
  command, run over the list of the commands it receives. A function that can fail has an
  \<open>outcome\<close>: \<open>Ok\<close>, \<open>Err\<close> or \<open>Panic\<close>, a panic being that of \<open>unwrap\<close>, of a slice past the end or
  of a getter on a short buffer. A loop that may not end is a \<open>partial_function (option)\<close>, whose
  value \<open>None\<close> is a run that does not return; nothing is bounded by fuel, and what the properties
  say of such a loop is that its value is \<open>Some\<close>. Integers keep their width and wrap, as in the
  release profile the workspace builds with; lengths are natural numbers. What is not in the
  repository is an argument with named laws: the buffers of \<open>bytes\<close> (locale \<open>bytes_crate\<close>), the
  JSON of \<open>serde_json\<close> (\<open>serde_ops\<close>), the checksum of \<open>crc_fast\<close>, the hash \<open>murmur2\<close>, the stream of
  \<open>tokio\<close> (\<open>stream_ops\<close>), the order in which a hash map is iterated, directories, clocks and
  random numbers. UTF-8 and \<open>Duration\<close> are the standard library's and are modelled (\<open>Utf8\<close>,
  \<open>Net_Types\<close>).

  The theories, in the order of the program:

  \<^item> \<open>Prelude\<close>: widths, outcomes, and the lemmas on words, lists and association lists that the
    others share.

  \<^item> Raft, \<open>crates/raft/src\<close>. \<open>Raft_Types\<close> (\<open>rpc.rs\<close>, \<open>event.rs\<close>, \<open>action.rs\<close>), \<open>Raft_Log\<close> (\<open>log.rs\<close>:
    the trait is the record \<open>log_ops\<close> with the locale \<open>raft_log\<close>, the vector its first
    instance), \<open>Raft_Election\<close> (\<open>election.rs\<close>), \<open>Raft_Replication\<close> (\<open>replication.rs\<close>), \<open>Raft_Node\<close>
    (\<open>node.rs\<close>).
    \<open>Raft_Cluster\<close> puts nodes together with a network that may lose, duplicate and reorder
    messages. \<open>Raft_Watermark\<close> and \<open>Raft_Commit\<close> hold what a leader commits, \<open>Raft_Safety\<close> that an
    epoch has one leader and that a vote is on disk before it is granted, \<open>Raft_Json\<close> the instance of the codec of the quorum state.

  \<^item> \<open>Raft_Runtime\<close>: the turn of the runner and the observer (\<open>crates/raft-runtime/src\<close>), and the disk
    that the quorum state is persisted to (\<open>raft/src/state.rs\<close>). The temporary file is written byte
    by byte, synced, renamed, and the directory synced; a crash keeps what was synced, makes
    arbitrary bytes of files that were not, and may undo the changes of a directory since its
    last sync. What a turn does to the disk and what it sends are one list of effects, in their
    order.

  \<^item> The record format, \<open>crates/proto/src\<close>. \<open>Bytes\<close> (big-endian integers, readers and the
    interface of \<open>bytes\<close>), \<open>Proto_Record\<close>, \<open>Proto_Batch\<close>, \<open>Error_Codes\<close>, \<open>Proto_Wire\<close>, and
    \<open>Proto_Layout\<close>, which says what the bytes of a batch are and that every encoder and decoder
    agrees with it.

  \<^item> The storage of a partition, \<open>crates/storage/src\<close>. Files are numbered stores of bytes with a
    cursor each. \<open>Storage_Segment\<close> (\<open>segment/\<close>), \<open>Storage_Partition\<close> (\<open>partition/\<close>);
    \<open>Storage_Search\<close>, \<open>Storage_Fetch\<close>, \<open>Storage_Append\<close> and \<open>Storage_Actor\<close> refine the segments and
    the actor to lists of batches, \<open>Storage_Log\<close> the whole partition to a list of records;
    \<open>Storage_Tail\<close> says what a fetch returns at any offset, the end and beyond it included;
    \<open>Storage_Acks\<close> holds the acknowledgements, \<open>Storage_Reopen\<close> what a restart finds, and
    \<open>Storage_Raft\<close> the partition as a Raft log (\<open>partition/raft.rs\<close>), refined to the vector.

  \<^item> The protocol, \<open>crates/network/src\<close>. \<open>Net_Types\<close> (messages and their sizes), \<open>Net_Encode\<close>
    (\<open>protocol/mod.rs\<close>), \<open>Net_Decode\<close> (\<open>protocol/codec.rs\<close>). \<open>Net_Codec\<close> relates a writer and a
    reader field by field, \<open>Net_Bodies\<close> message by message and \<open>Net_Frame\<close> frame by frame.

  \<^item> The broker, \<open>crates/broker/src\<close>. \<open>Broker_Records\<close> (\<open>metadata_record.rs\<close>), \<open>Broker_State\<close>
    (\<open>state.rs\<close>, \<open>actor.rs\<close>), \<open>Broker_Handlers\<close> (\<open>broker/mod.rs\<close>); \<open>Broker_Answers\<close> holds what is
    answered, \<open>Broker_Restart\<close> that topics are found again. \<open>Broker_Logs\<close> is the abstract
    specification of a broker, a map from topics and partitions to lists of batches with its step
    relation, and the proof that every request implements it. \<open>Broker_Catalogue\<close> holds the list of
    topics and brokers, which fetches and appends keep, and its size. \<open>Broker_Tasks\<close> has produce and
    fetch requests as tasks that send commands to the mailboxes of the partitions (\<open>partition/handle.rs\<close>)
    and wait for their replies, while the actors of the partitions take their turns;
    \<open>Broker_Tasks_Safety\<close> shows that every reply channel has one owner and one answer,
    \<open>Broker_Tasks_Logs\<close> what the turns do to the logs, \<open>Broker_Tasks_Answers\<close> what the tasks answer,
    \<open>Broker_Tasks_Alone\<close> that the handlers of one step are runs without interruption,
    \<open>Broker_Tasks_Progress\<close> that nothing but a replica is waited for, and
    \<open>Broker_Tasks_Acks\<close> the acknowledgement that never comes. \<open>Net_Connection\<close> is the loop of a
    connection (\<open>network/connection.rs\<close>) that has the broker to itself; \<open>Net_Server\<close> the server that
    accepts connections (\<open>network/server.rs\<close>), where the reads and writes of the connections, the
    tasks of \<open>Broker_Tasks\<close> that they wait for and the actors of the partitions interleave.

  \<^item> The clients. \<open>Client_Requests\<close> (\<open>network/src/requests\<close>, with a broker at the other end),
    \<open>Client_Consumer\<close> (\<open>crates/consumer\<close>), \<open>Client_Producer\<close> (\<open>crates/producer\<close>). \<open>Client_Poll\<close>
    holds what a consumer reads of the logs of a broker, \<open>Client_Publish\<close> what a producer adds to
    them; in \<open>Delivery\<close> both share a broker, and their exchanges interleave.

  \<^item> \<open>Programs\<close>: the four programs of \<open>src/bin\<close>, from the arguments on.

  What is shown. An epoch has one leader unless a vote is cleared or lost; a leader's high
  watermark stays within its log, does not move back, and an entry is committed only by a quorum
  and in the leader's own epoch; a proposal is answered once. Batches and frames survive encoding
  and decoding, their declared sizes are the bytes written, a cut request panics. What is appended
  to a partition is what a fetch returns, from any offset and over any number of segments, and
  the storage refines the vector of the Raft tests as long as nothing truncates it. An
  acknowledgement for all replicas waits for each of them. A broker answers every partition a
  request names and implements the map of logs, also when the requests run as tasks that send one
  command after the other to the partitions and wait for replicas, each append being written once,
  and answered only when it is in the log and every replica has reported its end; these tasks
  never wait for one another for ever, and what they do between two arrivals is bounded by the
  work that is left. However connections interleave, each is written the answers to its own
  requests, in order. The topics created on a new broker are found after its first
  restart. A consumer that polls a broker over the network receives the records of each log once and
  in order, a producer neither loses nor repeats a
  record, and with both on one broker what the producer was told to send is what the consumer
  receives, also when the consumer refreshes its metadata in between. The properties that say
  where the code departs from this (a vote that is cleared, a log that is overwritten after a
  restart, a watermark beyond a truncated log, a decoder that panics, acknowledgements of records
  that no replica has read, or that never come) state the departure of the code exactly.

  Bounds. What is sent must fit: the weights of \<open>Client_Publish\<close> bound the bytes of a frame, and
  \<open>logs_budget\<close> leaves room in the logs for all that the producer may still send, so that no length
  field of a frame and no offset of a log overflows; \<open>catalogue_small\<close> does so for the answer to a
  metadata request.

  Not modelled. The reading of arguments, configuration files and sockets by other crates. The
  instances of \<open>Debug\<close>, those of \<open>Display\<close> other than a record's, and logging. Tasks run one step
  at a time: between two steps any other task may run, within one there is no other, which is the
  granularity of the channels and locks. In \<open>Broker_Tasks\<close> and \<open>Net_Server\<close> the steps are single
  commands to the partitions, reads and writes; topics are not created meanwhile, and no task is
  cancelled. In \<open>Broker_Logs\<close>, \<open>Net_Connection\<close> and for the clients they are whole requests; there,
  what the other tasks do within a request that waits for all replicas is the parameter
  \<open>en_await\<close>. The mailbox of a partition has room for \<open>cap\<close> commands, \<open>tk_asked\<close> and \<open>tk_appended\<close>
  only record what happened. Operations on files do not fail; a crash is modelled for the quorum
  state, and for the segments as a start on the files as they are.

  Next: a broker that crashes between two requests of its clients, clients of the server of
  \<open>Net_Server\<close>, and a broker whose image is replicated by the Raft library once the program
  connects them.
\<close>

end
